(* ===== verification/Prelude.thy ===== *)
theory Prelude
  imports Main "HOL-Library.Word"
begin

unbundle bit_operations_syntax

text \<open>
  Shared vocabulary of the development: the machine types the Go code uses (bytes and
  16/32/64-bit unsigned integers), fallible results as sums, big-endian integers
  (\<open>encoding/binary.BigEndian\<close>), and the two interfaces that every wire format of the
  program goes through:
  \<^item> \<open>wire_item\<close>: an encoder and a decoder of one item that returns the unread rest;
  \<^item> \<open>wire_loop\<close>: a Go loop of the form \<open>for len(rest) > 0\<close> over such items.
  The components interpret these locales on their own definitions.
\<close>

section \<open>Machine integers and results\<close>

type_synonym byte = "8 word"
type_synonym u16 = "16 word"
type_synonym u32 = "32 word"
type_synonym u64 = "64 word"
type_synonym bytes = "byte list"

named_theorems wire_simps \<open>rewrite rules of the encoders and decoders of the wire formats\<close>

text \<open>Go's \<open>(value, error)\<close> pairs: \<open>Inl\<close> is a non-nil error, \<open>Inr\<close> the value.\<close>

definition bind_res :: "'e + 'a \<Rightarrow> ('a \<Rightarrow> 'e + 'b) \<Rightarrow> 'e + 'b" where
  "bind_res r f = (case r of Inl e \<Rightarrow> Inl e | Inr x \<Rightarrow> f x)"

definition map_res :: "('a \<Rightarrow> 'b) \<Rightarrow> 'e + 'a \<Rightarrow> 'e + 'b" where
  "map_res f r = (case r of Inl e \<Rightarrow> Inl e | Inr x \<Rightarrow> Inr (f x))"

definition is_ok :: "'e + 'a \<Rightarrow> bool" where
  "is_ok r = (case r of Inl _ \<Rightarrow> False | Inr _ \<Rightarrow> True)"

lemma bind_res_simps [simp]:
  "bind_res (Inl e) f = Inl e"
  "bind_res (Inr x) f = f x"
  by (simp_all add: bind_res_def)

lemma bind_res_eq_Inr [simp]:
  "(bind_res r f = Inr y) = (\<exists>x. r = Inr x \<and> f x = Inr y)"
  by (cases r) simp_all

lemma bind_res_eq_Inl:
  "(bind_res r f = Inl e) = (r = Inl e \<or> (\<exists>x. r = Inr x \<and> f x = Inl e))"
  by (cases r) simp_all

lemma map_res_simps [simp]:
  "map_res f (Inl e) = Inl e"
  "map_res f (Inr x) = Inr (f x)"
  by (simp_all add: map_res_def)

lemma map_res_eq_Inr [simp]:
  "(map_res f r = Inr y) = (\<exists>x. r = Inr x \<and> y = f x)"
  by (cases r) auto

lemma is_ok_simps [simp]:
  "\<not> is_ok (Inl e)"
  "is_ok (Inr x)"
  by (simp_all add: is_ok_def)

lemma is_ok_iff: "is_ok r \<longleftrightarrow> (\<exists>x. r = Inr x)"
  by (cases r) simp_all

lemma bind_res_cong [fundef_cong]:
  assumes "r = r'" and "\<And>x. r' = Inr x \<Longrightarrow> f x = f' x"
  shows "bind_res r f = bind_res r' f'"
  using assms by (cases r') simp_all

section \<open>Big-endian integers\<close>

text \<open>
  \<open>binary.BigEndian.Uint16\<close> and \<open>AppendUint16\<close>; the conversions \<open>uint16(a)<<8 | uint16(b)\<close>,
  \<open>byte(v>>8)\<close> and \<open>byte(v)\<close> are the word operations of the same name.
\<close>

definition be16 :: "byte \<Rightarrow> byte \<Rightarrow> u16" where
  "be16 a b = push_bit 8 (ucast a) OR ucast b"

definition put16 :: "u16 \<Rightarrow> bytes" where
  "put16 v = [ucast (drop_bit 8 v), ucast v]"

definition be32 :: "byte \<Rightarrow> byte \<Rightarrow> byte \<Rightarrow> byte \<Rightarrow> u32" where
  "be32 a b c d = push_bit 24 (ucast a) OR push_bit 16 (ucast b) OR push_bit 8 (ucast c) OR ucast d"

definition put32 :: "u32 \<Rightarrow> bytes" where
  "put32 v = [ucast (drop_bit 24 v), ucast (drop_bit 16 v), ucast (drop_bit 8 v), ucast v]"

text \<open>The three-byte length of a handshake header or of an HTTP/2 frame header, as a Go \<open>int\<close>.\<close>

definition be24 :: "byte \<Rightarrow> byte \<Rightarrow> byte \<Rightarrow> nat" where
  "be24 a b c = push_bit 16 (unat a) OR push_bit 8 (unat b) OR unat c"

definition put24 :: "nat \<Rightarrow> bytes" where
  "put24 n = [of_nat (drop_bit 16 n), of_nat (drop_bit 8 n), of_nat n]"

lemma length_put [simp]:
  "length (put16 v) = 2" "length (put32 w) = 4" "length (put24 n) = 3"
  by (simp_all add: put16_def put32_def put24_def)

lemma put_not_Nil [simp]: "put16 v \<noteq> []" "put32 w \<noteq> []" "put24 n \<noteq> []"
  by (simp_all add: put16_def put32_def put24_def)

lemma be16_put16 [simp]: "be16 (ucast (drop_bit 8 v)) (ucast v) = v"
  unfolding be16_def
  by (rule bit_word_eqI) (auto simp: bit_simps not_less)

lemma put16_be16 [simp]: "put16 (be16 a b) = [a, b]"
proof -
  have "ucast (drop_bit 8 (be16 a b)) = a" and "ucast (be16 a b) = b"
    by (rule bit_word_eqI; auto simp: be16_def bit_simps dest: bit_imp_le_length)+
  then show ?thesis by (simp add: put16_def)
qed

lemma be16_eq_iff: "be16 a b = v \<longleftrightarrow> [a, b] = put16 v"
proof
  assume "[a, b] = put16 v"
  then show "be16 a b = v" by (simp add: put16_def)
qed auto

lemma be32_put32 [simp]:
  "be32 (ucast (drop_bit 24 v)) (ucast (drop_bit 16 v)) (ucast (drop_bit 8 v)) (ucast v) = v"
proof (rule bit_word_eqI)
  fix n assume "n < LENGTH(32)"
  then consider "n < 8" | "8 \<le> n" "n < 16" | "16 \<le> n" "n < 24" | "24 \<le> n" "n < 32"
    by force
  then show "bit (be32 (ucast (drop_bit 24 v)) (ucast (drop_bit 16 v)) (ucast (drop_bit 8 v)) (ucast v)) n
      = bit v n"
    by cases (auto simp: be32_def bit_simps)
qed

lemma put32_be32 [simp]: "put32 (be32 a b c d) = [a, b, c, d]"
proof -
  have "ucast (drop_bit 24 (be32 a b c d)) = a" "ucast (drop_bit 16 (be32 a b c d)) = b"
    "ucast (drop_bit 8 (be32 a b c d)) = c" "ucast (be32 a b c d) = d"
    by (rule bit_word_eqI; auto simp: be32_def bit_simps dest: bit_imp_le_length)+
  then show ?thesis by (simp add: put32_def)
qed

lemma nat_push_or:
  fixes a b :: nat
  assumes "b < 2 ^ n"
  shows "push_bit n a OR b = a * 2 ^ n + b"
proof -
  from assms have b: "take_bit n b = b" by (simp add: take_bit_nat_eq_self_iff)
  have "push_bit n a AND b = 0"
    by (rule bit_eqI, subst b [symmetric]) (simp add: bit_simps)
  then have "push_bit n a + b = push_bit n a OR b"
    by (rule disjunctive_add_eq_or)
  then show ?thesis by (simp add: push_bit_eq_mult)
qed

lemma unat_byte_less: "unat (b :: byte) < 256"
  using unsigned_less [of b] by simp

lemma unat_u16_less: "unat (v :: u16) < 65536"
  using unsigned_less [of v] by simp

lemma be24_eq: "be24 a b c = unat a * 65536 + unat b * 256 + unat c"
proof -
  have "push_bit 8 (unat b) OR unat c = unat b * 256 + unat c"
    using nat_push_or [of "unat c" 8 "unat b"] unat_byte_less [of c] by simp
  moreover have "unat b * 256 + unat c < 2 ^ 16"
    using unat_byte_less [of b] unat_byte_less [of c] by simp
  ultimately show ?thesis
    using nat_push_or [of "unat b * 256 + unat c" 16 "unat a"]
    by (simp add: be24_def or.assoc)
qed

lemma unat_be16: "unat (be16 a b) = unat a * 256 + unat b"
proof -
  have "unat (be16 a b) = push_bit 8 (unat a) OR unat b"
    using unat_byte_less [of a] unat_byte_less [of b]
    unfolding be16_def unsigned_or_eq unsigned_push_bit_eq unsigned_ucast_eq
    by (simp add: take_bit_nat_eq_self push_bit_nat_def)
  also have "\<dots> = unat a * 256 + unat b"
    using nat_push_or [of "unat b" 8 "unat a"] unat_byte_less [of b] by simp
  finally show ?thesis .
qed

lemma be24_put24 [simp]:
  assumes "n < 16777216"
  shows "be24 (of_nat (drop_bit 16 n)) (of_nat (drop_bit 8 n)) (of_nat n) = n"
proof -
  have "be24 (of_nat (drop_bit 16 n)) (of_nat (drop_bit 8 n)) (of_nat n)
      = n div 65536 mod 256 * 65536 + n div 256 mod 256 * 256 + n mod 256"
    by (simp add: be24_eq unat_of_nat drop_bit_eq_div)
  also have "\<dots> = n"
  proof -
    have "n div 65536 = n div 256 div 256" by (simp add: div_mult2_eq [symmetric])
    moreover have "n div 65536 < 256" using assms by (simp add: less_mult_imp_div_less)
    ultimately have "n div 65536 mod 256 * 256 + n div 256 mod 256 = n div 256"
      by (metis div_mult_mod_eq mod_less)
    then have "(n div 65536 mod 256 * 256 + n div 256 mod 256) * 256 + n mod 256 = n"
      by (simp only: div_mult_mod_eq)
    then show ?thesis by (simp only: add_mult_distrib mult.assoc arith_simps)
  qed
  finally show ?thesis .
qed

text \<open>The conversion \<open>uint16(n)\<close> of an in-range length is lossless.\<close>

lemma unat_of_nat_u16: "n < 65536 \<Longrightarrow> unat (of_nat n :: u16) = n"
  by (simp add: unat_of_nat)

lemma unat_of_nat_byte: "n < 256 \<Longrightarrow> unat (of_nat n :: byte) = n"
  by (simp add: unat_of_nat)

lemma nat_and_mask: "(n :: nat) AND 15 = n mod 16" "n AND 255 = n mod 256" "n AND 127 = n mod 128"
  using take_bit_eq_mask [of 4 n] take_bit_eq_mask [of 8 n] take_bit_eq_mask [of 7 n]
  by (simp_all add: take_bit_eq_mod mask_eq_exp_minus_1)

lemma length_ge_2E:
  assumes "2 \<le> length xs"
  obtains a b r where "xs = a # b # r"
  using assms by (auto simp: numeral_eq_Suc Suc_le_length_iff)

lemma length_ge_4E:
  assumes "4 \<le> length xs"
  obtains a b c d r where "xs = a # b # c # d # r"
  using assms by (auto simp: numeral_eq_Suc Suc_le_length_iff)

section \<open>Reading and writing items off a byte slice\<close>

text \<open>
  \<open>takeU8\<close>, \<open>takeU16\<close> and \<open>takeBytes\<close> of the Go code consume a prefix of the slice they
  are given and return the rest. Every wire item of the program has this shape, so the
  laws are stated once: what the encoder wrote, followed by anything, is read back with
  exactly the rest left over.
\<close>

locale wire_item =
  fixes put :: "'a \<Rightarrow> bytes"
    and get :: "bytes \<Rightarrow> 'e + ('a \<times> bytes)"
    and ok :: "'a \<Rightarrow> bool"
  assumes get_put: "ok x \<Longrightarrow> get (put x @ rest) = Inr (x, rest)"
    and get_sound: "get bs = Inr (x, rest) \<Longrightarrow> bs = put x @ rest \<and> ok x"
begin

lemma get_put_Nil: "ok x \<Longrightarrow> get (put x) = Inr (x, [])"
  using get_put [of x "[]"] by simp

text \<open>An encoding is never a proper prefix of another one: decoding is unambiguous.\<close>

lemma put_prefix_free:
  assumes "ok x" and "ok y" and "put x @ r = put y @ s"
  shows "x = y \<and> r = s"
  using get_put [OF assms(1), of r] get_put [OF assms(2), of s] assms(3)
  by (metis Pair_inject sum.inject(2))

end

text \<open>
  A loop \<open>for len(rest) > 0 { item := ...; out = append(out, item) }\<close> over such items.
  It accepts exactly the concatenations of encodings.
\<close>

locale wire_loop = wire_item put get ok
  for put :: "'a \<Rightarrow> bytes" and get :: "bytes \<Rightarrow> 'e + ('a \<times> bytes)" and ok +
  fixes loop :: "bytes \<Rightarrow> 'e + 'a list"
  assumes loop_Nil: "loop [] = Inr []"
    and loop_step: "bs \<noteq> [] \<Longrightarrow> loop bs = bind_res (get bs) (\<lambda>(x, rest). map_res ((#) x) (loop rest))"
    and put_nonempty: "put x \<noteq> []"
begin

lemma loop_concat: "\<forall>x \<in> set xs. ok x \<Longrightarrow> loop (concat (map put xs)) = Inr xs"
proof (induction xs)
  case Nil
  then show ?case by (simp add: loop_Nil)
next
  case (Cons x xs)
  then have "get (put x @ concat (map put xs)) = Inr (x, concat (map put xs))"
    by (simp add: get_put)
  with Cons show ?case
    by (simp add: loop_step put_nonempty)
qed

lemma loop_sound:
  "loop bs = Inr xs \<Longrightarrow> bs = concat (map put xs) \<and> (\<forall>x \<in> set xs. ok x)"
proof (induction "length bs" arbitrary: bs xs rule: less_induct)
  case less
  show ?case
  proof (cases "bs = []")
    case True
    with less.prems show ?thesis by (simp add: loop_Nil)
  next
    case False
    with less.prems obtain x rest ys
      where x: "get bs = Inr (x, rest)" and ys: "loop rest = Inr ys" and xs: "xs = x # ys"
      by (auto simp: loop_step)
    from x have bs: "bs = put x @ rest" and "ok x" by (auto dest: get_sound)
    from bs have "length rest < length bs" by (simp add: put_nonempty)
    from less.hyps [OF this ys] bs xs \<open>ok x\<close> show ?thesis by simp
  qed
qed

lemma loop_iff: "loop bs = Inr xs \<longleftrightarrow> bs = concat (map put xs) \<and> (\<forall>x \<in> set xs. ok x)"
  using loop_concat loop_sound by blast

end

text \<open>
  Index loops \<open>out[i] = BigEndian.Uint16(raw[2*i:])\<close> read a slice two bytes at a time.
\<close>

fun u16s :: "bytes \<Rightarrow> u16 list" where
  "u16s [] = []"
| "u16s [a] = []"
| "u16s (a # b # rest) = be16 a b # u16s rest"

definition index_u16s :: "bytes \<Rightarrow> nat \<Rightarrow> u16 list" where
  "index_u16s raw n = map (\<lambda>i. be16 (raw ! (2 * i)) (raw ! (2 * i + 1))) [0..<n]"

lemma index_u16s_Suc:
  "index_u16s (a # b # rest) (Suc n) = be16 a b # index_u16s rest n"
  by (simp add: index_u16s_def map_upt_Suc del: upt_Suc)

lemma index_u16s_eq: "2 * n \<le> length raw \<Longrightarrow> index_u16s raw n = u16s (take (2 * n) raw)"
proof (induction raw arbitrary: n rule: u16s.induct)
  case (2 a)
  then show ?case by (cases n) (simp_all add: index_u16s_def)
next
  case (3 a b rest)
  then show ?case
    by (cases n) (simp_all add: index_u16s_Suc, simp add: index_u16s_def)
qed (simp add: index_u16s_def)

definition put_u16s :: "u16 list \<Rightarrow> bytes" where
  "put_u16s ws = concat (map put16 ws)"

lemma put_u16s_simps [simp]:
  "put_u16s [] = []"
  "put_u16s (w # ws) = put16 w @ put_u16s ws"
  by (simp_all add: put_u16s_def)

lemma length_put_u16s [simp]: "length (put_u16s ws) = 2 * length ws"
  by (induction ws) simp_all

lemma u16s_put_u16s [simp]: "u16s (put_u16s ws) = ws"
  by (induction ws) (simp_all add: put16_def)

lemma put_u16s_u16s: "even (length bs) \<Longrightarrow> put_u16s (u16s bs) = bs"
  by (induction bs rule: u16s.induct) simp_all

lemma length_u16s: "length (u16s bs) = length bs div 2"
  by (induction bs rule: u16s.induct) simp_all

end
