(* ===== verification/Go_Strings.thy ===== *)
theory Go_Strings
  imports Prelude "HOL-Library.Char_ord" "HOL-Library.List_Lexorder" "HOL-Library.Multiset"
begin

text \<open>
  The parts of Go's \<open>strings\<close>, \<open>strconv\<close>, \<open>fmt\<close> and \<open>sort\<close> packages that the program
  uses. A Go string is a sequence of bytes, modelled as \<open>string\<close> (a list of 8-bit
  characters). Case mapping and white-space trimming are Go's on ASCII strings; on other
  strings Go decodes UTF-8 first, which is not modelled, so the statements that depend on
  them carry the hypothesis \<open>ascii\<close>. Parsing, printing, splitting, joining and comparing
  are byte-wise in Go and have no such restriction.
\<close>

section \<open>Characters\<close>

text \<open>The value of a byte, as an \<open>int\<close> so that the kernel evaluates it in binary.\<close>

abbreviation char_code :: "char \<Rightarrow> int" where
  "char_code c \<equiv> of_char c"

definition ascii :: "string \<Rightarrow> bool" where
  "ascii s = list_all (\<lambda>c. char_code c < 128) s"

definition is_space :: "char \<Rightarrow> bool" where
  "is_space c = (let n = char_code c in 9 \<le> n \<and> n \<le> 13 \<or> n = 32)"

definition lower_char :: "char \<Rightarrow> char" where
  "lower_char c = (let n = char_code c in if 65 \<le> n \<and> n \<le> 90 then char_of (n + 32) else c)"

definition upper_char :: "char \<Rightarrow> char" where
  "upper_char c = (let n = char_code c in if 97 \<le> n \<and> n \<le> 122 then char_of (n - 32) else c)"

definition ToLower :: "string \<Rightarrow> string" where
  "ToLower s = map lower_char s"

definition ToUpper :: "string \<Rightarrow> string" where
  "ToUpper s = map upper_char s"

definition TrimSpace :: "string \<Rightarrow> string" where
  "TrimSpace s = rev (dropWhile is_space (rev (dropWhile is_space s)))"

text \<open>The conversions \<open>string(bytes)\<close> and \<open>[]byte(str)\<close>.\<close>

definition byte_char :: "byte \<Rightarrow> char" where
  "byte_char b = char_of (unat b)"

definition char_byte :: "char \<Rightarrow> byte" where
  "char_byte c = of_nat (of_char c)"

definition bytes_to_string :: "bytes \<Rightarrow> string" where
  "bytes_to_string bs = map byte_char bs"

definition string_to_bytes :: "string \<Rightarrow> bytes" where
  "string_to_bytes s = map char_byte s"

lemma of_char_less: "(of_char c :: nat) < 256"
  using of_char_mod_256 [of c, where ?'a = nat] by (metis mod_less_divisor zero_less_numeral)

lemma byte_char_char_byte [simp]: "byte_char (char_byte c) = c"
  by (simp add: byte_char_def char_byte_def unat_of_nat of_char_mod_256)

lemma char_byte_byte_char [simp]: "char_byte (byte_char b) = b"
proof -
  have "unat b mod 256 = unat b" using unat_byte_less [of b] by simp
  then show ?thesis by (simp add: byte_char_def char_byte_def)
qed

lemma bytes_string_inverse [simp]:
  "bytes_to_string (string_to_bytes s) = s"
  "string_to_bytes (bytes_to_string bs) = bs"
  by (simp_all add: bytes_to_string_def string_to_bytes_def comp_def)

lemma length_bytes_string [simp]:
  "length (string_to_bytes s) = length s"
  "length (bytes_to_string bs) = length bs"
  by (simp_all add: bytes_to_string_def string_to_bytes_def)

lemma string_to_bytes_eq_Nil [simp]: "string_to_bytes s = [] \<longleftrightarrow> s = []"
  by (simp add: string_to_bytes_def)

lemma lower_char_idem [simp]: "lower_char (lower_char c) = lower_char c"
  by (auto simp: lower_char_def Let_def)

lemma ToLower_idem [simp]: "ToLower (ToLower s) = ToLower s"
  by (simp add: ToLower_def)

lemma length_ToLower [simp]: "length (ToLower s) = length s"
  by (simp add: ToLower_def)

lemma ToLower_eq_Nil [simp]: "ToLower s = [] \<longleftrightarrow> s = []"
  by (simp add: ToLower_def)

lemma ToLower_append: "ToLower (s @ t) = ToLower s @ ToLower t"
  by (simp add: ToLower_def)

lemma is_space_lower [simp]: "is_space (lower_char c) = is_space c"
  by (auto simp: is_space_def lower_char_def Let_def)

lemma TrimSpace_no_space: "\<forall>c \<in> set s. \<not> is_space c \<Longrightarrow> TrimSpace s = s"
proof -
  assume *: "\<forall>c \<in> set s. \<not> is_space c"
  then have "dropWhile is_space s = s" by (cases s) simp_all
  moreover from * have "dropWhile is_space (rev s) = rev s"
    by (cases "rev s") (auto simp: rev_swap)
  ultimately show ?thesis by (simp add: TrimSpace_def)
qed

lemma TrimSpace_Nil [simp]: "TrimSpace [] = []"
  by (simp add: TrimSpace_def)

lemma dropWhile_rev_keep_hd:
  assumes "s = dropWhile P s"
  shows "rev (dropWhile P (rev s)) = dropWhile P (rev (dropWhile P (rev s)))"
proof (cases s)
  case (Cons d ds)
  with assms have "\<not> P d" by (metis dropWhile_eq_Cons_conv)
  then have "dropWhile P (rev ds @ [d]) = dropWhile P (rev ds) @ [d]"
    by (induction ds rule: rev_induct) simp_all
  with Cons \<open>\<not> P d\<close> show ?thesis by simp
qed simp

lemma TrimSpace_idem [simp]: "TrimSpace (TrimSpace s) = TrimSpace s"
proof -
  define t where "t = dropWhile is_space s"
  have "t = dropWhile is_space t" by (simp add: t_def)
  from dropWhile_rev_keep_hd [OF this] show ?thesis
    by (simp add: TrimSpace_def t_def [symmetric])
qed

lemma TrimSpace_ToLower: "TrimSpace (ToLower s) = ToLower (TrimSpace s)"
  by (simp add: TrimSpace_def ToLower_def dropWhile_map rev_map comp_def)

section \<open>Splitting and joining\<close>

text \<open>\<open>strings.Split\<close> with a one-byte separator; \<open>strings.Join\<close>.\<close>

fun split_on :: "char \<Rightarrow> string \<Rightarrow> string list" where
  "split_on c [] = [[]]"
| "split_on c (x # xs) =
     (if x = c then [] # split_on c xs
      else case split_on c xs of [] \<Rightarrow> [[x]] | y # ys \<Rightarrow> (x # y) # ys)"

fun join :: "string \<Rightarrow> string list \<Rightarrow> string" where
  "join sep [] = []"
| "join sep [s] = s"
| "join sep (s # t # ts) = s @ sep @ join sep (t # ts)"

lemma split_on_not_Nil [simp]: "split_on c s \<noteq> []"
  by (cases s) (auto split: list.splits)

lemma split_on_no_sep: "c \<notin> set s \<Longrightarrow> split_on c s = [s]"
  by (induction s) auto

lemma split_on_append_sep:
  "c \<notin> set s \<Longrightarrow> split_on c (s @ c # t) = s # split_on c t"
  by (induction s) auto

lemma split_on_join:
  "xs \<noteq> [] \<Longrightarrow> \<forall>x \<in> set xs. c \<notin> set x \<Longrightarrow> split_on c (join [c] xs) = xs"
  by (induction "[c]" xs rule: join.induct) (simp_all add: split_on_no_sep split_on_append_sep)

lemma join_split_on: "join [c] (split_on c s) = s"
proof (induction s)
  case (Cons x xs)
  then show ?case
    by (cases "split_on c xs"; cases "tl (split_on c xs)") auto
qed simp

lemma set_join: "set (join sep xs) \<subseteq> \<Union> (set ` set xs) \<union> set sep"
  by (induction sep xs rule: join.induct) auto

section \<open>Numbers\<close>

text \<open>
  \<open>digit_of\<close> is the digit value \<open>strconv.ParseUint\<close> gives a byte (decimal digits, then
  letters of either case); 36 stands for "no digit".
\<close>

definition digit_of :: "char \<Rightarrow> int" where
  "digit_of c = (let n = char_code c in
     if 48 \<le> n \<and> n \<le> 57 then n - 48
     else if 97 \<le> n \<and> n \<le> 122 then n - 87
     else if 65 \<le> n \<and> n \<le> 90 then n - 55
     else 36)"

definition digit_char :: "int \<Rightarrow> char" where
  "digit_char d = (if d < 10 then char_of (48 + d) else char_of (87 + d))"

fun digits_val :: "int \<Rightarrow> int \<Rightarrow> string \<Rightarrow> int" where
  "digits_val base acc [] = acc"
| "digits_val base acc (c # cs) = digits_val base (acc * base + digit_of c) cs"

text \<open>
  \<open>strconv.ParseUint(s, base, bits)\<close> for an explicit base: \<open>None\<close> on the empty string, on
  a byte that is no digit of the base, and on a value that does not fit.
\<close>

definition ParseUint :: "string \<Rightarrow> int \<Rightarrow> nat \<Rightarrow> int option" where
  "ParseUint s base bits =
     (if s = [] \<or> \<not> list_all (\<lambda>c. digit_of c < base) s then None
      else let v = digits_val base 0 s in if v < 2 ^ bits then Some v else None)"

text \<open>\<open>strconv.Atoi\<close>: an optional sign and decimal digits within the range of a 64-bit int.\<close>

definition Atoi :: "string \<Rightarrow> int option" where
  "Atoi s =
     (case s of
        [] \<Rightarrow> None
      | c # cs \<Rightarrow>
          let neg = (c = CHR ''-'');
              ds = (if neg \<or> c = CHR ''+'' then cs else s)
          in if ds = [] \<or> \<not> list_all (\<lambda>c. digit_of c < 10) ds then None
             else let v = (if neg then - digits_val 10 0 ds else digits_val 10 0 ds)
                  in if - (2 ^ 63) \<le> v \<and> v < 2 ^ 63 then Some v else None)"

text \<open>
  Printing a non-negative number in a base: \<open>strconv.Itoa\<close> (base 10, with a sign) and the
  \<open>%x\<close> verb (base 16).
\<close>

function digits_in :: "int \<Rightarrow> int \<Rightarrow> string" where
  "digits_in base n =
     (if n < base \<or> base < 2 then [digit_char n] else digits_in base (n div base) @ [digit_char (n mod base)])"
  by pat_completeness auto
termination
proof (relation "measure (\<lambda>(base, n). nat n)", goal_cases)
  case (2 base n)
  then have "n div base < n" by (intro int_div_less_self) auto
  with 2 show ?case by simp
qed simp

declare digits_in.simps [simp del]

definition Itoa :: "int \<Rightarrow> string" where
  "Itoa n = (if n < 0 then CHR ''-'' # digits_in 10 (- n) else digits_in 10 n)"

text \<open>\<open>%0<w>x\<close> and \<open>%0<w>d\<close>: zero padding on the left to a width.\<close>

definition pad0 :: "nat \<Rightarrow> string \<Rightarrow> string" where
  "pad0 w s = replicate (w - length s) (CHR ''0'') @ s"

definition hex4 :: "int \<Rightarrow> string" where
  "hex4 n = pad0 4 (digits_in 16 n)"

text \<open>\<open>hex.EncodeToString\<close>: two lower-case digits per byte.\<close>

definition hex_EncodeToString :: "bytes \<Rightarrow> string" where
  "hex_EncodeToString bs =
     concat (map (\<lambda>b. [digit_char (uint b div 16), digit_char (uint b mod 16)]) bs)"

lemma length_hex_EncodeToString [simp]: "length (hex_EncodeToString bs) = 2 * length bs"
  by (induction bs) (simp_all add: hex_EncodeToString_def)

lemma digit_of_digit_char: "0 \<le> d \<Longrightarrow> d < 16 \<Longrightarrow> digit_of (digit_char d) = d"
  by (auto simp: digit_of_def digit_char_def Let_def)

lemma digits_val_append: "digits_val b acc (s @ t) = digits_val b (digits_val b acc s) t"
  by (induction s arbitrary: acc) simp_all

lemma digits_val_digits_in:
  "2 \<le> b \<Longrightarrow> b \<le> 16 \<Longrightarrow> 0 \<le> n \<Longrightarrow> digits_val b 0 (digits_in b n) = n"
proof (induction b n rule: digits_in.induct)
  case (1 b n)
  moreover from 1 have "0 \<le> n div b" by (simp add: pos_imp_zdiv_nonneg_iff)
  moreover from 1 have "digit_of (digit_char (n mod b)) = n mod b"
    by (intro digit_of_digit_char order_less_le_trans [OF pos_mod_bound]) simp_all
  ultimately show ?case
    by (subst digits_in.simps) (simp add: digits_val_append digit_of_digit_char)
qed

lemma digits_in_digits:
  "2 \<le> b \<Longrightarrow> b \<le> 16 \<Longrightarrow> 0 \<le> n \<Longrightarrow> list_all (\<lambda>c. digit_of c < b) (digits_in b n)"
proof (induction b n rule: digits_in.induct)
  case (1 b n)
  moreover from 1 have "0 \<le> n div b" by (simp add: pos_imp_zdiv_nonneg_iff)
  moreover from 1 have "digit_of (digit_char (n mod b)) = n mod b"
    by (intro digit_of_digit_char order_less_le_trans [OF pos_mod_bound]) simp_all
  ultimately show ?case
    by (subst digits_in.simps) (simp add: digit_of_digit_char)
qed

lemma digits_in_not_Nil [simp]: "digits_in b n \<noteq> []"
  by (subst digits_in.simps) simp

lemma ParseUint_digits_in:
  "2 \<le> b \<Longrightarrow> b \<le> 16 \<Longrightarrow> 0 \<le> n \<Longrightarrow> n < 2 ^ bits \<Longrightarrow> ParseUint (digits_in b n) b bits = Some n"
  by (simp add: ParseUint_def digits_in_digits digits_val_digits_in Let_def)

lemma Itoa_nonneg: "0 \<le> n \<Longrightarrow> Itoa n = digits_in 10 n"
  by (simp add: Itoa_def)

lemma Itoa_not_Nil [simp]: "Itoa n \<noteq> []"
  by (simp add: Itoa_def)

lemma ParseUint_Itoa: "0 \<le> n \<Longrightarrow> n < 2 ^ bits \<Longrightarrow> ParseUint (Itoa n) 10 bits = Some n"
  by (simp add: Itoa_nonneg ParseUint_digits_in)

lemma ParseUint_bound: "ParseUint s b bits = Some v \<Longrightarrow> v < 2 ^ bits"
  by (auto simp: ParseUint_def Let_def split: if_splits)

lemma digits_in_chars:
  assumes "2 \<le> b" "b \<le> 16" "0 \<le> n" "c \<in> set (digits_in b n)"
  shows "digit_of c < b"
  using digits_in_digits [OF assms(1-3)] assms(4) by (simp add: list_all_iff)

lemma Itoa_chars:
  assumes "0 \<le> n" and "c \<in> set (Itoa n)"
  shows "\<not> is_space c" and "c \<noteq> CHR ''-''" and "c \<noteq> CHR '',''"
  using digits_in_chars [OF _ _ assms(1), of 10 c] assms(2)
  unfolding Itoa_nonneg [OF assms(1)]
  by (auto simp: digit_of_def is_space_def Let_def split: if_splits)

lemma TrimSpace_Itoa: "0 \<le> n \<Longrightarrow> TrimSpace (Itoa n) = Itoa n"
  by (rule TrimSpace_no_space) (auto dest: Itoa_chars)

lemma digits_val_zeros: "digits_val b 0 (replicate k (CHR ''0'')) = 0"
  by (induction k) (simp_all add: digit_of_def)

lemma digit_of_0 [simp]: "digit_of (CHR ''0'') = 0"
  by (simp add: digit_of_def)

lemma ParseUint_hex4: "0 \<le> n \<Longrightarrow> n < 65536 \<Longrightarrow> ParseUint (hex4 n) 16 16 = Some n"
  by (simp add: ParseUint_def hex4_def pad0_def digits_in_digits digits_val_append
      digits_val_zeros digits_val_digits_in list_all_iff [of _ "replicate _ _"])

lemma hex4_inj: "0 \<le> m \<Longrightarrow> m < 65536 \<Longrightarrow> 0 \<le> n \<Longrightarrow> n < 65536 \<Longrightarrow> hex4 m = hex4 n \<Longrightarrow> m = n"
  by (metis ParseUint_hex4 option.inject)

text \<open>Printed digits are lower-case, contain no blank, and survive case mapping and trimming.\<close>

lemma digits_in_digit_char:
  "2 \<le> b \<Longrightarrow> b \<le> 16 \<Longrightarrow> 0 \<le> n \<Longrightarrow> c \<in> set (digits_in b n) \<Longrightarrow>
     \<exists>d. 0 \<le> d \<and> d < b \<and> c = digit_char d"
proof (induction b n rule: digits_in.induct)
  case (1 b n)
  moreover from 1 have "0 \<le> n div b" by (simp add: pos_imp_zdiv_nonneg_iff)
  moreover from 1 have "\<exists>d. 0 \<le> d \<and> d < b \<and> digit_char (n mod b) = digit_char d"
    by (intro exI [of _ "n mod b"]) simp
  ultimately show ?case
    by (subst (asm) (2) digits_in.simps) (auto split: if_splits)
qed

lemma digit_char_cases:
  "0 \<le> d \<Longrightarrow> d < 16 \<Longrightarrow> lower_char (digit_char d) = digit_char d \<and> \<not> is_space (digit_char d)"
  "0 \<le> d \<Longrightarrow> d < 10 \<Longrightarrow> upper_char (digit_char d) = digit_char d"
  by (auto simp: digit_char_def lower_char_def upper_char_def is_space_def Let_def)

lemma hex4_digit_char:
  assumes "0 \<le> n" and "c \<in> set (hex4 n)"
  shows "\<exists>d. 0 \<le> d \<and> d < 16 \<and> c = digit_char d"
proof -
  have "CHR ''0'' = digit_char 0" by code_simp
  then show ?thesis
    using digits_in_digit_char [OF _ _ assms(1), of 16 c] assms(2)
    by (auto simp: hex4_def pad0_def split: if_splits intro: exI [of _ 0])
qed

lemma hex4_ToLower: "0 \<le> n \<Longrightarrow> ToLower (hex4 n) = hex4 n"
  unfolding ToLower_def
  by (rule map_idI) (metis hex4_digit_char digit_char_cases(1))

lemma hex4_no_space: "0 \<le> n \<Longrightarrow> c \<in> set (hex4 n) \<Longrightarrow> \<not> is_space c"
  by (metis hex4_digit_char digit_char_cases(1))

lemma Itoa_ToUpper: "0 \<le> n \<Longrightarrow> ToUpper (Itoa n) = Itoa n"
  unfolding ToUpper_def
  by (rule map_idI) (use digits_in_digit_char [of 10] digit_char_cases(2) in \<open>force simp: Itoa_nonneg\<close>)

lemma lower_upper_char [simp]: "lower_char (upper_char c) = lower_char c"
  by (auto simp: lower_char_def upper_char_def Let_def)

lemma ToLower_ToUpper [simp]: "ToLower (ToUpper s) = ToLower s"
  by (simp add: ToLower_def ToUpper_def)

lemma is_space_upper [simp]: "is_space (upper_char c) = is_space c"
  by (auto simp: is_space_def upper_char_def Let_def)

lemma TrimSpace_ToUpper: "TrimSpace (ToUpper s) = ToUpper (TrimSpace s)"
  by (simp add: TrimSpace_def ToUpper_def dropWhile_map rev_map comp_def)

lemma ToUpper_append: "ToUpper (s @ t) = ToUpper s @ ToUpper t"
  by (simp add: ToUpper_def)

lemma ToUpper_eq_Nil [simp]: "ToUpper s = [] \<longleftrightarrow> s = []"
  by (simp add: ToUpper_def)

section \<open>Sorting\<close>

text \<open>
  \<open>sort.Strings\<close>: byte-wise lexicographic order, for which \<open>sort\<close> of the HOL library on
  \<open>string\<close> (with the orders of \<open>Char_ord\<close> and \<open>List_Lexorder\<close>) computes the unique sorted
  permutation.
\<close>

definition sort_Strings :: "string list \<Rightarrow> string list" where
  "sort_Strings xs = sort xs"

lemma sort_Strings_mset: "mset xs = mset ys \<Longrightarrow> sort_Strings xs = sort_Strings ys"
  by (metis sort_Strings_def mset_sort properties_for_sort sorted_sort)

end
