(* ===== verification/Iana.thy ===== *)
theory Iana
  imports Go_Strings
begin

text \<open>
  The package \<open>iana\<close>: GREASE values (RFC 8701, \<open>grease.go\<close>), the numeric-identifier
  parser (\<open>util.go\<close>) and the six name registries (\<open>extensions.go\<close>, \<open>ciphers.go\<close>,
  \<open>groups.go\<close>, \<open>sigalgs.go\<close>, \<open>versions.go\<close>, \<open>h2.go\<close>). A Go map literal is an association
  list; a search \<open>for id, name := range table\<close> is \<open>id_of_name\<close>, and the interface
  \<open>name_registry\<close> shows that the unspecified iteration order cannot change its result.
  An \<open>(id, ok)\<close> result is an option.
\<close>

section \<open>GREASE\<close>

abbreviation (input) GreaseMarker :: u16 where
  "GreaseMarker \<equiv> 0x0a0a"

definition greaseTable :: "u16 list" where
  "greaseTable =
     [0x0a0a, 0x1a1a, 0x2a2a, 0x3a3a, 0x4a4a, 0x5a5a, 0x6a6a, 0x7a7a,
      0x8a8a, 0x9a9a, 0xaaaa, 0xbaba, 0xcaca, 0xdada, 0xeaea, 0xfafa]"

definition IsGrease :: "u16 \<Rightarrow> bool" where
  "IsGrease v = (if v AND 0x0f \<noteq> 0x0a then False else drop_bit 8 v = v AND 0xff)"

text \<open>
  \<open>NextGrease\<close> reads one byte from its random source: \<open>None\<close> is a failed read.
\<close>

definition NextGrease :: "byte option \<Rightarrow> u16 option" where
  "NextGrease r = (case r of None \<Rightarrow> None | Some b \<Rightarrow> Some (greaseTable ! (unat b AND 0x0f)))"

definition FormatID :: "u16 \<Rightarrow> string" where
  "FormatID v = ''0x'' @ hex4 (uint v)"

text \<open>The verb \<open>GREASE(0x%04x)\<close> of the display functions.\<close>

definition grease_display :: "u16 \<Rightarrow> string" where
  "grease_display v = ''GREASE(0x'' @ hex4 (uint v) @ '')''"

section \<open>Numeric identifiers and name tables\<close>

definition parseNumericID :: "string \<Rightarrow> u16 option" where
  "parseNumericID s =
     (let t = ToLower (TrimSpace s) in
      if t = [] then None
      else if take 2 t = ''0x'' then map_option of_int (ParseUint (drop 2 t) 16 16)
      else map_option of_int (ParseUint t 10 16))"

definition name_of :: "(u16 \<times> string) list \<Rightarrow> u16 \<Rightarrow> string" where
  "name_of table i = (case map_of table i of None \<Rightarrow> [] | Some n \<Rightarrow> n)"

definition id_of_name :: "(u16 \<times> string) list \<Rightarrow> string \<Rightarrow> u16 option" where
  "id_of_name table t = map_option fst (find (\<lambda>(i, n). n = t) table)"

definition sorted_names :: "(u16 \<times> string) list \<Rightarrow> string list" where
  "sorted_names table = sort_Strings (map snd table)"

section \<open>Protocol versions\<close>

abbreviation (input) VersionSSL30 :: u16 where "VersionSSL30 \<equiv> 0x0300"
abbreviation (input) VersionTLS10 :: u16 where "VersionTLS10 \<equiv> 0x0301"
abbreviation (input) VersionTLS11 :: u16 where "VersionTLS11 \<equiv> 0x0302"
abbreviation (input) VersionTLS12 :: u16 where "VersionTLS12 \<equiv> 0x0303"
abbreviation (input) VersionTLS13 :: u16 where "VersionTLS13 \<equiv> 0x0304"

definition versionNames :: "(u16 \<times> string) list" where
  "versionNames =
    [(768, ''ssl30''),
     (769, ''tls10''),
     (770, ''tls11''),
     (771, ''tls12''),
     (772, ''tls13'')]"

definition VersionName :: "u16 \<Rightarrow> string" where
  "VersionName v = name_of versionNames v"

definition VersionDisplay :: "u16 \<Rightarrow> string" where
  "VersionDisplay v =
     (let n = name_of versionNames v in if n \<noteq> [] then n else ''0x'' @ hex4 (uint v))"

definition ParseVersionName :: "string \<Rightarrow> u16 option" where
  "ParseVersionName s =
     (let t = ToLower (TrimSpace s);
          decimal = [(''1.3'', VersionTLS13), (''1.2'', VersionTLS12),
                     (''1.1'', VersionTLS11), (''1.0'', VersionTLS10), (''3.0'', VersionSSL30)]
      in if t = [] then None
         else case map_of decimal t of
           Some v \<Rightarrow> Some v
         | None \<Rightarrow> (case parseNumericID t of
             Some v \<Rightarrow> Some v
           | None \<Rightarrow> id_of_name versionNames t))"

definition VersionNames :: "string list" where
  "VersionNames = sorted_names versionNames"

section \<open>Named groups\<close>

definition groupNames :: "(u16 \<times> string) list" where
  "groupNames =
    [(22, ''secp256k1''),
     (23, ''secp256r1''),
     (24, ''secp384r1''),
     (25, ''secp521r1''),
     (29, ''x25519''),
     (30, ''x448''),
     (256, ''ffdhe2048''),
     (257, ''ffdhe3072''),
     (258, ''ffdhe4096''),
     (259, ''ffdhe6144''),
     (260, ''ffdhe8192''),
     (4588, ''x25519_mlkem768''),
     (4587, ''secp256r1_mlkem768'')]"

definition GroupName :: "u16 \<Rightarrow> string" where
  "GroupName i = (if IsGrease i then [] else name_of groupNames i)"

definition GroupDisplay :: "u16 \<Rightarrow> string" where
  "GroupDisplay i =
     (if IsGrease i then grease_display i
      else let n = name_of groupNames i in if n \<noteq> [] then n else ''0x'' @ hex4 (uint i))"

definition groupAliases :: "(string \<times> string) list" where
  "groupAliases =
    [(''p-256'', ''secp256r1''), (''p256'', ''secp256r1''), (''prime256v1'', ''secp256r1''),
     (''p-384'', ''secp384r1''), (''p384'', ''secp384r1''),
     (''p-521'', ''secp521r1''), (''p521'', ''secp521r1''),
     (''x25519mlkem768'', ''x25519_mlkem768'')]"

text \<open>Replacing a spelling by its canonical name, when the alias table has it.\<close>

definition resolve_alias :: "(string \<times> string) list \<Rightarrow> string \<Rightarrow> string" where
  "resolve_alias al t = (case map_of al t of Some canon \<Rightarrow> canon | None \<Rightarrow> t)"

definition ParseGroupName :: "string \<Rightarrow> u16 option" where
  "ParseGroupName s =
     (let t = ToLower (TrimSpace s) in
      if t = [] then None
      else case parseNumericID t of
        Some v \<Rightarrow> Some v
      | None \<Rightarrow> id_of_name groupNames (resolve_alias groupAliases t))"

definition GroupNames :: "string list" where
  "GroupNames = sorted_names groupNames"

section \<open>HTTP/2 settings\<close>

definition h2SettingNames :: "(u16 \<times> string) list" where
  "h2SettingNames =
    [(1, ''HEADER_TABLE_SIZE''),
     (2, ''ENABLE_PUSH''),
     (3, ''MAX_CONCURRENT_STREAMS''),
     (4, ''INITIAL_WINDOW_SIZE''),
     (5, ''MAX_FRAME_SIZE''),
     (6, ''MAX_HEADER_LIST_SIZE''),
     (8, ''ENABLE_CONNECT_PROTOCOL''),
     (9, ''NO_RFC7540_PRIORITIES'')]"

definition HTTP2SettingName :: "u16 \<Rightarrow> string" where
  "HTTP2SettingName i = (if IsGrease i then [] else name_of h2SettingNames i)"

definition HTTP2SettingDisplay :: "u16 \<Rightarrow> string" where
  "HTTP2SettingDisplay i =
     (if IsGrease i then grease_display i
      else let n = name_of h2SettingNames i in
        if n \<noteq> [] then n else ''UNKNOWN_SETTING_'' @ Itoa (uint i))"

definition ParseHTTP2SettingName :: "string \<Rightarrow> u16 option" where
  "ParseHTTP2SettingName s =
     (let t = ToUpper (TrimSpace s) in
      if t = [] then None
      else case ParseUint t 10 16 of
        Some n \<Rightarrow> Some (of_int n)
      | None \<Rightarrow>
          (let k = length ''UNKNOWN_SETTING_'';
               u = (if take k t = ''UNKNOWN_SETTING_'' then ParseUint (drop k t) 10 16 else None)
           in case u of
             Some n \<Rightarrow> Some (of_int n)
           | None \<Rightarrow> id_of_name h2SettingNames t))"

definition HTTP2SettingNames :: "string list" where
  "HTTP2SettingNames = sorted_names h2SettingNames"

section \<open>Signature algorithms\<close>

definition sigAlgNames :: "(u16 \<times> string) list" where
  "sigAlgNames =
    [(513, ''rsa_pkcs1_sha1''),
     (769, ''rsa_pkcs1_sha224''),
     (1025, ''rsa_pkcs1_sha256''),
     (1281, ''rsa_pkcs1_sha384''),
     (1537, ''rsa_pkcs1_sha512''),
     (515, ''ecdsa_sha1''),
     (771, ''ecdsa_secp224r1_sha224''),
     (1027, ''ecdsa_secp256r1_sha256''),
     (1283, ''ecdsa_secp384r1_sha384''),
     (1539, ''ecdsa_secp521r1_sha512''),
     (2055, ''ed25519''),
     (2056, ''ed448''),
     (2052, ''rsa_pss_rsae_sha256''),
     (2053, ''rsa_pss_rsae_sha384''),
     (2054, ''rsa_pss_rsae_sha512''),
     (2057, ''rsa_pss_pss_sha256''),
     (2058, ''rsa_pss_pss_sha384''),
     (2059, ''rsa_pss_pss_sha512'')]"

definition SigAlgName :: "u16 \<Rightarrow> string" where
  "SigAlgName i = name_of sigAlgNames i"

definition SigAlgDisplay :: "u16 \<Rightarrow> string" where
  "SigAlgDisplay i =
     (let n = name_of sigAlgNames i in if n \<noteq> [] then n else ''0x'' @ hex4 (uint i))"

text \<open>\<open>strings.Index\<close>: the position of the first occurrence, or \<open>None\<close> for -1.\<close>

fun str_index :: "string \<Rightarrow> string \<Rightarrow> nat option" where
  "str_index s pat =
     (if take (length pat) s = pat then Some 0
      else case s of [] \<Rightarrow> None | _ # cs \<Rightarrow> map_option Suc (str_index cs pat))"

declare str_index.simps [simp del]

text \<open>The form \<open>name (0xNNNN)\<close>: keep what stands between the parentheses.\<close>

definition strip_paren_hex :: "string \<Rightarrow> string" where
  "strip_paren_hex t =
     (case str_index t ''(0x'' of
        None \<Rightarrow> t
      | Some i \<Rightarrow> (case str_index (drop i t) '')'' of
          None \<Rightarrow> t
        | Some j \<Rightarrow> if 0 < j then take (j - 1) (drop (i + 1) t) else t))"

definition ParseSigAlgName :: "string \<Rightarrow> u16 option" where
  "ParseSigAlgName s =
     (let t = ToLower (TrimSpace s) in
      if t = [] then None
      else let t' = strip_paren_hex t in
        case parseNumericID t' of
          Some v \<Rightarrow> Some v
        | None \<Rightarrow> id_of_name sigAlgNames t')"

definition SigAlgNames :: "string list" where
  "SigAlgNames = sorted_names sigAlgNames"

section \<open>Extension types\<close>

abbreviation (input) ExtServerName :: u16 where "ExtServerName \<equiv> 0"
abbreviation (input) ExtSupportedGroups :: u16 where "ExtSupportedGroups \<equiv> 10"
abbreviation (input) ExtECPointFormats :: u16 where "ExtECPointFormats \<equiv> 11"
abbreviation (input) ExtSignatureAlgorithms :: u16 where "ExtSignatureAlgorithms \<equiv> 13"
abbreviation (input) ExtALPN :: u16 where "ExtALPN \<equiv> 16"
abbreviation (input) ExtStatusRequest :: u16 where "ExtStatusRequest \<equiv> 5"
abbreviation (input) ExtSignedCertificateTimestamp :: u16 where "ExtSignedCertificateTimestamp \<equiv> 18"
abbreviation (input) ExtPadding :: u16 where "ExtPadding \<equiv> 21"
abbreviation (input) ExtExtendedMasterSecret :: u16 where "ExtExtendedMasterSecret \<equiv> 23"
abbreviation (input) ExtCompressCertificate :: u16 where "ExtCompressCertificate \<equiv> 27"
abbreviation (input) ExtRecordSizeLimit :: u16 where "ExtRecordSizeLimit \<equiv> 28"
abbreviation (input) ExtDelegatedCredentials :: u16 where "ExtDelegatedCredentials \<equiv> 34"
abbreviation (input) ExtSessionTicket :: u16 where "ExtSessionTicket \<equiv> 35"
abbreviation (input) ExtPreSharedKey :: u16 where "ExtPreSharedKey \<equiv> 41"
abbreviation (input) ExtEarlyData :: u16 where "ExtEarlyData \<equiv> 42"
abbreviation (input) ExtSupportedVersions :: u16 where "ExtSupportedVersions \<equiv> 43"
abbreviation (input) ExtPSKKeyExchangeModes :: u16 where "ExtPSKKeyExchangeModes \<equiv> 45"
abbreviation (input) ExtSignatureAlgorithmsCert :: u16 where "ExtSignatureAlgorithmsCert \<equiv> 50"
abbreviation (input) ExtKeyShare :: u16 where "ExtKeyShare \<equiv> 51"
abbreviation (input) ExtRenegotiationInfo :: u16 where "ExtRenegotiationInfo \<equiv> 65281"
abbreviation (input) ExtEncryptedClientHello :: u16 where "ExtEncryptedClientHello \<equiv> 65037"
abbreviation (input) ExtApplicationSettings :: u16 where "ExtApplicationSettings \<equiv> 17513"

definition extensionNames :: "(u16 \<times> string) list" where
  "extensionNames =
    [(0, ''server_name''),
     (1, ''max_fragment_length''),
     (2, ''client_certificate_url''),
     (3, ''trusted_ca_keys''),
     (4, ''truncated_hmac''),
     (5, ''status_request''),
     (6, ''user_mapping''),
     (7, ''client_authz''),
     (8, ''server_authz''),
     (9, ''certificate_type''),
     (10, ''supported_groups''),
     (11, ''ec_point_formats''),
     (12, ''srp''),
     (13, ''signature_algorithms''),
     (14, ''use_srtp''),
     (15, ''heartbeat''),
     (16, ''application_layer_protocol_negotiation''),
     (17, ''status_request_v2''),
     (18, ''signed_certificate_timestamp''),
     (19, ''client_certificate_type''),
     (20, ''server_certificate_type''),
     (21, ''padding''),
     (22, ''encrypt_then_mac''),
     (23, ''extended_master_secret''),
     (24, ''token_binding''),
     (25, ''cached_info''),
     (27, ''compress_certificate''),
     (28, ''record_size_limit''),
     (34, ''delegated_credentials''),
     (35, ''session_ticket''),
     (41, ''pre_shared_key''),
     (42, ''early_data''),
     (43, ''supported_versions''),
     (44, ''cookie''),
     (45, ''psk_key_exchange_modes''),
     (47, ''certificate_authorities''),
     (48, ''oid_filters''),
     (49, ''post_handshake_auth''),
     (50, ''signature_algorithms_cert''),
     (51, ''key_share''),
     (65281, ''renegotiation_info''),
     (65037, ''encrypted_client_hello''),
     (17513, ''application_settings''),
     (57, ''quic_transport_parameters'')]"

definition extensionAliases :: "(string \<times> string) list" where
  "extensionAliases =
    [(''server_name_indication'', ''server_name''),
     (''sni'', ''server_name''),
     (''elliptic_curves'', ''supported_groups''),
     (''supported_groups_ext'', ''supported_groups''),
     (''ec_point_formats'', ''ec_point_formats''),
     (''application_layer_protocol_negotiation'', ''application_layer_protocol_negotiation''),
     (''alpn'', ''application_layer_protocol_negotiation''),
     (''signature_algorithms'', ''signature_algorithms''),
     (''supported_versions'', ''supported_versions''),
     (''application_settings'', ''application_settings''),
     (''alps'', ''application_settings''),
     (''encrypted_client_hello'', ''encrypted_client_hello''),
     (''ech'', ''encrypted_client_hello''),
     (''extended_master_secret'', ''extended_master_secret''),
     (''session_ticket'', ''session_ticket''),
     (''renegotiation_info'', ''renegotiation_info''),
     (''compress_certificate'', ''compress_certificate''),
     (''cert_compression'', ''compress_certificate''),
     (''record_size_limit'', ''record_size_limit''),
     (''delegated_credentials'', ''delegated_credentials''),
     (''psk_key_exchange_modes'', ''psk_key_exchange_modes''),
     (''signature_algorithms_cert'', ''signature_algorithms_cert''),
     (''key_share'', ''key_share''),
     (''padding'', ''padding''),
     (''status_request'', ''status_request''),
     (''heartbeat'', ''heartbeat''),
     (''use_srtp'', ''use_srtp'')]"

definition ExtensionName :: "u16 \<Rightarrow> string" where
  "ExtensionName i = (if IsGrease i then [] else name_of extensionNames i)"

definition ExtensionDisplay :: "u16 \<Rightarrow> string" where
  "ExtensionDisplay i =
     (if IsGrease i then grease_display i
      else let n = name_of extensionNames i in if n \<noteq> [] then n else ''0x'' @ hex4 (uint i))"

definition ParseExtension :: "string \<Rightarrow> u16 option" where
  "ParseExtension s =
     (let t = ToLower (TrimSpace s) in
      if t = [] then None
      else case parseNumericID t of
        Some v \<Rightarrow> Some v
      | None \<Rightarrow> id_of_name extensionNames (resolve_alias extensionAliases t))"

definition ExtensionNames :: "string list" where
  "ExtensionNames = sorted_names extensionNames"

section \<open>Cipher suites\<close>

definition cipherNames :: "(u16 \<times> string) list" where
  "cipherNames =
    [(4865, ''TLS_AES_128_GCM_SHA256''),
     (4866, ''TLS_AES_256_GCM_SHA384''),
     (4867, ''TLS_CHACHA20_POLY1305_SHA256''),
     (4868, ''TLS_AES_128_CCM_SHA256''),
     (4869, ''TLS_AES_128_CCM_8_SHA256''),
     (49195, ''TLS_ECDHE_ECDSA_WITH_AES_128_GCM_SHA256''),
     (49196, ''TLS_ECDHE_ECDSA_WITH_AES_256_GCM_SHA384''),
     (49199, ''TLS_ECDHE_RSA_WITH_AES_128_GCM_SHA256''),
     (49200, ''TLS_ECDHE_RSA_WITH_AES_256_GCM_SHA384''),
     (52393, ''TLS_ECDHE_ECDSA_WITH_CHACHA20_POLY1305_SHA256''),
     (52392, ''TLS_ECDHE_RSA_WITH_CHACHA20_POLY1305_SHA256''),
     (52396, ''TLS_ECDHE_PSK_WITH_CHACHA20_POLY1305_SHA256''),
     (52394, ''TLS_DHE_RSA_WITH_CHACHA20_POLY1305_SHA256''),
     (52395, ''TLS_DHE_PSK_WITH_CHACHA20_POLY1305_SHA256''),
     (49161, ''TLS_ECDHE_ECDSA_WITH_AES_128_CBC_SHA''),
     (49162, ''TLS_ECDHE_ECDSA_WITH_AES_256_CBC_SHA''),
     (49171, ''TLS_ECDHE_RSA_WITH_AES_128_CBC_SHA''),
     (49172, ''TLS_ECDHE_RSA_WITH_AES_256_CBC_SHA''),
     (49187, ''TLS_ECDHE_ECDSA_WITH_AES_128_CBC_SHA256''),
     (49188, ''TLS_ECDHE_ECDSA_WITH_AES_256_CBC_SHA384''),
     (49191, ''TLS_ECDHE_RSA_WITH_AES_128_CBC_SHA256''),
     (49192, ''TLS_ECDHE_RSA_WITH_AES_256_CBC_SHA384''),
     (47, ''TLS_RSA_WITH_AES_128_CBC_SHA''),
     (53, ''TLS_RSA_WITH_AES_256_CBC_SHA''),
     (60, ''TLS_RSA_WITH_AES_128_CBC_SHA256''),
     (61, ''TLS_RSA_WITH_AES_256_CBC_SHA256''),
     (156, ''TLS_RSA_WITH_AES_128_GCM_SHA256''),
     (157, ''TLS_RSA_WITH_AES_256_GCM_SHA384''),
     (10, ''TLS_RSA_WITH_3DES_EDE_CBC_SHA''),
     (158, ''TLS_DHE_RSA_WITH_AES_128_GCM_SHA256''),
     (159, ''TLS_DHE_RSA_WITH_AES_256_GCM_SHA384''),
     (51, ''TLS_DHE_RSA_WITH_AES_128_CBC_SHA''),
     (57, ''TLS_DHE_RSA_WITH_AES_256_CBC_SHA''),
     (103, ''TLS_DHE_RSA_WITH_AES_128_CBC_SHA256''),
     (107, ''TLS_DHE_RSA_WITH_AES_256_CBC_SHA256''),
     (5, ''TLS_RSA_WITH_RC4_128_SHA''),
     (4, ''TLS_RSA_WITH_RC4_128_MD5''),
     (255, ''TLS_EMPTY_RENEGOTIATION_INFO_SCSV''),
     (22016, ''TLS_FALLBACK_SCSV'')]"

definition CipherSuiteName :: "u16 \<Rightarrow> string" where
  "CipherSuiteName i = (if IsGrease i then [] else name_of cipherNames i)"

definition CipherSuiteDisplay :: "u16 \<Rightarrow> string" where
  "CipherSuiteDisplay i =
     (if IsGrease i then grease_display i
      else let n = name_of cipherNames i in if n \<noteq> [] then n else ''0x'' @ hex4 (uint i))"

definition ParseCipherSuite :: "string \<Rightarrow> u16 option" where
  "ParseCipherSuite s =
     (let t = ToUpper (TrimSpace s) in
      if t = [] then None
      else case parseNumericID t of
        Some v \<Rightarrow> Some v
      | None \<Rightarrow> id_of_name cipherNames t)"

definition CipherSuiteNames :: "string list" where
  "CipherSuiteNames = sorted_names cipherNames"

section \<open>GREASE: facts\<close>

lemma IsGrease_unat: "IsGrease v \<longleftrightarrow> unat v mod 16 = 10 \<and> unat v div 256 = unat v mod 256"
  by (simp add: IsGrease_def word_unat_eq_iff unsigned_and_eq nat_and_mask
      drop_bit_eq_div unat_div)

lemma greaseTable_IsGrease: "v \<in> set greaseTable \<Longrightarrow> IsGrease v"
  by (auto simp: greaseTable_def IsGrease_unat)

lemma IsGrease_greaseTable:
  assumes "IsGrease v"
  shows "v \<in> set greaseTable"
proof -
  define k where "k = unat v mod 256 div 16"
  have k: "k < 16" by (simp add: k_def less_mult_imp_div_less)
  have "unat v mod 256 = 16 * k + 10"
    using assms mod_mod_cancel [of 16 256 "unat v"]
    by (simp add: k_def IsGrease_unat) (metis mult_div_mod_eq)
  with assms have "unat v = 257 * (16 * k + 10)"
    using mult_div_mod_eq [of 256 "unat v"] by (simp add: IsGrease_unat)
  then have "v = of_nat (257 * (16 * k + 10))"
    by (metis of_nat_unat ucast_id)
  moreover have "k \<in> {0, 1, 2, 3, 4, 5, 6, 7, 8, 9, 10, 11, 12, 13, 14, 15}"
    using k by simp presburger
  ultimately show ?thesis by (auto simp: greaseTable_def)
qed

lemma IsGrease_iff_greaseTable: "IsGrease v \<longleftrightarrow> v \<in> set greaseTable"
  using greaseTable_IsGrease IsGrease_greaseTable by blast

lemma length_greaseTable: "length greaseTable = 16"
  by (simp add: greaseTable_def)

lemma NextGrease_IsGrease: "NextGrease r = Some v \<Longrightarrow> IsGrease v"
proof -
  assume "NextGrease r = Some v"
  then obtain b :: byte where v: "v = greaseTable ! (unat b mod 16)"
    by (auto simp: NextGrease_def nat_and_mask split: option.splits)
  have "v \<in> set greaseTable" unfolding v by (simp add: nth_mem length_greaseTable)
  then show ?thesis by (rule greaseTable_IsGrease)
qed

text \<open>Every table value can be drawn: the byte \<open>k\<close> selects entry \<open>k\<close>.\<close>

lemma NextGrease_surj: "IsGrease v \<Longrightarrow> \<exists>b. NextGrease (Some b) = Some v"
proof -
  assume "IsGrease v"
  then obtain k where k: "k < 16" "v = greaseTable ! k"
    using IsGrease_greaseTable [of v] by (auto simp: in_set_conv_nth length_greaseTable)
  then have "NextGrease (Some (of_nat k)) = Some v"
    by (simp add: NextGrease_def nat_and_mask unat_of_nat_byte)
  then show ?thesis ..
qed

section \<open>Registries\<close>

lemma id_of_name_eq:
  "distinct (map snd table) \<Longrightarrow> (i, n) \<in> set table \<Longrightarrow> id_of_name table n = Some i"
  by (induction table) (auto simp: id_of_name_def rev_image_eqI)

lemma id_of_name_SomeD: "id_of_name table n = Some i \<Longrightarrow> (i, n) \<in> set table"
  by (auto simp: id_of_name_def find_Some_iff in_set_conv_nth)

lemma id_of_name_perm:
  assumes "distinct (map snd table)" and "mset table' = mset table"
  shows "id_of_name table' n = id_of_name table n"
proof -
  have set: "set table' = set table"
    by (metis assms(2) set_mset_mset)
  have "distinct (map snd table')"
    using assms by (metis mset_eq_imp_distinct_iff mset_map)
  then show ?thesis
    using id_of_name_eq id_of_name_SomeD assms(1) set
    by (metis not_None_eq)
qed

text \<open>
  The contract of a registry: identifiers and names are unique, the parser knows every
  registered name, and an identifier that is printed numerically is parsed back.
\<close>

locale name_registry =
  fixes table :: "(u16 \<times> string) list"
    and parse :: "string \<Rightarrow> u16 option"
    and display :: "u16 \<Rightarrow> string"
    and printable :: "u16 \<Rightarrow> bool"
  assumes distinct_ids: "distinct (map fst table)"
    and distinct_names: "distinct (map snd table)"
    and parse_name: "(i, n) \<in> set table \<Longrightarrow> parse n = Some i"
    and display_name: "printable i \<Longrightarrow> (i, n) \<in> set table \<Longrightarrow> display i = n"
    and parse_number: "printable i \<Longrightarrow> i \<notin> fst ` set table \<Longrightarrow> parse (display i) = Some i"
begin

lemma parse_display: "printable i \<Longrightarrow> parse (display i) = Some i"
  using parse_name display_name parse_number by fastforce

lemma display_inj: "printable i \<Longrightarrow> printable j \<Longrightarrow> display i = display j \<Longrightarrow> i = j"
  by (metis option.inject parse_display)

text \<open>The search over the Go map does not depend on the iteration order.\<close>

lemma search_order_irrelevant: "mset table' = mset table \<Longrightarrow> id_of_name table' n = id_of_name table n"
  by (rule id_of_name_perm [OF distinct_names])

end

subsection \<open>Evaluating the tables\<close>

lemma name_of_known: "distinct (map fst t) \<Longrightarrow> (i, n) \<in> set t \<Longrightarrow> name_of t i = n"
  by (simp add: name_of_def)

lemma name_of_unknown: "i \<notin> fst ` set t \<Longrightarrow> name_of t i = []"
  by (simp add: name_of_def map_of_eq_None_iff [THEN iffD2])

lemma parseNumericID_hex4:
  "ToLower (TrimSpace s) = ''0x'' @ hex4 (uint v) \<Longrightarrow> parseNumericID s = Some v"
  using uint_lt2p [of v] by (simp add: parseNumericID_def ParseUint_hex4)

lemma TrimSpace_0x_hex4: "0 \<le> n \<Longrightarrow> TrimSpace (''0x'' @ hex4 n) = ''0x'' @ hex4 n"
  by (rule TrimSpace_no_space) (auto dest: hex4_no_space simp: is_space_def)

lemma ToLower_0x_hex4: "0 \<le> n \<Longrightarrow> ToLower (''0x'' @ hex4 n) = ''0x'' @ hex4 n"
  by (simp only: ToLower_append hex4_ToLower) (simp add: ToLower_def lower_char_def)

lemmas numeric_display = TrimSpace_0x_hex4 ToLower_0x_hex4

lemma parseNumericID_display [simp]: "parseNumericID (''0x'' @ hex4 (uint v)) = Some v"
  by (rule parseNumericID_hex4) (simp only: numeric_display uint_ge_0)

text \<open>
  Comparing long names pairwise is slow, so the distinctness of the names is shown by a
  small checksum that separates them.
\<close>

fun digest :: "int \<Rightarrow> string \<Rightarrow> int" where
  "digest h [] = h"
| "digest h (c # cs) = digest ((h * 3 + char_code c) mod 472) cs"

lemma distinct_by_digest: "distinct (map (digest 0) names) \<Longrightarrow> distinct names"
  by (simp add: distinct_map)

lemma distinct_ids:
  "distinct (map fst versionNames)" "distinct (map fst groupNames)"
  "distinct (map fst h2SettingNames)" "distinct (map fst sigAlgNames)"
  "distinct (map fst extensionNames)" "distinct (map fst cipherNames)"
  by code_simp+

lemma distinct_names:
  "distinct (map snd versionNames)" "distinct (map snd groupNames)"
  "distinct (map snd h2SettingNames)" "distinct (map snd sigAlgNames)"
  "distinct (map snd extensionNames)" "distinct (map snd cipherNames)"
  by (rule distinct_by_digest, code_simp)+

text \<open>Every registered name is parsed to its identifier.\<close>

lemma parse_names:
  "list_all (\<lambda>(i, n). n \<noteq> [] \<and> ParseVersionName n = Some i) versionNames"
  "list_all (\<lambda>(i, n). n \<noteq> [] \<and> ParseGroupName n = Some i) groupNames"
  "list_all (\<lambda>(i, n). n \<noteq> [] \<and> ParseHTTP2SettingName n = Some i) h2SettingNames"
  "list_all (\<lambda>(i, n). n \<noteq> [] \<and> ParseSigAlgName n = Some i) sigAlgNames"
  by code_simp+

lemma plain_extension_names:
  "list_all (\<lambda>(i, n). n \<noteq> [] \<and> ToLower (TrimSpace n) = n \<and> parseNumericID n = None
      \<and> resolve_alias extensionAliases n = n) extensionNames"
  by code_simp

lemma plain_cipher_names:
  "list_all (\<lambda>(i, n). n \<noteq> [] \<and> ToUpper (TrimSpace n) = n \<and> parseNumericID n = None) cipherNames"
  by code_simp

lemma ParseExtension_known: "(i, n) \<in> set extensionNames \<Longrightarrow> ParseExtension n = Some i"
  using plain_extension_names id_of_name_eq [OF distinct_names(5)]
  by (fastforce simp: list_all_iff ParseExtension_def)

lemma ParseCipherSuite_known: "(i, n) \<in> set cipherNames \<Longrightarrow> ParseCipherSuite n = Some i"
  using plain_cipher_names id_of_name_eq [OF distinct_names(6)]
  by (fastforce simp: list_all_iff ParseCipherSuite_def)

lemma names_nonempty:
  "(i, []) \<notin> set versionNames" "(i, []) \<notin> set groupNames" "(i, []) \<notin> set h2SettingNames"
  "(i, []) \<notin> set sigAlgNames" "(i, []) \<notin> set extensionNames" "(i, []) \<notin> set cipherNames"
  using parse_names plain_extension_names plain_cipher_names by (fastforce simp: list_all_iff)+

subsection \<open>The registries meet the contract\<close>

lemma strip_paren_hex_numeric: "0 \<le> n \<Longrightarrow> strip_paren_hex (''0x'' @ hex4 n) = ''0x'' @ hex4 n"
proof -
  assume n: "0 \<le> n"
  have no: "CHR ''('' \<notin> set s \<Longrightarrow> str_index s ''(0x'' = None" for s
  proof (induction s)
    case Nil
    then show ?case by (subst str_index.simps) simp
  next
    case (Cons c cs)
    then show ?case by (subst str_index.simps) auto
  qed
  have "CHR ''('' \<noteq> digit_char d" if "0 \<le> d" "d < 16" for d
    using that digit_of_digit_char [of d] by (auto simp: digit_of_def dest!: arg_cong [where f = digit_of])
  then have "CHR ''('' \<notin> set (''0x'' @ hex4 n)"
    using hex4_digit_char [OF n] by auto
  from no [OF this] show ?thesis by (simp add: strip_paren_hex_def)
qed

lemma parse_hex_display:
  "ParseExtension (''0x'' @ hex4 (uint v)) = Some v"
  "ParseGroupName (''0x'' @ hex4 (uint v)) = Some v"
  "ParseSigAlgName (''0x'' @ hex4 (uint v)) = Some v"
  by (simp_all only: ParseExtension_def ParseGroupName_def ParseSigAlgName_def numeric_display
      strip_paren_hex_numeric uint_ge_0 Let_def parseNumericID_display) simp_all

lemma ParseVersionName_hex: "ParseVersionName (''0x'' @ hex4 (uint v)) = Some v"
proof -
  have "map_of [(''1.3'', VersionTLS13), (''1.2'', VersionTLS12), (''1.1'', VersionTLS11),
      (''1.0'', VersionTLS10), (''3.0'', VersionSSL30)] (''0x'' @ hex4 (uint v)) = None"
    by simp
  then show ?thesis
    by (simp only: ParseVersionName_def numeric_display uint_ge_0 Let_def parseNumericID_display)
      simp
qed

lemma ParseCipherSuite_hex: "ParseCipherSuite (''0x'' @ hex4 (uint v)) = Some v"
proof -
  have "parseNumericID (ToUpper (''0x'' @ hex4 (uint v))) = Some v"
    by (rule parseNumericID_hex4)
      (simp only: TrimSpace_ToUpper ToLower_ToUpper numeric_display uint_ge_0)
  then show ?thesis
    by (simp only: ParseCipherSuite_def numeric_display uint_ge_0 Let_def) simp
qed

lemma ParseHTTP2SettingName_unknown:
  "ParseHTTP2SettingName (''UNKNOWN_SETTING_'' @ Itoa (uint v)) = Some v"
proof -
  let ?p = "''UNKNOWN_SETTING_''"
  have "TrimSpace (?p @ Itoa (uint v)) = ?p @ Itoa (uint v)"
    by (rule TrimSpace_no_space) (auto dest: Itoa_chars(1) [OF uint_ge_0] simp: is_space_def)
  moreover have "ToUpper (?p @ Itoa (uint v)) = ?p @ Itoa (uint v)"
    by (simp only: ToUpper_append Itoa_ToUpper uint_ge_0) (simp add: ToUpper_def upper_char_def)
  moreover have "ParseUint (?p @ Itoa (uint v)) 10 16 = None"
    by (simp add: ParseUint_def digit_of_def)
  moreover have "ParseUint (Itoa (uint v)) 10 16 = Some (uint v)"
    using uint_lt2p [of v] by (intro ParseUint_Itoa) simp_all
  ultimately show ?thesis
    by (simp only: ParseHTTP2SettingName_def Let_def) simp
qed

lemmas parse_numeric =
  parse_hex_display ParseVersionName_hex ParseCipherSuite_hex ParseHTTP2SettingName_unknown

lemmas display_defs =
  VersionDisplay_def GroupDisplay_def HTTP2SettingDisplay_def SigAlgDisplay_def
  ExtensionDisplay_def CipherSuiteDisplay_def

interpretation versions: name_registry versionNames ParseVersionName VersionDisplay "\<lambda>_. True"
  using parse_names(1) names_nonempty(1) distinct_ids(1) distinct_names(1)
  by unfold_locales (auto simp: list_all_iff display_defs name_of_known name_of_unknown
      parse_numeric [simplified])

interpretation groups: name_registry groupNames ParseGroupName GroupDisplay "\<lambda>i. \<not> IsGrease i"
  using parse_names(2) names_nonempty(2) distinct_ids(2) distinct_names(2)
  by unfold_locales (auto simp: list_all_iff display_defs name_of_known name_of_unknown
      parse_numeric [simplified])

interpretation h2settings: name_registry h2SettingNames ParseHTTP2SettingName HTTP2SettingDisplay
    "\<lambda>i. \<not> IsGrease i"
  using parse_names(3) names_nonempty(3) distinct_ids(3) distinct_names(3)
  by unfold_locales (auto simp: list_all_iff display_defs name_of_known name_of_unknown
      parse_numeric [simplified])

interpretation sigalgs: name_registry sigAlgNames ParseSigAlgName SigAlgDisplay "\<lambda>_. True"
  using parse_names(4) names_nonempty(4) distinct_ids(4) distinct_names(4)
  by unfold_locales (auto simp: list_all_iff display_defs name_of_known name_of_unknown
      parse_numeric [simplified])

interpretation extensions: name_registry extensionNames ParseExtension ExtensionDisplay
    "\<lambda>i. \<not> IsGrease i"
  using ParseExtension_known names_nonempty(5) distinct_ids(5) distinct_names(5)
  by unfold_locales (auto simp: display_defs name_of_known name_of_unknown
      parse_numeric [simplified])

interpretation ciphers: name_registry cipherNames ParseCipherSuite CipherSuiteDisplay
    "\<lambda>i. \<not> IsGrease i"
  using ParseCipherSuite_known names_nonempty(6) distinct_ids(6) distinct_names(6)
  by unfold_locales (auto simp: display_defs name_of_known name_of_unknown
      parse_numeric [simplified])

section \<open>Properties\<close>

text \<open>The bit test \<open>IsGrease\<close> accepts exactly the sixteen values of the RFC 8701 table,
  and \<open>NextGrease\<close> draws exactly those: every byte read gives a GREASE value, every GREASE
  value is given by some byte, and a failed read gives none.
\<close>

theorem IsGrease_table:
  "IsGrease v = (v \<in> set greaseTable)
   \<and> IsGrease v = (\<exists>b. NextGrease (Some b) = Some v)
   \<and> NextGrease None = None"
  using IsGrease_iff_greaseTable NextGrease_IsGrease NextGrease_surj
  by (auto simp: NextGrease_def [of None])

text \<open>In all six registries the parser inverts the display function: what is printed for an
  identifier, its name or its number, is parsed back to it. GREASE identifiers of the four
  registries that print them as \<open>GREASE(...)\<close> are excluded.
\<close>

theorem display_parse_roundtrip:
  "ParseVersionName (VersionDisplay v) = Some v
   \<and> ParseSigAlgName (SigAlgDisplay v) = Some v
   \<and> (\<not> IsGrease v \<longrightarrow>
        ParseExtension (ExtensionDisplay v) = Some v
        \<and> ParseCipherSuite (CipherSuiteDisplay v) = Some v
        \<and> ParseGroupName (GroupDisplay v) = Some v
        \<and> ParseHTTP2SettingName (HTTP2SettingDisplay v) = Some v)"
  by (simp add: versions.parse_display sigalgs.parse_display extensions.parse_display
      ciphers.parse_display groups.parse_display h2settings.parse_display)

theorem display_parse_roundtrip_witness:
  "\<not> IsGrease 0x1301 \<and> CipherSuiteDisplay 0x1301 = ''TLS_AES_128_GCM_SHA256''
   \<and> ParseCipherSuite ''TLS_AES_128_GCM_SHA256'' = Some 0x1301"
proof -
  have g: "\<not> IsGrease 0x1301" by code_simp
  have d: "CipherSuiteDisplay 0x1301 = ''TLS_AES_128_GCM_SHA256''" by code_simp
  show ?thesis using g d display_parse_roundtrip [of "0x1301"] by simp
qed

end
