(* ===== verification/Profile.thy ===== *)
theory Profile
  imports Iana
begin

text \<open>
  The semantic fingerprint model of the root package: the structs of \<open>profile.go\<close> as
  records and the validation of \<open>validate.go\<close>. A nil pointer is \<open>None\<close>, an absent slice the
  empty list, a Go \<open>error\<close> result an option whose \<open>None\<close> is nil; the sentinel errors are a
  datatype and the context that \<open>fmt.Errorf\<close> wraps around them is dropped, as \<open>errors.Is\<close>
  does. Go maps are association lists.
\<close>

section \<open>The data model\<close>

record TLSProfile =
  p_LegacyVersion :: u16
  p_CipherSuites :: "u16 list"
  p_Extensions :: "u16 list"
  p_SupportedGroups :: "u16 list"
  p_ECFormats :: bytes
  p_SupportedVersions :: "u16 list"
  p_SignatureAlgorithms :: "u16 list"
  p_SignatureAlgorithmsCert :: "u16 list"
  p_PSKKeyExchangeModes :: bytes
  p_CertCompression :: "u16 list"
  p_DelegatedCredentials :: "u16 list"
  p_RecordSizeLimit :: u16
  p_RandomGrease :: bool
  p_DisableGrease :: bool
  p_ExtraExtensions :: "(u16 \<times> bytes) list"
  p_JA3 :: string

record HTTP2Setting =
  s_ID :: u16
  s_Value :: u32

record H2Priority =
  StreamDep :: u32
  Exclusive :: bool
  Weight :: byte

record H2PriorityFrame =
  f_StreamID :: u32
  f_Priority :: H2Priority

record HTTP2Profile =
  h_Settings :: "HTTP2Setting list"
  h_SettingsAck :: bool
  h_WindowUpdate :: u32
  h_HeadersStreamID :: u32
  h_PseudoHeaderOrder :: "string list"
  h_HeaderPriority :: "H2Priority option"
  h_PriorityFrames :: "H2PriorityFrame list"

record HeaderProfile =
  hd_Order :: "string list"
  hd_Values :: "(string \<times> string) list"

record Profile =
  TLS :: TLSProfile
  HTTP2 :: "HTTP2Profile option"
  Headers :: "HeaderProfile option"

text \<open>The zero value of \<open>TLSProfile\<close>.\<close>

definition empty_TLSProfile :: TLSProfile where
  "empty_TLSProfile =
     \<lparr>p_LegacyVersion = 0, p_CipherSuites = [], p_Extensions = [], p_SupportedGroups = [],
      p_ECFormats = [], p_SupportedVersions = [], p_SignatureAlgorithms = [],
      p_SignatureAlgorithmsCert = [], p_PSKKeyExchangeModes = [], p_CertCompression = [],
      p_DelegatedCredentials = [], p_RecordSizeLimit = 0, p_RandomGrease = False,
      p_DisableGrease = False, p_ExtraExtensions = [], p_JA3 = []\<rparr>"

definition UserAgent :: "HeaderProfile option \<Rightarrow> string" where
  "UserAgent h =
     (case h of
        None \<Rightarrow> []
      | Some hp \<Rightarrow> (case map_of (hd_Values hp) ''user-agent'' of
          Some v \<Rightarrow> v
        | None \<Rightarrow> (case map_of (hd_Values hp) ''User-Agent'' of Some v \<Rightarrow> v | None \<Rightarrow> [])))"

section \<open>Validation\<close>

datatype profile_error =
    ErrEmptyCipherList
  | ErrEmptyExtensionList
  | ErrDuplicateID
  | ErrInvalidPseudoOrder
  | ErrEmptyHeaderName

text \<open>Sequencing \<open>if err := f(); err != nil { return err }\<close>.\<close>

definition first_error :: "'e option \<Rightarrow> 'e option \<Rightarrow> 'e option" where
  "first_error a b = (case a of Some e \<Rightarrow> Some e | None \<Rightarrow> b)"

lemma first_error_None [simp]: "first_error a b = None \<longleftrightarrow> a = None \<and> b = None"
  by (cases a) (simp_all add: first_error_def)

lemma first_error_simps [simp]:
  "first_error None b = b"
  "first_error (Some e) b = Some e"
  by (simp_all add: first_error_def)

fun checkUnique_loop :: "u16 set \<Rightarrow> u16 list \<Rightarrow> profile_error option" where
  "checkUnique_loop seen [] = None"
| "checkUnique_loop seen (i # ids) =
     (if i \<in> seen then Some ErrDuplicateID else checkUnique_loop (insert i seen) ids)"

definition checkUnique :: "u16 list \<Rightarrow> profile_error option" where
  "checkUnique list = checkUnique_loop {} list"

definition TLSProfile_Validate :: "TLSProfile option \<Rightarrow> profile_error option" where
  "TLSProfile_Validate tp =
     (case tp of
        None \<Rightarrow> None
      | Some t \<Rightarrow>
          first_error (checkUnique (p_CipherSuites t))
          (first_error (checkUnique (p_Extensions t))
          (first_error (checkUnique (p_SupportedGroups t))
          (first_error (checkUnique (p_SupportedVersions t))
          (if length (p_CipherSuites t) = 0 \<and> length (p_Extensions t) > 0
           then Some ErrEmptyCipherList
           else if length (p_Extensions t) = 0
             \<and> (length (p_SupportedVersions t) > 0 \<or> length (p_SupportedGroups t) > 0)
           then Some ErrEmptyExtensionList
           else None)))))"

definition ValidateStrict :: "TLSProfile \<Rightarrow> profile_error option" where
  "ValidateStrict t =
     first_error (TLSProfile_Validate (Some t))
     (if length (p_CipherSuites t) = 0 then Some ErrEmptyCipherList
      else if length (p_Extensions t) = 0 then Some ErrEmptyExtensionList
      else None)"

fun settings_loop :: "u16 set \<Rightarrow> HTTP2Setting list \<Rightarrow> profile_error option" where
  "settings_loop seen [] = None"
| "settings_loop seen (s # ss) =
     (if s_ID s \<in> seen then Some ErrDuplicateID else settings_loop (insert (s_ID s) seen) ss)"

definition standard_pseudo :: "string list" where
  "standard_pseudo = ['':method'', '':authority'', '':scheme'', '':path'']"

fun pseudo_loop :: "string set \<Rightarrow> string list \<Rightarrow> profile_error option" where
  "pseudo_loop seenP [] = None"
| "pseudo_loop seenP (ph # phs) =
     (let lower = ToLower ph in
      if lower \<notin> set standard_pseudo then Some ErrInvalidPseudoOrder
      else if lower \<in> seenP then Some ErrInvalidPseudoOrder
      else pseudo_loop (insert lower seenP) phs)"

definition HTTP2Profile_Validate :: "HTTP2Profile option \<Rightarrow> profile_error option" where
  "HTTP2Profile_Validate hp =
     (case hp of
        None \<Rightarrow> None
      | Some h \<Rightarrow> first_error (settings_loop {} (h_Settings h)) (pseudo_loop {} (h_PseudoHeaderOrder h)))"

text \<open>\<open>strings.ToUpper(p[:1]) + p[1:]\<close> on a non-empty dash-part.\<close>

definition capitalize :: "string \<Rightarrow> string" where
  "capitalize p = (if p = [] then p else ToUpper (take 1 p) @ drop 1 p)"

definition canonicalHeader :: "string \<Rightarrow> string" where
  "canonicalHeader name =
     (let n = ToLower (TrimSpace name) in
      if n = [] then n else join ''-'' (map capitalize (split_on (CHR ''-'') n)))"

fun header_order_loop :: "string set \<Rightarrow> string list \<Rightarrow> profile_error option" where
  "header_order_loop seen [] = None"
| "header_order_loop seen (name # names) =
     (let canon = canonicalHeader name in
      if canon \<in> seen then Some ErrDuplicateID
      else header_order_loop (insert canon seen) names)"

fun header_values_loop :: "(string \<times> string) list \<Rightarrow> profile_error option" where
  "header_values_loop [] = None"
| "header_values_loop ((name, v) # kvs) =
     (if TrimSpace name = [] then Some ErrEmptyHeaderName else header_values_loop kvs)"

definition HeaderProfile_validate :: "HeaderProfile option \<Rightarrow> profile_error option" where
  "HeaderProfile_validate hp =
     (case hp of
        None \<Rightarrow> None
      | Some h \<Rightarrow> first_error (header_order_loop {} (hd_Order h)) (header_values_loop (hd_Values h)))"

definition Profile_Validate :: "Profile option \<Rightarrow> profile_error option" where
  "Profile_Validate pp =
     (case pp of
        None \<Rightarrow> None
      | Some p \<Rightarrow>
          first_error (TLSProfile_Validate (Some (TLS p)))
          (first_error (if HTTP2 p \<noteq> None then HTTP2Profile_Validate (HTTP2 p) else None)
          (if Headers p \<noteq> None then HeaderProfile_validate (Headers p) else None)))"

section \<open>Extension lookup\<close>

fun HasExtension_loop :: "u16 list \<Rightarrow> u16 \<Rightarrow> bool" where
  "HasExtension_loop [] i = False"
| "HasExtension_loop (e # es) i = (if e = i then True else HasExtension_loop es i)"

definition HasExtension :: "TLSProfile \<Rightarrow> u16 \<Rightarrow> bool" where
  "HasExtension t i = HasExtension_loop (p_Extensions t) i"

fun ExtensionIndex_loop :: "int \<Rightarrow> u16 list \<Rightarrow> u16 \<Rightarrow> int" where
  "ExtensionIndex_loop k [] i = -1"
| "ExtensionIndex_loop k (e # es) i = (if e = i then k else ExtensionIndex_loop (k + 1) es i)"

definition ExtensionIndex :: "TLSProfile \<Rightarrow> u16 \<Rightarrow> int" where
  "ExtensionIndex t i = ExtensionIndex_loop 0 (p_Extensions t) i"

section \<open>The abstract specification of a well-formed profile\<close>

definition wf_tls :: "TLSProfile \<Rightarrow> bool" where
  "wf_tls t \<longleftrightarrow>
     distinct (p_CipherSuites t) \<and> distinct (p_Extensions t)
     \<and> distinct (p_SupportedGroups t) \<and> distinct (p_SupportedVersions t)
     \<and> (p_Extensions t \<noteq> [] \<longrightarrow> p_CipherSuites t \<noteq> [])
     \<and> (p_SupportedVersions t \<noteq> [] \<or> p_SupportedGroups t \<noteq> [] \<longrightarrow> p_Extensions t \<noteq> [])"

definition wf_http2 :: "HTTP2Profile \<Rightarrow> bool" where
  "wf_http2 h \<longleftrightarrow>
     distinct (map s_ID (h_Settings h))
     \<and> distinct (map ToLower (h_PseudoHeaderOrder h))
     \<and> set (map ToLower (h_PseudoHeaderOrder h)) \<subseteq> set standard_pseudo"

definition wf_headers :: "HeaderProfile \<Rightarrow> bool" where
  "wf_headers h \<longleftrightarrow>
     distinct (map (\<lambda>n. ToLower (TrimSpace n)) (hd_Order h))
     \<and> (\<forall>n \<in> fst ` set (hd_Values h). TrimSpace n \<noteq> [])"

definition wf_profile :: "Profile \<Rightarrow> bool" where
  "wf_profile p \<longleftrightarrow>
     wf_tls (TLS p)
     \<and> (case HTTP2 p of None \<Rightarrow> True | Some h \<Rightarrow> wf_http2 h)
     \<and> (case Headers p of None \<Rightarrow> True | Some h \<Rightarrow> wf_headers h)"

section \<open>The loops decide the specification\<close>

lemma checkUnique_loop_None:
  "checkUnique_loop seen ids = None \<longleftrightarrow> distinct ids \<and> set ids \<inter> seen = {}"
  by (induction seen ids rule: checkUnique_loop.induct) auto

lemma checkUnique_None [simp]: "checkUnique ids = None \<longleftrightarrow> distinct ids"
  by (simp add: checkUnique_def checkUnique_loop_None)

lemma checkUnique_loop_Some: "checkUnique_loop seen ids = Some e \<Longrightarrow> e = ErrDuplicateID"
  by (induction seen ids rule: checkUnique_loop.induct) (auto split: if_splits)

lemma checkUnique_eq: "checkUnique ids = (if distinct ids then None else Some ErrDuplicateID)"
  using checkUnique_None [of ids] checkUnique_loop_Some [of "{}" ids]
  by (cases "checkUnique ids") (auto simp: checkUnique_def)

lemma settings_loop_None:
  "settings_loop seen ss = None \<longleftrightarrow> distinct (map s_ID ss) \<and> s_ID ` set ss \<inter> seen = {}"
  by (induction seen ss rule: settings_loop.induct) auto

lemma pseudo_loop_None:
  "pseudo_loop seen phs = None \<longleftrightarrow>
     distinct (map ToLower phs) \<and> ToLower ` set phs \<subseteq> set standard_pseudo \<and> ToLower ` set phs \<inter> seen = {}"
  by (induction seen phs rule: pseudo_loop.induct) (auto simp: Let_def)

lemma header_values_loop_None:
  "header_values_loop kvs = None \<longleftrightarrow> (\<forall>n \<in> fst ` set kvs. TrimSpace n \<noteq> [])"
  by (induction kvs rule: header_values_loop.induct) auto

lemma ToLower_capitalize: "ToLower (capitalize p) = ToLower p"
  by (cases p) (simp_all add: capitalize_def ToLower_def ToUpper_def)

lemma ToLower_join: "ToLower (join sep xs) = join (ToLower sep) (map ToLower xs)"
  by (induction sep xs rule: join.induct) (simp_all add: ToLower_def)

lemma ToLower_split_on:
  "\<forall>y \<in> set (split_on c (ToLower s)). ToLower y = y"
  if "lower_char c = c"
proof (induction s)
  case Nil
  then show ?case by (simp add: ToLower_def)
next
  case (Cons x s)
  then show ?case
    by (cases "split_on c (ToLower s)") (auto simp: ToLower_def)
qed

text \<open>The canonical form determines the lower-case form and is determined by it.\<close>

lemma ToLower_canonicalHeader: "ToLower (canonicalHeader name) = ToLower (TrimSpace name)"
proof -
  define n where "n = ToLower (TrimSpace name)"
  have "map ToLower (split_on (CHR ''-'') n) = split_on (CHR ''-'') n"
    unfolding n_def using ToLower_split_on [of "CHR ''-''" "TrimSpace name"]
    by (intro map_idI) (simp add: lower_char_def)
  moreover have "ToLower ''-'' = ''-''" by (simp add: ToLower_def lower_char_def)
  ultimately have "ToLower (join ''-'' (map capitalize (split_on (CHR ''-'') n))) = n"
    by (simp add: ToLower_join ToLower_capitalize comp_def join_split_on)
  then show ?thesis
    by (simp add: canonicalHeader_def Let_def n_def)
qed

lemma canonicalHeader_eq_iff:
  "canonicalHeader a = canonicalHeader b \<longleftrightarrow> ToLower (TrimSpace a) = ToLower (TrimSpace b)"
  by (metis ToLower_canonicalHeader canonicalHeader_def)

lemma header_order_loop_None:
  "header_order_loop seen names = None \<longleftrightarrow>
     distinct (map canonicalHeader names) \<and> canonicalHeader ` set names \<inter> seen = {}"
  by (induction seen names rule: header_order_loop.induct) (auto simp: Let_def)

lemma distinct_canonicalHeader:
  "distinct (map canonicalHeader names) = distinct (map (\<lambda>n. ToLower (TrimSpace n)) names)"
  by (simp add: distinct_map inj_on_def canonicalHeader_eq_iff)

lemma TLSProfile_Validate_None: "TLSProfile_Validate (Some t) = None \<longleftrightarrow> wf_tls t"
  by (auto simp: TLSProfile_Validate_def wf_tls_def)

lemma HTTP2Profile_Validate_None: "HTTP2Profile_Validate (Some h) = None \<longleftrightarrow> wf_http2 h"
  by (auto simp: HTTP2Profile_Validate_def wf_http2_def settings_loop_None pseudo_loop_None)

lemma HeaderProfile_validate_None: "HeaderProfile_validate (Some h) = None \<longleftrightarrow> wf_headers h"
  by (auto simp: HeaderProfile_validate_def wf_headers_def header_order_loop_None
      header_values_loop_None distinct_canonicalHeader)

lemma HasExtension_loop_iff: "HasExtension_loop es i \<longleftrightarrow> i \<in> set es"
  by (induction es) auto

lemma ExtensionIndex_loop_spec:
  "ExtensionIndex_loop k es i =
     (if i \<in> set es then k + int (length (takeWhile (\<lambda>e. e \<noteq> i) es)) else -1)"
  by (induction es arbitrary: k) auto

section \<open>Properties\<close>


text \<open>\<open>TLSProfile.ValidateStrict\<close> accepts exactly the well-formed TLS profiles that
  describe a ClientHello, and names the error of every rejected profile: a duplicate first,
  then a missing cipher list, then a missing extension list.
\<close>

theorem ValidateStrict_correct:
  "ValidateStrict t =
     (if \<not> (distinct (p_CipherSuites t) \<and> distinct (p_Extensions t)
            \<and> distinct (p_SupportedGroups t) \<and> distinct (p_SupportedVersions t))
      then Some ErrDuplicateID
      else if p_CipherSuites t = [] \<and> p_Extensions t \<noteq> [] then Some ErrEmptyCipherList
      else if p_Extensions t = [] \<and> \<not> (p_SupportedVersions t = [] \<and> p_SupportedGroups t = [])
      then Some ErrEmptyExtensionList
      else if p_CipherSuites t = [] then Some ErrEmptyCipherList
      else if p_Extensions t = [] then Some ErrEmptyExtensionList
      else None)"
  by (auto simp: ValidateStrict_def TLSProfile_Validate_def checkUnique_eq)

end
