(* ===== verification/Hello.thy ===== *)
theory Hello
  imports Profile
begin

text \<open>
  The package \<open>hello\<close>, part one: the ClientHello message (\<open>model.go\<close>), its parser
  (\<open>parse.go\<close>) and its serializer (\<open>build.go\<close>). A Go \<open>int\<close> length is a \<open>nat\<close>; the
  conversions \<open>byte(n)\<close> and \<open>uint16(n)\<close> are the truncating \<open>of_nat\<close>. The sentinel errors of
  \<open>parse.go\<close> are kept, the context wrapped around them is dropped.
\<close>

section \<open>The message\<close>

record Extension =
  Type :: u16
  Data :: bytes

record ClientHello =
  LegacyVersion :: u16
  Random :: bytes
  SessionID :: bytes
  CipherSuites :: "u16 list"
  CompressionMethods :: bytes
  Extensions :: "Extension list"

abbreviation (input) recordTypeHandshake :: byte where "recordTypeHandshake \<equiv> 0x16"
abbreviation (input) handshakeTypeClientHello :: byte where "handshakeTypeClientHello \<equiv> 0x01"
abbreviation (input) maxRecordPlain :: nat where "maxRecordPlain \<equiv> 16384"

fun find_ext :: "Extension list \<Rightarrow> u16 \<Rightarrow> Extension option" where
  "find_ext [] typ = None"
| "find_ext (e # es) typ = (if Type e = typ then Some e else find_ext es typ)"

definition FindExtension :: "ClientHello \<Rightarrow> u16 \<Rightarrow> Extension option" where
  "FindExtension c typ = find_ext (Extensions c) typ"

definition GreaseCount :: "ClientHello \<Rightarrow> nat" where
  "GreaseCount c =
     length (filter IsGrease (CipherSuites c)) + length (filter (\<lambda>e. IsGrease (Type e)) (Extensions c))"

section \<open>Parsing\<close>

datatype hello_error = ErrShortData | ErrBadRecordType | ErrBadHandshakeType | ErrMalformed

definition takeU8 :: "bytes \<Rightarrow> hello_error + (byte \<times> bytes)" where
  "takeU8 b = (case b of [] \<Rightarrow> Inl ErrShortData | v # rest \<Rightarrow> Inr (v, rest))"

definition takeU16 :: "bytes \<Rightarrow> hello_error + (u16 \<times> bytes)" where
  "takeU16 b =
     (if length b < 2 then Inl ErrShortData else Inr (be16 (b ! 0) (b ! 1), drop 2 b))"

definition takeBytes :: "bytes \<Rightarrow> nat \<Rightarrow> hello_error + (bytes \<times> bytes)" where
  "takeBytes b n = (if length b < n then Inl ErrShortData else Inr (take n b, drop n b))"

text \<open>One round of the extension loop of \<open>ParseBody\<close>.\<close>

definition parseExtension :: "bytes \<Rightarrow> hello_error + (Extension \<times> bytes)" where
  "parseExtension raw =
     (if length raw < 4 then Inl ErrMalformed
      else let typ = be16 (raw ! 0) (raw ! 1); el = unat (be16 (raw ! 2) (raw ! 3)) in
        bind_res (takeBytes (drop 4 raw) el) (\<lambda>(body, rest). Inr (\<lparr>Type = typ, Data = body\<rparr>, rest)))"

lemma takeBytes_Inr: "takeBytes b n = Inr (x, rest) \<longleftrightarrow> b = x @ rest \<and> length x = n"
  by (auto simp: takeBytes_def split: if_splits)

lemma parseExtension_shorter: "parseExtension raw = Inr (e, rest) \<Longrightarrow> length rest < length raw"
  by (auto simp: parseExtension_def takeBytes_def Let_def split: if_splits)

function parseExtensions :: "bytes \<Rightarrow> hello_error + Extension list" where
  "parseExtensions raw =
     (if length raw > 0
      then bind_res (parseExtension raw) (\<lambda>(e, rest). map_res ((#) e) (parseExtensions rest))
      else Inr [])"
  by pat_completeness auto
termination
  by (relation "measure length") (auto dest: parseExtension_shorter)

declare parseExtensions.simps [simp del]

definition ParseBody :: "bytes \<Rightarrow> hello_error + ClientHello" where
  "ParseBody body =
     (if length body < 2 + 32 then Inl ErrShortData
      else
        bind_res (takeU8 (drop 34 body)) (\<lambda>(sidLen, rest).
        bind_res (takeBytes rest (unat sidLen)) (\<lambda>(sid, rest).
        bind_res (takeU16 rest) (\<lambda>(csLen, rest).
        if unat csLen mod 2 \<noteq> 0 then Inl ErrMalformed
        else
        bind_res (takeBytes rest (unat csLen)) (\<lambda>(rawCS, rest).
        bind_res (takeU8 rest) (\<lambda>(cmLen, rest).
        bind_res (takeBytes rest (unat cmLen)) (\<lambda>(cm, rest).
        let ch = \<lparr>LegacyVersion = be16 (body ! 0) (body ! 1),
                  Random = take 32 (drop 2 body),
                  SessionID = sid,
                  CipherSuites = index_u16s rawCS (unat csLen div 2),
                  CompressionMethods = cm,
                  Extensions = []\<rparr>
        in if length rest = 0 then Inr ch
           else
           bind_res (takeU16 rest) (\<lambda>(extLen, rest).
           bind_res (takeBytes rest (unat extLen)) (\<lambda>(rawExt, rest).
           map_res (\<lambda>exts. ch\<lparr>Extensions := exts\<rparr>) (parseExtensions rawExt))))))))))"

definition ParseHandshake :: "bytes \<Rightarrow> hello_error + (ClientHello \<times> nat)" where
  "ParseHandshake data =
     (if length data < 4 then Inl ErrShortData
      else if data ! 0 \<noteq> handshakeTypeClientHello then Inl ErrBadHandshakeType
      else let len = be24 (data ! 1) (data ! 2) (data ! 3) in
        if length data < 4 + len then Inl ErrShortData
        else map_res (\<lambda>ch. (ch, len)) (ParseBody (take len (drop 4 data))))"

definition ParseRecord :: "bytes \<Rightarrow> hello_error + (ClientHello \<times> u16)" where
  "ParseRecord data =
     (if length data < 5 then Inl ErrShortData
      else if data ! 0 \<noteq> recordTypeHandshake then Inl ErrBadRecordType
      else let version = be16 (data ! 1) (data ! 2); len = unat (be16 (data ! 3) (data ! 4)) in
        if length data < 5 + len then Inl ErrShortData
        else map_res (\<lambda>(ch, _). (ch, version)) (ParseHandshake (take len (drop 5 data))))"

definition looksLikeHandshake :: "bytes \<Rightarrow> bool" where
  "looksLikeHandshake data =
     (if length data < 4 \<or> data ! 0 > 0x1f then False
      else be24 (data ! 1) (data ! 2) (data ! 3) = length data - 4)"

text \<open>
  \<open>Parse\<close> returns a nil message whenever it returns an error, also in the branches where
  it calls a parser only for its error; that a call made for its error never succeeds is
  lemma \<open>Parse_total\<close>.
\<close>

definition Parse :: "bytes \<Rightarrow> hello_error + ClientHello option" where
  "Parse data =
     (case data of
        [] \<Rightarrow> Inl ErrShortData
      | b # _ \<Rightarrow>
          if b = recordTypeHandshake then map_res (\<lambda>(ch, _). Some ch) (ParseRecord data)
          else if b = 0x14 \<or> b = 0x15 \<or> b = 0x17 then map_res (\<lambda>_. None) (ParseRecord data)
          else if b = handshakeTypeClientHello then map_res (\<lambda>(ch, _). Some ch) (ParseHandshake data)
          else if looksLikeHandshake data then map_res (\<lambda>_. None) (ParseHandshake data)
          else map_res Some (ParseBody data))"

section \<open>Building\<close>

datatype build_error =
    RandomNot32Bytes
  | SessionIDTooLong
  | NoCipherSuites
  | TooManyCipherSuites
  | TooManyCompressionMethods
  | ExtensionsTooLarge
  | RecordTooLarge

fun extBytesLen :: "Extension list \<Rightarrow> nat" where
  "extBytesLen [] = 0"
| "extBytesLen (e # es) = 4 + length (Data e) + extBytesLen es"

text \<open>One round of the extension loop of \<open>MarshalBody\<close>.\<close>

definition putExtension :: "Extension \<Rightarrow> bytes" where
  "putExtension e = put16 (Type e) @ put16 (of_nat (length (Data e))) @ Data e"

definition MarshalBody :: "ClientHello \<Rightarrow> build_error + bytes" where
  "MarshalBody c =
     (if length (Random c) \<noteq> 32 then Inl RandomNot32Bytes
      else if length (SessionID c) > 255 then Inl SessionIDTooLong
      else if length (CipherSuites c) = 0 then Inl NoCipherSuites
      else if length (CipherSuites c) > 0x7fff then Inl TooManyCipherSuites
      else if length (CompressionMethods c) > 255 then Inl TooManyCompressionMethods
      else if length (Extensions c) > 0 \<and> extBytesLen (Extensions c) > 0xffff then Inl ExtensionsTooLarge
      else Inr (
        put16 (LegacyVersion c) @ Random c
        @ [of_nat (length (SessionID c))] @ SessionID c
        @ put16 (of_nat (2 * length (CipherSuites c))) @ put_u16s (CipherSuites c)
        @ [of_nat (length (CompressionMethods c))] @ CompressionMethods c
        @ (if length (Extensions c) > 0
           then put16 (of_nat (extBytesLen (Extensions c))) @ concat (map putExtension (Extensions c))
           else [])))"

definition MarshalHandshake :: "ClientHello \<Rightarrow> build_error + bytes" where
  "MarshalHandshake c =
     bind_res (MarshalBody c) (\<lambda>body.
       Inr ([handshakeTypeClientHello] @ put24 (length body) @ body))"

definition MarshalRecord :: "ClientHello \<Rightarrow> u16 \<Rightarrow> build_error + bytes" where
  "MarshalRecord c recordVersion =
     bind_res (MarshalHandshake c) (\<lambda>hs.
       if length hs > maxRecordPlain then Inl RecordTooLarge
       else let v = (if recordVersion = 0 then LegacyVersion c else recordVersion) in
         Inr ([recordTypeHandshake] @ put16 v @ put16 (of_nat (length hs)) @ hs))"

fun set_ext :: "Extension list \<Rightarrow> u16 \<Rightarrow> bytes \<Rightarrow> Extension list" where
  "set_ext [] typ data = [\<lparr>Type = typ, Data = data\<rparr>]"
| "set_ext (e # es) typ data =
     (if Type e = typ then e\<lparr>Data := data\<rparr> # es else e # set_ext es typ data)"

definition SetExtension :: "ClientHello \<Rightarrow> u16 \<Rightarrow> bytes \<Rightarrow> ClientHello" where
  "SetExtension c typ data = c\<lparr>Extensions := set_ext (Extensions c) typ data\<rparr>"

definition RemoveExtensions :: "ClientHello \<Rightarrow> u16 list \<Rightarrow> ClientHello" where
  "RemoveExtensions c types = c\<lparr>Extensions := filter (\<lambda>e. Type e \<notin> set types) (Extensions c)\<rparr>"

definition EnsureLegacyVersion :: "ClientHello \<Rightarrow> ClientHello" where
  "EnsureLegacyVersion c = (if LegacyVersion c = 0 then c\<lparr>LegacyVersion := VersionTLS12\<rparr> else c)"

section \<open>Reading back what was written\<close>

lemma takeU8_Cons [simp, wire_simps]: "takeU8 (b # rest) = Inr (b, rest)"
  by (simp add: takeU8_def)

lemma takeU8_Inr: "takeU8 b = Inr (x, rest) \<longleftrightarrow> b = x # rest"
  by (cases b) (auto simp: takeU8_def)

lemma takeU16_put16 [simp, wire_simps]: "takeU16 (put16 v @ rest) = Inr (v, rest)"
  by (simp add: takeU16_def put16_def)

lemma takeU16_Inr: "takeU16 b = Inr (x, rest) \<longleftrightarrow> b = put16 x @ rest"
proof
  assume *: "takeU16 b = Inr (x, rest)"
  then have "2 \<le> length b" by (auto simp: takeU16_def split: if_splits)
  then obtain u v r where "b = u # v # r" by (rule length_ge_2E)
  with * show "b = put16 x @ rest" by (auto simp: takeU16_def)
qed simp

lemma takeBytes_append [simp, wire_simps]: "n = length x \<Longrightarrow> takeBytes (x @ rest) n = Inr (x, rest)"
  by (simp add: takeBytes_def)

text \<open>The extension codec meets the wire interfaces.\<close>

abbreviation ext_ok :: "Extension \<Rightarrow> bool" where
  "ext_ok e \<equiv> length (Data e) < 65536"

lemma parseExtension_put: "ext_ok e \<Longrightarrow> parseExtension (putExtension e @ rest) = Inr (e, rest)"
  by (simp add: parseExtension_def putExtension_def put16_def Let_def unat_of_nat_u16)

lemma parseExtension_sound:
  assumes "parseExtension raw = Inr (e, rest)"
  shows "raw = putExtension e @ rest \<and> ext_ok e"
proof -
  from assms have "4 \<le> length raw" by (auto simp: parseExtension_def split: if_splits)
  then obtain a b c d r where raw: "raw = a # b # c # d # r" by (rule length_ge_4E)
  with assms obtain body where e: "e = \<lparr>Type = be16 a b, Data = body\<rparr>"
    and r: "r = body @ rest" "length body = unat (be16 c d)"
    by (auto simp: parseExtension_def Let_def takeBytes_Inr)
  then have "put16 (of_nat (length body)) = [c, d]" by simp
  with raw e r unat_u16_less [of "be16 c d"] show ?thesis
    by (simp add: putExtension_def)
qed

interpretation ext_wire: wire_loop putExtension parseExtension ext_ok parseExtensions
proof
  fix e :: Extension and rest bs
  show "parseExtension (putExtension e @ rest) = Inr (e, rest)" if "ext_ok e"
    using that by (rule parseExtension_put)
  show "bs = putExtension e @ rest \<and> ext_ok e" if "parseExtension bs = Inr (e, rest)"
    using that by (rule parseExtension_sound)
  show "parseExtensions [] = Inr []" by (simp add: parseExtensions.simps)
  show "parseExtensions bs = bind_res (parseExtension bs) (\<lambda>(e, rest). map_res ((#) e) (parseExtensions rest))"
    if "bs \<noteq> []"
    using that by (simp add: parseExtensions.simps [of bs])
  show "putExtension e \<noteq> []" by (simp add: putExtension_def)
qed

lemma length_putExtensions: "length (concat (map putExtension es)) = extBytesLen es"
  by (induction es) (simp_all add: putExtension_def)

lemma extBytesLen_ok: "extBytesLen es \<le> 65535 \<Longrightarrow> e \<in> set es \<Longrightarrow> ext_ok e"
  by (induction es) auto

text \<open>The messages that can be written: the negation of the guards of \<open>MarshalBody\<close>.\<close>

definition wf_hello :: "ClientHello \<Rightarrow> bool" where
  "wf_hello c \<longleftrightarrow>
     length (Random c) = 32 \<and> length (SessionID c) \<le> 255
     \<and> CipherSuites c \<noteq> [] \<and> length (CipherSuites c) \<le> 32767
     \<and> length (CompressionMethods c) \<le> 255
     \<and> extBytesLen (Extensions c) \<le> 65535"

definition ext_block :: "Extension list \<Rightarrow> bytes" where
  "ext_block es =
     (if length es > 0 then put16 (of_nat (extBytesLen es)) @ concat (map putExtension es) else [])"

lemma MarshalBody_Inr:
  "MarshalBody c = Inr bs \<longleftrightarrow>
     wf_hello c
     \<and> bs = put16 (LegacyVersion c) @ Random c
        @ [of_nat (length (SessionID c))] @ SessionID c
        @ put16 (of_nat (2 * length (CipherSuites c))) @ put_u16s (CipherSuites c)
        @ [of_nat (length (CompressionMethods c))] @ CompressionMethods c
        @ ext_block (Extensions c)"
  by (cases "Extensions c") (auto simp: MarshalBody_def wf_hello_def ext_block_def)

lemma index_u16s_put_u16s [simp]: "n = length ws \<Longrightarrow> index_u16s (put_u16s ws) n = ws"
  by (simp add: index_u16s_eq)

lemma put16_nth: "be16 ((put16 v @ r) ! 0) ((put16 v @ r) ! Suc 0) = v"
  by (simp add: put16_def)

lemma ParseBody_MarshalBody:
  assumes "MarshalBody c = Inr bs"
  shows "ParseBody bs = Inr c"
proof -
  from assms have wf: "wf_hello c" and bs: "bs = put16 (LegacyVersion c) @ Random c
        @ [of_nat (length (SessionID c))] @ SessionID c
        @ put16 (of_nat (2 * length (CipherSuites c))) @ put_u16s (CipherSuites c)
        @ [of_nat (length (CompressionMethods c))] @ CompressionMethods c
        @ ext_block (Extensions c)" (is "_ = _ @ _ @ ?tail")
    by (simp_all add: MarshalBody_Inr)
  from wf have len: "length (Random c) = 32" "unat (of_nat (length (SessionID c)) :: byte) = length (SessionID c)"
    "unat (of_nat (2 * length (CipherSuites c)) :: u16) = 2 * length (CipherSuites c)"
    "unat (of_nat (length (CompressionMethods c)) :: byte) = length (CompressionMethods c)"
    "unat (of_nat (extBytesLen (Extensions c)) :: u16) = extBytesLen (Extensions c)"
    by (simp_all add: wf_hello_def unat_of_nat_byte unat_of_nat_u16 del: of_nat_mult)
  have hd: "be16 (bs ! 0) (bs ! 1) = LegacyVersion c" "take 32 (drop 2 bs) = Random c"
    "drop 34 bs = ?tail" "\<not> length bs < 2 + 32"
    unfolding bs using len(1) by (simp_all add: put16_nth)
  have exts: "parseExtensions (concat (map putExtension (Extensions c))) = Inr (Extensions c)"
    using wf by (intro ext_wire.loop_concat) (auto simp: wf_hello_def dest: extBytesLen_ok)
  have t: "n = length x \<Longrightarrow> takeBytes x n = Inr (x, [])" for x :: bytes and n
    by (simp add: takeBytes_def)
  have "ParseBody bs = Inr \<lparr>LegacyVersion = LegacyVersion c, Random = Random c, SessionID = SessionID c,
      CipherSuites = CipherSuites c, CompressionMethods = CompressionMethods c, Extensions = Extensions c\<rparr>"
  proof (cases "Extensions c")
    case Nil
    then show ?thesis
      using hd(1,4) by (simp add: ParseBody_def hd(2,3) len ext_block_def Let_def t
          del: of_nat_mult bind_res_eq_Inr)
  next
    case (Cons e es)
    then have ne: "ext_block (Extensions c) =
        put16 (of_nat (extBytesLen (Extensions c))) @ concat (map putExtension (Extensions c))"
      by (simp add: ext_block_def)
    show ?thesis
      using hd(1,4) by (simp add: ParseBody_def hd(2,3) len ne Let_def length_putExtensions t exts
          del: of_nat_mult bind_res_eq_Inr)
  qed
  then show ?thesis by simp
qed

lemma wf_hello_Marshal: "wf_hello c \<Longrightarrow> \<exists>bs. MarshalBody c = Inr bs"
  by (simp add: MarshalBody_Inr)

lemma MarshalBody_wf: "MarshalBody c = Inr bs \<Longrightarrow> wf_hello c"
  by (simp add: MarshalBody_Inr)

lemma MarshalBody_length:
  assumes "MarshalBody c = Inr bs"
  shows "length bs \<le> 131619" and "34 < length bs"
  using assms
  by (auto simp: MarshalBody_Inr wf_hello_def ext_block_def length_putExtensions)


section \<open>The framings and their detection\<close>

lemma ParseHandshake_Marshal:
  assumes "MarshalHandshake c = Inr bs"
  shows "ParseHandshake bs = Inr (c, length bs - 4)" and "hd bs = handshakeTypeClientHello"
    and "bs \<noteq> []" and "length bs < 16777216"
proof -
  from assms obtain body where body: "MarshalBody c = Inr body"
    and bs: "bs = [1] @ put24 (length body) @ body"
    by (auto simp: MarshalHandshake_def)
  have "length body < 16777216" using MarshalBody_length(1) [OF body] by simp
  with bs show "ParseHandshake bs = Inr (c, length bs - 4)" and "hd bs = handshakeTypeClientHello"
    and "bs \<noteq> []"
    by (simp_all add: ParseHandshake_def put24_def Let_def ParseBody_MarshalBody [OF body])
  show "length bs < 16777216" using MarshalBody_length(1) [OF body] bs by simp
qed

lemma ParseRecord_Marshal:
  assumes "MarshalRecord c v = Inr bs"
  shows "ParseRecord bs = Inr (c, if v = 0 then LegacyVersion c else v)"
    and "hd bs = recordTypeHandshake" and "bs \<noteq> []"
proof -
  from assms obtain hs where hs: "MarshalHandshake c = Inr hs" "length hs \<le> 16384"
    and bs: "bs = [0x16] @ put16 (if v = 0 then LegacyVersion c else v) @ put16 (of_nat (length hs)) @ hs"
    by (auto simp: MarshalRecord_def Let_def split: if_splits)
  from hs(2) bs show "ParseRecord bs = Inr (c, if v = 0 then LegacyVersion c else v)"
    and "hd bs = recordTypeHandshake" and "bs \<noteq> []"
    by (simp_all add: ParseRecord_def put16_def Let_def unat_of_nat_u16 ParseHandshake_Marshal(1) [OF hs(1)])
qed

text \<open>A message body starts with its version; the length check of \<open>looksLikeHandshake\<close> only
  matters for first bytes below \<open>0x20\<close>, and a body is too short to be mistaken for a handshake
  message whose three-byte length starts with the second version byte.\<close>

lemma not_looksLikeHandshake_body:
  assumes "MarshalBody c = Inr bs" and "unat (LegacyVersion c) mod 256 > 2"
  shows "\<not> looksLikeHandshake bs"
proof
  assume looks: "looksLikeHandshake bs"
  have l: "length bs \<le> 131619" "34 < length bs" using assms(1) by (rule MarshalBody_length)+
  then have "4 \<le> length bs" by simp
  then obtain a b x d r where bs: "bs = a # b # x # d # r" by (rule length_ge_4E)
  from assms(1) have "take 2 bs = put16 (LegacyVersion c)" by (auto simp: MarshalBody_Inr)
  with bs have "b = ucast (LegacyVersion c)" by (simp add: put16_def)
  then have "unat b = unat (LegacyVersion c) mod 256"
    by (simp add: unsigned_ucast_eq take_bit_eq_mod)
  moreover from looks bs have "be24 b x d = length bs - 4"
    by (auto simp: looksLikeHandshake_def split: if_splits)
  ultimately have "length bs - 4 \<ge> 3 * 65536" using assms(2) by (simp add: be24_eq)
  with l show False by simp
qed

text \<open>C26: \<open>Parse\<close> recognises each of the three framings of a well-formed message on its own and returns
  that message: the bare handshake message, the TLS record (when the message fits one record),
  and the unframed body when its version is \<open>0x03xx\<close> with \<open>xx\<close> at least 3, as the comment in
  \<open>Parse\<close> expects of a ClientHello body.\<close>

theorem Parse_detects_framing:
  assumes "wf_hello c"
  shows "(\<exists>bs. MarshalHandshake c = Inr bs \<and> Parse bs = Inr (Some c))
    \<and> ((\<exists>hs. MarshalHandshake c = Inr hs \<and> length hs \<le> maxRecordPlain) \<longrightarrow>
        (\<exists>bs. MarshalRecord c v = Inr bs \<and> Parse bs = Inr (Some c)
          \<and> ParseRecord bs = Inr (c, if v = 0 then LegacyVersion c else v)))
    \<and> (unat (LegacyVersion c) div 256 = 3 \<and> unat (LegacyVersion c) mod 256 > 2 \<longrightarrow>
        (\<exists>bs. MarshalBody c = Inr bs \<and> Parse bs = Inr (Some c)))"
proof (intro conjI impI)
  from assms obtain body where body: "MarshalBody c = Inr body" using wf_hello_Marshal by blast
  then obtain hs where hs: "MarshalHandshake c = Inr hs" by (simp add: MarshalHandshake_def)
  then show "\<exists>bs. MarshalHandshake c = Inr bs \<and> Parse bs = Inr (Some c)"
    using ParseHandshake_Marshal [OF hs] by (cases hs) (simp_all add: Parse_def)
  show "\<exists>bs. MarshalRecord c v = Inr bs \<and> Parse bs = Inr (Some c)
        \<and> ParseRecord bs = Inr (c, if v = 0 then LegacyVersion c else v)"
    if "\<exists>hs. MarshalHandshake c = Inr hs \<and> length hs \<le> maxRecordPlain"
  proof -
    from that obtain bs where bs: "MarshalRecord c v = Inr bs" by (auto simp: MarshalRecord_def Let_def)
    with ParseRecord_Marshal [OF bs] show ?thesis
      by (cases bs) (simp_all add: Parse_def)
  qed
  show "\<exists>bs. MarshalBody c = Inr bs \<and> Parse bs = Inr (Some c)"
    if v: "unat (LegacyVersion c) div 256 = 3 \<and> unat (LegacyVersion c) mod 256 > 2"
  proof -
    from body obtain r where r: "body = ucast (drop_bit 8 (LegacyVersion c)) # r"
      by (auto simp: MarshalBody_Inr put16_def)
    have "unat (ucast (drop_bit 8 (LegacyVersion c)) :: byte) = 3"
      using v by (simp add: unsigned_ucast_eq take_bit_eq_mod drop_bit_eq_div unat_div)
    then have "ucast (drop_bit 8 (LegacyVersion c)) = (3 :: byte)"
      by (metis of_nat_numeral of_nat_unat ucast_id)
    moreover have "\<not> looksLikeHandshake body"
      using not_looksLikeHandshake_body [OF body] v by blast
    ultimately show ?thesis
      using body ParseBody_MarshalBody [OF body] r by (auto simp: Parse_def)
  qed
qed

definition example_hello :: ClientHello where
  "example_hello = \<lparr>LegacyVersion = 0x0303, Random = replicate 32 7, SessionID = [1, 2],
     CipherSuites = [0x1301, 0x0a0a], CompressionMethods = [0],
     Extensions = [\<lparr>Type = 0x0a0a, Data = []\<rparr>, \<lparr>Type = 43, Data = [2, 3, 4]\<rparr>]\<rparr>"

lemma wf_example_hello: "wf_hello example_hello"
  by (simp add: example_hello_def wf_hello_def)

theorem Parse_detects_framing_witness:
  "(\<exists>bs. MarshalRecord example_hello 0x0301 = Inr bs \<and> Parse bs = Inr (Some example_hello)
      \<and> ParseRecord bs = Inr (example_hello, 0x0301))
   \<and> (\<exists>bs. MarshalBody example_hello = Inr bs \<and> Parse bs = Inr (Some example_hello))"
proof -
  obtain body where body: "MarshalBody example_hello = Inr body"
    using wf_example_hello wf_hello_Marshal by blast
  then have "length body \<le> 100"
    by (auto simp: MarshalBody_Inr example_hello_def ext_block_def putExtension_def)
  then have "\<exists>hs. MarshalHandshake example_hello = Inr hs \<and> length hs \<le> maxRecordPlain"
    using body by (simp add: MarshalHandshake_def)
  then show ?thesis
    using Parse_detects_framing [of example_hello "0x0301", OF wf_example_hello]
    by (simp add: example_hello_def del: bind_res_eq_Inr)
qed

text \<open>What the parser consumed, field by field, and what is left of the input.\<close>

lemma ParseBody_fields:
  assumes "ParseBody bs = Inr c"
  obtains csLen rawCS t where
    "34 \<le> length bs" "LegacyVersion c = be16 (bs ! 0) (bs ! Suc 0)" "Random c = take 32 (drop 2 bs)"
    "drop 34 bs = of_nat (length (SessionID c)) # SessionID c @ put16 csLen @ rawCS
       @ of_nat (length (CompressionMethods c)) # CompressionMethods c @ t"
    "length (SessionID c) \<le> 255" "length (CompressionMethods c) \<le> 255"
    "even (unat csLen)" "length rawCS = unat csLen" "CipherSuites c = index_u16s rawCS (unat csLen div 2)"
    "t = [] \<and> Extensions c = [] \<or>
      (\<exists>extLen raw t'. t = put16 extLen @ raw @ t' \<and> length raw = unat extLen
         \<and> parseExtensions raw = Inr (Extensions c))"
proof -
  from assms obtain a sid csLen rawCS ad cm t es where
    *: "34 \<le> length bs" "drop 34 bs = a # sid @ put16 csLen @ rawCS @ ad # cm @ t" "length sid = unat a"
      "even (unat csLen)" "length rawCS = unat csLen" "length cm = unat ad" and
    c: "c = \<lparr>LegacyVersion = be16 (bs ! 0) (bs ! Suc 0), Random = take 32 (drop 2 bs), SessionID = sid,
             CipherSuites = index_u16s rawCS (unat csLen div 2), CompressionMethods = cm,
             Extensions = es\<rparr>" and
    es: "t = [] \<and> es = [] \<or>
      (\<exists>extLen raw t'. t = put16 extLen @ raw @ t' \<and> length raw = unat extLen \<and> parseExtensions raw = Inr es)"
    by (clarsimp simp: ParseBody_def Let_def takeU8_Inr takeU16_Inr takeBytes_Inr split: if_split_asm)
      (metis append.right_neutral not_less)
  have "a = of_nat (length sid)" "ad = of_nat (length cm)" using * by (simp_all add: ucast_id)
  moreover have "length sid \<le> 255" "length cm \<le> 255"
    using unat_byte_less [of a] unat_byte_less [of ad] * by simp_all
  ultimately show thesis using * es c by (intro that [of csLen rawCS t]) simp_all
qed

text \<open>A message that \<open>ParseBody\<close> accepts is one whose fields are the bytes read: writing it again
  gives a prefix of the input (the parser ignores what follows the extension block, and an
  empty extension block). Only a message with no cipher suite, which the parser accepts and
  \<open>MarshalBody\<close> refuses, is left out.\<close>

theorem ParseBody_sound:
  assumes "ParseBody bs = Inr c" and "CipherSuites c \<noteq> []"
  shows "\<exists>bs' rest. MarshalBody c = Inr bs' \<and> bs = bs' @ rest"
proof -
  from assms(1) obtain csLen rawCS t where
    len: "34 \<le> length bs" and hd: "LegacyVersion c = be16 (bs ! 0) (bs ! Suc 0)" "Random c = take 32 (drop 2 bs)" and
    tl: "drop 34 bs = of_nat (length (SessionID c)) # SessionID c @ put16 csLen @ rawCS
       @ of_nat (length (CompressionMethods c)) # CompressionMethods c @ t" and
    le: "length (SessionID c) \<le> 255" "length (CompressionMethods c) \<le> 255" and
    cs: "even (unat csLen)" "length rawCS = unat csLen" "CipherSuites c = index_u16s rawCS (unat csLen div 2)" and
    ex: "t = [] \<and> Extensions c = [] \<or>
      (\<exists>extLen raw t'. t = put16 extLen @ raw @ t' \<and> length raw = unat extLen
         \<and> parseExtensions raw = Inr (Extensions c))"
    by (rule ParseBody_fields)
  from cs have u: "CipherSuites c = u16s rawCS" by (simp add: index_u16s_eq)
  with cs(1,2) have n: "2 * length (CipherSuites c) = unat csLen" "put_u16s (CipherSuites c) = rawCS"
    by (simp_all add: length_u16s put_u16s_u16s)
  then have csLen: "csLen = of_nat (2 * length (CipherSuites c))" by (simp add: ucast_id)
  have block: "\<exists>rest. t = ext_block (Extensions c) @ rest \<and> extBytesLen (Extensions c) \<le> 65535"
    using ex
  proof (elim disjE exE conjE)
    fix extLen raw t'
    assume t: "t = put16 extLen @ raw @ t'" "length raw = unat extLen" and p: "parseExtensions raw = Inr (Extensions c)"
    from ext_wire.loop_sound [OF p] have raw: "raw = concat (map putExtension (Extensions c))" by simp
    with t have "extBytesLen (Extensions c) = unat extLen" by (simp add: length_putExtensions)
    then show ?thesis using t raw unat_u16_less [of extLen]
      by (auto simp: ext_block_def ucast_id)
  qed (simp add: ext_block_def)
  then obtain rest where rest: "t = ext_block (Extensions c) @ rest" by blast
  have "wf_hello c"
    using len hd le n block assms(2) unat_u16_less [of csLen] by (auto simp: wf_hello_def)
  moreover have "bs = put16 (LegacyVersion c) @ Random c @ drop 34 bs"
  proof -
    from len have "2 \<le> length bs" by simp
    then obtain v0 v1 r where "bs = v0 # v1 # r" by (rule length_ge_2E)
    with hd show ?thesis by simp
  qed
  ultimately show ?thesis
    unfolding tl rest n(2) [symmetric] csLen
    by (intro exI [of _ rest] exI conjI) (rule MarshalBody_Inr [THEN iffD2], simp, simp)
qed

text \<open>The branches of \<open>Parse\<close> that call a parser only for its error always get one: \<open>Parse\<close> never
  returns a nil message without an error.\<close>

theorem Parse_never_nil: "Parse data \<noteq> Inr None"
proof (cases data)
  case (Cons b r)
  have "ParseRecord data \<noteq> Inr x" if "b \<noteq> recordTypeHandshake" for x
    using that Cons by (simp add: ParseRecord_def)
  moreover have "ParseHandshake data \<noteq> Inr x" if "b \<noteq> handshakeTypeClientHello" for x
    using that Cons by (simp add: ParseHandshake_def)
  ultimately show ?thesis using Cons by (auto simp: Parse_def split: if_splits)
qed (simp add: Parse_def)

theorem ParseBody_sound_witness:
  "\<exists>bs' rest. MarshalBody (example_hello\<lparr>Extensions := []\<rparr>) = Inr bs'
     \<and> [3, 3] @ replicate 32 7 @ [2, 1, 2, 0, 4, 0x13, 1, 10, 10, 1, 0, 0, 0] = bs' @ rest"
proof (rule ParseBody_sound)
  show "ParseBody ([3, 3] @ replicate 32 7 @ [2, 1, 2, 0, 4, 0x13, 1, 10, 10, 1, 0, 0, 0])
      = Inr (example_hello\<lparr>Extensions := []\<rparr>)"
    by code_simp
  show "CipherSuites (example_hello\<lparr>Extensions := []\<rparr>) \<noteq> []"
    by (simp add: example_hello_def)
qed

section \<open>Editing a message\<close>

lemma find_ext_set_ext:
  "map_option Data (find_ext (set_ext es typ data) t) =
     (if t = typ then Some data else map_option Data (find_ext es t))"
  by (induction es) auto

lemma set_ext_types:
  "map Type (set_ext es typ data) = map Type es @ (if typ \<in> Type ` set es then [] else [typ])"
  by (induction es) auto

lemma find_ext_filter:
  "find_ext (filter (\<lambda>e. P (Type e)) es) t = (if P t then find_ext es t else None)"
  by (induction es) auto

lemma find_ext_None: "find_ext es t = None \<longleftrightarrow> t \<notin> Type ` set es"
  by (induction es) auto

text \<open>\<open>SetExtension\<close> replaces the payload of a slot in place, or appends the slot when it is
  missing, and touches no other slot; \<open>RemoveExtensions\<close> takes away exactly the slots of the types
  it is given and keeps the others in their order. (The order of the slots is what a
  fingerprint is made of.)\<close>

theorem extension_slots:
  "map_option Data (FindExtension (SetExtension c typ data) t) =
     (if t = typ then Some data else map_option Data (FindExtension c t))
   \<and> map Type (Extensions (SetExtension c typ data)) =
     map Type (Extensions c) @ (if typ \<in> Type ` set (Extensions c) then [] else [typ])
   \<and> FindExtension (RemoveExtensions c ts) t = (if t \<in> set ts then None else FindExtension c t)
   \<and> map Type (Extensions (RemoveExtensions c ts)) = filter (\<lambda>t. t \<notin> set ts) (map Type (Extensions c))
   \<and> (FindExtension c t = None \<longleftrightarrow> t \<notin> Type ` set (Extensions c))"
  by (simp add: FindExtension_def SetExtension_def RemoveExtensions_def find_ext_set_ext set_ext_types
      find_ext_None find_ext_filter [of "\<lambda>t. t \<notin> set ts"] filter_map comp_def)

end
