(* ===== verification/Hello_Ext.thy ===== *)
theory Hello_Ext
  imports Hello
begin

text \<open>
  The package \<open>hello\<close>, part two: the bodies of the well-known extensions (\<open>ext.go\<close>). The
  encoders and decoders meet the interface \<open>ext_codec\<close>: what is encoded is decoded again,
  and what a decoder accepts is an encoding, up to trailing bytes. The loops over
  variable-length items (ALPN protocols, key shares) interpret \<open>wire_loop\<close>.
\<close>

record KeyShare =
  ks_Group :: u16
  ks_Data :: bytes

section \<open>Decoders\<close>

text \<open>The loop of \<open>DecodeSNI\<close>, which returns at the first entry of type \<open>host_name\<close>.\<close>

function sni_loop :: "bytes \<Rightarrow> hello_error + string" where
  "sni_loop list =
     (if length list > 0 then
        if length list < 3 then Inl ErrMalformed
        else let nameType = list ! 0; n = unat (be16 (list ! 1) (list ! 2)); list' = drop 3 list in
          if n > length list' then Inl ErrShortData
          else let host = bytes_to_string (take n list') in
            if nameType = 0 then Inr host else sni_loop (drop n list')
      else Inr [])"
  by pat_completeness auto
termination by (relation "measure length") auto

declare sni_loop.simps [simp del]

definition DecodeSNI :: "bytes \<Rightarrow> hello_error + string" where
  "DecodeSNI data =
     (if length data < 2 then Inl ErrShortData
      else if length data - 2 \<noteq> unat (be16 (data ! 0) (data ! 1)) then Inl ErrMalformed
      else sni_loop (drop 2 data))"

text \<open>One round of the loop of \<open>DecodeALPN\<close>, and the loop (which never calls it on an empty slice).\<close>

definition alpn_item :: "bytes \<Rightarrow> hello_error + (string \<times> bytes)" where
  "alpn_item rest =
     (case rest of
        [] \<Rightarrow> Inl ErrShortData
      | b # rest' \<Rightarrow>
          let n = unat b in
          if n > length rest' then Inl ErrShortData
          else Inr (bytes_to_string (take n rest'), drop n rest'))"

function alpn_loop :: "bytes \<Rightarrow> hello_error + string list" where
  "alpn_loop rest =
     (if length rest > 0
      then bind_res (alpn_item rest) (\<lambda>(p, rest'). map_res ((#) p) (alpn_loop rest'))
      else Inr [])"
  by pat_completeness auto
termination
  by (relation "measure length") (auto simp: alpn_item_def Let_def split: if_splits list.splits)

declare alpn_loop.simps [simp del]

definition DecodeALPN :: "bytes \<Rightarrow> hello_error + string list" where
  "DecodeALPN data =
     (if length data < 2 then Inl ErrShortData
      else if length data - 2 \<noteq> unat (be16 (data ! 0) (data ! 1)) then Inl ErrMalformed
      else alpn_loop (drop 2 data))"

definition DecodeSupportedGroups :: "bytes \<Rightarrow> hello_error + u16 list" where
  "DecodeSupportedGroups data =
     (if length data < 2 then Inl ErrShortData
      else let n = unat (be16 (data ! 0) (data ! 1)) in
        if n mod 2 \<noteq> 0 \<or> 2 + n > length data then Inl ErrMalformed
        else Inr (index_u16s (drop 2 data) (n div 2)))"

definition DecodeECPointFormats :: "bytes \<Rightarrow> hello_error + bytes" where
  "DecodeECPointFormats data =
     (if length data < 1 then Inl ErrShortData
      else let n = unat (data ! 0) in
        if 1 + n > length data then Inl ErrShortData
        else Inr (take n (drop 1 data)))"

definition DecodeSupportedVersions :: "bytes \<Rightarrow> hello_error + u16 list" where
  "DecodeSupportedVersions data =
     (if length data < 1 then Inl ErrShortData
      else let n = unat (data ! 0) in
        if n mod 2 \<noteq> 0 \<or> 1 + n > length data then Inl ErrMalformed
        else Inr (index_u16s (drop 1 data) (n div 2)))"

definition DecodeSignatureAlgorithms :: "bytes \<Rightarrow> hello_error + u16 list" where
  "DecodeSignatureAlgorithms data =
     (if length data < 2 then Inl ErrShortData
      else let n = unat (be16 (data ! 0) (data ! 1)) in
        if n mod 2 \<noteq> 0 \<or> 2 + n > length data then Inl ErrMalformed
        else Inr (index_u16s (drop 2 data) (n div 2)))"

definition DecodePSKModes :: "bytes \<Rightarrow> hello_error + bytes" where
  "DecodePSKModes data =
     (if length data < 1 then Inl ErrShortData
      else let n = unat (data ! 0) in
        if 1 + n > length data then Inl ErrShortData
        else Inr (take n (drop 1 data)))"

definition DecodeCertCompression :: "bytes \<Rightarrow> hello_error + u16 list" where
  "DecodeCertCompression data =
     (if length data < 2 then Inl ErrShortData
      else let n = unat (be16 (data ! 0) (data ! 1)) in
        if n mod 2 \<noteq> 0 \<or> 2 + n > length data then Inl ErrMalformed
        else Inr (index_u16s (drop 2 data) (n div 2)))"

definition DecodeRecordSizeLimit :: "bytes \<Rightarrow> hello_error + u16" where
  "DecodeRecordSizeLimit data =
     (if length data \<noteq> 2 then Inl ErrMalformed else Inr (be16 (data ! 0) (data ! 1)))"

definition DecodeDelegatedCredentials :: "bytes \<Rightarrow> hello_error + u16 list" where
  "DecodeDelegatedCredentials data =
     (if length data < 2 then Inl ErrShortData
      else let n = unat (be16 (data ! 0) (data ! 1)) in
        if n mod 2 \<noteq> 0 \<or> 2 + n > length data then Inl ErrMalformed
        else Inr (index_u16s (drop 2 data) (n div 2)))"

definition keyshare_item :: "bytes \<Rightarrow> hello_error + (KeyShare \<times> bytes)" where
  "keyshare_item rest =
     (if length rest < 4 then Inl ErrShortData
      else let group = be16 (rest ! 0) (rest ! 1); n = unat (be16 (rest ! 2) (rest ! 3));
               rest' = drop 4 rest in
        if n > length rest' then Inl ErrShortData
        else Inr (\<lparr>ks_Group = group, ks_Data = take n rest'\<rparr>, drop n rest'))"

function keyshare_loop :: "bytes \<Rightarrow> hello_error + KeyShare list" where
  "keyshare_loop rest =
     (if length rest > 0
      then bind_res (keyshare_item rest) (\<lambda>(k, rest'). map_res ((#) k) (keyshare_loop rest'))
      else Inr [])"
  by pat_completeness auto
termination
  by (relation "measure length") (auto simp: keyshare_item_def Let_def split: if_splits)

declare keyshare_loop.simps [simp del]

definition DecodeKeyShares :: "bytes \<Rightarrow> hello_error + KeyShare list" where
  "DecodeKeyShares data =
     (if length data < 2 then Inl ErrShortData
      else if length data - 2 \<noteq> unat (be16 (data ! 0) (data ! 1)) then Inl ErrMalformed
      else keyshare_loop (drop 2 data))"

section \<open>Encoders\<close>

text \<open>The loop body of \<open>EncodeALPN\<close>; \<open>byte(len(p))\<close> truncates.\<close>

definition put_alpn :: "string \<Rightarrow> bytes" where
  "put_alpn p = of_nat (length p) # string_to_bytes p"

definition EncodeALPN :: "string list \<Rightarrow> bytes" where
  "EncodeALPN protocols =
     (let size = sum_list (map (\<lambda>p. 1 + length p) protocols) in
      put16 (of_nat size) @ concat (map put_alpn protocols))"

definition EncodeSupportedGroups :: "u16 list \<Rightarrow> bytes" where
  "EncodeSupportedGroups groups = put16 (of_nat (2 * length groups)) @ put_u16s groups"

definition EncodeECPointFormats :: "bytes \<Rightarrow> bytes" where
  "EncodeECPointFormats formats = of_nat (length formats) # formats"

definition EncodeSupportedVersions :: "u16 list \<Rightarrow> bytes" where
  "EncodeSupportedVersions versions = of_nat (2 * length versions) # put_u16s versions"

definition EncodeSignatureAlgorithms :: "u16 list \<Rightarrow> bytes" where
  "EncodeSignatureAlgorithms algs = put16 (of_nat (2 * length algs)) @ put_u16s algs"

definition EncodePSKModes :: "bytes \<Rightarrow> bytes" where
  "EncodePSKModes modes = of_nat (length modes) # modes"

section \<open>The codec interface\<close>

locale ext_codec =
  fixes enc :: "'a \<Rightarrow> bytes"
    and dec :: "bytes \<Rightarrow> hello_error + 'a"
    and ok :: "'a \<Rightarrow> bool"
  assumes dec_enc: "ok x \<Longrightarrow> dec (enc x @ rest) = Inr x"
    and dec_sound: "dec bs = Inr x \<Longrightarrow> ok x \<and> (\<exists>rest. bs = enc x @ rest)"
begin

lemma dec_enc_Nil: "ok x \<Longrightarrow> dec (enc x) = Inr x"
  using dec_enc [of x "[]"] by simp

lemma dec_iff: "dec bs = Inr x \<longleftrightarrow> ok x \<and> (\<exists>rest. bs = enc x @ rest)"
  by (auto simp: dec_enc dest: dec_sound)

lemma enc_inj: "ok x \<Longrightarrow> ok y \<Longrightarrow> enc x = enc y \<Longrightarrow> x = y"
  by (metis dec_enc_Nil sum.inject(2))

end

text \<open>Lists of 16-bit identifiers behind a two-byte or a one-byte length, and byte lists behind a
  one-byte length.\<close>

lemma groups_dec_enc:
  "length gs < 32768 \<Longrightarrow> DecodeSupportedGroups (EncodeSupportedGroups gs @ rest) = Inr gs"
  by (simp add: DecodeSupportedGroups_def EncodeSupportedGroups_def put16_def Let_def
      unat_of_nat_u16 index_u16s_eq del: of_nat_mult)

lemma groups_dec_sound:
  assumes "DecodeSupportedGroups bs = Inr gs"
  shows "length gs < 32768 \<and> (\<exists>rest. bs = EncodeSupportedGroups gs @ rest)"
proof -
  from assms have "2 \<le> length bs" by (auto simp: DecodeSupportedGroups_def split: if_splits)
  then obtain a b r where bs: "bs = a # b # r" by (rule length_ge_2E)
  define n where "n = unat (be16 a b)"
  from assms bs have n: "even n" "n \<le> length r" and gs: "gs = index_u16s r (n div 2)"
    by (auto simp: DecodeSupportedGroups_def Let_def n_def even_iff_mod_2_eq_zero split: if_splits)
  then have gs': "gs = u16s (take n r)" by (simp add: index_u16s_eq)
  with n have "2 * length gs = n" and put: "put_u16s gs = take n r"
    by (simp_all add: length_u16s put_u16s_u16s)
  then have "put16 (of_nat (2 * length gs)) = [a, b]" by (simp add: n_def ucast_id)
  then have "bs = EncodeSupportedGroups gs @ drop n r" using put bs by (simp add: EncodeSupportedGroups_def)
  moreover have "length gs < 32768" using \<open>2 * length gs = n\<close> unat_u16_less [of "be16 a b"] n_def by simp
  ultimately show ?thesis by blast
qed

lemma formats_dec_enc:
  "length fs < 256 \<Longrightarrow> DecodeECPointFormats (EncodeECPointFormats fs @ rest) = Inr fs"
  by (simp add: DecodeECPointFormats_def EncodeECPointFormats_def Let_def unat_of_nat_byte)

lemma formats_dec_sound:
  assumes "DecodeECPointFormats bs = Inr fs"
  shows "length fs < 256 \<and> (\<exists>rest. bs = EncodeECPointFormats fs @ rest)"
proof -
  from assms obtain a r where bs: "bs = a # r" by (cases bs) (auto simp: DecodeECPointFormats_def)
  with assms have "unat a \<le> length r" and fs: "fs = take (unat a) r"
    by (auto simp: DecodeECPointFormats_def Let_def split: if_splits)
  then have "length fs = unat a" by simp
  then have "bs = EncodeECPointFormats fs @ drop (unat a) r"
    using bs fs by (simp add: EncodeECPointFormats_def ucast_id)
  with \<open>length fs = unat a\<close> unat_byte_less [of a] show ?thesis by auto
qed

lemma versions_dec_enc:
  "length vs < 128 \<Longrightarrow> DecodeSupportedVersions (EncodeSupportedVersions vs @ rest) = Inr vs"
  by (simp add: DecodeSupportedVersions_def EncodeSupportedVersions_def Let_def
      unat_of_nat_byte index_u16s_eq del: of_nat_mult)

lemma versions_dec_sound:
  assumes "DecodeSupportedVersions bs = Inr vs"
  shows "length vs < 128 \<and> (\<exists>rest. bs = EncodeSupportedVersions vs @ rest)"
proof -
  from assms obtain a r where bs: "bs = a # r" by (cases bs) (auto simp: DecodeSupportedVersions_def)
  define n where "n = unat a"
  from assms bs have n: "even n" "n \<le> length r" and vs: "vs = index_u16s r (n div 2)"
    by (auto simp: DecodeSupportedVersions_def Let_def n_def even_iff_mod_2_eq_zero split: if_splits)
  then have "vs = u16s (take n r)" by (simp add: index_u16s_eq)
  with n have "2 * length vs = n" and put: "put_u16s vs = take n r"
    by (simp_all add: length_u16s put_u16s_u16s)
  then have "bs = EncodeSupportedVersions vs @ drop n r"
    using bs by (simp add: EncodeSupportedVersions_def n_def ucast_id)
  moreover have "length vs < 128" using \<open>2 * length vs = n\<close> unat_byte_less [of a] n_def by simp
  ultimately show ?thesis by blast
qed

interpretation groups_codec: ext_codec EncodeSupportedGroups DecodeSupportedGroups "\<lambda>gs. length gs < 32768"
  by unfold_locales (simp_all add: groups_dec_enc groups_dec_sound)

interpretation formats_codec: ext_codec EncodeECPointFormats DecodeECPointFormats "\<lambda>fs. length fs < 256"
  by unfold_locales (simp_all add: formats_dec_enc formats_dec_sound)

interpretation versions_codec: ext_codec EncodeSupportedVersions DecodeSupportedVersions "\<lambda>vs. length vs < 128"
  by unfold_locales (simp_all add: versions_dec_enc versions_dec_sound)

text \<open>The remaining codecs of these shapes are the same code under another name.\<close>

lemma sigalgs_eq_groups:
  "EncodeSignatureAlgorithms = EncodeSupportedGroups" "DecodeSignatureAlgorithms = DecodeSupportedGroups"
  "DecodeCertCompression = DecodeSupportedGroups" "DecodeDelegatedCredentials = DecodeSupportedGroups"
  by (simp_all add: fun_eq_iff EncodeSignatureAlgorithms_def EncodeSupportedGroups_def DecodeSupportedGroups_def
      DecodeSignatureAlgorithms_def DecodeCertCompression_def DecodeDelegatedCredentials_def)

lemma pskmodes_eq_formats:
  "EncodePSKModes = EncodeECPointFormats" "DecodePSKModes = DecodeECPointFormats"
  by (simp_all add: fun_eq_iff EncodePSKModes_def EncodeECPointFormats_def DecodePSKModes_def DecodeECPointFormats_def)

interpretation sigalgs_codec: ext_codec EncodeSignatureAlgorithms DecodeSignatureAlgorithms "\<lambda>gs. length gs < 32768"
  by unfold_locales (simp_all add: sigalgs_eq_groups groups_dec_enc groups_dec_sound)

interpretation pskmodes_codec: ext_codec EncodePSKModes DecodePSKModes "\<lambda>fs. length fs < 256"
  by unfold_locales (simp_all add: pskmodes_eq_formats formats_dec_enc formats_dec_sound)

section \<open>Lists of variable-length items\<close>

abbreviation alpn_ok :: "string \<Rightarrow> bool" where
  "alpn_ok p \<equiv> length p < 256"

interpretation alpn_wire: wire_loop put_alpn alpn_item alpn_ok alpn_loop
proof
  fix p rest bs
  show "alpn_item (put_alpn p @ rest) = Inr (p, rest)" if "alpn_ok p"
    using that by (simp add: alpn_item_def put_alpn_def Let_def unat_of_nat_byte)
  show "bs = put_alpn p @ rest \<and> alpn_ok p" if *: "alpn_item bs = Inr (p, rest)"
  proof -
    from * obtain b r where bs: "bs = b # r" by (cases bs) (simp_all add: alpn_item_def)
    with * have "unat b \<le> length r" and p: "p = bytes_to_string (take (unat b) r)" and rest: "rest = drop (unat b) r"
      by (auto simp: alpn_item_def Let_def split: if_splits)
    then have "length p = unat b" by simp
    then show ?thesis using bs p rest unat_byte_less [of b] by (simp add: put_alpn_def ucast_id)
  qed
  show "alpn_loop [] = Inr []" by (simp add: alpn_loop.simps)
  show "alpn_loop bs = bind_res (alpn_item bs) (\<lambda>(p, rest). map_res ((#) p) (alpn_loop rest))" if "bs \<noteq> []"
    using that by (simp add: alpn_loop.simps [of bs])
  show "put_alpn p \<noteq> []" by (simp add: put_alpn_def)
qed

text \<open>The wire form of a key share entry (\<open>ext.go\<close> has no encoder for it).\<close>

definition put_keyshare :: "KeyShare \<Rightarrow> bytes" where
  "put_keyshare k = put16 (ks_Group k) @ put16 (of_nat (length (ks_Data k))) @ ks_Data k"

abbreviation keyshare_ok :: "KeyShare \<Rightarrow> bool" where
  "keyshare_ok k \<equiv> length (ks_Data k) < 65536"

interpretation keyshare_wire: wire_loop put_keyshare keyshare_item keyshare_ok keyshare_loop
proof
  fix k :: KeyShare and rest bs
  show "keyshare_item (put_keyshare k @ rest) = Inr (k, rest)" if "keyshare_ok k"
    using that by (simp add: keyshare_item_def put_keyshare_def put16_def Let_def unat_of_nat_u16)
  show "bs = put_keyshare k @ rest \<and> keyshare_ok k" if *: "keyshare_item bs = Inr (k, rest)"
  proof -
    from * have "4 \<le> length bs" by (auto simp: keyshare_item_def split: if_splits)
    then obtain a b c d r where bs: "bs = a # b # c # d # r" by (rule length_ge_4E)
    with * have "unat (be16 c d) \<le> length r" and k: "k = \<lparr>ks_Group = be16 a b, ks_Data = take (unat (be16 c d)) r\<rparr>"
      and rest: "rest = drop (unat (be16 c d)) r"
      by (auto simp: keyshare_item_def Let_def split: if_splits)
    then have "length (ks_Data k) = unat (be16 c d)" by simp
    then show ?thesis using bs k rest unat_u16_less [of "be16 c d"] by (simp add: put_keyshare_def ucast_id)
  qed
  show "keyshare_loop [] = Inr []" by (simp add: keyshare_loop.simps)
  show "keyshare_loop bs = bind_res (keyshare_item bs) (\<lambda>(k, rest). map_res ((#) k) (keyshare_loop rest))" if "bs \<noteq> []"
    using that by (simp add: keyshare_loop.simps [of bs])
  show "put_keyshare k \<noteq> []" by (simp add: put_keyshare_def)
qed

lemma length_put_alpns: "length (concat (map put_alpn ps)) = sum_list (map (\<lambda>p. 1 + length p) ps)"
  by (induction ps) (simp_all add: put_alpn_def)

text \<open>A list behind a two-byte length that must cover the rest of the body exactly.\<close>

lemma framed_list_iff:
  assumes "length bs \<ge> 2"
  shows "length bs - 2 = unat (be16 (bs ! 0) (bs ! 1)) \<longleftrightarrow>
    bs = put16 (of_nat (length (drop 2 bs))) @ drop 2 bs \<and> length (drop 2 bs) < 65536"
proof -
  from assms obtain a b r where bs: "bs = a # b # r" by (rule length_ge_2E)
  have "length r = unat (be16 a b) \<longleftrightarrow> put16 (of_nat (length r)) = [a, b] \<and> length r < 65536"
  proof
    assume "length r = unat (be16 a b)"
    then show "put16 (of_nat (length r)) = [a, b] \<and> length r < 65536"
      using unat_u16_less [of "be16 a b"] by (simp add: ucast_id)
  next
    assume *: "put16 (of_nat (length r)) = [a, b] \<and> length r < 65536"
    then have "be16 a b = of_nat (length r)" by (auto simp: put16_def)
    with * show "length r = unat (be16 a b)" by (simp add: unat_of_nat_u16)
  qed
  then show ?thesis using bs by auto
qed

lemma DecodeALPN_iff:
  "DecodeALPN bs = Inr ps \<longleftrightarrow>
     bs = EncodeALPN ps \<and> (\<forall>p \<in> set ps. alpn_ok p) \<and> sum_list (map (\<lambda>p. 1 + length p) ps) < 65536"
    (is "?l \<longleftrightarrow> ?r")
proof
  assume ?l
  then have le: "length bs \<ge> 2" and fr: "length bs - 2 = unat (be16 (bs ! 0) (bs ! 1))"
    and loop: "alpn_loop (drop 2 bs) = Inr ps"
    by (auto simp: DecodeALPN_def split: if_splits)
  from alpn_wire.loop_sound [OF loop] have d: "drop 2 bs = concat (map put_alpn ps)" "\<forall>p \<in> set ps. alpn_ok p"
    by simp_all
  with fr framed_list_iff [OF le] show ?r
    by (simp add: EncodeALPN_def length_put_alpns)
next
  assume r: ?r
  then have le: "length bs \<ge> 2" and d: "drop 2 bs = concat (map put_alpn ps)" by (simp_all add: EncodeALPN_def Let_def)
  have "length bs - 2 = unat (be16 (bs ! 0) (bs ! 1))"
    unfolding framed_list_iff [OF le] d length_put_alpns using r by (simp add: EncodeALPN_def Let_def)
  moreover have "alpn_loop (drop 2 bs) = Inr ps" unfolding d using r by (intro alpn_wire.loop_concat) simp
  ultimately show ?l using le by (simp add: DecodeALPN_def)
qed

text \<open>The list of key shares as the extension body carries it.\<close>

definition keyshare_body :: "KeyShare list \<Rightarrow> bytes" where
  "keyshare_body ks =
     (let body = concat (map put_keyshare ks) in put16 (of_nat (length body)) @ body)"

lemma DecodeKeyShares_iff:
  "DecodeKeyShares bs = Inr ks \<longleftrightarrow>
     bs = keyshare_body ks \<and> (\<forall>k \<in> set ks. keyshare_ok k) \<and> length (concat (map put_keyshare ks)) < 65536"
    (is "?l \<longleftrightarrow> ?r")
proof
  assume ?l
  then have le: "length bs \<ge> 2" and fr: "length bs - 2 = unat (be16 (bs ! 0) (bs ! 1))"
    and loop: "keyshare_loop (drop 2 bs) = Inr ks"
    by (auto simp: DecodeKeyShares_def split: if_splits)
  from keyshare_wire.loop_sound [OF loop]
  have d: "drop 2 bs = concat (map put_keyshare ks)" "\<forall>k \<in> set ks. keyshare_ok k"
    by simp_all
  with fr framed_list_iff [OF le] show ?r by (simp add: keyshare_body_def Let_def)
next
  assume r: ?r
  then have le: "length bs \<ge> 2" and d: "drop 2 bs = concat (map put_keyshare ks)" by (simp_all add: keyshare_body_def Let_def)
  have "length bs - 2 = unat (be16 (bs ! 0) (bs ! 1))"
    unfolding framed_list_iff [OF le] d using r by (simp add: keyshare_body_def Let_def)
  moreover have "keyshare_loop (drop 2 bs) = Inr ks" unfolding d using r by (intro keyshare_wire.loop_concat) simp
  ultimately show ?l using le by (simp add: DecodeKeyShares_def)
qed

text \<open>The ALPN and key share decoders are strict: they accept a body exactly when it is the encoding
  of the list they return, with nothing truncated and nothing left over.\<close>

theorem DecodeALPN_DecodeKeyShares_exact:
  "(DecodeALPN bs = Inr ps \<longleftrightarrow>
      bs = EncodeALPN ps \<and> list_all (\<lambda>p. length p < 256) ps \<and> sum_list (map (\<lambda>p. 1 + length p) ps) < 65536)
   \<and> (DecodeKeyShares bs = Inr ks \<longleftrightarrow>
      bs = keyshare_body ks \<and> list_all (\<lambda>k. length (ks_Data k) < 65536) ks
      \<and> length (concat (map put_keyshare ks)) < 65536)"
  by (simp add: DecodeALPN_iff DecodeKeyShares_iff list_all_iff)

text \<open>The decoders of identifier and byte lists return a list exactly when the body starts with its
  encoding; the encoders and decoders are inverse to each other up to trailing bytes, which
  these decoders ignore.\<close>

theorem list_codecs_exact:
  "(DecodeSupportedGroups bs = Inr gs \<longleftrightarrow> length gs < 32768 \<and> (\<exists>rest. bs = EncodeSupportedGroups gs @ rest))
   \<and> (DecodeSupportedVersions bs = Inr gs \<longleftrightarrow> length gs < 128 \<and> (\<exists>rest. bs = EncodeSupportedVersions gs @ rest))
   \<and> (DecodeSignatureAlgorithms bs = Inr gs \<longleftrightarrow>
        length gs < 32768 \<and> (\<exists>rest. bs = EncodeSignatureAlgorithms gs @ rest))
   \<and> (DecodeECPointFormats bs = Inr fs \<longleftrightarrow> length fs < 256 \<and> (\<exists>rest. bs = EncodeECPointFormats fs @ rest))
   \<and> (DecodePSKModes bs = Inr fs \<longleftrightarrow> length fs < 256 \<and> (\<exists>rest. bs = EncodePSKModes fs @ rest))
   \<and> (DecodeRecordSizeLimit bs = Inr v \<longleftrightarrow> bs = put16 v)"
proof -
  have "DecodeRecordSizeLimit bs = Inr v \<longleftrightarrow> bs = put16 v"
  proof (cases "length bs = 2")
    case True
    then have "2 \<le> length bs" by simp
    then obtain a b r where "bs = a # b # r" by (rule length_ge_2E)
    with True show ?thesis by (simp add: DecodeRecordSizeLimit_def be16_eq_iff)
  qed (auto simp: DecodeRecordSizeLimit_def)
  then show ?thesis
    by (simp only: groups_codec.dec_iff versions_codec.dec_iff sigalgs_codec.dec_iff
        formats_codec.dec_iff pskmodes_codec.dec_iff)
qed

section \<open>Server names\<close>

definition put_sni :: "byte \<times> string \<Rightarrow> bytes" where
  "put_sni e = fst e # put16 (of_nat (length (snd e))) @ string_to_bytes (snd e)"

definition sni_body :: "(byte \<times> string) list \<Rightarrow> bytes" where
  "sni_body es = (let body = concat (map put_sni es) in put16 (of_nat (length body)) @ body)"

lemma sni_loop_put:
  "length (snd e) < 65536 \<Longrightarrow>
     sni_loop (put_sni e @ rest) = (if fst e = 0 then Inr (snd e) else sni_loop rest)"
  by (subst sni_loop.simps) (simp add: put_sni_def put16_def Let_def unat_of_nat_u16)

lemma sni_loop_concat:
  "\<forall>e \<in> set es. length (snd e) < 65536 \<Longrightarrow>
     sni_loop (concat (map put_sni es)) =
       Inr (case find (\<lambda>e. fst e = 0) es of Some e \<Rightarrow> snd e | None \<Rightarrow> [])"
  by (induction es) (simp_all add: sni_loop_put, simp add: sni_loop.simps)

text \<open>\<open>DecodeSNI\<close> returns the first entry of type \<open>host_name\<close> of a server name list, skipping entries
  of any other type, and the empty name when there is none.\<close>

theorem DecodeSNI_first_host_name:
  assumes "list_all (\<lambda>e. length (snd e) < 65536) es" and "length (concat (map put_sni es)) < 65536"
  shows "DecodeSNI (sni_body es) = Inr (case find (\<lambda>e. fst e = 0) es of Some e \<Rightarrow> snd e | None \<Rightarrow> [])"
proof -
  have "length (sni_body es) - 2 = unat (be16 (sni_body es ! 0) (sni_body es ! 1))"
    using assms(2) by (subst framed_list_iff) (simp_all add: sni_body_def Let_def)
  moreover have "sni_loop (drop 2 (sni_body es)) = Inr (case find (\<lambda>e. fst e = 0) es of Some e \<Rightarrow> snd e | None \<Rightarrow> [])"
    using assms(1) by (simp add: sni_body_def Let_def sni_loop_concat list_all_iff)
  moreover have "2 \<le> length (sni_body es)" by (simp add: sni_body_def Let_def)
  ultimately show ?thesis by (simp add: DecodeSNI_def)
qed

theorem DecodeSNI_first_host_name_witness:
  "DecodeSNI (sni_body [(7, ''x''), (0, ''a.b''), (0, ''c.d'')]) = Inr ''a.b''"
  by (subst DecodeSNI_first_host_name) (simp_all add: put_sni_def)

text \<open>\<open>DecodeCertCompression\<close> reads a two-byte list length where RFC 8879 has a one-byte one: it rejects
  every body \<open>n, a1, ..., an\<close> that the RFC allows for one to 127 algorithms.\<close>

theorem DecodeCertCompression_rejects_rfc8879:
  assumes "0 < length algs" and "length algs \<le> 127"
  shows "DecodeCertCompression (of_nat (2 * length algs) # put_u16s algs) = Inl ErrMalformed"
proof -
  obtain a as where algs: "algs = a # as" using assms(1) by (cases algs) auto
  let ?bs = "of_nat (2 * length algs) # put_u16s algs :: bytes"
  have "unat (be16 (?bs ! 0) (?bs ! 1)) \<ge> 2 * length algs * 256"
    using assms(2) by (simp add: unat_be16 unat_of_nat_byte del: of_nat_mult)
  moreover have "length ?bs = 1 + 2 * length algs" by simp
  ultimately have "2 + unat (be16 (?bs ! 0) (?bs ! 1)) > length ?bs" using assms(1) by linarith
  then show ?thesis using assms(1) by (simp add: DecodeCertCompression_def Let_def del: of_nat_mult)
qed

theorem DecodeCertCompression_rejects_rfc8879_witness:
  "DecodeCertCompression [2, 0, 2] = Inl ErrMalformed"
  using DecodeCertCompression_rejects_rfc8879 [of "[2]"] by (simp add: put16_def)

end
