(* ===== verification/Hello_Extract.thy ===== *)
theory Hello_Extract
  imports Hello_Ext
begin

text \<open>
  The package \<open>hello\<close>, part three (\<open>extract.go\<close>): from a wire message to the semantic profile
  and back. \<open>TLSProfile_of\<close> is the method \<open>ClientHello.TLSProfile\<close>.
\<close>

section \<open>Extraction\<close>

text \<open>The body of the second loop: decode the extensions that the model summarises.\<close>

definition extract_step :: "Extension \<Rightarrow> TLSProfile \<Rightarrow> hello_error + TLSProfile" where
  "extract_step e p =
     (if Type e = ExtSupportedGroups then
        map_res (\<lambda>v. p\<lparr>p_SupportedGroups := v\<rparr>) (DecodeSupportedGroups (Data e))
      else if Type e = ExtECPointFormats then
        map_res (\<lambda>v. p\<lparr>p_ECFormats := v\<rparr>) (DecodeECPointFormats (Data e))
      else if Type e = ExtSupportedVersions then
        map_res (\<lambda>v. p\<lparr>p_SupportedVersions := v\<rparr>) (DecodeSupportedVersions (Data e))
      else if Type e = ExtSignatureAlgorithms then
        map_res (\<lambda>v. p\<lparr>p_SignatureAlgorithms := v\<rparr>) (DecodeSignatureAlgorithms (Data e))
      else if Type e = ExtSignatureAlgorithmsCert then
        map_res (\<lambda>v. p\<lparr>p_SignatureAlgorithmsCert := v\<rparr>) (DecodeSignatureAlgorithms (Data e))
      else if Type e = ExtPSKKeyExchangeModes then
        map_res (\<lambda>v. p\<lparr>p_PSKKeyExchangeModes := v\<rparr>) (DecodePSKModes (Data e))
      else if Type e = ExtCompressCertificate then
        map_res (\<lambda>v. p\<lparr>p_CertCompression := v\<rparr>) (DecodeCertCompression (Data e))
      else if Type e = ExtRecordSizeLimit then
        map_res (\<lambda>v. p\<lparr>p_RecordSizeLimit := v\<rparr>) (DecodeRecordSizeLimit (Data e))
      else if Type e = ExtDelegatedCredentials then
        map_res (\<lambda>v. p\<lparr>p_DelegatedCredentials := v\<rparr>) (DecodeDelegatedCredentials (Data e))
      else Inr p)"

fun extract_loop :: "Extension list \<Rightarrow> TLSProfile \<Rightarrow> hello_error + TLSProfile" where
  "extract_loop [] p = Inr p"
| "extract_loop (e # es) p = bind_res (extract_step e p) (extract_loop es)"

definition TLSProfile_of :: "ClientHello \<Rightarrow> hello_error + TLSProfile" where
  "TLSProfile_of c =
     extract_loop (Extensions c)
       (empty_TLSProfile\<lparr>p_CipherSuites := CipherSuites c, p_Extensions := map Type (Extensions c)\<rparr>)"

section \<open>Construction\<close>

datatype extract_error = NilProfile | ProfileHasNoCipherSuites

text \<open>The local function \<open>setPayload\<close> on the extension list.\<close>

fun fill_slot :: "Extension list \<Rightarrow> u16 \<Rightarrow> bytes \<Rightarrow> Extension list" where
  "fill_slot [] typ body = []"
| "fill_slot (e # es) typ body =
     (if Type e = typ then e\<lparr>Data := body\<rparr> # es else e # fill_slot es typ body)"

definition setPayload :: "u16 \<Rightarrow> bytes \<Rightarrow> ClientHello \<Rightarrow> ClientHello" where
  "setPayload typ body ch =
     (if length body = 0 then ch else ch\<lparr>Extensions := fill_slot (Extensions ch) typ body\<rparr>)"

definition ToClientHello :: "TLSProfile option \<Rightarrow> extract_error + ClientHello" where
  "ToClientHello po =
     (case po of
        None \<Rightarrow> Inl NilProfile
      | Some p \<Rightarrow>
          let legacy = (if p_LegacyVersion p = 0 then VersionTLS12 else p_LegacyVersion p);
              ch = \<lparr>LegacyVersion = legacy, Random = replicate 32 0, SessionID = [],
                    CipherSuites = p_CipherSuites p, CompressionMethods = [0], Extensions = []\<rparr>
          in if length (CipherSuites ch) = 0 then Inl ProfileHasNoCipherSuites
             else
               let ch = ch\<lparr>Extensions := map (\<lambda>t. \<lparr>Type = t, Data = []\<rparr>) (p_Extensions p)\<rparr>;
                   ch = setPayload ExtSupportedGroups (EncodeSupportedGroups (p_SupportedGroups p)) ch;
                   ch = setPayload ExtECPointFormats (EncodeECPointFormats (p_ECFormats p)) ch;
                   ch = setPayload ExtSupportedVersions (EncodeSupportedVersions (p_SupportedVersions p)) ch;
                   ch = setPayload ExtSignatureAlgorithms (EncodeSignatureAlgorithms (p_SignatureAlgorithms p)) ch;
                   ch = setPayload ExtSignatureAlgorithmsCert
                          (EncodeSignatureAlgorithms (p_SignatureAlgorithmsCert p)) ch;
                   ch = setPayload ExtPSKKeyExchangeModes (EncodePSKModes (p_PSKKeyExchangeModes p)) ch
               in Inr ch)"

section \<open>The slots of the constructed message\<close>

lemma encode_not_Nil [simp]:
  "EncodeSupportedGroups gs \<noteq> []" "EncodeECPointFormats fs \<noteq> []" "EncodeSupportedVersions gs \<noteq> []"
  "EncodeSignatureAlgorithms gs \<noteq> []" "EncodePSKModes fs \<noteq> []"
  by (simp_all add: EncodeSupportedGroups_def EncodeECPointFormats_def EncodeSupportedVersions_def
      EncodeSignatureAlgorithms_def EncodePSKModes_def)

text \<open>The body of each slot of a profile.\<close>

definition slot_body :: "TLSProfile \<Rightarrow> u16 \<Rightarrow> bytes" where
  "slot_body p t =
     (if t = ExtSupportedGroups then EncodeSupportedGroups (p_SupportedGroups p)
      else if t = ExtECPointFormats then EncodeECPointFormats (p_ECFormats p)
      else if t = ExtSupportedVersions then EncodeSupportedVersions (p_SupportedVersions p)
      else if t = ExtSignatureAlgorithms then EncodeSignatureAlgorithms (p_SignatureAlgorithms p)
      else if t = ExtSignatureAlgorithmsCert then EncodeSignatureAlgorithms (p_SignatureAlgorithmsCert p)
      else if t = ExtPSKKeyExchangeModes then EncodePSKModes (p_PSKKeyExchangeModes p)
      else [])"

lemma fill_slot_map:
  "distinct ts \<Longrightarrow>
     fill_slot (map (\<lambda>t. \<lparr>Type = t, Data = f t\<rparr>) ts) typ body =
     map (\<lambda>t. \<lparr>Type = t, Data = (f(typ := body)) t\<rparr>) ts"
  by (induction ts) auto

lemma fill_slot_types [simp]: "map Type (fill_slot es typ body) = map Type es"
  by (induction es) auto

lemma ToClientHello_Inr:
  "ToClientHello (Some p) = Inr ch \<Longrightarrow>
     p_CipherSuites p \<noteq> [] \<and> CipherSuites ch = p_CipherSuites p \<and> map Type (Extensions ch) = p_Extensions p"
  by (auto simp: ToClientHello_def setPayload_def Let_def comp_def split: if_splits)

lemma ToClientHello_slots:
  assumes "distinct (p_Extensions p)" and "p_CipherSuites p \<noteq> []"
  shows "ToClientHello (Some p) = Inr \<lparr>
    LegacyVersion = (if p_LegacyVersion p = 0 then VersionTLS12 else p_LegacyVersion p),
    Random = replicate 32 0, SessionID = [], CipherSuites = p_CipherSuites p, CompressionMethods = [0],
    Extensions = map (\<lambda>t. \<lparr>Type = t, Data = slot_body p t\<rparr>) (p_Extensions p)\<rparr>"
proof -
  have "(\<lambda>t. \<lparr>Type = t, Data = (((((((\<lambda>t. [])(ExtSupportedGroups := EncodeSupportedGroups (p_SupportedGroups p)))
      (ExtECPointFormats := EncodeECPointFormats (p_ECFormats p)))
      (ExtSupportedVersions := EncodeSupportedVersions (p_SupportedVersions p)))
      (ExtSignatureAlgorithms := EncodeSignatureAlgorithms (p_SignatureAlgorithms p)))
      (ExtSignatureAlgorithmsCert := EncodeSignatureAlgorithms (p_SignatureAlgorithmsCert p)))
      (ExtPSKKeyExchangeModes := EncodePSKModes (p_PSKKeyExchangeModes p))) t\<rparr>)
      = (\<lambda>t. \<lparr>Type = t, Data = slot_body p t\<rparr>)"
    by (simp add: fun_eq_iff slot_body_def)
  then show ?thesis
    using assms by (simp add: ToClientHello_def setPayload_def Let_def fill_slot_map del: fun_upd_apply)
qed

section \<open>Round trip\<close>

text \<open>What a message can carry of a profile: the lists whose extension slot the profile declares.
  \<open>TLSProfile_of\<close> leaves the version at zero.\<close>

definition described :: "TLSProfile \<Rightarrow> TLSProfile" where
  "described p =
     empty_TLSProfile\<lparr>p_CipherSuites := p_CipherSuites p, p_Extensions := p_Extensions p,
       p_SupportedGroups := (if ExtSupportedGroups \<in> set (p_Extensions p) then p_SupportedGroups p else []),
       p_ECFormats := (if ExtECPointFormats \<in> set (p_Extensions p) then p_ECFormats p else []),
       p_SupportedVersions := (if ExtSupportedVersions \<in> set (p_Extensions p) then p_SupportedVersions p else []),
       p_SignatureAlgorithms :=
         (if ExtSignatureAlgorithms \<in> set (p_Extensions p) then p_SignatureAlgorithms p else []),
       p_SignatureAlgorithmsCert :=
         (if ExtSignatureAlgorithmsCert \<in> set (p_Extensions p) then p_SignatureAlgorithmsCert p else []),
       p_PSKKeyExchangeModes :=
         (if ExtPSKKeyExchangeModes \<in> set (p_Extensions p) then p_PSKKeyExchangeModes p else [])\<rparr>"

text \<open>The profiles whose payloads fit their length fields and that declare none of the three slots
  \<open>ToClientHello\<close> does not fill.\<close>

definition encodable :: "TLSProfile \<Rightarrow> bool" where
  "encodable p \<longleftrightarrow>
     distinct (p_Extensions p) \<and> p_CipherSuites p \<noteq> []
     \<and> length (p_SupportedGroups p) < 32768 \<and> length (p_ECFormats p) < 256
     \<and> length (p_SupportedVersions p) < 128 \<and> length (p_SignatureAlgorithms p) < 32768
     \<and> length (p_SignatureAlgorithmsCert p) < 32768 \<and> length (p_PSKKeyExchangeModes p) < 256
     \<and> ExtCompressCertificate \<notin> set (p_Extensions p) \<and> ExtRecordSizeLimit \<notin> set (p_Extensions p)
     \<and> ExtDelegatedCredentials \<notin> set (p_Extensions p)"

text \<open>Decoding slot \<open>t\<close> copies one field of the profile the slot was made from.\<close>

definition copy_slot :: "TLSProfile \<Rightarrow> u16 \<Rightarrow> TLSProfile \<Rightarrow> TLSProfile" where
  "copy_slot p t q =
     (if t = ExtSupportedGroups then q\<lparr>p_SupportedGroups := p_SupportedGroups p\<rparr>
      else if t = ExtECPointFormats then q\<lparr>p_ECFormats := p_ECFormats p\<rparr>
      else if t = ExtSupportedVersions then q\<lparr>p_SupportedVersions := p_SupportedVersions p\<rparr>
      else if t = ExtSignatureAlgorithms then q\<lparr>p_SignatureAlgorithms := p_SignatureAlgorithms p\<rparr>
      else if t = ExtSignatureAlgorithmsCert then q\<lparr>p_SignatureAlgorithmsCert := p_SignatureAlgorithmsCert p\<rparr>
      else if t = ExtPSKKeyExchangeModes then q\<lparr>p_PSKKeyExchangeModes := p_PSKKeyExchangeModes p\<rparr>
      else q)"

lemma extract_step_slot:
  assumes "encodable p" and "t \<in> set (p_Extensions p)"
  shows "extract_step \<lparr>Type = t, Data = slot_body p t\<rparr> q = Inr (copy_slot p t q)"
proof -
  from assms have "t \<noteq> ExtCompressCertificate" "t \<noteq> ExtRecordSizeLimit" "t \<noteq> ExtDelegatedCredentials"
    by (auto simp: encodable_def)
  moreover from assms(1) have
    "DecodeSupportedGroups (EncodeSupportedGroups (p_SupportedGroups p)) = Inr (p_SupportedGroups p)"
    "DecodeECPointFormats (EncodeECPointFormats (p_ECFormats p)) = Inr (p_ECFormats p)"
    "DecodeSupportedVersions (EncodeSupportedVersions (p_SupportedVersions p)) = Inr (p_SupportedVersions p)"
    "DecodeSignatureAlgorithms (EncodeSignatureAlgorithms (p_SignatureAlgorithms p)) = Inr (p_SignatureAlgorithms p)"
    "DecodeSignatureAlgorithms (EncodeSignatureAlgorithms (p_SignatureAlgorithmsCert p))
       = Inr (p_SignatureAlgorithmsCert p)"
    "DecodePSKModes (EncodePSKModes (p_PSKKeyExchangeModes p)) = Inr (p_PSKKeyExchangeModes p)"
    by (simp_all add: encodable_def groups_codec.dec_enc_Nil formats_codec.dec_enc_Nil
        versions_codec.dec_enc_Nil sigalgs_codec.dec_enc_Nil pskmodes_codec.dec_enc_Nil)
  ultimately show ?thesis by (simp add: extract_step_def slot_body_def copy_slot_def)
qed

lemma extract_loop_slots:
  assumes "encodable p"
  shows "set ts \<subseteq> set (p_Extensions p) \<Longrightarrow>
    extract_loop (map (\<lambda>t. \<lparr>Type = t, Data = slot_body p t\<rparr>) ts) q = Inr (fold (copy_slot p) ts q)"
  by (induction ts arbitrary: q) (simp_all add: extract_step_slot [OF assms])

lemma fold_copy_slot:
  "fold (copy_slot p) ts q =
     q\<lparr>p_SupportedGroups := (if ExtSupportedGroups \<in> set ts then p_SupportedGroups p else p_SupportedGroups q),
       p_ECFormats := (if ExtECPointFormats \<in> set ts then p_ECFormats p else p_ECFormats q),
       p_SupportedVersions := (if ExtSupportedVersions \<in> set ts then p_SupportedVersions p else p_SupportedVersions q),
       p_SignatureAlgorithms :=
         (if ExtSignatureAlgorithms \<in> set ts then p_SignatureAlgorithms p else p_SignatureAlgorithms q),
       p_SignatureAlgorithmsCert :=
         (if ExtSignatureAlgorithmsCert \<in> set ts then p_SignatureAlgorithmsCert p else p_SignatureAlgorithmsCert q),
       p_PSKKeyExchangeModes :=
         (if ExtPSKKeyExchangeModes \<in> set ts then p_PSKKeyExchangeModes p else p_PSKKeyExchangeModes q)\<rparr>"
  by (induction ts arbitrary: q) (simp_all add: copy_slot_def)

lemma TLSProfile_of_slots:
  assumes "encodable p" and "CipherSuites ch = p_CipherSuites p"
    and "Extensions ch = map (\<lambda>t. \<lparr>Type = t, Data = slot_body p t\<rparr>) (p_Extensions p)"
  shows "TLSProfile_of ch = Inr (described p)"
  using assms(2,3)
  by (simp add: TLSProfile_of_def extract_loop_slots [OF assms(1)] fold_copy_slot described_def
      empty_TLSProfile_def comp_def)


definition example_profile :: TLSProfile where
  "example_profile = empty_TLSProfile\<lparr>p_CipherSuites := [0x1301, 0x0a0a],
     p_Extensions := [0x0a0a, 43, 10], p_SupportedGroups := [29, 23], p_SupportedVersions := [0x0304]\<rparr>"


end
