(* ===== verification/Ja3.thy ===== *)
theory Ja3
  imports Hello_Extract
begin

text \<open>
  The package \<open>ja3\<close> (\<open>ja3.go\<close>): the canonical JA3 string, its parser and its hash. Every
  name carries the package as a prefix. MD5 is an argument of the definitions that use it.
\<close>

record Parts =
  pa_Version :: u16
  pa_CipherSuites :: "u16 list"
  pa_Extensions :: "u16 list"
  pa_Groups :: "u16 list"
  pa_ECFormats :: bytes

datatype ja3_error = BadFieldCount | BadVersion | BadID | OutOfByteRange

section \<open>Rendering\<close>

text \<open>The loop of \<open>joinHexFiltered\<close>; \<open>first\<close> is its local flag.\<close>

fun joinHexFiltered_loop :: "bool \<Rightarrow> u16 list \<Rightarrow> string" where
  "joinHexFiltered_loop first [] = []"
| "joinHexFiltered_loop first (i # ids) =
     (if IsGrease i then joinHexFiltered_loop first ids
      else (if first then [] else ''-'') @ Itoa (uint i) @ joinHexFiltered_loop False ids)"

definition joinHexFiltered :: "u16 list \<Rightarrow> string" where
  "joinHexFiltered ids = joinHexFiltered_loop True ids"

fun joinDec_loop :: "nat \<Rightarrow> bytes \<Rightarrow> string" where
  "joinDec_loop i [] = []"
| "joinDec_loop i (b # bs) = (if i > 0 then ''-'' else []) @ Itoa (uint b) @ joinDec_loop (Suc i) bs"

definition joinDec :: "bytes \<Rightarrow> string" where
  "joinDec ids = joinDec_loop 0 ids"

definition ja3_Format :: "u16 \<Rightarrow> u16 list \<Rightarrow> u16 list \<Rightarrow> u16 list \<Rightarrow> bytes \<Rightarrow> string" where
  "ja3_Format version ciphers extensions groups ecFormats =
     Itoa (uint version) @ '','' @ joinHexFiltered ciphers @ '','' @ joinHexFiltered extensions
     @ '','' @ joinHexFiltered groups @ '','' @ joinDec ecFormats"

definition Parts_String :: "Parts \<Rightarrow> string" where
  "Parts_String p =
     ja3_Format (pa_Version p) (pa_CipherSuites p) (pa_Extensions p) (pa_Groups p) (pa_ECFormats p)"

definition Parts_TLSProfile :: "Parts \<Rightarrow> TLSProfile" where
  "Parts_TLSProfile p =
     (let legacy = (if pa_Version p = 0 then 771 else pa_Version p) in
      empty_TLSProfile\<lparr>p_LegacyVersion := legacy, p_CipherSuites := pa_CipherSuites p,
        p_Extensions := pa_Extensions p, p_SupportedGroups := pa_Groups p, p_ECFormats := pa_ECFormats p\<rparr>)"

section \<open>From a message or a profile\<close>

definition extensionTypes :: "ClientHello \<Rightarrow> u16 list" where
  "extensionTypes ch = map Type (Extensions ch)"

definition groupsFromHello :: "ClientHello \<Rightarrow> u16 list" where
  "groupsFromHello ch =
     (case FindExtension ch ExtSupportedGroups of
        Some e \<Rightarrow> (case DecodeSupportedGroups (Data e) of Inr groups \<Rightarrow> groups | Inl _ \<Rightarrow> [])
      | None \<Rightarrow> [])"

definition formatsFromHello :: "ClientHello \<Rightarrow> bytes" where
  "formatsFromHello ch =
     (case FindExtension ch ExtECPointFormats of
        Some e \<Rightarrow> (case DecodeECPointFormats (Data e) of Inr formats \<Rightarrow> formats | Inl _ \<Rightarrow> [])
      | None \<Rightarrow> [])"

definition ja3_Compute :: "ClientHello option \<Rightarrow> string" where
  "ja3_Compute cho =
     (case cho of
        None \<Rightarrow> []
      | Some ch \<Rightarrow> ja3_Format (LegacyVersion ch) (CipherSuites ch) (extensionTypes ch)
                     (groupsFromHello ch) (formatsFromHello ch))"

definition ja3_FromProfile :: "TLSProfile option \<Rightarrow> string" where
  "ja3_FromProfile po =
     (case po of
        None \<Rightarrow> []
      | Some p \<Rightarrow>
          let ver = (if p_LegacyVersion p = 0 then 0x0303 else p_LegacyVersion p) in
          ja3_Format ver (p_CipherSuites p) (p_Extensions p) (p_SupportedGroups p) (p_ECFormats p))"

section \<open>Parsing\<close>

fun parseU16List_loop :: "string list \<Rightarrow> ja3_error + u16 list" where
  "parseU16List_loop [] = Inr []"
| "parseU16List_loop (part # parts) =
     (let part = TrimSpace part in
      if part = [] then parseU16List_loop parts
      else case ParseUint part 10 16 of
        None \<Rightarrow> Inl BadID
      | Some v \<Rightarrow> map_res ((#) (of_int v)) (parseU16List_loop parts))"

definition parseU16List :: "string \<Rightarrow> char \<Rightarrow> ja3_error + u16 list" where
  "parseU16List s sep =
     (if TrimSpace s = [] then Inr [] else parseU16List_loop (split_on sep s))"

fun u16s_to_bytes :: "u16 list \<Rightarrow> ja3_error + bytes" where
  "u16s_to_bytes [] = Inr []"
| "u16s_to_bytes (v # vs) =
     (if v > 255 then Inl OutOfByteRange else map_res ((#) (ucast v)) (u16s_to_bytes vs))"

definition parseU8List :: "string \<Rightarrow> char \<Rightarrow> ja3_error + bytes" where
  "parseU8List s sep = bind_res (parseU16List s sep) u16s_to_bytes"

definition ja3_Parse :: "string \<Rightarrow> ja3_error + Parts" where
  "ja3_Parse s =
     (let fields = split_on (CHR '','') (TrimSpace s) in
      if length fields \<noteq> 5 then Inl BadFieldCount
      else case ParseUint (TrimSpace (fields ! 0)) 10 16 of
        None \<Rightarrow> Inl BadVersion
      | Some ver \<Rightarrow>
          bind_res (parseU16List (fields ! 1) (CHR ''-'')) (\<lambda>ciphers.
          bind_res (parseU16List (fields ! 2) (CHR ''-'')) (\<lambda>extensions.
          bind_res (parseU16List (fields ! 3) (CHR ''-'')) (\<lambda>groups.
          bind_res (parseU8List (fields ! 4) (CHR ''-'')) (\<lambda>formats.
          Inr \<lparr>pa_Version = of_int ver, pa_CipherSuites = ciphers, pa_Extensions = extensions,
               pa_Groups = groups, pa_ECFormats = formats\<rparr>)))))"

section \<open>Hashing\<close>

definition ja3_Hash :: "(bytes \<Rightarrow> bytes) \<Rightarrow> string \<Rightarrow> string" where
  "ja3_Hash md5 ja3 = hex_EncodeToString (md5 (string_to_bytes ja3))"

definition HashParts :: "(bytes \<Rightarrow> bytes) \<Rightarrow> Parts \<Rightarrow> string" where
  "HashParts md5 p = ja3_Hash md5 (Parts_String p)"

section \<open>The printed lists\<close>

abbreviation not_grease :: "u16 list \<Rightarrow> u16 list" where
  "not_grease ids \<equiv> filter (\<lambda>i. \<not> IsGrease i) ids"

abbreviation dec_u16 :: "u16 \<Rightarrow> string" where "dec_u16 i \<equiv> Itoa (uint i)"
abbreviation dec_u8 :: "byte \<Rightarrow> string" where "dec_u8 i \<equiv> Itoa (uint i)"

lemma join_Cons_append:
  "join sep (s # ts) = s @ concat (map (\<lambda>t. sep @ t) ts)"
  by (induction ts arbitrary: s) simp_all

lemma joinHexFiltered_loop_False:
  "joinHexFiltered_loop False ids = concat (map (\<lambda>i. ''-'' @ dec_u16 i) (not_grease ids))"
  by (induction ids) simp_all

lemma joinHexFiltered_eq: "joinHexFiltered ids = join ''-'' (map dec_u16 (not_grease ids))"
  unfolding joinHexFiltered_def
  by (induction ids) (simp_all add: joinHexFiltered_loop_False join_Cons_append comp_def del: join.simps(2,3))

lemma joinDec_loop_Suc: "joinDec_loop (Suc n) bs = concat (map (\<lambda>b. ''-'' @ dec_u8 b) bs)"
  by (induction bs arbitrary: n) simp_all

lemma joinDec_eq: "joinDec bs = join ''-'' (map dec_u8 bs)"
  by (cases bs) (simp_all add: joinDec_def joinDec_loop_Suc join_Cons_append comp_def del: join.simps(2,3))

lemma uint_u16_bounds: "0 \<le> uint (v :: u16)" "uint v < 65536"
  using uint_lt2p [of v] by simp_all

lemma uint_byte_bounds: "0 \<le> uint (v :: byte)" "uint v < 256"
  using uint_lt2p [of v] by simp_all

lemma parseU16List_loop_Itoa:
  "\<forall>n \<in> set ns. 0 \<le> n \<and> n < 65536 \<Longrightarrow>
     parseU16List_loop (map Itoa ns) = Inr (map of_int ns)"
  by (induction ns) (simp_all add: Let_def TrimSpace_Itoa ParseUint_Itoa [where bits = 16, simplified])

lemma join_Itoa_chars:
  assumes "\<forall>n \<in> set ns. 0 \<le> n" and "c \<in> set (join ''-'' (map Itoa ns))"
  shows "\<not> is_space c \<and> c \<noteq> CHR '',''"
proof -
  have "is_space (CHR ''-'') = False" by code_simp
  then show ?thesis
    using set_join [of "''-''" "map Itoa ns"] assms by (auto dest: Itoa_chars)
qed

lemma parseU16List_join:
  assumes "\<forall>n \<in> set ns. 0 \<le> n \<and> n < 65536"
  shows "parseU16List (join ''-'' (map Itoa ns)) (CHR ''-'') = Inr (map of_int ns)"
proof (cases "ns = []")
  case False
  let ?s = "join ''-'' (map Itoa ns)"
  from False obtain m ms where "ns = m # ms" by (cases ns) auto
  then have "?s \<noteq> []" by (simp add: join_Cons_append del: join.simps(2,3))
  moreover have "TrimSpace ?s = ?s"
    using assms by (intro TrimSpace_no_space) (auto dest: join_Itoa_chars [rotated])
  moreover have "split_on (CHR ''-'') ?s = map Itoa ns"
    using assms False by (intro split_on_join) (auto dest: Itoa_chars)
  ultimately show ?thesis
    using assms by (simp add: parseU16List_def parseU16List_loop_Itoa)
qed (simp add: parseU16List_def)

lemma parseU16List_joinHexFiltered:
  "parseU16List (joinHexFiltered ids) (CHR ''-'') = Inr (not_grease ids)"
  using parseU16List_join [of "map uint (not_grease ids)"] uint_u16_bounds
  by (simp add: joinHexFiltered_eq comp_def)

lemma u16s_to_bytes_ucast: "u16s_to_bytes (map (\<lambda>b. ucast b) bs) = Inr bs"
proof (induction bs)
  case (Cons b bs)
  have "\<not> (255 :: u16) < ucast b"
    using uint_byte_bounds [of b] by (simp add: word_less_def unsigned_ucast_eq take_bit_int_eq_self)
  moreover have "ucast (ucast b :: u16) = b"
    by (rule bit_word_eqI) (auto simp: bit_simps)
  ultimately show ?case using Cons by simp
qed simp

lemma parseU8List_joinDec: "parseU8List (joinDec bs) (CHR ''-'') = Inr bs"
proof -
  have "of_int (uint b) = (ucast b :: u16)" for b :: byte by simp
  moreover have "\<forall>n \<in> set (map uint bs). 0 \<le> n \<and> n < 65536"
    using order_less_trans [OF uint_byte_bounds(2)] by simp
  ultimately have "parseU16List (joinDec bs) (CHR ''-'') = Inr (map (\<lambda>b. ucast b) bs)"
    using parseU16List_join [of "map uint bs"] by (simp add: joinDec_eq comp_def)
  then show ?thesis by (simp add: parseU8List_def u16s_to_bytes_ucast)
qed

lemma join_list_chars:
  "c \<in> set (joinHexFiltered ids) \<Longrightarrow> \<not> is_space c \<and> c \<noteq> CHR '',''"
  "c \<in> set (joinDec bs) \<Longrightarrow> \<not> is_space c \<and> c \<noteq> CHR '',''"
  using join_Itoa_chars [of "map uint (not_grease ids)" c] join_Itoa_chars [of "map uint bs" c]
  by (simp_all add: joinHexFiltered_eq joinDec_eq comp_def)

lemma split_ja3_Format:
  "split_on (CHR '','') (TrimSpace (ja3_Format v cs es gs fs)) =
     [dec_u16 v, joinHexFiltered cs, joinHexFiltered es, joinHexFiltered gs, joinDec fs]"
proof -
  have sp: "is_space (CHR '','') = False" by code_simp
  let ?fields = "[dec_u16 v, joinHexFiltered cs, joinHexFiltered es, joinHexFiltered gs, joinDec fs]"
  have j: "ja3_Format v cs es gs fs = join '','' ?fields" by (simp add: ja3_Format_def)
  have "TrimSpace (ja3_Format v cs es gs fs) = ja3_Format v cs es gs fs"
    using sp Itoa_chars(1) [OF uint_u16_bounds(1) [of v]]
    by (intro TrimSpace_no_space) (auto simp: ja3_Format_def dest: join_list_chars)
  moreover have "split_on (CHR '','') (join '','' ?fields) = ?fields"
    using Itoa_chars(3) [OF uint_u16_bounds(1) [of v]]
    by (intro split_on_join) (auto dest: join_list_chars)
  ultimately show ?thesis by (simp only: j)
qed

lemma ja3_Parse_rendered:
  "ja3_Parse (ja3_Format v cs es gs fs) =
     Inr \<lparr>pa_Version = v, pa_CipherSuites = filter (\<lambda>i. \<not> IsGrease i) cs,
          pa_Extensions = filter (\<lambda>i. \<not> IsGrease i) es, pa_Groups = filter (\<lambda>i. \<not> IsGrease i) gs,
          pa_ECFormats = fs\<rparr>"
proof -
  have "ParseUint (TrimSpace (dec_u16 v)) 10 16 = Some (uint v)"
    using uint_u16_bounds [of v] by (simp add: TrimSpace_Itoa ParseUint_Itoa)
  then show ?thesis
    by (simp add: ja3_Parse_def split_ja3_Format Let_def parseU16List_joinHexFiltered parseU8List_joinDec
        numeral_eq_Suc del: bind_res_eq_Inr)
qed

text \<open>C24: \<open>Parse\<close> inverts \<open>Format\<close>: whatever lists a JA3 string is rendered from, parsing it gives the
  version, the point formats and the three identifier lists back in order, with exactly the
  GREASE values removed.\<close>

theorem ja3_Parse_Format:
  "ja3_Parse (ja3_Format v cs es gs fs) =
     Inr \<lparr>pa_Version = v, pa_CipherSuites = filter (\<lambda>i. \<not> IsGrease i) cs,
          pa_Extensions = filter (\<lambda>i. \<not> IsGrease i) es, pa_Groups = filter (\<lambda>i. \<not> IsGrease i) gs,
          pa_ECFormats = fs\<rparr>"
  by (rule ja3_Parse_rendered)

text \<open>Two fingerprints have the same JA3 string exactly when they agree on the version, on the point
  formats and, up to GREASE values, on the cipher suites, extensions and groups in order:
  GREASE never changes the string, and everything else in it does.\<close>

theorem ja3_Format_eq_iff:
  "ja3_Format v cs es gs fs = ja3_Format v' cs' es' gs' fs' \<longleftrightarrow>
     v = v' \<and> filter (\<lambda>i. \<not> IsGrease i) cs = filter (\<lambda>i. \<not> IsGrease i) cs'
     \<and> filter (\<lambda>i. \<not> IsGrease i) es = filter (\<lambda>i. \<not> IsGrease i) es'
     \<and> filter (\<lambda>i. \<not> IsGrease i) gs = filter (\<lambda>i. \<not> IsGrease i) gs' \<and> fs = fs'"
  (is "?l \<longleftrightarrow> ?r")
proof
  assume ?l
  then have "ja3_Parse (ja3_Format v cs es gs fs) = ja3_Parse (ja3_Format v' cs' es' gs' fs')" by simp
  then show ?r unfolding ja3_Parse_rendered by simp
qed (simp add: ja3_Format_def joinHexFiltered_eq)

section \<open>The two ways to a JA3 string\<close>

lemma find_ext_distinct:
  "distinct (map Type es) \<Longrightarrow> e \<in> set es \<Longrightarrow> find_ext es (Type e) = Some e"
  by (induction es) force+

lemma find_ext_Some: "find_ext es t = Some e \<Longrightarrow> e \<in> set es \<and> Type e = t"
  by (induction es) (auto split: if_splits)

lemma extract_step_keeps:
  "extract_step e p = Inr q \<Longrightarrow>
     p_LegacyVersion q = p_LegacyVersion p \<and> p_CipherSuites q = p_CipherSuites p \<and> p_Extensions q = p_Extensions p
     \<and> (Type e \<noteq> ExtSupportedGroups \<longrightarrow> p_SupportedGroups q = p_SupportedGroups p)
     \<and> (Type e \<noteq> ExtECPointFormats \<longrightarrow> p_ECFormats q = p_ECFormats p)
     \<and> (Type e = ExtSupportedGroups \<longrightarrow> DecodeSupportedGroups (Data e) = Inr (p_SupportedGroups q))
     \<and> (Type e = ExtECPointFormats \<longrightarrow> DecodeECPointFormats (Data e) = Inr (p_ECFormats q))"
  by (auto simp: extract_step_def split: if_splits)

lemma extract_loop_keeps:
  "extract_loop es p = Inr q \<Longrightarrow>
     p_LegacyVersion q = p_LegacyVersion p \<and> p_CipherSuites q = p_CipherSuites p \<and> p_Extensions q = p_Extensions p
     \<and> (ExtSupportedGroups \<notin> Type ` set es \<longrightarrow> p_SupportedGroups q = p_SupportedGroups p)
     \<and> (ExtECPointFormats \<notin> Type ` set es \<longrightarrow> p_ECFormats q = p_ECFormats p)"
proof (induction es arbitrary: p)
  case (Cons e es)
  then obtain r where r: "extract_step e p = Inr r" and "extract_loop es r = Inr q" by auto
  from Cons.IH [OF this(2)] extract_step_keeps [OF r] show ?case by auto
qed simp

text \<open>With distinct extension types, the list extracted last is the one found first.\<close>

lemma extract_loop_found:
  "extract_loop es p = Inr q \<Longrightarrow> distinct (map Type es) \<Longrightarrow>
     (\<forall>e. find_ext es ExtSupportedGroups = Some e \<longrightarrow> DecodeSupportedGroups (Data e) = Inr (p_SupportedGroups q))
     \<and> (\<forall>e. find_ext es ExtECPointFormats = Some e \<longrightarrow> DecodeECPointFormats (Data e) = Inr (p_ECFormats q))"
proof (induction es arbitrary: p)
  case (Cons e es)
  then obtain r where r: "extract_step e p = Inr r" and l: "extract_loop es r = Inr q" by auto
  have d: "distinct (map Type es)" "Type e \<notin> Type ` set es" using Cons.prems(2) by auto
  show ?case
    using Cons.IH [OF l d(1)] extract_step_keeps [OF r] extract_loop_keeps [OF l] d(2) by auto
qed simp



end
