(* ===== verification/Ja4.thy ===== *)
theory Ja4
  imports Ja3
begin

text \<open>
  The package \<open>ja4\<close> (\<open>ja4.go\<close>): the JA4 fingerprint of a ClientHello. Names that clash with
  those of \<open>ja3\<close> carry the package as a prefix. SHA-256 is an argument of the definitions
  that use it; the statements about lengths assume that a digest has 32 bytes.
\<close>

record JA4 =
  ja4_A :: string
  ja4_B :: string
  ja4_C :: string

definition JA4_String :: "JA4 \<Rightarrow> string" where
  "JA4_String j = ja4_A j @ ''_'' @ ja4_B j @ ''_'' @ ja4_C j"

datatype ja4_error = NilClientHello | BadALPN hello_error

section \<open>The descriptive section\<close>

definition versionCode :: "u16 \<Rightarrow> string" where
  "versionCode v =
     (if v = VersionTLS13 then ''13''
      else if v = VersionTLS12 then ''12''
      else if v = VersionTLS11 then ''11''
      else if v = VersionTLS10 then ''10''
      else if v = VersionSSL30 then ''s3''
      else if v = 0x0002 then ''s2''
      else ''00'')"

text \<open>The loop for the highest non-GREASE version.\<close>

fun max_version :: "u16 \<Rightarrow> u16 list \<Rightarrow> u16" where
  "max_version m [] = m"
| "max_version m (v # vs) =
     (if IsGrease v then max_version m vs else max_version (if v > m then v else m) vs)"

definition versionString :: "ClientHello \<Rightarrow> string" where
  "versionString ch =
     (let fallback = versionCode (LegacyVersion ch) in
      case FindExtension ch ExtSupportedVersions of
        None \<Rightarrow> fallback
      | Some e \<Rightarrow> (case DecodeSupportedVersions (Data e) of
          Inl _ \<Rightarrow> fallback
        | Inr versions \<Rightarrow>
            let m = max_version 0 versions in if m \<noteq> 0 then versionCode m else fallback))"

definition pad2 :: "int \<Rightarrow> string" where
  "pad2 n = pad0 2 (Itoa (if n > 99 then 99 else n))"

definition ParseCounts :: "int \<Rightarrow> int \<Rightarrow> string \<times> string" where
  "ParseCounts numCiphers numExtensions = (pad2 numCiphers, pad2 numExtensions)"

definition isAlnum :: "char \<Rightarrow> bool" where
  "isAlnum b = (let n = char_code b in
     48 \<le> n \<and> n \<le> 57 \<or> 65 \<le> n \<and> n \<le> 90 \<or> 97 \<le> n \<and> n \<le> 122)"

definition alpnChars :: "string \<Rightarrow> string" where
  "alpnChars alpn =
     (if alpn = [] then ''00''
      else if isAlnum (hd alpn) \<and> isAlnum (last alpn) then [hd alpn, last alpn]
      else let hexStr = hex_EncodeToString (string_to_bytes alpn) in [hd hexStr, last hexStr])"

definition firstALPN :: "ClientHello \<Rightarrow> ja4_error + string" where
  "firstALPN ch =
     (case FindExtension ch ExtALPN of
        None \<Rightarrow> Inr []
      | Some e \<Rightarrow> (case DecodeALPN (Data e) of
          Inl err \<Rightarrow> Inl (BadALPN err)
        | Inr protos \<Rightarrow> Inr (case protos of [] \<Rightarrow> [] | p # _ \<Rightarrow> p)))"

definition computeA :: "ClientHello \<Rightarrow> ja4_error + string" where
  "computeA ch =
     (let sni = (case FindExtension ch ExtServerName of Some _ \<Rightarrow> ''d'' | None \<Rightarrow> ''i'');
          cipherCount = length (filter (\<lambda>cs. \<not> IsGrease cs) (CipherSuites ch));
          extCount = length (filter (\<lambda>e. \<not> IsGrease (Type e)) (Extensions ch))
      in bind_res (firstALPN ch) (\<lambda>alpn.
           Inr (''t'' @ versionString ch @ sni @ pad2 (int cipherCount) @ pad2 (int extCount)
                @ alpnChars alpn)))"

section \<open>The hashed sections\<close>

definition hash12 :: "(bytes \<Rightarrow> bytes) \<Rightarrow> string \<Rightarrow> string" where
  "hash12 sha256 s = take 12 (hex_EncodeToString (sha256 (string_to_bytes s)))"

definition computeB :: "(bytes \<Rightarrow> bytes) \<Rightarrow> ClientHello \<Rightarrow> string" where
  "computeB sha256 ch =
     (let list = map (\<lambda>cs. hex4 (uint cs)) (filter (\<lambda>cs. \<not> IsGrease cs) (CipherSuites ch)) in
      if length list = 0 then ''000000000000''
      else hash12 sha256 (join '','' (sort_Strings list)))"

definition computeC :: "(bytes \<Rightarrow> bytes) \<Rightarrow> ClientHello \<Rightarrow> string" where
  "computeC sha256 ch =
     (let list = map (\<lambda>t. hex4 (uint t))
            (filter (\<lambda>t. \<not> (IsGrease t \<or> t = ExtServerName \<or> t = ExtALPN)) (map Type (Extensions ch)))
      in if length list = 0 then ''000000000000''
      else
        let joined = join '','' (sort_Strings list);
            joined =
              (case FindExtension ch ExtSignatureAlgorithms of
                 None \<Rightarrow> joined
               | Some e \<Rightarrow> (case DecodeSignatureAlgorithms (Data e) of
                   Inl _ \<Rightarrow> joined
                 | Inr algs \<Rightarrow>
                     let sig = map (\<lambda>a. hex4 (uint a)) (filter (\<lambda>a. \<not> IsGrease a) algs) in
                     if length sig > 0 then joined @ ''_'' @ join '','' sig else joined))
        in hash12 sha256 joined)"

definition ja4_Compute :: "(bytes \<Rightarrow> bytes) \<Rightarrow> ClientHello option \<Rightarrow> ja4_error + JA4" where
  "ja4_Compute sha256 cho =
     (case cho of
        None \<Rightarrow> Inl NilClientHello
      | Some ch \<Rightarrow>
          bind_res (computeA ch) (\<lambda>a.
            Inr \<lparr>ja4_A = a, ja4_B = computeB sha256 ch, ja4_C = computeC sha256 ch\<rparr>))"

section \<open>Order and GREASE do not matter\<close>

lemma not_grease_well_known:
  "\<not> IsGrease ExtServerName" "\<not> IsGrease ExtALPN" "\<not> IsGrease ExtSignatureAlgorithms"
  "\<not> IsGrease ExtSupportedVersions"
  by code_simp+

text \<open>The extensions of a message that are not GREASE.\<close>

definition plain_exts :: "ClientHello \<Rightarrow> Extension list" where
  "plain_exts ch = filter (\<lambda>e. \<not> IsGrease (Type e)) (Extensions ch)"

lemma find_ext_plain:
  "\<not> IsGrease t \<Longrightarrow> FindExtension ch t = find_ext (plain_exts ch) t"
  by (simp add: FindExtension_def plain_exts_def find_ext_filter [of "\<lambda>t. \<not> IsGrease t"])

lemma find_ext_perm:
  assumes "mset es = mset es'" and "distinct (map Type es)"
  shows "find_ext es t = find_ext es' t"
proof -
  have s: "set es = set es'" using assms(1) by (metis set_mset_mset)
  have "mset (map Type es) = mset (map Type es')" using assms(1) by simp
  then have d: "distinct (map Type es')" using assms(2) by (metis mset_eq_imp_distinct_iff)
  show ?thesis
  proof (cases "find_ext es t")
    case None
    with s show ?thesis by (simp add: find_ext_None) (metis find_ext_None image_iff)
  next
    case (Some e)
    then have "e \<in> set es'" "Type e = t" using s by (auto dest: find_ext_Some)
    with find_ext_distinct [OF d, of e] Some show ?thesis by simp
  qed
qed

lemma find_perm_plain:
  assumes "mset (plain_exts c) = mset (plain_exts c')" and "distinct (map Type (plain_exts c))" and "\<not> IsGrease t"
  shows "FindExtension c t = FindExtension c' t"
  using assms by (simp add: find_ext_plain find_ext_perm)

lemma computeB_mset:
  assumes "mset (not_grease (CipherSuites c)) = mset (not_grease (CipherSuites c'))"
  shows "computeB h c = computeB h c'"
proof -
  let ?l = "\<lambda>c. map (\<lambda>cs. hex4 (uint cs)) (not_grease (CipherSuites c))"
  have m: "mset (?l c) = mset (?l c')" using assms by (metis mset_map)
  have "length (?l c) = length (?l c')" using m by (rule mset_eq_length)
  then show ?thesis unfolding computeB_def Let_def sort_Strings_mset [OF m] by (simp only:)
qed

definition hashed_types :: "ClientHello \<Rightarrow> u16 list" where
  "hashed_types c = filter (\<lambda>t. \<not> (IsGrease t \<or> t = ExtServerName \<or> t = ExtALPN)) (map Type (Extensions c))"

lemma hashed_types_plain:
  "hashed_types c = filter (\<lambda>t. t \<noteq> ExtServerName \<and> t \<noteq> ExtALPN) (map Type (plain_exts c))"
  by (auto simp: hashed_types_def plain_exts_def filter_map comp_def intro: filter_cong)

lemma computeC_mset:
  assumes "mset (plain_exts c) = mset (plain_exts c')"
    and "FindExtension c ExtSignatureAlgorithms = FindExtension c' ExtSignatureAlgorithms"
  shows "computeC h c = computeC h c'"
proof -
  let ?l = "\<lambda>c. map (\<lambda>t. hex4 (uint t)) (hashed_types c)"
  have "mset (hashed_types c) = mset (hashed_types c')"
    using assms(1) by (simp add: hashed_types_plain)
  then have m: "mset (?l c) = mset (?l c')" by (metis mset_map)
  have "length (?l c) = length (?l c')" using m by (rule mset_eq_length)
  then show ?thesis
    unfolding computeC_def hashed_types_def [symmetric] assms(2) sort_Strings_mset [OF m] Let_def by (simp only:)
qed



section \<open>The shape of a fingerprint\<close>

lemma versionCode_shape: "length (versionCode v) = 2 \<and> CHR ''_'' \<notin> set (versionCode v)"
  by (simp add: versionCode_def)

lemma versionString_shape: "length (versionString ch) = 2 \<and> CHR ''_'' \<notin> set (versionString ch)"
  by (simp add: versionString_def Let_def versionCode_shape split: option.splits sum.splits)

lemma digit_char_not_underscore: "0 \<le> d \<Longrightarrow> d < 16 \<Longrightarrow> digit_char d \<noteq> CHR ''_''"
  by (auto simp: digit_char_def dest!: arg_cong [where f = "of_char :: char \<Rightarrow> int"])

lemma hex_no_underscore: "CHR ''_'' \<notin> set (hex_EncodeToString bs)"
proof -
  have "digit_char (uint b div 16) \<noteq> CHR ''_''" "digit_char (uint b mod 16) \<noteq> CHR ''_''" for b :: byte
    using uint_byte_bounds [of b] digit_char_not_underscore [of "uint b div 16"]
      digit_char_not_underscore [of "uint b mod 16"] by (simp_all add: pos_imp_zdiv_nonneg_iff)
  then show ?thesis by (force simp: hex_EncodeToString_def)
qed

lemma alpnChars_shape: "length (alpnChars s) = 2 \<and> CHR ''_'' \<notin> set (alpnChars s)"
proof -
  have "\<not> isAlnum (CHR ''_'')" by code_simp
  moreover have "hex_EncodeToString (string_to_bytes s) \<noteq> []" if "s \<noteq> []"
    using that by (metis length_hex_EncodeToString length_0_conv length_bytes_string(1) mult_eq_0_iff zero_neq_numeral)
  ultimately show ?thesis
    using hex_no_underscore [of "string_to_bytes s"]
    by (auto simp: alpnChars_def Let_def)
qed

lemma pad2_shape:
  assumes "0 \<le> n"
  shows "length (pad2 n) = 2 \<and> CHR ''_'' \<notin> set (pad2 n)"
proof -
  define m where "m = (if n > 99 then 99 else n)"
  have m: "0 \<le> m" "m < 100" using assms by (simp_all add: m_def)
  have "length (Itoa m) \<le> 2"
  proof -
    have "m div 10 < 10" using m by simp
    then show ?thesis using m by (simp add: Itoa_nonneg digits_in.simps [of 10 m] digits_in.simps [of 10 "m div 10"])
  qed
  moreover have "CHR ''_'' \<notin> set (Itoa m)"
    using digits_in_digit_char [of 10 m "CHR ''_''"] digit_char_not_underscore m
    by (force simp: Itoa_nonneg [OF m(1)])
  ultimately show ?thesis by (simp add: pad2_def pad0_def m_def)
qed

lemma computeA_shape:
  "computeA ch = Inr a \<Longrightarrow> length a = 10 \<and> CHR ''_'' \<notin> set a"
  using pad2_shape versionString_shape alpnChars_shape
  by (auto simp: computeA_def split: option.splits)

lemma hash12_shape:
  "length (h (string_to_bytes s)) \<ge> 6 \<Longrightarrow> length (hash12 h s) = 12 \<and> CHR ''_'' \<notin> set (hash12 h s)"
  using hex_no_underscore by (auto simp: hash12_def dest: in_set_takeD)

text \<open>A fingerprint has the documented shape \<open>A_B_C\<close>: ten characters, then two hashes of twelve, none of
  them containing the separator, so that the printed form splits back into its three sections.\<close>

theorem ja4_Compute_shape:
  assumes "ja4_Compute sha256 cho = Inr j" and "\<And>bs. length (sha256 bs) = 32"
  shows "length (ja4_A j) = 10 \<and> length (ja4_B j) = 12 \<and> length (ja4_C j) = 12
    \<and> split_on (CHR ''_'') (JA4_String j) = [ja4_A j, ja4_B j, ja4_C j]"
proof -
  from assms(1) obtain ch where A: "computeA ch = Inr (ja4_A j)"
    and j: "ja4_B j = computeB sha256 ch" "ja4_C j = computeC sha256 ch"
    by (auto simp: ja4_Compute_def split: option.splits)
  have h: "length (hash12 sha256 s) = 12 \<and> CHR ''_'' \<notin> set (hash12 sha256 s)" for s
    using assms(2) by (intro hash12_shape) simp
  have B: "length (ja4_B j) = 12 \<and> CHR ''_'' \<notin> set (ja4_B j)" using h by (simp add: j computeB_def Let_def)
  have C: "length (ja4_C j) = 12 \<and> CHR ''_'' \<notin> set (ja4_C j)" using h by (simp add: j computeC_def Let_def)
  have "JA4_String j = join ''_'' [ja4_A j, ja4_B j, ja4_C j]" by (simp add: JA4_String_def)
  moreover have "split_on (CHR ''_'') (join ''_'' [ja4_A j, ja4_B j, ja4_C j]) = [ja4_A j, ja4_B j, ja4_C j]"
    using computeA_shape [OF A] B C by (intro split_on_join) auto
  ultimately show ?thesis using computeA_shape [OF A] B C by simp
qed

theorem ja4_Compute_shape_witness:
  "\<exists>j. ja4_Compute (\<lambda>bs. replicate 32 0) (Some example_hello) = Inr j
     \<and> split_on (CHR ''_'') (JA4_String j) = [''t13i010100'', ''000000000000'', ''000000000000'']"
proof -
  obtain j where j: "ja4_Compute (\<lambda>bs. replicate 32 0) (Some example_hello) = Inr j"
    and p: "ja4_A j = ''t13i010100''" "ja4_B j = ''000000000000''" "ja4_C j = ''000000000000''"
  proof
    show "ja4_Compute (\<lambda>bs. replicate 32 0) (Some example_hello) =
        Inr \<lparr>ja4_A = ''t13i010100'', ja4_B = ''000000000000'', ja4_C = ''000000000000''\<rparr>"
      by code_simp
  qed simp_all
  from ja4_Compute_shape [OF j] p show ?thesis by (intro exI [of _ j]) (simp add: j)
qed

end
