(* ===== verification/Preset.thy ===== *)
theory Preset
  imports Profile
begin

text \<open>
  The package \<open>preset\<close> (\<open>preset.go\<close>): named fingerprints and the registry that resolves
  names to them. A \<open>*Preset\<close> in the argument of \<open>NewRegistry\<close> is an option (\<open>None\<close> is
  nil), the three indexes are maps, and a nil dereference is the error \<open>NilDereference\<close>.
  Decoding the embedded JSON is an argument of \<open>Builtin\<close>. String comparison is Go's
  byte-wise order.
\<close>

section \<open>Sorting with a comparison function\<close>

text \<open>
  \<open>sort.Slice\<close> leaves a permutation of its argument that is sorted by \<open>less\<close> (here \<open>lt\<close>). It is modelled
  by insertion sort; lemma \<open>sorted_unique\<close> shows that under a total order no other result is
  possible, so the algorithm does not matter.
\<close>

fun insort_by :: "('a \<Rightarrow> 'a \<Rightarrow> bool) \<Rightarrow> 'a \<Rightarrow> 'a list \<Rightarrow> 'a list" where
  "insort_by lt x [] = [x]"
| "insort_by lt x (y # ys) = (if lt x y then x # y # ys else y # insort_by lt x ys)"

fun sort_Slice :: "('a \<Rightarrow> 'a \<Rightarrow> bool) \<Rightarrow> 'a list \<Rightarrow> 'a list" where
  "sort_Slice lt [] = []"
| "sort_Slice lt (x # xs) = insort_by lt x (sort_Slice lt xs)"

lemma mset_insort_by [simp]: "mset (insort_by lt x ys) = add_mset x (mset ys)"
  by (induction ys) simp_all

lemma mset_sort_Slice [simp]: "mset (sort_Slice lt xs) = mset xs"
  by (induction xs) simp_all

lemma set_sort_Slice [simp]: "set (sort_Slice lt xs) = set xs"
  by (metis mset_sort_Slice set_mset_mset)

lemma set_insort_by [simp]: "set (insort_by lt x ys) = insert x (set ys)"
  by (induction ys) auto

locale slice_order =
  fixes lt :: "'a \<Rightarrow> 'a \<Rightarrow> bool"
  assumes less_irrefl: "\<not> lt a a"
    and less_trans: "lt a b \<Longrightarrow> lt b c \<Longrightarrow> lt a c"
begin

lemma less_asym: "lt a b \<Longrightarrow> \<not> lt b a"
  using less_irrefl less_trans by blast

lemma sorted_insort_by:
  assumes "sorted_wrt lt ys" and "\<forall>y \<in> set ys. lt x y \<or> lt y x"
  shows "sorted_wrt lt (insort_by lt x ys)"
  using assms by (induction ys) (auto intro: less_trans)

definition total :: "'a set \<Rightarrow> bool" where
  "total A \<longleftrightarrow> (\<forall>a \<in> A. \<forall>b \<in> A. a \<noteq> b \<longrightarrow> lt a b \<or> lt b a)"

lemma sorted_sort_Slice:
  "distinct xs \<Longrightarrow> total (set xs) \<Longrightarrow> sorted_wrt lt (sort_Slice lt xs)"
proof (induction xs)
  case (Cons x xs)
  then have "sorted_wrt lt (sort_Slice lt xs)" by (simp add: total_def)
  moreover have "\<forall>y \<in> set (sort_Slice lt xs). lt x y \<or> lt y x"
    using Cons.prems by (auto simp: total_def)
  ultimately show ?case by (simp add: sorted_insort_by)
qed simp

lemma sorted_perm_unique:
  assumes "sorted_wrt lt xs" and "sorted_wrt lt ys" and "set xs = set ys"
  shows "xs = ys"
  using assms
proof (induction xs arbitrary: ys)
  case (Cons x xs)
  then obtain y ys' where ys: "ys = y # ys'" by (cases ys) auto
  have x: "\<forall>z \<in> set xs. lt x z" and y: "\<forall>z \<in> set ys'. lt y z" using Cons.prems ys by auto
  have "x = y"
  proof (rule ccontr)
    assume "x \<noteq> y"
    then have "y \<in> set xs" "x \<in> set ys'" using Cons.prems(3) ys by auto
    with x y less_asym show False by blast
  qed
  moreover have "x \<notin> set xs" "y \<notin> set ys'" using x y less_irrefl by blast+
  ultimately have "set xs = set ys'" using Cons.prems(3) ys by auto
  with Cons ys \<open>x = y\<close> show ?case by simp
qed simp

lemma sorted_unique:
  assumes "distinct xs" and "total (set xs)" and "mset ys = mset xs" and "sorted_wrt lt ys"
  shows "ys = sort_Slice lt xs"
  using mset_eq_setD [OF assms(3)]
  by (intro sorted_perm_unique [OF assms(4) sorted_sort_Slice [OF assms(1,2)]]) simp

lemma sorted_last_max:
  assumes "sorted_wrt lt xs" and "xs \<noteq> []" and "x \<in> set xs" and "x \<noteq> last xs"
  shows "lt x (last xs)"
  using assms by (induction xs) (auto split: if_splits)

end

section \<open>Presets, names and versions\<close>

record Preset =
  pr_Key :: string
  pr_ID :: string
  pr_Product :: string
  pr_Platform :: string
  pr_Version :: string
  pr_Description :: string
  pr_Profile :: Profile

definition Preset_Name :: "Preset option \<Rightarrow> string" where
  "Preset_Name po = (case po of None \<Rightarrow> [] | Some p \<Rightarrow> pr_Key p)"

definition Preset_UserAgent :: "Preset option \<Rightarrow> string" where
  "Preset_UserAgent po =
     (case po of
        None \<Rightarrow> []
      | Some p \<Rightarrow> (case Headers (pr_Profile p) of None \<Rightarrow> [] | Some h \<Rightarrow> UserAgent (Some h)))"

definition ReplaceAll :: "char \<Rightarrow> char \<Rightarrow> string \<Rightarrow> string" where
  "ReplaceAll old new s = map (\<lambda>c. if c = old then new else c) s"

definition normalize_name :: "string \<Rightarrow> string" where
  "normalize_name s = ToLower (ReplaceAll (CHR ''_'') (CHR ''-'') (TrimSpace s))"

text \<open>\<open>strings.FieldsFunc\<close>: the non-empty runs of characters that do not satisfy \<open>f\<close>.\<close>

function FieldsFunc :: "(char \<Rightarrow> bool) \<Rightarrow> string \<Rightarrow> string list" where
  "FieldsFunc f s =
     (case dropWhile f s of
        [] \<Rightarrow> []
      | c # cs \<Rightarrow> takeWhile (\<lambda>c. \<not> f c) (c # cs) # FieldsFunc f (dropWhile (\<lambda>c. \<not> f c) (c # cs)))"
  by pat_completeness auto
termination
proof (relation "measure (\<lambda>(f, s). length s)", goal_cases)
  case (2 f s c cs)
  have "\<not> f c" using 2 by (metis dropWhile_eq_Cons_conv)
  then have "length (dropWhile (\<lambda>c. \<not> f c) (c # cs)) < length (c # cs)"
    by (simp add: length_dropWhile_le le_imp_less_Suc)
  moreover have "length (c # cs) \<le> length s" by (metis 2 length_dropWhile_le)
  ultimately show ?case by simp
qed simp

declare FieldsFunc.simps [simp del]

definition versionSeg :: "string \<Rightarrow> int" where
  "versionSeg s = (case Atoi s of None \<Rightarrow> 0 | Some n \<Rightarrow> n)"

definition splitVersion :: "string \<Rightarrow> string list" where
  "splitVersion v =
     (let v = TrimSpace v in
      if v = [] then []
      else FieldsFunc (\<lambda>r. r = CHR ''.'' \<or> r = CHR ''-'' \<or> r = CHR ''_'') v)"

text \<open>The index loop of \<open>compareVersion\<close>, from index \<open>i\<close> on.\<close>

function compareVersion_loop :: "string list \<Rightarrow> string list \<Rightarrow> nat \<Rightarrow> nat \<Rightarrow> int" where
  "compareVersion_loop as bs n i =
     (if i < n then
        let av = (if i < length as then versionSeg (as ! i) else 0);
            bv = (if i < length bs then versionSeg (bs ! i) else 0)
        in if av < bv then -1 else if av > bv then 1 else compareVersion_loop as bs n (i + 1)
      else 0)"
  by pat_completeness auto
termination by (relation "measure (\<lambda>(as, bs, n, i). n - i)") auto

declare compareVersion_loop.simps [simp del]

definition compareVersion :: "string \<Rightarrow> string \<Rightarrow> int" where
  "compareVersion a b =
     (let as = splitVersion a; bs = splitVersion b;
          n = (if length bs > length as then length bs else length as)
      in compareVersion_loop as bs n 0)"

text \<open>The comparison that \<open>NewRegistry\<close> sorts with.\<close>

definition preset_less :: "Preset \<Rightarrow> Preset \<Rightarrow> bool" where
  "preset_less a b =
     (if pr_Product a \<noteq> pr_Product b then pr_Product a < pr_Product b
      else let c = compareVersion (pr_Version a) (pr_Version b) in
        if c \<noteq> 0 then c < 0 else pr_Key a < pr_Key b)"

section \<open>The registry\<close>

record Registry =
  r_presets :: "Preset list"
  byKey :: "string \<Rightarrow> Preset option"
  byName :: "string \<Rightarrow> Preset option"
  byAlias :: "string \<Rightarrow> Preset option"

datatype preset_error = DuplicateKey string | UnknownTarget string string | NilDereference | DecodeError

text \<open>The first loop of \<open>NewRegistry\<close>: index the keys, skipping nil entries.\<close>

fun index_keys :: "Preset option list \<Rightarrow> (string \<Rightarrow> Preset option) \<Rightarrow> preset_error + (string \<Rightarrow> Preset option)" where
  "index_keys [] m = Inr m"
| "index_keys (None # ps) m = index_keys ps m"
| "index_keys (Some p # ps) m =
     (if m (normalize_name (pr_Key p)) \<noteq> None then Inl (DuplicateKey (pr_Key p))
      else index_keys ps (m(normalize_name (pr_Key p) \<mapsto> p)))"

text \<open>The last loop: later presets of the sorted list overwrite earlier ones.\<close>

fun index_names :: "Preset list \<Rightarrow> (string \<Rightarrow> Preset option) \<Rightarrow> (string \<Rightarrow> Preset option)
    \<Rightarrow> (string \<Rightarrow> Preset option) \<times> (string \<Rightarrow> Preset option)" where
  "index_names [] names aliases = (names, aliases)"
| "index_names (p # ps) names aliases =
     index_names ps
       (if pr_Product p \<noteq> [] then names(normalize_name (pr_Product p) \<mapsto> p) else names)
       (if pr_Product p \<noteq> [] \<and> pr_Version p \<noteq> []
        then aliases(normalize_name (pr_Product p @ ''-'' @ pr_Version p) \<mapsto> p) else aliases)"

text \<open>
  A nil entry passes the first loop; the comparison function or, when there is nothing to
  compare, the last loop dereferences it.
\<close>

definition NewRegistry :: "Preset option list \<Rightarrow> preset_error + Registry" where
  "NewRegistry presets =
     bind_res (index_keys presets (\<lambda>_. None)) (\<lambda>keys.
       if None \<in> set presets then Inl NilDereference
       else
         let sorted = sort_Slice preset_less (map the presets);
             (names, aliases) = index_names sorted (\<lambda>_. None) (\<lambda>_. None)
         in Inr \<lparr>r_presets = sorted, byKey = keys, byName = names, byAlias = aliases\<rparr>)"

definition AddAlias :: "Registry \<Rightarrow> string \<Rightarrow> string \<Rightarrow> preset_error + Registry" where
  "AddAlias r alias target =
     (case byKey r (normalize_name target) of
        None \<Rightarrow> Inl (UnknownTarget target alias)
      | Some t \<Rightarrow> Inr (r\<lparr>byAlias := (byAlias r)(normalize_name alias \<mapsto> t)\<rparr>))"

definition Lookup :: "Registry \<Rightarrow> string \<Rightarrow> Preset option" where
  "Lookup r name =
     (let n = normalize_name name in
      case byKey r n of
        Some p \<Rightarrow> Some p
      | None \<Rightarrow>
          (case (if take 4 n \<noteq> ''tls-'' then byKey r (''tls-'' @ n) else None) of
             Some p \<Rightarrow> Some p
           | None \<Rightarrow> (case byName r n of
               Some p \<Rightarrow> Some p
             | None \<Rightarrow> byAlias r n)))"

definition Registry_List :: "Registry \<Rightarrow> Preset list" where
  "Registry_List r = r_presets r"

definition Products :: "Registry \<Rightarrow> string list" where
  "Products r = sort_Strings (remdups (filter (\<lambda>k. k \<noteq> []) (map pr_Product (r_presets r))))"

text \<open>
  \<open>Builtin\<close> runs its initialiser once and keeps the result: the state is \<open>None\<close> before the
  first call. \<open>unmarshal\<close> is \<open>json.Unmarshal\<close> on the embedded data.
\<close>

type_synonym builtin_state = "(preset_error + Registry) option"

definition Builtin :: "(bytes \<Rightarrow> Preset option list option) \<Rightarrow> bytes \<Rightarrow> builtin_state
    \<Rightarrow> (preset_error + Registry) \<times> builtin_state" where
  "Builtin unmarshal builtinJSON st =
     (case st of
        Some res \<Rightarrow> (res, st)
      | None \<Rightarrow>
          let res = (case unmarshal builtinJSON of
                       None \<Rightarrow> Inl DecodeError
                     | Some ps \<Rightarrow> NewRegistry ps)
          in (res, Some res))"

definition MustBuiltin :: "(bytes \<Rightarrow> Preset option list option) \<Rightarrow> bytes \<Rightarrow> builtin_state
    \<Rightarrow> Registry option \<times> builtin_state" where
  "MustBuiltin unmarshal builtinJSON st =
     (let (res, st') = Builtin unmarshal builtinJSON st in
      (case res of Inl _ \<Rightarrow> None | Inr r \<Rightarrow> Some r, st'))"

section \<open>Version comparison is a total preorder\<close>

text \<open>The segments of a version as an infinite sequence, missing ones being 0.\<close>

definition seg :: "string list \<Rightarrow> nat \<Rightarrow> int" where
  "seg as i = (if i < length as then versionSeg (as ! i) else 0)"

text \<open>Lexicographic comparison as a Go-style result.\<close>

definition lexcmp :: "int list \<Rightarrow> int list \<Rightarrow> int" where
  "lexcmp xs ys = (if xs < ys then -1 else if xs = ys then 0 else 1)"

lemma lexcmp_Cons: "lexcmp (x # xs) (y # ys) = (if x < y then -1 else if x > y then 1 else lexcmp xs ys)"
  by (simp add: lexcmp_def)

lemma lexcmp_append: "length xs = length ys \<Longrightarrow> lexcmp (xs @ zs) (ys @ zs) = lexcmp xs ys"
  by (induction xs ys rule: list_induct2) (simp_all add: lexcmp_Cons, simp add: lexcmp_def)

lemma compareVersion_loop_step:
  "i < n \<Longrightarrow> compareVersion_loop as bs n i =
     (if seg as i < seg bs i then -1 else if seg as i > seg bs i then 1 else compareVersion_loop as bs n (Suc i))"
  by (subst compareVersion_loop.simps) (simp add: seg_def Let_def)

lemma compareVersion_loop_lexcmp:
  "compareVersion_loop as bs n i = lexcmp (map (seg as) [i..<n]) (map (seg bs) [i..<n])"
proof (induction "n - i" arbitrary: i)
  case 0
  then show ?case by (subst compareVersion_loop.simps) (simp add: lexcmp_def)
next
  case (Suc d)
  then have i: "i < n" by simp
  then have "compareVersion_loop as bs n (Suc i) = lexcmp (map (seg as) [Suc i..<n]) (map (seg bs) [Suc i..<n])"
    using Suc by (intro Suc.hyps) simp
  then show ?case by (simp add: compareVersion_loop_step [OF i] upt_conv_Cons [OF i] lexcmp_Cons)
qed

text \<open>Any common length will do for the comparison.\<close>

lemma compareVersion_lexcmp:
  assumes "length (splitVersion a) \<le> N" and "length (splitVersion b) \<le> N"
  shows "compareVersion a b = lexcmp (map (seg (splitVersion a)) [0..<N]) (map (seg (splitVersion b)) [0..<N])"
proof -
  define n where "n = max (length (splitVersion a)) (length (splitVersion b))"
  have up: "[0..<N] = [0..<n] @ [n..<N]" using assms upt_add_eq_append [of 0 n "N - n"] by (simp add: n_def)
  have same: "map (seg (splitVersion a)) [n..<N] = map (seg (splitVersion b)) [n..<N]"
    by (rule map_cong) (auto simp: seg_def n_def)
  have "compareVersion a b = compareVersion_loop (splitVersion a) (splitVersion b) n 0"
    by (simp add: compareVersion_def Let_def n_def max_def not_less)
  then show ?thesis
    unfolding compareVersion_loop_lexcmp up map_append same by (simp add: lexcmp_append)
qed

text \<open>The zero-padded segments up to a given length.\<close>

definition vec :: "nat \<Rightarrow> string \<Rightarrow> int list" where
  "vec N a = map (seg (splitVersion a)) [0..<N]"

lemma compareVersion_vec:
  assumes "length (splitVersion a) \<le> N" and "length (splitVersion b) \<le> N"
  shows "compareVersion a b < 0 \<longleftrightarrow> vec N a < vec N b" and "compareVersion a b = 0 \<longleftrightarrow> vec N a = vec N b"
    and "compareVersion a b > 0 \<longleftrightarrow> vec N b < vec N a"
  unfolding compareVersion_lexcmp [OF assms] vec_def [symmetric] by (auto simp: lexcmp_def)

text \<open>A common length for three versions.\<close>

definition len3 :: "string \<Rightarrow> string \<Rightarrow> string \<Rightarrow> nat" where
  "len3 a b c = length (splitVersion a) + length (splitVersion b) + length (splitVersion c)"

lemma preset_less_vec:
  assumes "length (splitVersion (pr_Version a)) \<le> N" and "length (splitVersion (pr_Version b)) \<le> N"
  shows "preset_less a b \<longleftrightarrow>
    pr_Product a < pr_Product b
    \<or> pr_Product a = pr_Product b \<and> (vec N (pr_Version a) < vec N (pr_Version b)
       \<or> vec N (pr_Version a) = vec N (pr_Version b) \<and> pr_Key a < pr_Key b)"
  using compareVersion_vec [OF assms] by (auto simp: preset_less_def Let_def)

interpretation preset_order: slice_order preset_less
proof
  fix a b c :: Preset
  show "\<not> preset_less a a"
    using preset_less_vec [of a "length (splitVersion (pr_Version a))" a] by simp
  show "preset_less a c" if "preset_less a b" "preset_less b c"
  proof -
    let ?N = "len3 (pr_Version a) (pr_Version b) (pr_Version c)"
    have "length (splitVersion (pr_Version a)) \<le> ?N" "length (splitVersion (pr_Version b)) \<le> ?N"
      "length (splitVersion (pr_Version c)) \<le> ?N" by (simp_all add: len3_def)
    with that show ?thesis by (auto simp: preset_less_vec [where N = ?N])
  qed
qed

lemma preset_less_linear:
  assumes "pr_Key a \<noteq> pr_Key b"
  shows "preset_less a b \<or> preset_less b a"
proof -
  let ?N = "len3 (pr_Version a) (pr_Version b) []"
  have "length (splitVersion (pr_Version a)) \<le> ?N" "length (splitVersion (pr_Version b)) \<le> ?N"
    by (simp_all add: len3_def)
  with assms show ?thesis by (auto simp: preset_less_vec [where N = ?N])
qed

text \<open>\<open>compareVersion\<close> is a total preorder on version strings: antisymmetric in its sign, reflexive
  and transitive, and equality means equal segments once missing and non-numeric ones count
  as 0.\<close>

theorem compareVersion_total_preorder:
  "compareVersion a b = - compareVersion b a
   \<and> compareVersion a b \<in> {-1, 0, 1}
   \<and> (compareVersion a b = 0 \<longleftrightarrow> seg (splitVersion a) = seg (splitVersion b))
   \<and> \<not> (compareVersion a b \<le> 0 \<and> compareVersion b c \<le> 0 \<and> compareVersion a c > 0)"
proof -
  let ?N = "len3 a b c"
  have len: "length (splitVersion a) \<le> ?N" "length (splitVersion b) \<le> ?N" "length (splitVersion c) \<le> ?N"
    by (simp_all add: len3_def)
  note ab = compareVersion_lexcmp [OF len(1,2), folded vec_def]
    and ba = compareVersion_lexcmp [OF len(2,1), folded vec_def]
    and bc = compareVersion_lexcmp [OF len(2,3), folded vec_def]
    and ac = compareVersion_lexcmp [OF len(1,3), folded vec_def]
  have "seg (splitVersion a) i = seg (splitVersion b) i" if "vec ?N a = vec ?N b" for i
    using that len by (cases "i < ?N") (auto simp: vec_def seg_def)
  then have "vec ?N a = vec ?N b \<longleftrightarrow> seg (splitVersion a) = seg (splitVersion b)"
    by (auto simp: vec_def fun_eq_iff)
  then show ?thesis unfolding ab ba bc ac by (auto simp: lexcmp_def split: if_splits)
qed

section \<open>The registry\<close>

abbreviation norm_key :: "Preset \<Rightarrow> string" where
  "norm_key p \<equiv> normalize_name (pr_Key p)"

fun non_nil :: "Preset option list \<Rightarrow> Preset list" where
  "non_nil [] = []"
| "non_nil (None # ps) = non_nil ps"
| "non_nil (Some p # ps) = p # non_nil ps"

lemma non_nil_all: "None \<notin> set ps \<Longrightarrow> non_nil ps = map the ps"
  by (induction ps rule: non_nil.induct) auto

lemma index_keys_ok:
  "(\<exists>m'. index_keys ps m = Inr m') \<longleftrightarrow>
     distinct (map norm_key (non_nil ps)) \<and> (\<forall>p \<in> set (non_nil ps). m (norm_key p) = None)"
proof (induction ps m rule: index_keys.induct)
  case (3 p ps m)
  let ?m = "m(norm_key p \<mapsto> p)"
  have IH: "(\<exists>m'. index_keys ps ?m = Inr m') \<longleftrightarrow>
      distinct (map norm_key (non_nil ps)) \<and> (\<forall>q \<in> set (non_nil ps). ?m (norm_key q) = None)"
    if "m (norm_key p) = None"
    using 3 that by blast
  show ?case
  proof (cases "m (norm_key p)")
    case None
    then have "(\<exists>m'. index_keys (Some p # ps) m = Inr m') \<longleftrightarrow> (\<exists>m'. index_keys ps ?m = Inr m')" by simp
    also note IH [OF None]
    finally show ?thesis using None by (auto simp: image_iff)
  qed simp
qed simp_all

lemma index_keys_error:
  "index_keys ps m = Inl e \<Longrightarrow> \<exists>p \<in> set (non_nil ps). e = DuplicateKey (pr_Key p)"
  by (induction ps m rule: index_keys.induct) (auto split: if_splits)

lemma index_keys_value:
  "index_keys ps m = Inr m' \<Longrightarrow>
     m' k = Some p \<longleftrightarrow> p \<in> set (non_nil ps) \<and> norm_key p = k \<or> m k = Some p"
proof (induction ps m rule: index_keys.induct)
  case (3 q ps m)
  then have "m (norm_key q) = None" and "index_keys ps (m(norm_key q \<mapsto> q)) = Inr m'"
    by (auto split: if_splits)
  with 3(1) have "m' k = Some p \<longleftrightarrow> p \<in> set (non_nil ps) \<and> norm_key p = k \<or> (m(norm_key q \<mapsto> q)) k = Some p"
    by blast
  with \<open>m (norm_key q) = None\<close> show ?case by auto
qed auto

lemma index_names_names:
  "fst (index_names ps names aliases) n =
     (let ms = filter (\<lambda>p. pr_Product p \<noteq> [] \<and> normalize_name (pr_Product p) = n) ps in
      if ms = [] then names n else Some (last ms))"
  by (induction ps arbitrary: names aliases) (auto simp: Let_def)

lemma index_names_aliases:
  "snd (index_names ps names aliases) n = Some p \<Longrightarrow> p \<in> set ps \<or> aliases n = Some p"
  by (induction ps arbitrary: names aliases) (force split: if_splits)+

text \<open>The invariant of a registry.\<close>

definition named :: "string \<Rightarrow> Preset \<Rightarrow> bool" where
  "named n p \<longleftrightarrow> pr_Product p \<noteq> [] \<and> normalize_name (pr_Product p) = n"

definition wf_registry :: "Registry \<Rightarrow> bool" where
  "wf_registry r \<longleftrightarrow>
     distinct (map norm_key (r_presets r)) \<and> sorted_wrt preset_less (r_presets r)
     \<and> (\<forall>k p. byKey r k = Some p \<longleftrightarrow> p \<in> set (r_presets r) \<and> norm_key p = k)
     \<and> (\<forall>n. byName r n = (let ms = filter (named n) (r_presets r) in if ms = [] then None else Some (last ms)))
     \<and> (\<forall>n p. byAlias r n = Some p \<longrightarrow> p \<in> set (r_presets r))"

inductive registry_reach :: "Registry \<Rightarrow> bool" where
  reach_new: "NewRegistry ps = Inr r \<Longrightarrow> registry_reach r"
| reach_alias: "registry_reach r \<Longrightarrow> AddAlias r a target = Inr r' \<Longrightarrow> registry_reach r'"

lemma total_of_distinct_keys:
  "distinct (map norm_key xs) \<Longrightarrow> preset_order.total (set xs)"
  unfolding preset_order.total_def by (metis distinct_map inj_on_eq_iff preset_less_linear)

lemma NewRegistry_wf:
  assumes "NewRegistry ps = Inr r"
  shows "None \<notin> set ps" and "distinct (map norm_key (map the ps))"
    and "r_presets r = sort_Slice preset_less (map the ps)" and "wf_registry r"
proof -
  let ?s = "sort_Slice preset_less (map the ps)"
  from assms obtain keys where keys: "index_keys ps (\<lambda>_. None) = Inr keys" and nn: "None \<notin> set ps"
    and r: "r = \<lparr>r_presets = ?s, byKey = keys, byName = fst (index_names ?s (\<lambda>_. None) (\<lambda>_. None)),
          byAlias = snd (index_names ?s (\<lambda>_. None) (\<lambda>_. None))\<rparr>"
    by (auto simp: NewRegistry_def Let_def split: if_splits prod.splits)
  from keys have d: "distinct (map norm_key (map the ps))"
    using index_keys_ok [of ps "\<lambda>_. None"] by (auto simp: non_nil_all [OF nn])
  have ds: "distinct (map norm_key ?s)" using d by (metis mset_eq_imp_distinct_iff mset_map mset_sort_Slice)
  have "distinct (map the ps)" using d by (metis distinct_map)
  then have so: "sorted_wrt preset_less ?s"
    using preset_order.sorted_sort_Slice total_of_distinct_keys [OF d] by blast
  have k: "byKey r k = Some p \<longleftrightarrow> p \<in> set (r_presets r) \<and> norm_key p = k" for k p
    using index_keys_value [OF keys, of k p] by (simp add: r non_nil_all [OF nn])
  have n: "byName r n = (let ms = filter (named n) (r_presets r) in if ms = [] then None else Some (last ms))" for n
    by (simp add: r index_names_names named_def [abs_def])
  have a: "p \<in> set (r_presets r)" if "byAlias r n = Some p" for n p
    using index_names_aliases [of ?s "\<lambda>_. None" "\<lambda>_. None" n p] that by (simp add: r)
  show "None \<notin> set ps" by (rule nn)
  show "distinct (map norm_key (map the ps))" by (rule d)
  show "r_presets r = ?s" by (simp add: r)
  show "wf_registry r" using ds so k n a by (simp add: wf_registry_def r)
qed

lemma AddAlias_wf: "wf_registry r \<Longrightarrow> AddAlias r a target = Inr r' \<Longrightarrow> wf_registry r' \<and> r_presets r' = r_presets r"
  by (auto simp: AddAlias_def wf_registry_def split: option.splits if_splits)

lemma registry_reach_wf: "registry_reach r \<Longrightarrow> wf_registry r"
  by (induction rule: registry_reach.induct) (auto dest: NewRegistry_wf(4) AddAlias_wf)

lemma wf_byName_newest:
  assumes "wf_registry r" and "q \<in> set (r_presets r)" and "named n q"
  shows "\<exists>p. byName r n = Some p \<and> p \<in> set (r_presets r) \<and> named n p \<and> (q = p \<or> preset_less q p)"
proof -
  let ?ms = "filter (named n) (r_presets r)"
  have q: "q \<in> set ?ms" using assms by simp
  then have ne: "?ms \<noteq> []" by (metis empty_iff empty_set)
  have "sorted_wrt preset_less ?ms" using assms(1) by (auto simp: wf_registry_def intro: sorted_wrt_filter)
  then have "q = last ?ms \<or> preset_less q (last ?ms)" using preset_order.sorted_last_max ne q by blast
  moreover have "byName r n = Some (last ?ms)" using assms(1) ne by (simp add: wf_registry_def Let_def)
  moreover have "last ?ms \<in> set ?ms" using ne by (rule last_in_set)
  ultimately show ?thesis by auto
qed

lemma wf_byKey: "wf_registry r \<Longrightarrow> byKey r k = Some p \<longleftrightarrow> p \<in> set (r_presets r) \<and> norm_key p = k"
  by (simp add: wf_registry_def)

lemma wf_byKey_None: "wf_registry r \<Longrightarrow> \<forall>p \<in> set (r_presets r). norm_key p \<noteq> k \<Longrightarrow> byKey r k = None"
  by (cases "byKey r k") (auto simp: wf_byKey)

lemma wf_byName_sound: "wf_registry r \<Longrightarrow> byName r n = Some p \<Longrightarrow> p \<in> set (r_presets r)"
  using last_in_set [of "filter (named n) (r_presets r)"]
  by (auto simp: wf_registry_def Let_def split: if_splits)

lemma wf_byAlias_sound: "wf_registry r \<Longrightarrow> byAlias r n = Some p \<Longrightarrow> p \<in> set (r_presets r)"
  by (simp add: wf_registry_def)

text \<open>\<open>NewRegistry\<close> builds a registry exactly when no preset is nil and no two normalized keys are
  equal; a duplicate key is reported as such, and otherwise a nil entry, which the first loop
  skips, is dereferenced. The list of a new registry is the one permutation of the presets
  sorted by product, version and key.\<close>

theorem NewRegistry_outcome:
  "(case NewRegistry ps of
      Inr r \<Rightarrow> None \<notin> set ps \<and> distinct (map (\<lambda>p. normalize_name (pr_Key p)) (non_nil ps))
        \<and> (\<forall>ys. mset ys = mset (non_nil ps) \<and> sorted_wrt preset_less ys \<longleftrightarrow> ys = Registry_List r)
    | Inl e \<Rightarrow>
        if distinct (map (\<lambda>p. normalize_name (pr_Key p)) (non_nil ps)) then None \<in> set ps \<and> e = NilDereference
        else (\<exists>p \<in> set (non_nil ps). e = DuplicateKey (pr_Key p)))"
proof (cases "NewRegistry ps")
  case (Inr r)
  note wf = NewRegistry_wf [OF Inr]
  have m: "non_nil ps = map the ps" by (rule non_nil_all [OF wf(1)])
  have "distinct (map the ps)" using wf(2) by (metis distinct_map)
  then have "mset ys = mset (map the ps) \<and> sorted_wrt preset_less ys \<longleftrightarrow> ys = r_presets r" for ys
    using preset_order.sorted_unique [of "map the ps" ys] total_of_distinct_keys [OF wf(2)] wf(3,4)
    by (auto simp: wf_registry_def)
  then show ?thesis using wf Inr by (simp add: m Registry_List_def)
next
  case (Inl e)
  show ?thesis
  proof (cases "index_keys ps (\<lambda>_. None)")
    case (Inl e')
    then have "\<not> distinct (map norm_key (non_nil ps))" using index_keys_ok [of ps "\<lambda>_. None"] by auto
    with Inl \<open>NewRegistry ps = Inl e\<close> index_keys_error [OF Inl] show ?thesis by (simp add: NewRegistry_def)
  next
    case (Inr keys)
    then have "distinct (map norm_key (non_nil ps))" using index_keys_ok [of ps "\<lambda>_. None"] by auto
    with Inr Inl show ?thesis by (auto simp: NewRegistry_def Let_def split: if_splits prod.splits)
  qed
qed

lemma Lookup_source:
  "Lookup r name = Some p \<Longrightarrow>
     (\<exists>k. byKey r k = Some p) \<or> (\<exists>n. byName r n = Some p) \<or> (\<exists>n. byAlias r n = Some p)"
  unfolding Lookup_def Let_def by (simp split: option.split_asm if_split_asm) blast+

text \<open>In every registry that can be built and extended with aliases, every preset is found under
  every spelling of its key (case, \<open>_\<close> for \<open>-\<close>, surrounding blanks), whatever products and
  aliases exist; and whatever \<open>Lookup\<close> finds is a preset of the registry.\<close>

theorem Lookup_by_key:
  assumes "registry_reach r"
  shows "(\<forall>p \<in> set (Registry_List r). normalize_name name = normalize_name (pr_Key p) \<longrightarrow> Lookup r name = Some p)
    \<and> (\<forall>p. Lookup r name = Some p \<longrightarrow> p \<in> set (Registry_List r))"
proof -
  have wf: "wf_registry r" using assms by (rule registry_reach_wf)
  have "Lookup r name = Some p" if "p \<in> set (r_presets r)" "normalize_name name = norm_key p" for p
    using that wf_byKey [OF wf, of "norm_key p" p] by (simp add: Lookup_def Let_def)
  moreover have "p \<in> set (r_presets r)" if "Lookup r name = Some p" for p
    using Lookup_source [OF that]
  proof (elim disjE exE)
    show ?thesis if "byKey r k = Some p" for k using that wf_byKey [OF wf, of k p] by simp
    show ?thesis if "byName r n = Some p" for n using wf that by (rule wf_byName_sound)
    show ?thesis if "byAlias r n = Some p" for n using wf that by (rule wf_byAlias_sound)
  qed
  ultimately show ?thesis unfolding Registry_List_def by blast
qed

text \<open>A product name resolves to the newest preset of that product: when no key claims the name, \<open>Lookup\<close>
  returns a preset of the product that every other preset of the product sorts before.\<close>

theorem Lookup_newest_of_product:
  assumes "registry_reach r" and "q \<in> set (Registry_List r)" and "named (normalize_name name) q"
    and "\<forall>p \<in> set (Registry_List r).
      normalize_name (pr_Key p) \<noteq> normalize_name name \<and> normalize_name (pr_Key p) \<noteq> ''tls-'' @ normalize_name name"
  shows "\<exists>p. Lookup r name = Some p \<and> named (normalize_name name) p \<and> (q = p \<or> preset_less q p)"
proof -
  have wf: "wf_registry r" using assms(1) by (rule registry_reach_wf)
  have "byKey r (normalize_name name) = None" "byKey r (''tls-'' @ normalize_name name) = None"
    using assms(4) by (auto simp: Registry_List_def intro!: wf_byKey_None [OF wf])
  moreover obtain p where "byName r (normalize_name name) = Some p" "named (normalize_name name) p" "q = p \<or> preset_less q p"
    using wf_byName_newest [OF wf _ assms(3)] assms(2) by (auto simp: Registry_List_def)
  ultimately show ?thesis by (auto simp: Lookup_def Let_def)
qed

definition example_preset :: "string \<Rightarrow> string \<Rightarrow> Preset" where
  "example_preset key version = \<lparr>pr_Key = key, pr_ID = [], pr_Product = ''curl'', pr_Platform = [],
     pr_Version = version, pr_Description = [],
     pr_Profile = \<lparr>TLS = empty_TLSProfile, HTTP2 = None, Headers = None\<rparr>\<rparr>"

abbreviation "example_presets \<equiv>
  [Some (example_preset ''tls_curl_16'' ''8.16.0''), Some (example_preset ''tls_curl_4'' ''8.4.0'')]"

lemma example_compare: "compareVersion ''8.4.0'' ''8.16.0'' = -1" "compareVersion ''8.16.0'' ''8.4.0'' = 1"
  by code_simp+

lemma example_keys:
  "normalize_name ''tls_curl_16'' = ''tls-curl-16''" "normalize_name ''tls_curl_4'' = ''tls-curl-4''" "normalize_name ''Curl'' = ''curl''"
  "normalize_name ''curl'' = ''curl''"
  by code_simp+

lemma example_registry:
  obtains r where "NewRegistry example_presets = Inr r"
    and "r_presets r = [example_preset ''tls_curl_4'' ''8.4.0'', example_preset ''tls_curl_16'' ''8.16.0'']"
proof -
  have "\<exists>r. NewRegistry example_presets = Inr r \<and>
    r_presets r = [example_preset ''tls_curl_4'' ''8.4.0'', example_preset ''tls_curl_16'' ''8.16.0'']"
    by (simp add: NewRegistry_def example_keys example_preset_def preset_less_def example_compare Let_def
        split: prod.splits)
  then show thesis using that by blast
qed

theorem Lookup_by_key_witness:
  "\<exists>r. NewRegistry example_presets = Inr r
     \<and> Lookup r '' TLS-curl_4'' = Some (example_preset ''tls_curl_4'' ''8.4.0'')"
proof -
  obtain r where r: "NewRegistry example_presets = Inr r"
    "r_presets r = [example_preset ''tls_curl_4'' ''8.4.0'', example_preset ''tls_curl_16'' ''8.16.0'']"
    by (rule example_registry)
  have n: "normalize_name '' TLS-curl_4'' = normalize_name ''tls_curl_4''" by code_simp
  from Lookup_by_key [OF reach_new [OF r(1)], of "'' TLS-curl_4''"] r show ?thesis
    by (auto simp: Registry_List_def n example_preset_def)
qed

theorem Lookup_newest_of_product_witness:
  "\<exists>r p. NewRegistry example_presets = Inr r \<and> Lookup r ''Curl'' = Some p
     \<and> (example_preset ''tls_curl_16'' ''8.16.0'' = p \<or> preset_less (example_preset ''tls_curl_16'' ''8.16.0'') p)"
proof -
  obtain r where r: "NewRegistry example_presets = Inr r"
    "r_presets r = [example_preset ''tls_curl_4'' ''8.4.0'', example_preset ''tls_curl_16'' ''8.16.0'']"
    by (rule example_registry)
  have "\<exists>p. Lookup r ''Curl'' = Some p \<and> named (normalize_name ''Curl'') p \<and>
      (example_preset ''tls_curl_16'' ''8.16.0'' = p \<or> preset_less (example_preset ''tls_curl_16'' ''8.16.0'') p)"
    using r by (intro Lookup_newest_of_product [OF reach_new [OF r(1)]])
      (simp_all add: Registry_List_def example_preset_def named_def example_keys)
  then show ?thesis using r(1) by blast
qed

text \<open>What an alias does: after \<open>AddAlias\<close> succeeds, the new name resolves to its target unless a key,
  a key without its \<open>tls-\<close> prefix or a product has that name already, in which case nothing
  changes for it; all other names resolve as before, and an unknown target is an error.\<close>

theorem AddAlias_Lookup:
  "case AddAlias r alias_name target of
     Inl e \<Rightarrow> byKey r (normalize_name target) = None \<and> e = UnknownTarget target alias_name
   | Inr r' \<Rightarrow>
       Lookup r' name =
         (if normalize_name name = normalize_name alias_name
             \<and> Lookup (r\<lparr>byAlias := (\<lambda>_. None)\<rparr>) name = None
          then byKey r (normalize_name target) else Lookup r name)
       \<and> Registry_List r' = Registry_List r"
  by (auto simp: AddAlias_def Lookup_def Registry_List_def Let_def split: option.splits if_splits)

text \<open>\<open>Products\<close> lists the non-empty product names of the registry, sorted and each once.\<close>

theorem Products_correct:
  "sorted (Products r) \<and> distinct (Products r)
   \<and> set (Products r) = {pr_Product p | p. p \<in> set (Registry_List r) \<and> pr_Product p \<noteq> []}"
  by (auto simp: Products_def sort_Strings_def Registry_List_def)

text \<open>The built-in registry is initialised once: every later call of \<open>Builtin\<close> returns the result of the
  first one, whatever the data it would decode then.\<close>

theorem Builtin_once:
  "Builtin unmarshal' json' (snd (Builtin unmarshal json st)) = Builtin unmarshal json (snd (Builtin unmarshal json st))
   \<and> fst (Builtin unmarshal' json' (snd (Builtin unmarshal json st))) = fst (Builtin unmarshal json st)"
  by (cases st) (simp_all add: Builtin_def Let_def)

end
