(* ===== verification/Hpack_Varint.thy ===== *)
theory Hpack_Varint
  imports Prelude
begin

text \<open>
  The package \<open>http2/hpack\<close>, part one: variable-length integers (RFC 7541, section 5.1), the
  functions \<open>appendVarInt\<close> of \<open>encode.go\<close> and \<open>readVarInt\<close> of \<open>hpack.go\<close>. Integers are
  64-bit words; the prefix length \<open>n\<close> is a natural number. The remainder that \<open>readVarInt\<close>
  returns next to an error is not used by any caller and is dropped.
\<close>

datatype hpack_error =
    ErrNeedMore
  | ErrVarintOverflow
  | ErrStringLength
  | ErrInvalidHuffman
  | InvalidIndexError u64
  | TruncatedHeaders
  | InvalidEncoding
  | SizeUpdateNotFirst
  | SizeUpdateTooLarge
  | PanicBadN

section \<open>Definitions\<close>

lemma drop_bit_7_less:
  fixes i :: u64
  assumes "128 \<le> i"
  shows "unat (drop_bit 7 i) < unat i"
proof -
  have "128 \<le> unat i" using assms by (simp add: word_le_nat_alt)
  then show ?thesis by (simp add: drop_bit_eq_div unat_div)
qed

function appendVarInt_loop :: "u64 \<Rightarrow> bytes" where
  "appendVarInt_loop i =
     (if i \<ge> 128 then ucast (0x80 OR (i AND 0x7f)) # appendVarInt_loop (drop_bit 7 i) else [ucast i])"
  by pat_completeness auto
termination
  by (relation "measure unat") (auto simp: drop_bit_7_less)

declare appendVarInt_loop.simps [simp del]

definition appendVarInt :: "bytes \<Rightarrow> nat \<Rightarrow> u64 \<Rightarrow> bytes" where
  "appendVarInt dst n i =
     (let k = push_bit n 1 - 1 in
      if i < k then dst @ [ucast i]
      else dst @ [ucast k] @ appendVarInt_loop (i - k))"

fun readVarInt_loop :: "u64 \<Rightarrow> nat \<Rightarrow> bytes \<Rightarrow> hpack_error + (u64 \<times> bytes)" where
  "readVarInt_loop i m [] = Inl ErrNeedMore"
| "readVarInt_loop i m (b # p) =
     (let i = i + push_bit m (ucast (b AND 127)) in
      if b AND 128 = 0 then Inr (i, p)
      else if m + 7 \<ge> 63 then Inl ErrVarintOverflow
      else readVarInt_loop i (m + 7) p)"

definition readVarInt :: "nat \<Rightarrow> bytes \<Rightarrow> hpack_error + (u64 \<times> bytes)" where
  "readVarInt n p =
     (if n < 1 \<or> n > 8 then Inl PanicBadN
      else case p of
        [] \<Rightarrow> Inl ErrNeedMore
      | b # p' \<Rightarrow>
          let i = (if n < 8 then ucast b AND (push_bit n 1 - 1) else ucast b) in
          if i < push_bit n 1 - 1 then Inr (i, p')
          else readVarInt_loop i 0 p')"

section \<open>Reading what was written\<close>

text \<open>The bits of the masks; word numerals are simplified to these.\<close>

lemma bit_consts:
  "bit (127 :: int) n \<longleftrightarrow> n < 7" "bit (128 :: int) n \<longleftrightarrow> n = 7"
  "bit (127 :: nat) n \<longleftrightarrow> n < 7" "bit (128 :: nat) n \<longleftrightarrow> n = 7"
proof -
  have "(127 :: int) = mask 7" "(128 :: int) = 2 ^ 7" "(127 :: nat) = mask 7" "(128 :: nat) = 2 ^ 7"
    by (simp_all add: mask_eq_exp_minus_1)
  then show "bit (127 :: int) n \<longleftrightarrow> n < 7" "bit (128 :: int) n \<longleftrightarrow> n = 7"
    "bit (127 :: nat) n \<longleftrightarrow> n < 7" "bit (128 :: nat) n \<longleftrightarrow> n = 7"
    by (simp_all only: bit_mask_iff bit_exp_iff) (auto simp: possible_bit_def)
qed

lemma u64_split_7: "(j AND 0x7f) + push_bit 7 (drop_bit 7 j) = (j :: u64)"
proof -
  have "j AND 0x7f = take_bit 7 j" by (simp add: take_bit_eq_mask mask_eq_exp_minus_1)
  then show ?thesis using bits_ident [of 7 j] by (simp add: add.commute)
qed

lemma bits_below:
  fixes i :: u64
  assumes "unat i < 2 ^ n" and "bit i j"
  shows "j < n"
proof -
  have "take_bit n i = i" using assms(1) by (simp add: word_unat_eq_iff unsigned_take_bit_eq take_bit_nat_eq_self)
  with assms(2) show ?thesis by (metis bit_take_bit_iff)
qed

lemma small_bits: "i < (128 :: u64) \<Longrightarrow> bit i n \<Longrightarrow> n < 7"
  by (rule bits_below [of i 7 n]) (simp_all add: word_less_nat_alt)

lemma cont_byte:
  fixes j :: u64
  shows "(ucast (0x80 OR (j AND 0x7f)) :: byte) AND 128 \<noteq> 0"
    and "ucast ((ucast (0x80 OR (j AND 0x7f)) :: byte) AND 127) = j AND 0x7f"
proof -
  have "bit ((ucast (0x80 OR (j AND 0x7f)) :: byte) AND 128) 7"
    by (simp add: bit_simps bit_consts)
  then show "(ucast (0x80 OR (j AND 0x7f)) :: byte) AND 128 \<noteq> 0" by (metis bit_0_eq bot_apply bot_bool_def)
  show "ucast ((ucast (0x80 OR (j AND 0x7f)) :: byte) AND 127) = j AND 0x7f"
    by (rule bit_word_eqI) (auto simp: bit_simps bit_consts)
qed

lemma last_byte:
  fixes j :: u64
  assumes "j < 128"
  shows "(ucast j :: byte) AND 128 = 0" and "ucast ((ucast j :: byte) AND 127) = j"
proof -
  show "(ucast j :: byte) AND 128 = 0"
    using small_bits [OF assms] by (intro bit_word_eqI) (auto simp: bit_simps bit_consts)
  show "ucast ((ucast j :: byte) AND 127) = j"
    using small_bits [OF assms] by (intro bit_word_eqI) (force simp: bit_simps bit_consts)
qed

lemma push_bit_add_u64: "push_bit m (a + b) = push_bit m a + push_bit m (b :: u64)"
  by (simp add: push_bit_eq_mult algebra_simps)

lemma readVarInt_loop_append:
  "m \<le> 56 \<Longrightarrow> 7 dvd m \<Longrightarrow>
     readVarInt_loop i m (appendVarInt_loop j @ rest) =
       (if unat j < 2 ^ (63 - m) then Inr (i + push_bit m j, rest) else Inl ErrVarintOverflow)"
proof (induction j arbitrary: i m rule: appendVarInt_loop.induct)
  case (1 j)
  show ?case
  proof (cases "j \<ge> 128")
    case False
    then have "j < 128" by simp
    moreover have "unat j < 2 ^ (63 - m)"
    proof -
      have "unat j < 2 ^ 7" using \<open>j < 128\<close> by (simp add: word_less_nat_alt)
      also have "(2 :: nat) ^ 7 \<le> 2 ^ (63 - m)" using 1(2) by (intro power_increasing) simp_all
      finally show ?thesis .
    qed
    ultimately show ?thesis
      using False by (subst appendVarInt_loop.simps) (simp add: last_byte)
  next
    case True
    then have j: "128 \<le> unat j" by (simp add: word_le_nat_alt)
    show ?thesis
    proof (cases "m = 56")
      case True
      then show ?thesis using \<open>j \<ge> 128\<close> j
        by (subst appendVarInt_loop.simps) (simp add: cont_byte Let_def)
    next
      case False
      with 1(2,3) have m: "m + 7 \<le> 56" by (auto elim!: dvdE)
      have "push_bit m (j AND 0x7f) + push_bit (m + 7) (drop_bit 7 j) = push_bit m j"
        using arg_cong [OF u64_split_7 [of j], of "push_bit m"]
        by (simp add: push_bit_add_u64)
      moreover have "unat (drop_bit 7 j) < 2 ^ (63 - (m + 7)) \<longleftrightarrow> unat j < 2 ^ (63 - m)"
      proof -
        have "63 - m = (63 - (m + 7)) + 7" using m by simp
        then have "(2 :: nat) ^ (63 - m) = 2 ^ (63 - (m + 7)) * 128" by (simp only: power_add) simp
        then show ?thesis by (simp add: drop_bit_eq_div unat_div div_less_iff_less_mult)
      qed
      ultimately show ?thesis
        using m 1(3) 1(1) [OF \<open>j \<ge> 128\<close>, of "m + 7" "i + push_bit m (j AND 0x7f)"] \<open>j \<ge> 128\<close>
        by (subst appendVarInt_loop.simps) (simp add: cont_byte Let_def add.assoc)
    qed
  qed
qed

abbreviation varint_max :: "nat \<Rightarrow> u64" where
  "varint_max n \<equiv> push_bit n 1 - 1"

lemma prefix_cases:
  assumes "1 \<le> n" and "n \<le> (8 :: nat)"
  obtains "n = 1" | "n = 2" | "n = 3" | "n = 4" | "n = 5" | "n = 6" | "n = 7" | "n = 8"
  using assms by (auto simp: numeral_eq_Suc le_Suc_eq)

lemma unat_varint_max: "1 \<le> n \<Longrightarrow> n \<le> 8 \<Longrightarrow> unat (varint_max n) = 2 ^ n - 1"
  by (erule (1) prefix_cases) simp_all

text \<open>The prefix byte: \<open>flag\<close> stands for the type bits above the prefix.\<close>

lemma read_prefix:
  assumes "1 \<le> n" and "n \<le> 8" and "v \<le> varint_max n" and flag: "\<And>j. j < n \<Longrightarrow> \<not> bit flag j"
  shows "(if n < 8 then ucast (ucast v OR flag :: byte) AND varint_max n else ucast (ucast v OR flag :: byte)) = v"
proof -
  have "unat v \<le> 2 ^ n - 1" using assms(3) unat_varint_max [OF assms(1,2)] by (simp add: word_le_nat_alt)
  moreover have "(0 :: nat) < 2 ^ n" by simp
  ultimately have "unat v < 2 ^ n" by linarith
  then have v: "\<And>j. bit v j \<Longrightarrow> j < n" by (rule bits_below)
  have m: "varint_max n = mask n" by (simp add: mask_eq_exp_minus_1 push_bit_eq_mult)
  show ?thesis
  proof (cases "n < 8")
    case True
    then have "\<And>j. bit v j \<Longrightarrow> j < 8" using v by fastforce
    with True show ?thesis unfolding m using v flag
      by (auto simp: bit_simps intro!: bit_word_eqI dest: v)
  next
    case False
    with assms(2) have "n = 8" by simp
    moreover from this have "flag = 0" using flag by (intro bit_word_eqI) simp
    ultimately show ?thesis using v by (auto simp: bit_simps intro!: bit_word_eqI dest: v)
  qed
qed

lemma readVarInt_append:
  assumes "1 \<le> n" and "n \<le> 8" and "\<And>j. j < n \<Longrightarrow> \<not> bit flag j"
  shows "\<exists>b bs. appendVarInt [] n i = b # bs
    \<and> readVarInt n ((b OR flag) # bs @ rest) =
       (if i < push_bit n 1 - 1 \<or> unat (i - (push_bit n 1 - 1)) < 2 ^ 63 then Inr (i, rest)
        else Inl ErrVarintOverflow)"
proof (cases "i < varint_max n")
  case True
  have i: "(if n < 8 then ucast (ucast i OR flag :: byte) AND varint_max n else ucast (ucast i OR flag :: byte)) = i"
    using assms True by (intro read_prefix) simp_all
  have "readVarInt n ((ucast i OR flag) # rest) = Inr (i, rest)"
    unfolding readVarInt_def list.case i Let_def using assms True by simp
  moreover have "appendVarInt [] n i = [ucast i]" using True by (simp add: appendVarInt_def Let_def)
  ultimately show ?thesis using True by auto
next
  case False
  let ?k = "varint_max n"
  have k: "(if n < 8 then ucast (ucast ?k OR flag :: byte) AND ?k else ucast (ucast ?k OR flag :: byte)) = ?k"
    using assms by (intro read_prefix) simp_all
  have "readVarInt n ((ucast ?k OR flag) # appendVarInt_loop (i - ?k) @ rest) =
      (if unat (i - ?k) < 2 ^ 63 then Inr (i, rest) else Inl ErrVarintOverflow)"
    unfolding readVarInt_def list.case k Let_def
    using assms readVarInt_loop_append [of 0 "?k" "i - ?k" rest] by simp
  moreover have "appendVarInt [] n i = ucast ?k # appendVarInt_loop (i - ?k)"
    using False by (simp add: appendVarInt_def Let_def)
  ultimately show ?thesis using False by auto
qed

lemma appendVarInt_dst: "appendVarInt dst n i = dst @ appendVarInt [] n i"
  by (simp add: appendVarInt_def Let_def)

lemma appendVarInt_first:
  assumes "1 \<le> n" and "n \<le> 8" and "appendVarInt [] n i = b # bs" and "bit b j"
  shows "j < n"
proof -
  have k: "unat (varint_max n) < 2 ^ n" by (simp only: unat_varint_max [OF assms(1,2)]) simp
  show ?thesis
  proof (cases "i < varint_max n")
    case True
    then have "b = ucast i" using assms(3) by (simp add: appendVarInt_def Let_def)
    moreover have "unat i < 2 ^ n" using True k by (simp add: word_less_nat_alt)
    ultimately show ?thesis using assms(4) bits_below [of i n j] by (simp add: bit_simps)
  next
    case False
    then have "b = ucast (varint_max n)" using assms(3) by (simp add: appendVarInt_def Let_def)
    then show ?thesis using assms(4) bits_below [OF k, of j] by (simp add: bit_ucast_iff)
  qed
qed

text \<open>\<open>readVarInt\<close> reads back every integer that \<open>appendVarInt\<close> writes, for every prefix length and whatever
  type bits share the first byte, and leaves exactly what followed it; the only integers it
  refuses, as an overflow, are those whose part above the prefix needs more than 63 bits.\<close>

theorem readVarInt_appendVarInt:
  assumes "1 \<le> n" and "n \<le> 8" and "\<And>j. j < n \<Longrightarrow> \<not> bit flag j"
  shows "\<exists>b bs. appendVarInt [] n i = b # bs
    \<and> readVarInt n ((b OR flag) # bs @ rest) =
       (if i < push_bit n 1 - 1 \<or> unat (i - (push_bit n 1 - 1)) < 2 ^ 63 then Inr (i, rest)
        else Inl ErrVarintOverflow)"
  using assms by (rule readVarInt_append)

theorem readVarInt_appendVarInt_witness:
  "\<exists>b bs. appendVarInt [] 5 1337 = b # bs \<and> readVarInt 5 ((b OR 0x20) # bs @ [7]) = Inr (1337, [7])"
proof -
  have "\<not> bit (0x20 :: byte) j" if "j < 5" for j
    using that by (auto simp: numeral_eq_Suc less_Suc_eq bit_Suc)
  then have "\<exists>b bs. appendVarInt [] 5 1337 = b # bs
    \<and> readVarInt 5 ((b OR 0x20) # bs @ [7]) =
       (if 1337 < push_bit 5 1 - (1 :: u64) \<or> unat (1337 - (push_bit 5 1 - (1 :: u64))) < 2 ^ 63 then Inr (1337, [7])
        else Inl ErrVarintOverflow)"
    by (intro readVarInt_appendVarInt) simp_all
  then show ?thesis by simp
qed

section \<open>Incremental reading\<close>

lemma appendVarInt_loop_Cons:
  "j \<ge> 128 \<Longrightarrow> appendVarInt_loop j = ucast (0x80 OR (j AND 0x7f)) # appendVarInt_loop (drop_bit 7 j)"
  "\<not> j \<ge> 128 \<Longrightarrow> appendVarInt_loop j = [ucast j]"
  by (subst appendVarInt_loop.simps; simp)+

lemma readVarInt_loop_prefix:
  "appendVarInt_loop j = p @ q \<Longrightarrow> q \<noteq> [] \<Longrightarrow> m + 7 * length p < 63 \<Longrightarrow> readVarInt_loop i m p = Inl ErrNeedMore"
proof (induction p arbitrary: i j m)
  case (Cons b p)
  have j: "j \<ge> 128"
  proof (rule ccontr)
    assume "\<not> j \<ge> 128"
    with Cons.prems show False by (simp add: appendVarInt_loop_Cons(2))
  qed
  with Cons.prems(1) have b: "b = ucast (0x80 OR (j AND 0x7f))" and tl: "appendVarInt_loop (drop_bit 7 j) = p @ q"
    by (simp_all add: appendVarInt_loop_Cons(1))
  have "readVarInt_loop i' (m + 7) p = Inl ErrNeedMore" for i'
    using Cons.prems by (intro Cons.IH [OF tl]) simp_all
  then show ?case using Cons.prems(3) cont_byte(1) [of j] by (simp add: b Let_def)
qed simp

lemma length_appendVarInt_loop: "unat j < 2 ^ (7 * k) \<Longrightarrow> 0 < k \<Longrightarrow> length (appendVarInt_loop j) \<le> k"
proof (induction k arbitrary: j)
  case (Suc k)
  show ?case
  proof (cases "j \<ge> 128")
    case True
    then have "128 \<le> unat j" by (simp add: word_le_nat_alt)
    with Suc.prems(1) have k: "0 < k" by (cases k) simp_all
    have "unat (drop_bit 7 j) < 2 ^ (7 * k)"
      using Suc.prems(1) by (simp add: drop_bit_eq_div unat_div div_less_iff_less_mult power_add mult.commute)
    from Suc.IH [OF this k] show ?thesis by (simp add: appendVarInt_loop_Cons(1) [OF True])
  next
    case False
    then show ?thesis by (simp add: appendVarInt_loop_Cons(2))
  qed
qed simp

text \<open>A truncated integer is never misread: on every proper prefix of the encoding of an integer within
  range, the empty one included, \<open>readVarInt\<close> asks for more data.\<close>

theorem readVarInt_truncated:
  assumes "1 \<le> n" and "n \<le> 8" and "\<And>j. j < n \<Longrightarrow> \<not> bit flag j"
    and "i < push_bit n 1 - 1 \<or> unat (i - (push_bit n 1 - 1)) < 2 ^ 63"
    and "appendVarInt [] n i = b # p @ q" and "q \<noteq> []"
  shows "readVarInt n ((b OR flag) # p) = Inl ErrNeedMore \<and> readVarInt n [] = Inl ErrNeedMore"
proof -
  let ?k = "varint_max n"
  have i: "\<not> i < ?k" using assms(5,6) by (auto simp: appendVarInt_def Let_def split: if_splits)
  then have b: "b = ucast ?k" and pq: "appendVarInt_loop (i - ?k) = p @ q"
    using assms(5) by (simp_all add: appendVarInt_def Let_def)
  have "length (p @ q) \<le> 9"
    unfolding pq [symmetric] using i assms(4) by (intro length_appendVarInt_loop) simp_all
  then have len: "0 + 7 * length p < 63" using assms(6) by (cases q) simp_all
  have k: "(if n < 8 then ucast (ucast ?k OR flag :: byte) AND ?k else ucast (ucast ?k OR flag :: byte)) = ?k"
    using assms by (intro read_prefix) simp_all
  have "readVarInt n ((b OR flag) # p) = Inl ErrNeedMore"
    unfolding readVarInt_def list.case b k Let_def
    using assms(1,2) readVarInt_loop_prefix [OF pq assms(6) len] by simp
  then show ?thesis using assms(1,2) by (simp add: readVarInt_def)
qed

theorem readVarInt_truncated_witness:
  "readVarInt 5 [0x3f, 0x9a] = Inl ErrNeedMore"
proof -
  have "\<not> bit (0x20 :: byte) j" if "j < 5" for j
    using that by (auto simp: numeral_eq_Suc less_Suc_eq bit_Suc)
  moreover have "appendVarInt [] 5 1337 = 0x1f # [0x9a] @ [10]" by code_simp
  ultimately have "readVarInt 5 ((0x1f OR 0x20) # [0x9a]) = Inl ErrNeedMore \<and> readVarInt 5 [] = Inl ErrNeedMore"
    by (intro readVarInt_truncated [where i = 1337 and q = "[10]"]) simp_all
  then show ?thesis by simp
qed

end
