(* ===== verification/Hpack_Table.thy ===== *)
theory Hpack_Table
  imports Hpack_Varint
begin

text \<open>
  The package \<open>http2/hpack\<close>, part two: the header field tables. \<open>headerFieldTable\<close> of
  \<open>tables.go\<close> with its two indexes by unique id, the dynamic table of \<open>hpack.go\<close> with its
  size accounting, and the generated static table. A Go map read that finds nothing yields
  0, which is no valid id (\<open>get0\<close>). Unique ids are natural numbers, and the panic on overflow
  of \<open>evictCount\<close> is a branch; a panic is \<open>None\<close>. Table sizes are 32-bit words that wrap
  as in the source.
\<close>

section \<open>Header fields and tables\<close>

record HeaderField =
  hf_Name :: string
  hf_Value :: string
  hf_Sensitive :: bool

definition IsPseudo :: "HeaderField \<Rightarrow> bool" where
  "IsPseudo hf = (length (hf_Name hf) \<noteq> 0 \<and> hf_Name hf ! 0 = CHR '':'')"

definition HeaderField_Size :: "HeaderField \<Rightarrow> u32" where
  "HeaderField_Size hf = of_nat (length (hf_Name hf) + length (hf_Value hf) + 32)"

record headerFieldTable =
  ents :: "HeaderField list"
  evictCount :: nat
  t_byName :: "string \<Rightarrow> nat option"
  t_byNameValue :: "string \<times> string \<Rightarrow> nat option"

definition get0 :: "('k \<Rightarrow> nat option) \<Rightarrow> 'k \<Rightarrow> nat" where
  "get0 m k = (case m k of None \<Rightarrow> 0 | Some v \<Rightarrow> v)"

definition table_init :: headerFieldTable where
  "table_init = \<lparr>ents = [], evictCount = 0, t_byName = (\<lambda>_. None), t_byNameValue = (\<lambda>_. None)\<rparr>"

definition table_len :: "headerFieldTable \<Rightarrow> nat" where
  "table_len t = length (ents t)"

definition addEntry :: "headerFieldTable \<Rightarrow> HeaderField \<Rightarrow> headerFieldTable" where
  "addEntry t f =
     (let i = table_len t + evictCount t + 1 in
      t\<lparr>t_byName := (t_byName t)(hf_Name f \<mapsto> i),
        t_byNameValue := (t_byNameValue t)((hf_Name f, hf_Value f) \<mapsto> i),
        ents := ents t @ [f]\<rparr>)"

text \<open>The loop of \<open>evictOldest\<close> over the entries to be evicted; \<open>i\<close> is the id of the first.\<close>

fun evict_loop :: "HeaderField list \<Rightarrow> nat \<Rightarrow> (string \<Rightarrow> nat option) \<Rightarrow> (string \<times> string \<Rightarrow> nat option)
    \<Rightarrow> (string \<Rightarrow> nat option) \<times> (string \<times> string \<Rightarrow> nat option)" where
  "evict_loop [] i names pairs = (names, pairs)"
| "evict_loop (f # fs) i names pairs =
     evict_loop fs (i + 1)
       (if get0 names (hf_Name f) = i then names(hf_Name f := None) else names)
       (let p = (hf_Name f, hf_Value f) in if get0 pairs p = i then pairs(p := None) else pairs)"

definition evictOldest :: "headerFieldTable \<Rightarrow> nat \<Rightarrow> headerFieldTable option" where
  "evictOldest t n =
     (if n > table_len t then None
      else
        let (names, pairs) = evict_loop (take n (ents t)) (evictCount t + 1) (t_byName t) (t_byNameValue t)
        in if evictCount t + n \<ge> 2 ^ 64 then None
           else Some (t\<lparr>t_byName := names, t_byNameValue := pairs, ents := drop n (ents t),
                        evictCount := evictCount t + n\<rparr>))"

text \<open>\<open>idToIndex\<close>; the comparison \<open>t != staticTable\<close> of pointers is the flag \<open>static\<close>.\<close>

definition idToIndex :: "bool \<Rightarrow> headerFieldTable \<Rightarrow> nat \<Rightarrow> nat option" where
  "idToIndex static t i =
     (if i \<le> evictCount t then None
      else let k = i - evictCount t - 1 in
        Some (if \<not> static then table_len t - k else k + 1))"

definition search :: "bool \<Rightarrow> headerFieldTable \<Rightarrow> HeaderField \<Rightarrow> (nat \<times> bool) option" where
  "search static t f =
     (let i = (if \<not> hf_Sensitive f then get0 (t_byNameValue t) (hf_Name f, hf_Value f) else 0) in
      if i \<noteq> 0 then map_option (\<lambda>x. (x, True)) (idToIndex static t i)
      else
        let j = get0 (t_byName t) (hf_Name f) in
        if j \<noteq> 0 then map_option (\<lambda>x. (x, False)) (idToIndex static t j)
        else Some (0, False))"

section \<open>The dynamic table\<close>

record dynamicTable =
  table :: headerFieldTable
  dt_size :: u32
  maxSize :: u32
  allowedMaxSize :: u32

text \<open>The loop of \<open>evict\<close>: the size after it and the number of entries to evict.\<close>

fun evict_count :: "u32 \<Rightarrow> u32 \<Rightarrow> HeaderField list \<Rightarrow> u32 \<times> nat" where
  "evict_count sz m [] = (sz, 0)"
| "evict_count sz m (f # fs) =
     (if sz > m
      then let (s, n) = evict_count (sz - HeaderField_Size f) m fs in (s, Suc n)
      else (sz, 0))"

definition evict :: "dynamicTable \<Rightarrow> dynamicTable option" where
  "evict dt =
     (let (s, n) = evict_count (dt_size dt) (maxSize dt) (ents (table dt)) in
      map_option (\<lambda>t. dt\<lparr>dt_size := s, table := t\<rparr>) (evictOldest (table dt) n))"

definition setMaxSize :: "dynamicTable \<Rightarrow> u32 \<Rightarrow> dynamicTable option" where
  "setMaxSize dt v = evict (dt\<lparr>maxSize := v\<rparr>)"

definition dyn_add :: "dynamicTable \<Rightarrow> HeaderField \<Rightarrow> dynamicTable option" where
  "dyn_add dt f =
     evict (dt\<lparr>table := addEntry (table dt) f, dt_size := dt_size dt + HeaderField_Size f\<rparr>)"

section \<open>The static table\<close>

abbreviation hf :: "string \<Rightarrow> string \<Rightarrow> HeaderField" where
  "hf n v \<equiv> \<lparr>hf_Name = n, hf_Value = v, hf_Sensitive = False\<rparr>"

definition static_byName :: "(string \<times> nat) list" where
  "static_byName =
    [('':authority'', 1),
     ('':method'', 3),
     ('':path'', 5),
     ('':scheme'', 7),
     ('':status'', 14),
     (''accept-charset'', 15),
     (''accept-encoding'', 16),
     (''accept-language'', 17),
     (''accept-ranges'', 18),
     (''accept'', 19),
     (''access-control-allow-origin'', 20),
     (''age'', 21),
     (''allow'', 22),
     (''authorization'', 23),
     (''cache-control'', 24),
     (''content-disposition'', 25),
     (''content-encoding'', 26),
     (''content-language'', 27),
     (''content-length'', 28),
     (''content-location'', 29),
     (''content-range'', 30),
     (''content-type'', 31),
     (''cookie'', 32),
     (''date'', 33),
     (''etag'', 34),
     (''expect'', 35),
     (''expires'', 36),
     (''from'', 37),
     (''host'', 38),
     (''if-match'', 39),
     (''if-modified-since'', 40),
     (''if-none-match'', 41),
     (''if-range'', 42),
     (''if-unmodified-since'', 43),
     (''last-modified'', 44),
     (''link'', 45),
     (''location'', 46),
     (''max-forwards'', 47),
     (''proxy-authenticate'', 48),
     (''proxy-authorization'', 49),
     (''range'', 50),
     (''referer'', 51),
     (''refresh'', 52),
     (''retry-after'', 53),
     (''server'', 54),
     (''set-cookie'', 55),
     (''strict-transport-security'', 56),
     (''transfer-encoding'', 57),
     (''user-agent'', 58),
     (''vary'', 59),
     (''via'', 60),
     (''www-authenticate'', 61)]"

definition static_byNameValue :: "((string \<times> string) \<times> nat) list" where
  "static_byNameValue =
    [(('':authority'', ''''), 1),
     (('':method'', ''GET''), 2),
     (('':method'', ''POST''), 3),
     (('':path'', ''/''), 4),
     (('':path'', ''/index.html''), 5),
     (('':scheme'', ''http''), 6),
     (('':scheme'', ''https''), 7),
     (('':status'', ''200''), 8),
     (('':status'', ''204''), 9),
     (('':status'', ''206''), 10),
     (('':status'', ''304''), 11),
     (('':status'', ''400''), 12),
     (('':status'', ''404''), 13),
     (('':status'', ''500''), 14),
     ((''accept-charset'', ''''), 15),
     ((''accept-encoding'', ''gzip, deflate''), 16),
     ((''accept-language'', ''''), 17),
     ((''accept-ranges'', ''''), 18),
     ((''accept'', ''''), 19),
     ((''access-control-allow-origin'', ''''), 20),
     ((''age'', ''''), 21),
     ((''allow'', ''''), 22),
     ((''authorization'', ''''), 23),
     ((''cache-control'', ''''), 24),
     ((''content-disposition'', ''''), 25),
     ((''content-encoding'', ''''), 26),
     ((''content-language'', ''''), 27),
     ((''content-length'', ''''), 28),
     ((''content-location'', ''''), 29),
     ((''content-range'', ''''), 30),
     ((''content-type'', ''''), 31),
     ((''cookie'', ''''), 32),
     ((''date'', ''''), 33),
     ((''etag'', ''''), 34),
     ((''expect'', ''''), 35),
     ((''expires'', ''''), 36),
     ((''from'', ''''), 37),
     ((''host'', ''''), 38),
     ((''if-match'', ''''), 39),
     ((''if-modified-since'', ''''), 40),
     ((''if-none-match'', ''''), 41),
     ((''if-range'', ''''), 42),
     ((''if-unmodified-since'', ''''), 43),
     ((''last-modified'', ''''), 44),
     ((''link'', ''''), 45),
     ((''location'', ''''), 46),
     ((''max-forwards'', ''''), 47),
     ((''proxy-authenticate'', ''''), 48),
     ((''proxy-authorization'', ''''), 49),
     ((''range'', ''''), 50),
     ((''referer'', ''''), 51),
     ((''refresh'', ''''), 52),
     ((''retry-after'', ''''), 53),
     ((''server'', ''''), 54),
     ((''set-cookie'', ''''), 55),
     ((''strict-transport-security'', ''''), 56),
     ((''transfer-encoding'', ''''), 57),
     ((''user-agent'', ''''), 58),
     ((''vary'', ''''), 59),
     ((''via'', ''''), 60),
     ((''www-authenticate'', ''''), 61)]"

definition static_ents :: "HeaderField list" where
  "static_ents =
    [hf '':authority'' '''',
     hf '':method'' ''GET'',
     hf '':method'' ''POST'',
     hf '':path'' ''/'',
     hf '':path'' ''/index.html'',
     hf '':scheme'' ''http'',
     hf '':scheme'' ''https'',
     hf '':status'' ''200'',
     hf '':status'' ''204'',
     hf '':status'' ''206'',
     hf '':status'' ''304'',
     hf '':status'' ''400'',
     hf '':status'' ''404'',
     hf '':status'' ''500'',
     hf ''accept-charset'' '''',
     hf ''accept-encoding'' ''gzip, deflate'',
     hf ''accept-language'' '''',
     hf ''accept-ranges'' '''',
     hf ''accept'' '''',
     hf ''access-control-allow-origin'' '''',
     hf ''age'' '''',
     hf ''allow'' '''',
     hf ''authorization'' '''',
     hf ''cache-control'' '''',
     hf ''content-disposition'' '''',
     hf ''content-encoding'' '''',
     hf ''content-language'' '''',
     hf ''content-length'' '''',
     hf ''content-location'' '''',
     hf ''content-range'' '''',
     hf ''content-type'' '''',
     hf ''cookie'' '''',
     hf ''date'' '''',
     hf ''etag'' '''',
     hf ''expect'' '''',
     hf ''expires'' '''',
     hf ''from'' '''',
     hf ''host'' '''',
     hf ''if-match'' '''',
     hf ''if-modified-since'' '''',
     hf ''if-none-match'' '''',
     hf ''if-range'' '''',
     hf ''if-unmodified-since'' '''',
     hf ''last-modified'' '''',
     hf ''link'' '''',
     hf ''location'' '''',
     hf ''max-forwards'' '''',
     hf ''proxy-authenticate'' '''',
     hf ''proxy-authorization'' '''',
     hf ''range'' '''',
     hf ''referer'' '''',
     hf ''refresh'' '''',
     hf ''retry-after'' '''',
     hf ''server'' '''',
     hf ''set-cookie'' '''',
     hf ''strict-transport-security'' '''',
     hf ''transfer-encoding'' '''',
     hf ''user-agent'' '''',
     hf ''vary'' '''',
     hf ''via'' '''',
     hf ''www-authenticate'' '''']"

definition staticTable :: headerFieldTable where
  "staticTable = \<lparr>ents = static_ents, evictCount = 0, t_byName = map_of static_byName,
     t_byNameValue = map_of static_byNameValue\<rparr>"

section \<open>Lookup by index and search over both tables\<close>

text \<open>\<open>Decoder.at\<close> and \<open>Encoder.searchTable\<close>, on the dynamic table of the decoder or encoder.\<close>

definition maxTableIndex :: "headerFieldTable \<Rightarrow> nat" where
  "maxTableIndex dyn = table_len dyn + table_len staticTable"

definition at_index :: "headerFieldTable \<Rightarrow> nat \<Rightarrow> HeaderField option" where
  "at_index dyn i =
     (if i = 0 then None
      else if i \<le> table_len staticTable then Some (ents staticTable ! (i - 1))
      else if i > maxTableIndex dyn then None
      else Some (ents dyn ! (table_len dyn - (i - table_len staticTable))))"

definition searchTable :: "headerFieldTable \<Rightarrow> HeaderField \<Rightarrow> (nat \<times> bool) option" where
  "searchTable dyn f =
     (case search True staticTable f of
        None \<Rightarrow> None
      | Some (i, m) \<Rightarrow>
          if m then Some (i, True)
          else (case search False dyn f of
              None \<Rightarrow> None
            | Some (j, m) \<Rightarrow>
                if m \<or> (i = 0 \<and> j \<noteq> 0) then Some (j + table_len staticTable, m) else Some (i, False)))"

section \<open>The indexes point at the newest entry\<close>

text \<open>The position of the last element of a list that satisfies a predicate.\<close>

fun newest :: "('a \<Rightarrow> bool) \<Rightarrow> 'a list \<Rightarrow> nat option" where
  "newest P [] = None"
| "newest P (x # xs) =
     (case newest P xs of Some k \<Rightarrow> Some (Suc k) | None \<Rightarrow> if P x then Some 0 else None)"

lemma newest_snoc: "newest P (xs @ [y]) = (if P y then Some (length xs) else newest P xs)"
  by (induction xs) (auto split: option.splits)

lemma newest_None: "newest P xs = None \<longleftrightarrow> (\<forall>x \<in> set xs. \<not> P x)"
  by (induction xs) (auto split: option.splits)

lemma newest_Some:
  "newest P xs = Some k \<Longrightarrow> k < length xs \<and> P (xs ! k)"
  by (induction xs arbitrary: k) (auto split: option.splits if_splits)

abbreviation has_name :: "string \<Rightarrow> HeaderField \<Rightarrow> bool" where
  "has_name n f \<equiv> hf_Name f = n"

abbreviation has_pair :: "string \<times> string \<Rightarrow> HeaderField \<Rightarrow> bool" where
  "has_pair p f \<equiv> (hf_Name f, hf_Value f) = p"

definition index_ok :: "nat \<Rightarrow> HeaderField list \<Rightarrow> ('k \<Rightarrow> HeaderField \<Rightarrow> bool) \<Rightarrow> ('k \<Rightarrow> nat option) \<Rightarrow> bool" where
  "index_ok ec es has m \<longleftrightarrow> (\<forall>k. m k = map_option (\<lambda>i. i + ec + 1) (newest (has k) es))"

definition wf_table :: "headerFieldTable \<Rightarrow> bool" where
  "wf_table t \<longleftrightarrow>
     index_ok (evictCount t) (ents t) has_name (t_byName t)
     \<and> index_ok (evictCount t) (ents t) has_pair (t_byNameValue t)"

lemma wf_table_init: "wf_table table_init"
  by (simp add: wf_table_def index_ok_def table_init_def)

lemma wf_addEntry: "wf_table t \<Longrightarrow> wf_table (addEntry t f)"
  by (auto simp: wf_table_def index_ok_def addEntry_def table_len_def Let_def newest_snoc)

text \<open>Dropping the oldest entry: its id is deleted exactly when it is the newest of its key.\<close>

lemma index_ok_evict:
  assumes "index_ok ec (f # fs) has m" and "\<And>k'. has k' f \<longleftrightarrow> k' = k"
  shows "index_ok (Suc ec) fs has (if get0 m k = ec + 1 then m(k := None) else m)"
proof -
  have *: "m k' = map_option (\<lambda>i. i + ec + 1) (newest (has k') (f # fs))" for k'
    using assms(1) by (simp add: index_ok_def)
  show ?thesis
    unfolding index_ok_def
    using * [of k] assms(2) by (auto simp: get0_def * split: option.splits if_splits)
qed

lemma evict_loop_ok:
  "index_ok ec (es @ rest) has_name names \<Longrightarrow> index_ok ec (es @ rest) has_pair pairs \<Longrightarrow>
     evict_loop es (ec + 1) names pairs = (names', pairs') \<Longrightarrow>
     index_ok (ec + length es) rest has_name names' \<and> index_ok (ec + length es) rest has_pair pairs'"
proof (induction es arbitrary: ec names pairs)
  case (Cons f es)
  let ?n = "if get0 names (hf_Name f) = ec + 1 then names(hf_Name f := None) else names"
  let ?p = "if get0 pairs (hf_Name f, hf_Value f) = ec + 1 then pairs((hf_Name f, hf_Value f) := None) else pairs"
  have "index_ok (Suc ec) (es @ rest) has_name ?n"
    by (rule index_ok_evict) (use Cons.prems(1) in auto)
  moreover have "index_ok (Suc ec) (es @ rest) has_pair ?p"
    by (rule index_ok_evict) (use Cons.prems(2) in auto)
  moreover have "evict_loop es (Suc ec + 1) ?n ?p = (names', pairs')"
    using Cons.prems(3) by (simp add: Let_def)
  ultimately show ?case using Cons.IH [of "Suc ec" ?n ?p] by simp
qed simp

lemma evictOldest_wf:
  assumes "wf_table t" and "n \<le> table_len t" and "evictCount t + n < 2 ^ 64"
  obtains t' where "evictOldest t n = Some t'" and "wf_table t'" and "ents t' = drop n (ents t)"
    and "evictCount t' = evictCount t + n"
proof -
  obtain names pairs where l: "evict_loop (take n (ents t)) (evictCount t + 1) (t_byName t) (t_byNameValue t) = (names, pairs)"
    by (cases "evict_loop (take n (ents t)) (evictCount t + 1) (t_byName t) (t_byNameValue t)")
  have "index_ok (evictCount t + n) (drop n (ents t)) has_name names
      \<and> index_ok (evictCount t + n) (drop n (ents t)) has_pair pairs"
    using evict_loop_ok [of "evictCount t" "take n (ents t)" "drop n (ents t)", OF _ _ l] assms
    by (simp add: wf_table_def table_len_def)
  then show thesis
    using assms l that [of "t\<lparr>t_byName := names, t_byNameValue := pairs, ents := drop n (ents t), evictCount := evictCount t + n\<rparr>"]
    by (simp add: evictOldest_def wf_table_def table_len_def)
qed

section \<open>The dynamic table refines the eviction rule of RFC 7541\<close>

text \<open>The specification (sections 4.1 to 4.4): the size of a table is the sum of the sizes of its
  entries, and the oldest entries are dropped until the rest fits.\<close>

definition entry_size :: "HeaderField \<Rightarrow> nat" where
  "entry_size f = length (hf_Name f) + length (hf_Value f) + 32"

definition total_size :: "HeaderField list \<Rightarrow> nat" where
  "total_size es = sum_list (map entry_size es)"

fun rfc_evict :: "nat \<Rightarrow> HeaderField list \<Rightarrow> HeaderField list" where
  "rfc_evict m [] = []"
| "rfc_evict m (f # fs) = (if total_size (f # fs) > m then rfc_evict m fs else f # fs)"

lemma total_size_simps [simp]: "total_size [] = 0" "total_size (f # fs) = entry_size f + total_size fs"
  "total_size (xs @ ys) = total_size xs + total_size ys"
  by (simp_all add: total_size_def)

lemma unat_HeaderField_Size: "entry_size f < 2 ^ 32 \<Longrightarrow> unat (HeaderField_Size f) = entry_size f"
  by (simp add: HeaderField_Size_def entry_size_def unat_of_nat del: of_nat_add)

lemma evict_count_spec:
  "unat sz = total_size es \<Longrightarrow> total_size es < 2 ^ 32 \<Longrightarrow> evict_count sz m es = (s, n) \<Longrightarrow>
     n \<le> length es \<and> drop n es = rfc_evict (unat m) es \<and> unat s = total_size (drop n es) \<and> s \<le> m"
proof (induction es arbitrary: sz s n)
  case (Cons f fs)
  show ?case
  proof (cases "sz > m")
    case True
    obtain s' n' where c: "evict_count (sz - HeaderField_Size f) m fs = (s', n')" by force
    have f: "unat (HeaderField_Size f) = entry_size f" using Cons.prems(2) by (intro unat_HeaderField_Size) simp
    then have "HeaderField_Size f \<le> sz" using Cons.prems(1) by (simp add: word_le_nat_alt)
    then have "unat (sz - HeaderField_Size f) = total_size fs" using Cons.prems(1) f by (simp add: unat_sub)
    then have IH: "n' \<le> length fs \<and> drop n' fs = rfc_evict (unat m) fs \<and> unat s' = total_size (drop n' fs) \<and> s' \<le> m"
      using Cons.IH [OF _ _ c] Cons.prems(2) by simp
    have "unat m < total_size (f # fs)" using True Cons.prems(1) by (simp add: word_less_nat_alt)
    with IH True c Cons.prems(3) show ?thesis by auto
  next
    case False
    then have "\<not> unat m < total_size (f # fs)" using Cons.prems(1) by (simp add: word_less_nat_alt)
    with False Cons.prems show ?thesis by auto
  qed
qed (auto simp: word_le_nat_alt)

definition wf_dyn :: "dynamicTable \<Rightarrow> bool" where
  "wf_dyn dt \<longleftrightarrow>
     wf_table (table dt) \<and> unat (dt_size dt) = total_size (ents (table dt)) \<and> dt_size dt \<le> maxSize dt"

lemma evict_spec:
  assumes "wf_table (table dt)" and "unat (dt_size dt) = total_size (ents (table dt))"
    and "evictCount (table dt) + length (ents (table dt)) < 2 ^ 64"
  shows "\<exists>dt'. evict dt = Some dt' \<and> wf_dyn dt' \<and> ents (table dt') = rfc_evict (unat (maxSize dt)) (ents (table dt))
    \<and> maxSize dt' = maxSize dt \<and> allowedMaxSize dt' = allowedMaxSize dt
    \<and> evictCount (table dt') + length (ents (table dt')) = evictCount (table dt) + length (ents (table dt))"
proof -
  obtain s n where c: "evict_count (dt_size dt) (maxSize dt) (ents (table dt)) = (s, n)" by force
  have "unat (dt_size dt) < 2 ^ 32" using unsigned_less [of "dt_size dt"] by simp
  then have s: "n \<le> length (ents (table dt))" "drop n (ents (table dt)) = rfc_evict (unat (maxSize dt)) (ents (table dt))"
    "unat s = total_size (drop n (ents (table dt)))" "s \<le> maxSize dt"
    using evict_count_spec [OF assms(2) _ c] assms(2) by simp_all
  obtain t' where "evictOldest (table dt) n = Some t'" "wf_table t'" "ents t' = drop n (ents (table dt))"
    "evictCount t' = evictCount (table dt) + n"
    using evictOldest_wf [OF assms(1), of n] s(1) assms(3) by (auto simp: table_len_def)
  moreover have "n + length (rfc_evict (unat (maxSize dt)) (ents (table dt))) = length (ents (table dt))"
    using s(1) arg_cong [OF s(2), of length] by simp
  ultimately show ?thesis using s c by (simp add: evict_def wf_dyn_def)
qed

lemma dyn_add_spec:
  assumes "wf_dyn dt" and "evictCount (table dt) + length (ents (table dt)) + 1 < 2 ^ 64"
    and "total_size (ents (table dt)) + entry_size f < 2 ^ 32"
  obtains dt' where "dyn_add dt f = Some dt'" and "wf_dyn dt'"
    and "ents (table dt') = rfc_evict (unat (maxSize dt)) (ents (table dt) @ [f])" and "maxSize dt' = maxSize dt"
    and "allowedMaxSize dt' = allowedMaxSize dt"
    and "evictCount (table dt') + length (ents (table dt')) = evictCount (table dt) + length (ents (table dt)) + 1"
proof -
  let ?dt = "dt\<lparr>table := addEntry (table dt) f, dt_size := dt_size dt + HeaderField_Size f\<rparr>"
  have f: "unat (HeaderField_Size f) = entry_size f" using assms(3) by (intro unat_HeaderField_Size) simp
  have e: "ents (addEntry (table dt) f) = ents (table dt) @ [f]" "evictCount (addEntry (table dt) f) = evictCount (table dt)"
    by (simp_all add: addEntry_def Let_def)
  have "unat (dt_size dt + HeaderField_Size f) = total_size (ents (table dt) @ [f])"
    using assms f by (simp add: wf_dyn_def unat_word_ariths)
  then show thesis
    using evict_spec [of ?dt] assms e wf_addEntry [of "table dt" f] that unfolding dyn_add_def wf_dyn_def by auto
qed

lemma setMaxSize_spec:
  assumes "wf_dyn dt" and "evictCount (table dt) + length (ents (table dt)) < 2 ^ 64"
  obtains dt' where "setMaxSize dt v = Some dt'" and "wf_dyn dt'"
    and "ents (table dt') = rfc_evict (unat v) (ents (table dt))" and "maxSize dt' = v"
    and "allowedMaxSize dt' = allowedMaxSize dt"
    and "evictCount (table dt') + length (ents (table dt')) = evictCount (table dt) + length (ents (table dt))"
proof -
  let ?dt = "dt\<lparr>maxSize := v\<rparr>"
  have "wf_table (table ?dt)" and "unat (dt_size ?dt) = total_size (ents (table ?dt))"
    and "evictCount (table ?dt) + length (ents (table ?dt)) < 2 ^ 64"
    using assms by (simp_all add: wf_dyn_def)
  from evict_spec [OF this] obtain dt' where "evict ?dt = Some dt'" "wf_dyn dt'"
    "ents (table dt') = rfc_evict (unat (maxSize ?dt)) (ents (table ?dt))" "maxSize dt' = maxSize ?dt"
    "allowedMaxSize dt' = allowedMaxSize ?dt"
    "evictCount (table dt') + length (ents (table dt')) = evictCount (table ?dt) + length (ents (table ?dt))" by blast
  then have "setMaxSize dt v = Some dt'" "wf_dyn dt'"
    "ents (table dt') = rfc_evict (unat v) (ents (table dt))" "maxSize dt' = v" "allowedMaxSize dt' = allowedMaxSize dt"
    "evictCount (table dt') + length (ents (table dt')) = evictCount (table dt) + length (ents (table dt))"
    by (simp_all add: setMaxSize_def)
  then show thesis by (rule that)
qed

text \<open>C35: the dynamic table keeps its books: in a well-formed table adding an entry or changing the maximum
  size succeeds and leaves a well-formed table whose recorded size is the sum of the entry
  sizes and at most the maximum, and whose entries are exactly those that the eviction rule of
  RFC 7541 keeps. The hypotheses exclude only wrap-around: of the 32-bit size and of the 64-bit
  eviction counter.\<close>

theorem dynamic_table_refines_rfc:
  assumes "wf_dyn dt" and "evictCount (table dt) + length (ents (table dt)) + 1 < 2 ^ 64"
    and "total_size (ents (table dt)) + entry_size f < 2 ^ 32"
  shows "(\<exists>dt'. dyn_add dt f = Some dt' \<and> wf_dyn dt'
      \<and> ents (table dt') = rfc_evict (unat (maxSize dt)) (ents (table dt) @ [f]) \<and> maxSize dt' = maxSize dt)
    \<and> (\<exists>dt'. setMaxSize dt v = Some dt' \<and> wf_dyn dt'
      \<and> ents (table dt') = rfc_evict (unat v) (ents (table dt)) \<and> maxSize dt' = v)"
proof
  obtain dt' where "dyn_add dt f = Some dt'" "wf_dyn dt'"
    "ents (table dt') = rfc_evict (unat (maxSize dt)) (ents (table dt) @ [f])" "maxSize dt' = maxSize dt"
    using dyn_add_spec [OF assms] by blast
  then show "\<exists>dt'. dyn_add dt f = Some dt' \<and> wf_dyn dt'
      \<and> ents (table dt') = rfc_evict (unat (maxSize dt)) (ents (table dt) @ [f]) \<and> maxSize dt' = maxSize dt" by blast
  have "evictCount (table dt) + length (ents (table dt)) < 2 ^ 64" using assms(2) by simp
  with assms(1) obtain dt' where "setMaxSize dt v = Some dt'" "wf_dyn dt'"
    "ents (table dt') = rfc_evict (unat v) (ents (table dt))" "maxSize dt' = v"
    by (rule setMaxSize_spec)
  then show "\<exists>dt'. setMaxSize dt v = Some dt' \<and> wf_dyn dt'
      \<and> ents (table dt') = rfc_evict (unat v) (ents (table dt)) \<and> maxSize dt' = v" by blast
qed

theorem dynamic_table_refines_rfc_witness:
  "\<exists>dt'. dyn_add \<lparr>table = table_init, dt_size = 0, maxSize = 100, allowedMaxSize = 100\<rparr> (hf ''a'' ''b'') = Some dt'
     \<and> wf_dyn dt' \<and> ents (table dt') = [hf ''a'' ''b'']"
proof -
  let ?dt = "\<lparr>table = table_init, dt_size = 0, maxSize = 100, allowedMaxSize = 100\<rparr>"
  have "wf_dyn ?dt" by (simp add: wf_dyn_def wf_table_init) (simp add: table_init_def)
  moreover have "rfc_evict (unat (maxSize ?dt)) (ents (table ?dt) @ [hf ''a'' ''b'']) = [hf ''a'' ''b'']"
    by (simp add: table_init_def entry_size_def)
  ultimately show ?thesis
    using dynamic_table_refines_rfc [of ?dt "hf ''a'' ''b''" 0] by (auto simp: table_init_def entry_size_def)
qed

section \<open>Search finds what the index refers to\<close>

lemma wf_get0:
  assumes "index_ok ec es has m"
  shows "get0 m k = 0 \<longleftrightarrow> newest (has k) es = None"
    and "get0 m k \<noteq> 0 \<Longrightarrow> \<exists>i. newest (has k) es = Some i \<and> get0 m k = i + ec + 1"
proof -
  have "m k = map_option (\<lambda>i. i + ec + 1) (newest (has k) es)" using assms by (simp add: index_ok_def)
  then show "get0 m k = 0 \<longleftrightarrow> newest (has k) es = None"
    and "get0 m k \<noteq> 0 \<Longrightarrow> \<exists>i. newest (has k) es = Some i \<and> get0 m k = i + ec + 1"
    by (cases "newest (has k) es"; simp add: get0_def)+
qed

text \<open>The position in \<open>ents\<close> that a 1-based HPACK index refers to.\<close>

definition entry_at :: "bool \<Rightarrow> headerFieldTable \<Rightarrow> nat \<Rightarrow> HeaderField" where
  "entry_at static t i = ents t ! (if static then i - 1 else table_len t - i)"

lemma idToIndex_entry:
  assumes "k < table_len t"
  shows "\<exists>i. idToIndex static t (k + evictCount t + 1) = Some i \<and> 0 < i \<and> i \<le> table_len t
    \<and> entry_at static t i = ents t ! k"
  using assms by (auto simp: idToIndex_def Let_def entry_at_def)

lemma search_spec:
  assumes "wf_table t"
  shows "\<exists>i m. search static t f = Some (i, m) \<and> i \<le> table_len t
    \<and> (m \<longleftrightarrow> \<not> hf_Sensitive f \<and> (\<exists>g \<in> set (ents t). has_pair (hf_Name f, hf_Value f) g))
    \<and> (m \<longrightarrow> i \<noteq> 0 \<and> has_pair (hf_Name f, hf_Value f) (entry_at static t i))
    \<and> (i = 0 \<longleftrightarrow> (\<forall>g \<in> set (ents t). \<not> has_name (hf_Name f) g))
    \<and> (i \<noteq> 0 \<longrightarrow> has_name (hf_Name f) (entry_at static t i))"
proof -
  let ?n = "hf_Name f" and ?p = "(hf_Name f, hf_Value f)"
  have n: "index_ok (evictCount t) (ents t) has_name (t_byName t)"
    and p: "index_ok (evictCount t) (ents t) has_pair (t_byNameValue t)"
    using assms by (simp_all add: wf_table_def)
  show ?thesis
  proof (cases "hf_Sensitive f \<or> get0 (t_byNameValue t) ?p = 0")
    case False
    then obtain k where k: "newest (has_pair ?p) (ents t) = Some k" "get0 (t_byNameValue t) ?p = k + evictCount t + 1"
      using wf_get0(2) [OF p] by blast
    from newest_Some [OF k(1)] have k': "k < table_len t" "has_pair ?p (ents t ! k)" by (simp_all add: table_len_def)
    then obtain i where i: "idToIndex static t (k + evictCount t + 1) = Some i" "0 < i" "i \<le> table_len t"
      "entry_at static t i = ents t ! k" using idToIndex_entry by blast
    then have "search static t f = Some (i, True)" using False k(2) by (simp add: search_def)
    moreover have "ents t ! k \<in> set (ents t)" using k'(1) by (simp add: table_len_def)
    ultimately show ?thesis using i k'(2) False by (intro exI [of _ i] exI [of _ True]) auto
  next
    case True
    then have m: "\<not> (\<not> hf_Sensitive f \<and> (\<exists>g \<in> set (ents t). has_pair ?p g))"
      using wf_get0(1) [OF p, of ?p] newest_None [of "has_pair ?p" "ents t"] by auto
    show ?thesis
    proof (cases "get0 (t_byName t) ?n = 0")
      case zero: True
      then have "search static t f = Some (0, False)" using True by (auto simp: search_def)
      moreover have "\<forall>g \<in> set (ents t). \<not> has_name ?n g"
        using zero wf_get0(1) [OF n, of ?n] newest_None [of "has_name ?n" "ents t"] by simp
      ultimately show ?thesis using m by auto
    next
      case False
      then obtain k where k: "newest (has_name ?n) (ents t) = Some k" "get0 (t_byName t) ?n = k + evictCount t + 1"
        using wf_get0(2) [OF n] by blast
      from newest_Some [OF k(1)] have k': "k < table_len t" "has_name ?n (ents t ! k)" by (simp_all add: table_len_def)
      then obtain i where i: "idToIndex static t (k + evictCount t + 1) = Some i" "0 < i" "i \<le> table_len t"
        "entry_at static t i = ents t ! k" using idToIndex_entry by blast
      then have "search static t f = Some (i, False)" using True k(2) by (auto simp: search_def)
      moreover have "\<exists>g \<in> set (ents t). has_name ?n g"
        using k' nth_mem [of k "ents t"] unfolding table_len_def by blast
      ultimately show ?thesis
        using i k'(2) m by (intro exI [of _ i] exI [of _ False] conjI) (blast | simp)+
    qed
  qed
qed

text \<open>The generated static table is well-formed: its literal indexes are those of its entries.\<close>

lemma static_index_names:
  "list_all (\<lambda>(n, i). newest (has_name n) static_ents = Some (i - 1) \<and> 0 < i) static_byName"
  "list_all (\<lambda>g. hf_Name g \<in> fst ` set static_byName) static_ents"
  by code_simp+

lemma static_index_pairs:
  "list_all (\<lambda>(p, i). newest (has_pair p) static_ents = Some (i - 1) \<and> 0 < i) static_byNameValue"
  "list_all (\<lambda>g. (hf_Name g, hf_Value g) \<in> fst ` set static_byNameValue) static_ents"
  by code_simp+

lemma index_ok_of_lists:
  assumes "list_all (\<lambda>(k, i). newest (has k) es = Some (i - 1) \<and> 0 < i) al"
    and "list_all (\<lambda>g. key g \<in> fst ` set al) es" and "\<And>k g. has k g \<longleftrightarrow> key g = k"
  shows "index_ok 0 es has (map_of al)"
  unfolding index_ok_def
proof
  fix k
  show "map_of al k = map_option (\<lambda>i. i + 0 + 1) (newest (has k) es)"
  proof (cases "map_of al k")
    case None
    then have "k \<notin> fst ` set al" by (simp add: map_of_eq_None_iff)
    then have "newest (has k) es = None" using assms(2,3) by (auto simp: newest_None list_all_iff)
    with None show ?thesis by simp
  next
    case (Some i)
    then have "(k, i) \<in> set al" by (rule map_of_SomeD)
    then have "newest (has k) es = Some (i - 1)" "0 < i" using assms(1) by (auto simp: list_all_iff)
    with Some show ?thesis by simp
  qed
qed

lemma wf_staticTable: "wf_table staticTable"
proof -
  have "index_ok 0 static_ents has_name (map_of static_byName)"
    by (rule index_ok_of_lists [OF static_index_names]) simp
  moreover have "index_ok 0 static_ents has_pair (map_of static_byNameValue)"
    by (rule index_ok_of_lists [OF static_index_pairs]) simp
  ultimately show ?thesis by (simp add: wf_table_def staticTable_def)
qed

lemma at_index_static: "0 < i \<Longrightarrow> i \<le> table_len staticTable \<Longrightarrow> at_index dyn i = Some (entry_at True staticTable i)"
  by (simp add: at_index_def entry_at_def)

lemma at_index_dynamic:
  "0 < j \<Longrightarrow> j \<le> table_len dyn \<Longrightarrow> at_index dyn (j + table_len staticTable) = Some (entry_at False dyn j)"
  by (simp add: at_index_def entry_at_def maxTableIndex_def)

lemma searchTable_spec:
  assumes "wf_table dyn"
  shows "\<exists>i m. searchTable dyn f = Some (i, m)
    \<and> (m \<longleftrightarrow> \<not> hf_Sensitive f \<and> (\<exists>g \<in> set (ents staticTable) \<union> set (ents dyn).
            hf_Name g = hf_Name f \<and> hf_Value g = hf_Value f))
    \<and> (m \<longrightarrow> (\<exists>g. at_index dyn i = Some g \<and> hf_Name g = hf_Name f \<and> hf_Value g = hf_Value f))
    \<and> (i \<noteq> 0 \<longrightarrow> (\<exists>g. at_index dyn i = Some g \<and> hf_Name g = hf_Name f))
    \<and> (i = 0 \<longleftrightarrow> (\<forall>g \<in> set (ents staticTable) \<union> set (ents dyn). hf_Name g \<noteq> hf_Name f))"
proof -
  obtain i m where s: "search True staticTable f = Some (i, m)" "i \<le> table_len staticTable"
    "m \<longleftrightarrow> \<not> hf_Sensitive f \<and> (\<exists>g \<in> set (ents staticTable). has_pair (hf_Name f, hf_Value f) g)"
    "m \<longrightarrow> i \<noteq> 0 \<and> has_pair (hf_Name f, hf_Value f) (entry_at True staticTable i)"
    "i = 0 \<longleftrightarrow> (\<forall>g \<in> set (ents staticTable). \<not> has_name (hf_Name f) g)"
    "i \<noteq> 0 \<longrightarrow> has_name (hf_Name f) (entry_at True staticTable i)"
    using search_spec [OF wf_staticTable, of True f] by blast
  obtain j m' where d: "search False dyn f = Some (j, m')" "j \<le> table_len dyn"
    "m' \<longleftrightarrow> \<not> hf_Sensitive f \<and> (\<exists>g \<in> set (ents dyn). has_pair (hf_Name f, hf_Value f) g)"
    "m' \<longrightarrow> j \<noteq> 0 \<and> has_pair (hf_Name f, hf_Value f) (entry_at False dyn j)"
    "j = 0 \<longleftrightarrow> (\<forall>g \<in> set (ents dyn). \<not> has_name (hf_Name f) g)"
    "j \<noteq> 0 \<longrightarrow> has_name (hf_Name f) (entry_at False dyn j)"
    using search_spec [OF assms, of False f] by blast
  show ?thesis
  proof (cases m)
    case True
    then have "searchTable dyn f = Some (i, True)" using s(1) by (simp add: searchTable_def)
    then show ?thesis
      using True s at_index_static [of i dyn] by (intro exI [of _ i] exI [of _ True]) auto
  next
    case m: False
    show ?thesis
    proof (cases "m' \<or> i = 0 \<and> j \<noteq> 0")
      case True
      then have "searchTable dyn f = Some (j + table_len staticTable, m')" using m s(1) d(1) by (simp add: searchTable_def)
      moreover have "j \<noteq> 0" using True d(4) by blast
      ultimately show ?thesis
        using m s(3) d at_index_dynamic [of j dyn] by (intro exI [of _ "j + table_len staticTable"] exI [of _ m']) auto
    next
      case False
      then have "searchTable dyn f = Some (i, False)" using m s(1) d(1) by (auto simp: searchTable_def)
      moreover have "\<not> (\<not> hf_Sensitive f \<and> (\<exists>g \<in> set (ents staticTable) \<union> set (ents dyn).
          hf_Name g = hf_Name f \<and> hf_Value g = hf_Value f))"
        using m False s(3) d(3) by auto
      moreover have "i = 0 \<longleftrightarrow> (\<forall>g \<in> set (ents staticTable) \<union> set (ents dyn). hf_Name g \<noteq> hf_Name f)"
        using False s(5) d(5) by blast
      moreover have "\<exists>g. at_index dyn i = Some g \<and> hf_Name g = hf_Name f" if "i \<noteq> 0"
        using that s(2,6) at_index_static [of i dyn] by simp
      ultimately show ?thesis by (intro exI [of _ i] exI [of _ False] conjI) blast+
    qed
  qed
qed

text \<open>The encoder's search and the decoder's lookup agree: for every well-formed dynamic table, what
  \<open>searchTable\<close> returns does not panic and is exact. A full match is reported exactly when the
  field is not sensitive and the static or the dynamic table holds its name and value, and the
  index then refers, for \<open>at\<close>, to such an entry; any other non-zero index refers to an entry with
  that name; index 0 means that neither table has the name.\<close>

theorem searchTable_at:
  assumes "wf_table dyn"
  shows "\<exists>i m. searchTable dyn f = Some (i, m)
    \<and> (m \<longleftrightarrow> \<not> hf_Sensitive f \<and> (\<exists>g \<in> set (ents staticTable) \<union> set (ents dyn).
            hf_Name g = hf_Name f \<and> hf_Value g = hf_Value f))
    \<and> (m \<longrightarrow> (\<exists>g. at_index dyn i = Some g \<and> hf_Name g = hf_Name f \<and> hf_Value g = hf_Value f))
    \<and> (i \<noteq> 0 \<longrightarrow> (\<exists>g. at_index dyn i = Some g \<and> hf_Name g = hf_Name f))
    \<and> (i = 0 \<longleftrightarrow> (\<forall>g \<in> set (ents staticTable) \<union> set (ents dyn). hf_Name g \<noteq> hf_Name f))"
  using assms by (rule searchTable_spec)

theorem searchTable_at_witness:
  "\<exists>i m. searchTable (addEntry table_init (hf ''x'' ''y'')) (hf ''x'' ''y'') = Some (i, m) \<and> m
     \<and> (\<exists>g. at_index (addEntry table_init (hf ''x'' ''y'')) i = Some g \<and> hf_Value g = ''y'')"
  using searchTable_at [OF wf_addEntry [OF wf_table_init, of "hf ''x'' ''y''"], of "hf ''x'' ''y''"]
  by (auto simp: addEntry_def Let_def)

end
