(* ===== verification/Huffman_Table.thy ===== *)
theory Huffman_Table
  imports Prelude "HOL-Library.Sublist"
begin

unbundle bit_operations_syntax

text \<open>
  The package \<open>http2/hpack\<close>, part two: the Huffman code table of \<open>tables.go\<close> and bit strings.
  \<open>code_of c\<close> is the code word of the octet \<open>c\<close> as a list of bits, most significant bit first.
  The lemmas show what the routines of \<open>huffman.go\<close> rely on: code words have 5 to 30 bits, none is
  a prefix of another, and none consists of ones only, so that padding is never mistaken for one.
\<close>

section \<open>Bit strings\<close>

text \<open>The low \<open>n\<close> bits of a word, most significant first.\<close>

primrec low_bits :: "nat \<Rightarrow> 'a::len word \<Rightarrow> bool list" where
  "low_bits 0 w = []"
| "low_bits (Suc n) w = bit w n # low_bits n w"

abbreviation byte_bits :: "byte \<Rightarrow> bool list" where
  "byte_bits b \<equiv> low_bits 8 b"

definition bits_of :: "bytes \<Rightarrow> bool list" where
  "bits_of bs = concat (map byte_bits bs)"

lemma length_low_bits [simp]: "length (low_bits n w) = n"
  by (induction n) simp_all

lemma nth_low_bits: "i < n \<Longrightarrow> low_bits n w ! i = bit w (n - Suc i)"
  by (induction n arbitrary: i) (auto simp: nth_Cons split: nat.splits)

lemma low_bits_eq_iff:
  fixes v :: "'a::len word" and w :: "'b::len word"
  shows "low_bits n v = low_bits n w \<longleftrightarrow> (\<forall>i < n. bit v i = bit w i)"
  by (induction n) (auto simp: less_Suc_eq)

lemma low_bits_append: "low_bits (m + n) w = map (\<lambda>i. bit w (i + n)) (rev [0..<m]) @ low_bits n w"
  by (induction m) simp_all

lemma take_low_bits: "k \<le> n \<Longrightarrow> take k (low_bits n w) = low_bits k (drop_bit (n - k) w)"
  by (rule nth_equalityI) (auto simp: nth_low_bits bit_drop_bit_eq intro!: arg_cong [of _ _ "bit w"])

lemma drop_low_bits: "k \<le> n \<Longrightarrow> drop k (low_bits n w) = low_bits (n - k) w"
  by (rule nth_equalityI) (auto simp: nth_low_bits)

lemma low_bits_split: "k \<le> n \<Longrightarrow> low_bits n w = low_bits k (drop_bit (n - k) w) @ low_bits (n - k) w"
  using append_take_drop_id [of k "low_bits n w"] by (simp add: take_low_bits drop_low_bits)

lemma low_bits_ucast:
  fixes w :: "'a::len word"
  shows "n \<le> LENGTH('b) \<Longrightarrow> low_bits n (ucast w :: 'b::len word) = low_bits n w"
  by (auto simp: low_bits_eq_iff bit_simps dest: bit_imp_le_length)

text \<open>Shifting a word to the left and filling in the low bits appends the bits.\<close>

lemma low_bits_push:
  fixes x :: "'a::len word"
  assumes "n + k \<le> LENGTH('a)" and "\<And>i. bit y i \<Longrightarrow> i < k"
  shows "low_bits (n + k) (push_bit k x OR y) = low_bits n x @ low_bits k y"
proof -
  have "low_bits n (drop_bit (n + k - n) (push_bit k x OR y)) = low_bits n x"
    using assms by (auto simp: low_bits_eq_iff bit_simps)
  moreover have "low_bits k (push_bit k x OR y) = low_bits k y"
    by (auto simp: low_bits_eq_iff bit_simps)
  ultimately show ?thesis by (subst low_bits_split [of n]) simp_all
qed

lemma bits_of_simps [simp]:
  "bits_of [] = []" "bits_of (b # bs) = byte_bits b @ bits_of bs" "bits_of (xs @ ys) = bits_of xs @ bits_of ys"
  by (simp_all add: bits_of_def)

lemma length_bits_of [simp]: "length (bits_of bs) = 8 * length bs"
  by (induction bs) simp_all

lemma byte_bits_inj: "byte_bits a = byte_bits b \<longleftrightarrow> a = b"
proof
  assume "byte_bits a = byte_bits b"
  then show "a = b" unfolding low_bits_eq_iff by (intro bit_word_eqI) simp
qed simp

lemma bits_of_inj: "bits_of xs = bits_of ys \<Longrightarrow> xs = ys"
proof (induction xs arbitrary: ys)
  case Nil
  then have "length (bits_of ys) = 0" by (metis bits_of_simps(1) list.size(3))
  then show ?case by simp
next
  case (Cons x xs)
  have "length (bits_of ys) = 8 * Suc (length xs)" unfolding Cons.prems [symmetric] by simp
  then obtain y ys' where ys: "ys = y # ys'" by (cases ys) simp_all
  have "byte_bits x = byte_bits y \<and> bits_of xs = bits_of ys'"
    using Cons.prems unfolding ys bits_of_simps by (subst (asm) append_eq_append_conv) simp_all
  with Cons.IH ys show ?case by (simp add: byte_bits_inj)
qed

section \<open>The code table\<close>

definition huffmanCodes :: "u32 list" where
  "huffmanCodes =
    [0x1ff8, 0x7fffd8, 0xfffffe2, 0xfffffe3, 0xfffffe4, 0xfffffe5, 0xfffffe6, 0xfffffe7,
     0xfffffe8, 0xffffea, 0x3ffffffc, 0xfffffe9, 0xfffffea, 0x3ffffffd, 0xfffffeb, 0xfffffec,
     0xfffffed, 0xfffffee, 0xfffffef, 0xffffff0, 0xffffff1, 0xffffff2, 0x3ffffffe, 0xffffff3,
     0xffffff4, 0xffffff5, 0xffffff6, 0xffffff7, 0xffffff8, 0xffffff9, 0xffffffa, 0xffffffb,
     0x14, 0x3f8, 0x3f9, 0xffa, 0x1ff9, 0x15, 0xf8, 0x7fa,
     0x3fa, 0x3fb, 0xf9, 0x7fb, 0xfa, 0x16, 0x17, 0x18,
     0x0, 0x1, 0x2, 0x19, 0x1a, 0x1b, 0x1c, 0x1d,
     0x1e, 0x1f, 0x5c, 0xfb, 0x7ffc, 0x20, 0xffb, 0x3fc,
     0x1ffa, 0x21, 0x5d, 0x5e, 0x5f, 0x60, 0x61, 0x62,
     0x63, 0x64, 0x65, 0x66, 0x67, 0x68, 0x69, 0x6a,
     0x6b, 0x6c, 0x6d, 0x6e, 0x6f, 0x70, 0x71, 0x72,
     0xfc, 0x73, 0xfd, 0x1ffb, 0x7fff0, 0x1ffc, 0x3ffc, 0x22,
     0x7ffd, 0x3, 0x23, 0x4, 0x24, 0x5, 0x25, 0x26,
     0x27, 0x6, 0x74, 0x75, 0x28, 0x29, 0x2a, 0x7,
     0x2b, 0x76, 0x2c, 0x8, 0x9, 0x2d, 0x77, 0x78,
     0x79, 0x7a, 0x7b, 0x7ffe, 0x7fc, 0x3ffd, 0x1ffd, 0xffffffc,
     0xfffe6, 0x3fffd2, 0xfffe7, 0xfffe8, 0x3fffd3, 0x3fffd4, 0x3fffd5, 0x7fffd9,
     0x3fffd6, 0x7fffda, 0x7fffdb, 0x7fffdc, 0x7fffdd, 0x7fffde, 0xffffeb, 0x7fffdf,
     0xffffec, 0xffffed, 0x3fffd7, 0x7fffe0, 0xffffee, 0x7fffe1, 0x7fffe2, 0x7fffe3,
     0x7fffe4, 0x1fffdc, 0x3fffd8, 0x7fffe5, 0x3fffd9, 0x7fffe6, 0x7fffe7, 0xffffef,
     0x3fffda, 0x1fffdd, 0xfffe9, 0x3fffdb, 0x3fffdc, 0x7fffe8, 0x7fffe9, 0x1fffde,
     0x7fffea, 0x3fffdd, 0x3fffde, 0xfffff0, 0x1fffdf, 0x3fffdf, 0x7fffeb, 0x7fffec,
     0x1fffe0, 0x1fffe1, 0x3fffe0, 0x1fffe2, 0x7fffed, 0x3fffe1, 0x7fffee, 0x7fffef,
     0xfffea, 0x3fffe2, 0x3fffe3, 0x3fffe4, 0x7ffff0, 0x3fffe5, 0x3fffe6, 0x7ffff1,
     0x3ffffe0, 0x3ffffe1, 0xfffeb, 0x7fff1, 0x3fffe7, 0x7ffff2, 0x3fffe8, 0x1ffffec,
     0x3ffffe2, 0x3ffffe3, 0x3ffffe4, 0x7ffffde, 0x7ffffdf, 0x3ffffe5, 0xfffff1, 0x1ffffed,
     0x7fff2, 0x1fffe3, 0x3ffffe6, 0x7ffffe0, 0x7ffffe1, 0x3ffffe7, 0x7ffffe2, 0xfffff2,
     0x1fffe4, 0x1fffe5, 0x3ffffe8, 0x3ffffe9, 0xffffffd, 0x7ffffe3, 0x7ffffe4, 0x7ffffe5,
     0xfffec, 0xfffff3, 0xfffed, 0x1fffe6, 0x3fffe9, 0x1fffe7, 0x1fffe8, 0x7ffff3,
     0x3fffea, 0x3fffeb, 0x1ffffee, 0x1ffffef, 0xfffff4, 0xfffff5, 0x3ffffea, 0x7ffff4,
     0x3ffffeb, 0x7ffffe6, 0x3ffffec, 0x3ffffed, 0x7ffffe7, 0x7ffffe8, 0x7ffffe9, 0x7ffffea,
     0x7ffffeb, 0xffffffe, 0x7ffffec, 0x7ffffed, 0x7ffffee, 0x7ffffef, 0x7fffff0, 0x3ffffee]"

definition huffmanCodeLen :: "nat list" where
  "huffmanCodeLen =
    [13, 23, 28, 28, 28, 28, 28, 28, 28, 24, 30, 28, 28, 30, 28, 28,
     28, 28, 28, 28, 28, 28, 30, 28, 28, 28, 28, 28, 28, 28, 28, 28,
     6, 10, 10, 12, 13, 6, 8, 11, 10, 10, 8, 11, 8, 6, 6, 6,
     5, 5, 5, 6, 6, 6, 6, 6, 6, 6, 7, 8, 15, 6, 12, 10,
     13, 6, 7, 7, 7, 7, 7, 7, 7, 7, 7, 7, 7, 7, 7, 7,
     7, 7, 7, 7, 7, 7, 7, 7, 8, 7, 8, 13, 19, 13, 14, 6,
     15, 5, 6, 5, 6, 5, 6, 6, 6, 5, 7, 7, 6, 6, 6, 5,
     6, 7, 6, 5, 5, 6, 7, 7, 7, 7, 7, 15, 11, 14, 13, 28,
     20, 22, 20, 20, 22, 22, 22, 23, 22, 23, 23, 23, 23, 23, 24, 23,
     24, 24, 22, 23, 24, 23, 23, 23, 23, 21, 22, 23, 22, 23, 23, 24,
     22, 21, 20, 22, 22, 23, 23, 21, 23, 22, 22, 24, 21, 22, 23, 23,
     21, 21, 22, 21, 23, 22, 23, 23, 20, 22, 22, 22, 23, 22, 22, 23,
     26, 26, 20, 19, 22, 23, 22, 25, 26, 26, 26, 27, 27, 26, 24, 25,
     19, 21, 26, 27, 27, 26, 27, 24, 21, 21, 26, 26, 28, 27, 27, 27,
     20, 24, 20, 21, 22, 21, 21, 23, 22, 22, 25, 25, 24, 24, 26, 23,
     26, 27, 26, 26, 27, 27, 27, 27, 27, 28, 27, 27, 27, 27, 27, 26]"

definition code_of :: "byte \<Rightarrow> bool list" where
  "code_of c = low_bits (huffmanCodeLen ! unat c) (huffmanCodes ! unat c)"

section \<open>The code is prefix-free\<close>

text \<open>A check that splits the code words by their first bit, instead of comparing all pairs.\<close>

fun branch :: "bool \<Rightarrow> (bool list \<times> int) list \<Rightarrow> (bool list \<times> int) list" where
  "branch b [] = []"
| "branch b (([], s) # cs) = branch b cs"
| "branch b ((x # c, s) # cs) = (if x = b then (c, s) # branch b cs else branch b cs)"

fun at_most_one :: "'a list \<Rightarrow> bool" where
  "at_most_one [] = True"
| "at_most_one [x] = True"
| "at_most_one (x # y # zs) = False"

fun no_empty_code :: "(bool list \<times> int) list \<Rightarrow> bool" where
  "no_empty_code [] = True"
| "no_empty_code (([], s) # cs) = False"
| "no_empty_code ((x # c, s) # cs) = no_empty_code cs"

primrec prefix_free :: "nat \<Rightarrow> (bool list \<times> int) list \<Rightarrow> bool" where
  "prefix_free 0 cs = at_most_one cs"
| "prefix_free (Suc n) cs =
     (if at_most_one cs then True
      else if no_empty_code cs then (if prefix_free n (branch True cs) then prefix_free n (branch False cs) else False)
      else False)"

lemma at_most_one_eq: "at_most_one cs \<Longrightarrow> x \<in> set cs \<Longrightarrow> y \<in> set cs \<Longrightarrow> x = y"
  by (cases cs rule: at_most_one.cases) auto

lemma branch_mem: "(x # c, s) \<in> set cs \<Longrightarrow> (c, s) \<in> set (branch x cs)"
  by (induction x cs rule: branch.induct) auto

lemma no_empty_code_mem: "no_empty_code cs \<Longrightarrow> (c, s) \<in> set cs \<Longrightarrow> c \<noteq> []"
  by (induction cs rule: no_empty_code.induct) auto

lemma prefix_free_sound:
  "prefix_free n ps \<Longrightarrow> (c, s) \<in> set ps \<Longrightarrow> (d, t) \<in> set ps \<Longrightarrow> prefix c d \<Longrightarrow> (c, s) = (d, t)"
proof (induction n arbitrary: ps c d)
  case 0
  then show ?case by (intro at_most_one_eq) simp_all
next
  case (Suc n)
  show ?case
  proof (cases "at_most_one ps")
    case True
    with Suc.prems show ?thesis by (intro at_most_one_eq)
  next
    case False
    then have ne: "no_empty_code ps" and sub: "prefix_free n (branch b ps)" for b
      using Suc.prems(1) by (simp_all split: if_splits) (cases b; simp)
    then obtain x c' d' where cd: "c = x # c'" "d = x # d'" "prefix c' d'"
      using Suc.prems(2-4) no_empty_code_mem [OF ne] by (cases c; cases d) auto
    have "(c', s) = (d', t)"
      by (rule Suc.IH [OF sub [of x]]) (use cd Suc.prems(2,3) branch_mem in auto)
    with cd show ?thesis by simp
  qed
qed

text \<open>The code words computed from the table on integers.\<close>

fun int_bits :: "nat \<Rightarrow> int \<Rightarrow> bool list \<Rightarrow> bool list" where
  "int_bits 0 k acc = acc"
| "int_bits (Suc n) k acc = int_bits n (k div 2) (odd k # acc)"

lemma int_bits_low_bits: "int_bits n (uint w) acc = low_bits n w @ acc"
proof (induction n arbitrary: w acc)
  case (Suc n)
  have "low_bits (Suc n) w = low_bits n (drop_bit 1 w) @ low_bits 1 w"
    by (subst low_bits_split [of n]) simp_all
  moreover have "uint (drop_bit 1 w) = uint w div 2" by (subst unsigned_drop_bit_eq) (simp add: drop_bit_eq_div take_bit_int_eq_self)
  moreover have "bit w 0 = odd (uint w)" using bit_uint_iff [of w 0] by (simp add: bit_0)
  ultimately show ?case using Suc.IH [of "drop_bit 1 w" "odd (uint w) # acc"] by simp
qed simp

definition code_list :: "(bool list \<times> int) list" where
  "code_list = map2 (\<lambda>(c, l) i. (int_bits l (uint c) [], i)) (zip huffmanCodes huffmanCodeLen) [0..255]"

lemma length_tables: "length huffmanCodes = 256" "length huffmanCodeLen = 256"
  by (simp_all add: huffmanCodes_def huffmanCodeLen_def)

lemma code_list_check:
  "prefix_free 30 code_list"
  "list_all (\<lambda>(c, i). 5 \<le> length c \<and> length c \<le> 30 \<and> False \<in> set c) code_list"
  "list_all (\<lambda>(c, l). uint c < 2 ^ l) (zip huffmanCodes huffmanCodeLen)"
  by code_simp+

lemma code_list_mem: "(code_of c, uint c) \<in> set code_list"
proof -
  have c: "unat c < 256" by (rule unat_byte_less)
  moreover have "length code_list = 256" by (simp add: code_list_def length_tables)
  ultimately have "code_list ! unat c \<in> set code_list" by simp
  moreover have "code_list ! unat c = (code_of c, uint c)"
  proof -
    have "int (unat c) \<le> 255" using c by linarith
    then have "[0..255] ! unat c = uint c" using nth_upto [of 0 "unat c" 255] by simp
    with c show ?thesis by (simp add: code_list_def code_of_def length_tables int_bits_low_bits)
  qed
  ultimately show ?thesis by simp
qed

lemma code_of_prefix_free: "prefix (code_of c) (code_of d) \<Longrightarrow> c = d"
  using prefix_free_sound [OF code_list_check(1) code_list_mem [of c] code_list_mem [of d]] by (simp add: word_uint_eq_iff)

lemma code_of_length: "5 \<le> length (code_of c)" "length (code_of c) \<le> 30"
  using code_list_check(2) code_list_mem [of c] by (auto simp: list_all_iff)

lemma code_of_not_Nil [simp]: "code_of c \<noteq> []"
  using code_of_length(1) [of c] by auto

lemma code_of_zero: "False \<in> set (code_of c)"
  using code_list_check(2) code_list_mem [of c] by (auto simp: list_all_iff)

lemma code_not_ones: "\<not> prefix (code_of c) (replicate k True)"
proof
  assume "prefix (code_of c) (replicate k True)"
  then have "set (code_of c) \<subseteq> set (replicate k True)" by (rule set_mono_prefix)
  with code_of_zero [of c] show False by (auto split: if_splits)
qed

lemma codeLen_bounds:
  fixes c :: byte
  shows "5 \<le> huffmanCodeLen ! unat c" "huffmanCodeLen ! unat c \<le> 30"
  using code_of_length [of c] by (simp_all add: code_of_def)

lemma code_bits_below:
  fixes c :: byte
  assumes "bit (huffmanCodes ! unat c) i"
  shows "i < huffmanCodeLen ! unat c"
proof -
  have c: "unat c < 256" by (rule unat_byte_less)
  then have "zip huffmanCodes huffmanCodeLen ! unat c \<in> set (zip huffmanCodes huffmanCodeLen)"
    by (intro nth_mem) (simp add: length_tables)
  then have "uint (huffmanCodes ! unat c) < 2 ^ (huffmanCodeLen ! unat c)"
    using code_list_check(3) c by (auto simp: list_all_iff length_tables)
  then have "take_bit (huffmanCodeLen ! unat c) (uint (huffmanCodes ! unat c)) = uint (huffmanCodes ! unat c)"
    by (simp add: take_bit_int_eq_self)
  moreover have "bit (uint (huffmanCodes ! unat c)) i"
    using assms bit_imp_le_length by (fastforce simp: bit_uint_iff)
  ultimately show ?thesis by (metis bit_take_bit_iff)
qed

text \<open>Two code words on the same bit string are the same, and what follows them too.\<close>

lemma code_of_append_eq: "code_of c @ r = code_of d @ r' \<Longrightarrow> c = d \<and> r = r'"
proof -
  assume eq: "code_of c @ r = code_of d @ r'"
  have "prefix (code_of c) (code_of d) \<or> prefix (code_of d) (code_of c)"
    using prefix_same_cases [of "code_of c" "code_of c @ r" "code_of d"] by (metis eq prefixI)
  then have "c = d" using code_of_prefix_free by blast
  with eq show ?thesis by simp
qed

end
