(* ===== verification/Huffman.thy ===== *)
theory Huffman
  imports Huffman_Table Go_Strings Hpack_Varint
begin

unbundle bit_operations_syntax

text \<open>
  The package \<open>http2/hpack\<close>, part three: \<open>huffman.go\<close>. \<open>AppendHuffmanString\<close> and
  \<open>HuffmanEncodeLength\<close>, the decoding tree built by \<open>buildRootHuffmanNode\<close> and the decoder
  \<open>huffmanDecode\<close>. A node is internal, with 256 children that may be nil, or a leaf; the array of
  children is a function from bytes. The \<open>uint8\<close> counters of the decoder are natural numbers with
  their wrap-around written out. A result \<open>None\<close> means that the code panics or does not return; the
  lemmas show that this does not happen. The pooled buffer is the list of the bytes written so far.

  The encoder writes the concatenation of the code words, padded with ones; the decoder computes
  exactly what a decoder that strips one code word after the other computes.
\<close>

section \<open>Encoding\<close>

fun append_loop :: "bytes \<Rightarrow> u64 \<Rightarrow> nat \<Rightarrow> bytes \<Rightarrow> bytes \<times> u64 \<times> nat" where
  "append_loop dst x n [] = (dst, x, n)"
| "append_loop dst x n (c # s) =
     (let n = n + huffmanCodeLen ! unat c;
          x = push_bit (huffmanCodeLen ! unat c mod 64) x;
          x = x OR ucast (huffmanCodes ! unat c)
      in if n \<ge> 32
         then let n = n mod 32; y = ucast (drop_bit n x) :: u32 in append_loop (dst @ put32 y) x n s
         else append_loop dst x n s)"

abbreviation eosPadByte :: u64 where
  "eosPadByte \<equiv> drop_bit (30 - 8) 0x3fffffff"

definition AppendHuffmanString :: "bytes \<Rightarrow> string \<Rightarrow> bytes" where
  "AppendHuffmanString dst s =
     (let (dst, x, n) = append_loop dst 0 0 (string_to_bytes s);
          over = n mod 8;
          (x, n) = (if over > 0
                    then let pad = 8 - over in (push_bit pad x OR drop_bit over eosPadByte, n + pad)
                    else (x, n))
      in if n div 8 = 0 then dst
         else if n div 8 = 1 then dst @ [ucast x]
         else if n div 8 = 2 then dst @ put16 (ucast x)
         else if n div 8 = 3 then dst @ put16 (ucast (drop_bit 8 x)) @ [ucast x]
         else dst @ put32 (ucast x))"

fun encode_length_loop :: "u64 \<Rightarrow> bytes \<Rightarrow> u64" where
  "encode_length_loop n [] = n"
| "encode_length_loop n (c # s) = encode_length_loop (n + of_nat (huffmanCodeLen ! unat c)) s"

definition HuffmanEncodeLength :: "string \<Rightarrow> u64" where
  "HuffmanEncodeLength s = (encode_length_loop 0 (string_to_bytes s) + 7) div 8"

section \<open>The decoding tree\<close>

datatype hnode = Internal (children: "byte \<Rightarrow> hnode option") | LeafNode (codeLen: nat) (sym: byte)

definition newInternalNode :: hnode where
  "newInternalNode = Internal (\<lambda>_. None)"

function insert_code :: "nat \<Rightarrow> u32 \<Rightarrow> byte \<Rightarrow> hnode \<Rightarrow> hnode option" where
  "insert_code len code s (LeafNode l t) = None"
| "insert_code len code s (Internal ch) =
     (if len > 8
      then
        let len = len - 8; i = ucast (drop_bit len code);
            sub = (case ch i of None \<Rightarrow> newInternalNode | Some n \<Rightarrow> n)
        in map_option (\<lambda>n. Internal (ch(i := Some n))) (insert_code len code s sub)
      else
        let shift = 8 - len; start = unat (ucast (push_bit shift code) :: byte); count = 2 ^ shift
        in if start + count > 256 then None
           else Some (Internal (\<lambda>i. if start \<le> unat i \<and> unat i < start + count then Some (LeafNode len s) else ch i)))"
  by pat_completeness auto
termination
  by (relation "measure (\<lambda>(len, _). len)") auto

fun build_loop :: "nat \<Rightarrow> u32 list \<Rightarrow> hnode \<Rightarrow> hnode option" where
  "build_loop i [] root = Some root"
| "build_loop i (code # codes) root =
     (case insert_code (huffmanCodeLen ! i) code (of_nat i) root of
        None \<Rightarrow> None
      | Some root \<Rightarrow> build_loop (i + 1) codes root)"

definition buildRootHuffmanNode :: "hnode option" where
  "buildRootHuffmanNode =
     (if length huffmanCodes \<noteq> 256 then None else build_loop 0 huffmanCodes newInternalNode)"

section \<open>Decoding\<close>

text \<open>The state of the decoder: node, valid bits of \<open>cur\<close>, bits of the current symbol, output.\<close>

type_synonym dec_state = "hnode \<times> nat \<times> nat \<times> bytes"

text \<open>The loop over the buffered bits while there are at least eight of them.\<close>

partial_function (option) byte_loop :: "hnode \<Rightarrow> nat \<Rightarrow> u64 \<Rightarrow> hnode \<Rightarrow> nat \<Rightarrow> nat \<Rightarrow> bytes \<Rightarrow> (hpack_error + dec_state) option" where
  "byte_loop root maxLen cur n cbits sbits buf =
     (if cbits \<ge> 8
      then case n of
          LeafNode _ _ \<Rightarrow> None
        | Internal ch \<Rightarrow>
            (case ch (ucast (drop_bit (cbits - 8) cur)) of
               None \<Rightarrow> Some (Inl ErrInvalidHuffman)
             | Some (LeafNode l s) \<Rightarrow>
                 if maxLen \<noteq> 0 \<and> length buf = maxLen then Some (Inl ErrStringLength)
                 else let cbits = (cbits + 256 - l) mod 256
                      in byte_loop root maxLen cur root cbits cbits (buf @ [s])
             | Some (Internal ch') \<Rightarrow> byte_loop root maxLen cur (Internal ch') (cbits - 8) sbits buf)
      else Some (Inr (n, cbits, sbits, buf)))"

fun input_loop :: "hnode \<Rightarrow> nat \<Rightarrow> bytes \<Rightarrow> u64 \<Rightarrow> dec_state \<Rightarrow> (hpack_error + (u64 \<times> dec_state)) option" where
  "input_loop root maxLen [] cur st = Some (Inr (cur, st))"
| "input_loop root maxLen (b # v) cur (n, cbits, sbits, buf) =
     (let cur = push_bit 8 cur OR ucast b;
          cbits = (cbits + 8) mod 256;
          sbits = (sbits + 8) mod 256
      in case byte_loop root maxLen cur n cbits sbits buf of
           None \<Rightarrow> None
         | Some (Inl e) \<Rightarrow> Some (Inl e)
         | Some (Inr st) \<Rightarrow> input_loop root maxLen v cur st)"

text \<open>The loop over the last bits, fewer than eight.\<close>

partial_function (option) tail_loop :: "hnode \<Rightarrow> nat \<Rightarrow> u64 \<Rightarrow> hnode \<Rightarrow> nat \<Rightarrow> nat \<Rightarrow> bytes \<Rightarrow> (hpack_error + (nat \<times> nat \<times> bytes)) option" where
  "tail_loop root maxLen cur n cbits sbits buf =
     (if cbits > 0
      then case n of
          LeafNode _ _ \<Rightarrow> None
        | Internal ch \<Rightarrow>
            (case ch (ucast (push_bit (8 - cbits) cur)) of
               None \<Rightarrow> Some (Inl ErrInvalidHuffman)
             | Some (Internal _) \<Rightarrow> Some (Inr (cbits, sbits, buf))
             | Some (LeafNode l s) \<Rightarrow>
                 if l > cbits then Some (Inr (cbits, sbits, buf))
                 else if maxLen \<noteq> 0 \<and> length buf = maxLen then Some (Inl ErrStringLength)
                 else let cbits = cbits - l
                      in tail_loop root maxLen cur root cbits cbits (buf @ [s]))
      else Some (Inr (cbits, sbits, buf)))"

declare byte_loop.simps [code] tail_loop.simps [code]

definition huffmanDecode :: "nat \<Rightarrow> bytes \<Rightarrow> (hpack_error + bytes) option" where
  "huffmanDecode maxLen v =
     (case buildRootHuffmanNode of
        None \<Rightarrow> None
      | Some root \<Rightarrow>
          (case input_loop root maxLen v 0 (root, 0, 0, []) of
             None \<Rightarrow> None
           | Some (Inl e) \<Rightarrow> Some (Inl e)
           | Some (Inr (cur, n, cbits, sbits, buf)) \<Rightarrow>
               (case tail_loop root maxLen cur n cbits sbits buf of
                  None \<Rightarrow> None
                | Some (Inl e) \<Rightarrow> Some (Inl e)
                | Some (Inr (cbits, sbits, buf)) \<Rightarrow>
                    if sbits > 7 then Some (Inl ErrInvalidHuffman)
                    else
                      let m = push_bit cbits 1 - 1 in
                      if cur AND m \<noteq> m then Some (Inl ErrInvalidHuffman) else Some (Inr buf))))"

definition HuffmanDecodeToString :: "bytes \<Rightarrow> (hpack_error + string) option" where
  "HuffmanDecodeToString v = map_option (map_res bytes_to_string) (huffmanDecode 0 v)"

section \<open>The encoder writes the code words\<close>

lemma bits_of_put32: "bits_of (put32 y) = low_bits 32 y"
proof -
  have "low_bits 32 y = low_bits 8 (drop_bit 24 y) @ low_bits 8 (drop_bit 16 y) @ low_bits 8 (drop_bit 8 y) @ low_bits 8 y"
    using low_bits_split [of 8 32 y] low_bits_split [of 8 24 y] low_bits_split [of 8 16 y] by simp
  then show ?thesis by (simp add: put32_def low_bits_ucast)
qed

lemma bits_of_put16: "bits_of (put16 y) = low_bits 16 y"
proof -
  have "low_bits 16 y = low_bits 8 (drop_bit 8 y) @ low_bits 8 y"
    using low_bits_split [of 8 16 y] by simp
  then show ?thesis by (simp add: put16_def low_bits_ucast)
qed

lemma code_step:
  assumes "n < 32"
  shows "low_bits (n + huffmanCodeLen ! unat c)
      (push_bit (huffmanCodeLen ! unat c mod 64) x OR ucast (huffmanCodes ! unat (c :: byte)) :: u64)
    = low_bits n x @ code_of c"
proof -
  let ?l = "huffmanCodeLen ! unat c" and ?k = "ucast (huffmanCodes ! unat c) :: u64"
  have l: "?l \<le> 30" by (rule codeLen_bounds)
  have "bit ?k i \<Longrightarrow> i < ?l" for i
    using code_bits_below [of c i] by (simp add: bit_simps)
  then have "low_bits (n + ?l) (push_bit ?l x OR ?k) = low_bits n x @ low_bits ?l ?k"
    using assms l by (intro low_bits_push) simp_all
  moreover have "low_bits ?l ?k = code_of c" using l by (simp add: low_bits_ucast code_of_def)
  moreover have "?l mod 64 = ?l" using l by simp
  ultimately show ?thesis by simp
qed

lemma append_loop_bits:
  "n < 32 \<Longrightarrow> append_loop dst x n s = (dst', x', n') \<Longrightarrow>
     n' < 32 \<and> bits_of dst' @ low_bits n' x' = bits_of dst @ low_bits n x @ concat (map code_of s)"
proof (induction s arbitrary: dst x n)
  case (Cons c s)
  let ?n = "n + huffmanCodeLen ! unat c"
  let ?x = "push_bit (huffmanCodeLen ! unat c mod 64) x OR ucast (huffmanCodes ! unat c) :: u64"
  have step: "low_bits ?n ?x = low_bits n x @ code_of c" by (rule code_step [OF Cons.prems(1)])
  have bound: "?n < 62" using Cons.prems(1) codeLen_bounds(2) [of c] by linarith
  show ?case
  proof (cases "?n \<ge> 32")
    case True
    let ?y = "ucast (drop_bit (?n mod 32) ?x) :: u32"
    have m: "?n mod 32 = ?n - 32" using True bound by (simp add: mod_if)
    have "low_bits 32 ?y @ low_bits (?n mod 32) ?x = low_bits ?n ?x"
      using low_bits_split [of 32 ?n ?x] True by (simp add: low_bits_ucast m)
    then have "bits_of (dst @ put32 ?y) @ low_bits (?n mod 32) ?x = bits_of dst @ low_bits n x @ code_of c"
      by (simp add: bits_of_put32 step)
    moreover have "append_loop (dst @ put32 ?y) ?x (?n mod 32) s = (dst', x', n')"
      using Cons.prems(2) True by (simp add: Let_def)
    ultimately show ?thesis using Cons.IH [of "?n mod 32" "dst @ put32 ?y" ?x] by simp
  next
    case False
    then have "append_loop dst ?x ?n s = (dst', x', n')" using Cons.prems(2) by (simp add: Let_def)
    then show ?thesis using Cons.IH [of ?n dst ?x] False step by simp
  qed
qed simp

definition pad_len :: "nat \<Rightarrow> nat" where
  "pad_len n = (8 - n mod 8) mod 8"

lemma pad_len_0 [simp]: "pad_len 0 = 0"
  by (simp add: pad_len_def)

lemma pad_byte:
  assumes "0 < over" and "over < 8"
  shows "low_bits (8 - over) (drop_bit over (mask 8 :: u64)) = replicate (8 - over) True"
    and "bit (drop_bit over (mask 8 :: u64)) i \<Longrightarrow> i < 8 - over"
proof -
  show "low_bits (8 - over) (drop_bit over (mask 8 :: u64)) = replicate (8 - over) True"
    by (rule nth_equalityI) (use assms in \<open>auto simp: nth_low_bits bit_drop_bit_eq bit_mask_iff possible_bit_def\<close>)
  show "bit (drop_bit over (mask 8 :: u64)) i \<Longrightarrow> i < 8 - over"
    by (auto simp: bit_drop_bit_eq bit_mask_iff)
qed

lemma low_bits_bytes:
  fixes x :: u64
  shows "low_bits 8 x = bits_of [ucast x]" "low_bits 16 x = bits_of (put16 (ucast x))"
    "low_bits 24 x = bits_of (put16 (ucast (drop_bit 8 x)) @ [ucast x])" "low_bits 32 x = bits_of (put32 (ucast x))"
proof -
  show "low_bits 24 x = bits_of (put16 (ucast (drop_bit 8 x)) @ [ucast x])"
    using low_bits_split [of 16 24 x] by (simp add: bits_of_put16 low_bits_ucast)
qed (simp_all add: bits_of_put16 bits_of_put32 low_bits_ucast)

lemma padded_cases:
  assumes "n < 32"
  shows "n + pad_len n = 0 \<or> n + pad_len n = 8 \<or> n + pad_len n = 16 \<or> n + pad_len n = 24 \<or> n + pad_len n = 32"
proof -
  define q r where "q = n div 8" and "r = n mod 8"
  have n: "n = 8 * q + r" "r < 8" "q < 4" using assms by (auto simp: q_def r_def)
  then have "pad_len n = (if r = 0 then 0 else 8 - r)" by (simp add: pad_len_def)
  moreover have "q = 0 \<or> q = 1 \<or> q = 2 \<or> q = 3" using n(3) by linarith
  ultimately show ?thesis using n(1,2) by (cases "r = 0") auto
qed

lemma AppendHuffmanString_bits:
  "bits_of (AppendHuffmanString dst s) =
     bits_of dst @ concat (map code_of (string_to_bytes s))
       @ replicate (pad_len (length (concat (map code_of (string_to_bytes s))))) True"
proof -
  let ?cs = "concat (map code_of (string_to_bytes s))"
  obtain d x n where l: "append_loop dst 0 0 (string_to_bytes s) = (d, x, n)" by (metis prod_cases3)
  then have n: "n < 32" and b: "bits_of d @ low_bits n x = bits_of dst @ ?cs"
    using append_loop_bits [of 0 dst 0 "string_to_bytes s"] by simp_all
  have "length (bits_of d @ low_bits n x) = length (bits_of dst @ ?cs)" using b by simp
  then have "(8 * length d + n) mod 8 = (8 * length dst + length ?cs) mod 8" by simp
  then have pn: "pad_len (length ?cs) = pad_len n" by (simp add: pad_len_def)
  have eos: "eosPadByte = mask 8" by (simp add: mask_eq_exp_minus_1)
  let ?over = "n mod 8" and ?pad = "pad_len n"
  let ?x = "if ?over > 0 then push_bit (8 - ?over) x OR drop_bit ?over eosPadByte else x"
  have full: "low_bits (n + ?pad) ?x = low_bits n x @ replicate ?pad True"
  proof (cases "?over > 0")
    case True
    then have pad: "?pad = 8 - ?over" by (simp add: pad_len_def)
    have "low_bits (n + (8 - ?over)) (push_bit (8 - ?over) x OR drop_bit ?over (mask 8))
        = low_bits n x @ low_bits (8 - ?over) (drop_bit ?over (mask 8 :: u64))"
      using n pad_byte(2) [of ?over] True by (intro low_bits_push) simp_all
    also have "low_bits (8 - ?over) (drop_bit ?over (mask 8 :: u64)) = replicate (8 - ?over) True"
      using True by (intro pad_byte(1)) simp_all
    finally show ?thesis using True by (simp only: pad eos if_True)
  next
    case False
    then show ?thesis by (simp add: pad_len_def)
  qed
  have "n + ?pad = 0 \<or> n + ?pad = 8 \<or> n + ?pad = 16 \<or> n + ?pad = 24 \<or> n + ?pad = 32"
    by (rule padded_cases [OF n])
  moreover have "AppendHuffmanString dst s =
      (if (n + ?pad) div 8 = 0 then d
       else if (n + ?pad) div 8 = 1 then d @ [ucast ?x]
       else if (n + ?pad) div 8 = 2 then d @ put16 (ucast ?x)
       else if (n + ?pad) div 8 = 3 then d @ put16 (ucast (drop_bit 8 ?x)) @ [ucast ?x]
       else d @ put32 (ucast ?x))"
  proof (cases "?over > 0")
    case True
    then have "?pad = 8 - ?over" by (simp add: pad_len_def)
    with True show ?thesis unfolding AppendHuffmanString_def l by (simp only: Let_def prod.case if_True)
  next
    case False
    then have "?pad = 0" by (simp add: pad_len_def)
    with False show ?thesis unfolding AppendHuffmanString_def l by (simp only: Let_def prod.case if_False add_0_right)
  qed
  ultimately have "bits_of (AppendHuffmanString dst s) = bits_of d @ low_bits (n + ?pad) ?x"
    using low_bits_bytes [of ?x] by (elim disjE) (simp_all del: bits_of_simps(2) put16_be16)
  then show ?thesis unfolding full pn using b by simp
qed

section \<open>The decoding tree represents the code\<close>

text \<open>An internal node of depth at most \<open>k\<close> represents a set of code words with their symbols.\<close>

definition below :: "byte \<Rightarrow> (bool list \<times> byte) set \<Rightarrow> (bool list \<times> byte) set" where
  "below b M = {(c, s). c \<noteq> [] \<and> (byte_bits b @ c, s) \<in> M}"

fun rep :: "nat \<Rightarrow> hnode \<Rightarrow> (bool list \<times> byte) set \<Rightarrow> bool" where
  "rep 0 n M = False"
| "rep (Suc k) (LeafNode l s) M = False"
| "rep (Suc k) (Internal ch) M =
     (\<forall>b. case ch b of
        None \<Rightarrow> \<forall>(c, s) \<in> M. \<not> prefix c (byte_bits b) \<and> \<not> prefix (byte_bits b) c
      | Some (LeafNode l s) \<Rightarrow> \<exists>c. (c, s) \<in> M \<and> length c = l \<and> prefix c (byte_bits b)
      | Some (Internal ch') \<Rightarrow> rep k (Internal ch') (below b M) \<and> below b M \<noteq> {})"

lemma prefix_take_iff: "prefix xs ys \<longleftrightarrow> take (length xs) ys = xs"
  by (metis append_eq_conv_conj prefix_def take_is_prefix)

lemma rep_internal: "rep k n M \<Longrightarrow> \<exists>j ch. k = Suc j \<and> n = Internal ch"
  by (cases k; cases n) auto

lemma rep_new: "rep (Suc k) newInternalNode {}"
  by (simp add: newInternalNode_def)

text \<open>The range of bytes that a short code word fills.\<close>

lemma fill_range:
  fixes code :: u32 and b :: byte
  assumes "len \<le> 8"
  defines "start \<equiv> unat (ucast (push_bit (8 - len) code) :: byte)"
  shows "start + 2 ^ (8 - len) \<le> 256"
    and "start \<le> unat b \<and> unat b < start + 2 ^ (8 - len) \<longleftrightarrow> prefix (low_bits len code) (byte_bits b)"
proof -
  let ?sh = "8 - len" and ?S = "ucast (push_bit (8 - len) code) :: byte"
  define q where "q = start div 2 ^ ?sh"
  have "take_bit ?sh ?S = 0" by (rule bit_word_eqI) (auto simp: bit_simps)
  then have "unat ?S mod 2 ^ ?sh = 0"
    by (metis take_bit_eq_mod unsigned_take_bit_eq unsigned_0)
  then have q: "start = q * 2 ^ ?sh" by (simp add: start_def q_def mod_eq_0_iff_dvd)
  have S: "start < 256" unfolding start_def by (rule unat_byte_less)
  have 256: "(256 :: nat) = 2 ^ len * 2 ^ ?sh" using assms(1) by (simp flip: power_add)
  have "q < 2 ^ len" using S unfolding q 256 by simp
  then have "(q + 1) * 2 ^ ?sh \<le> 2 ^ len * 2 ^ ?sh" by (intro mult_le_mono1) simp
  then show "start + 2 ^ ?sh \<le> 256" unfolding q 256 by simp
  have "start \<le> unat b \<and> unat b < start + 2 ^ ?sh \<longleftrightarrow> unat b div 2 ^ ?sh = q"
    unfolding q
  proof
    assume "unat b div 2 ^ ?sh = q"
    then show "q * 2 ^ ?sh \<le> unat b \<and> unat b < q * 2 ^ ?sh + 2 ^ ?sh"
      using div_times_less_eq_dividend [of "unat b" "2 ^ ?sh"] dividend_less_div_times [of "2 ^ ?sh" "unat b"]
      by (auto simp: add.commute)
  next
    assume "q * 2 ^ ?sh \<le> unat b \<and> unat b < q * 2 ^ ?sh + 2 ^ ?sh"
    then show "unat b div 2 ^ ?sh = q" by (intro div_nat_eqI) (simp_all add: mult.commute)
  qed
  also have "\<dots> \<longleftrightarrow> drop_bit ?sh b = drop_bit ?sh ?S"
  proof -
    have "unat (drop_bit ?sh w) = unat w div 2 ^ ?sh" for w :: byte
      by (simp only: unat_drop_bit_eq) (simp only: drop_bit_eq_div)
    then show ?thesis unfolding q_def start_def by (simp only: word_unat_eq_iff)
  qed
  also have "\<dots> \<longleftrightarrow> (\<forall>i < len. bit (drop_bit ?sh b) i = bit code i)"
  proof
    assume "drop_bit ?sh b = drop_bit ?sh ?S"
    then show "\<forall>i < len. bit (drop_bit ?sh b) i = bit code i" using assms(1) by (auto simp: bit_simps)
  next
    assume *: "\<forall>i < len. bit (drop_bit ?sh b) i = bit code i"
    show "drop_bit ?sh b = drop_bit ?sh ?S"
    proof (rule bit_word_eqI)
      fix i
      assume "i < LENGTH(8)"
      show "bit (drop_bit ?sh b) i = bit (drop_bit ?sh ?S) i"
        using * assms(1) by (cases "i < len") (auto simp: bit_simps dest: bit_imp_le_length)
    qed
  qed
  also have "\<dots> \<longleftrightarrow> low_bits len (drop_bit ?sh b) = low_bits len code" by (rule low_bits_eq_iff [symmetric])
  also have "\<dots> \<longleftrightarrow> prefix (low_bits len code) (byte_bits b)"
    using assms(1) by (simp add: prefix_take_iff take_low_bits)
  finally show "start \<le> unat b \<and> unat b < start + 2 ^ ?sh \<longleftrightarrow> prefix (low_bits len code) (byte_bits b)" .
qed

abbreviation comparable :: "bool list \<Rightarrow> bool list \<Rightarrow> bool" where
  "comparable c d \<equiv> prefix c d \<or> prefix d c"

lemma comparable_take: "comparable c d \<Longrightarrow> n \<le> length c \<Longrightarrow> n \<le> length d \<Longrightarrow> take n c = take n d"
  by (auto simp: prefix_def)

lemma below_insert_long:
  "below b (insert (byte_bits i @ c, s) M) = (if b = i \<and> c \<noteq> [] then insert (c, s) (below b M) else below b M)"
  by (auto simp: below_def byte_bits_inj append_eq_append_conv)

lemma below_insert_short: "length c \<le> 8 \<Longrightarrow> below b (insert (c, s) M) = below b M"
  by (auto simp: below_def)

lemma insert_code_rep:
  "rep k n M \<Longrightarrow> 0 < len \<Longrightarrow> len \<le> 8 * k \<Longrightarrow> \<forall>(d, t) \<in> M. \<not> comparable (low_bits len code) d \<Longrightarrow>
     \<exists>n'. insert_code len code s n = Some n' \<and> rep k n' (insert (low_bits len code, s) M)"
proof (induction k arbitrary: n M len)
  case (Suc k)
  obtain ch where n: "n = Internal ch" using rep_internal [OF Suc.prems(1)] by auto
  have R: "case ch b of
        None \<Rightarrow> \<forall>(c, s) \<in> M. \<not> prefix c (byte_bits b) \<and> \<not> prefix (byte_bits b) c
      | Some (LeafNode l s) \<Rightarrow> \<exists>c. (c, s) \<in> M \<and> length c = l \<and> prefix c (byte_bits b)
      | Some (Internal ch') \<Rightarrow> rep k (Internal ch') (below b M) \<and> below b M \<noteq> {}" for b
    using Suc.prems(1) n by simp
  show ?case
  proof (cases "len > 8")
    case True
    let ?i = "ucast (drop_bit (len - 8) code) :: byte" and ?c' = "low_bits (len - 8) code"
    have c: "low_bits len code = byte_bits ?i @ ?c'"
      using low_bits_split [of 8 len code] True by (simp add: low_bits_ucast)
    have ne: "?c' \<noteq> []" using True by (metis length_low_bits list.size(3) zero_less_diff less_irrefl)
    obtain j where k: "k = Suc j" using Suc.prems(3) True by (cases k) auto
    have inc: "\<not> comparable (byte_bits ?i @ ?c') d" if "(d, t) \<in> M" for d t
      using Suc.prems(4) that c by auto
    define sub where "sub = (case ch ?i of None \<Rightarrow> newInternalNode | Some n \<Rightarrow> n)"
    have sub: "rep k sub (below ?i M)"
    proof (cases "ch ?i")
      case None
      then have "below ?i M = {}" using R [of ?i] by (auto simp: below_def)
      then show ?thesis using None k rep_new by (simp add: sub_def)
    next
      case (Some m)
      show ?thesis
      proof (cases m)
        case (Internal ch')
        then show ?thesis using Some R [of ?i] by (simp add: sub_def)
      next
        case (LeafNode l t)
        then obtain d where "(d, t) \<in> M" "prefix d (byte_bits ?i)" using Some R [of ?i] by auto
        then show ?thesis using inc [of d t] by (meson prefix_prefix)
      qed
    qed
    have "\<not> comparable ?c' d" if "(d, t) \<in> below ?i M" for d t
      using inc [of "byte_bits ?i @ d" t] that by (auto simp: below_def)
    then have "\<forall>(d, t) \<in> below ?i M. \<not> comparable ?c' d" by blast
    moreover have len_k: "len - 8 \<le> 8 * k" using Suc.prems(3) by simp
    ultimately obtain n' where n': "insert_code (len - 8) code s sub = Some n'" "rep k n' (insert (?c', s) (below ?i M))"
      using Suc.IH [OF sub, of "len - 8"] True len_k by auto
    then obtain ch' where ch': "n' = Internal ch'" using rep_internal by blast
    have "case (ch(?i := Some n')) b of
        None \<Rightarrow> \<forall>(c, s) \<in> insert (byte_bits ?i @ ?c', s) M. \<not> prefix c (byte_bits b) \<and> \<not> prefix (byte_bits b) c
      | Some (LeafNode l t) \<Rightarrow> \<exists>c. (c, t) \<in> insert (byte_bits ?i @ ?c', s) M \<and> length c = l \<and> prefix c (byte_bits b)
      | Some (Internal ch') \<Rightarrow> rep k (Internal ch') (below b (insert (byte_bits ?i @ ?c', s) M))
          \<and> below b (insert (byte_bits ?i @ ?c', s) M) \<noteq> {}" for b
    proof (cases "b = ?i")
      case True
      then show ?thesis using n' ne ch' by (simp add: below_insert_long)
    next
      case False
      then have "\<not> comparable (byte_bits ?i @ ?c') (byte_bits b)"
        using comparable_take [of "byte_bits ?i @ ?c'" "byte_bits b" 8] by (auto simp: byte_bits_inj)
      then show ?thesis
        using False R [of b] by (auto simp: below_insert_long split: option.splits hnode.splits)
    qed
    moreover have "insert_code len code s n = Some (Internal (ch(?i := Some n')))"
      using True n'(1) by (simp add: n Let_def sub_def)
    ultimately show ?thesis by (simp add: c)
  next
    case False
    then have len: "len \<le> 8" by simp
    let ?c = "low_bits len code"
    let ?ch = "\<lambda>i. if prefix ?c (byte_bits i) then Some (LeafNode len s) else ch i"
    have "insert_code len code s n = Some (Internal ?ch)"
      using len fill_range [OF len, of code] by (simp add: n Let_def)
    moreover have "case ?ch b of
        None \<Rightarrow> \<forall>(c, s) \<in> insert (?c, s) M. \<not> prefix c (byte_bits b) \<and> \<not> prefix (byte_bits b) c
      | Some (LeafNode l t) \<Rightarrow> \<exists>c. (c, t) \<in> insert (?c, s) M \<and> length c = l \<and> prefix c (byte_bits b)
      | Some (Internal ch') \<Rightarrow> rep k (Internal ch') (below b (insert (?c, s) M)) \<and> below b (insert (?c, s) M) \<noteq> {}" for b
    proof (cases "prefix ?c (byte_bits b)")
      case True
      then show ?thesis by auto
    next
      case False
      then have "\<not> prefix (byte_bits b) ?c" using len prefix_length_prefix [of ?c ?c "byte_bits b"] by auto
      then show ?thesis
        using False R [of b] len by (auto simp: below_insert_short split: option.splits hnode.splits)
    qed
    ultimately show ?thesis by simp
  qed
qed simp

text \<open>The codes that continue a bit string \<open>p\<close>.\<close>

definition tails :: "bool list \<Rightarrow> (bool list \<times> byte) set" where
  "tails p = {(c, s). c \<noteq> [] \<and> p @ c = code_of s}"

lemma below_tails: "below b (tails p) = tails (p @ byte_bits b)"
  by (auto simp: below_def tails_def)

lemma build_loop_rep:
  "i + length codes = 256 \<Longrightarrow> codes = drop i huffmanCodes \<Longrightarrow> rep 4 root {(code_of b, b) |b. unat b < i} \<Longrightarrow>
     \<exists>root'. build_loop i codes root = Some root' \<and> rep 4 root' {(code_of b, b) |b. unat b < 256}"
proof (induction codes arbitrary: i root)
  case (Cons code codes)
  define b :: byte where "b = of_nat i"
  have i: "i < 256" using Cons.prems(1) by simp
  then have b: "unat b = i" by (simp add: b_def unat_of_nat)
  have code: "code = huffmanCodes ! i" "codes = drop (i + 1) huffmanCodes"
    using Cons.prems(2) i by (simp_all add: Cons_nth_drop_Suc [symmetric] length_tables)
  then have c: "low_bits (huffmanCodeLen ! i) code = code_of b" by (simp add: code_of_def b)
  have "\<forall>(d, t) \<in> {(code_of a, a) |a. unat a < i}. \<not> comparable (code_of b) d"
    using b code_of_prefix_free by blast
  then obtain r where r: "insert_code (huffmanCodeLen ! i) code b root = Some r"
    "rep 4 r (insert (code_of b, b) {(code_of a, a) |a. unat a < i})"
    using insert_code_rep [OF Cons.prems(3), of "huffmanCodeLen ! i" code b] codeLen_bounds [of b] c b by auto
  moreover have "insert (code_of b, b) {(code_of a, a) |a. unat a < i} = {(code_of a, a) |a. unat a < i + 1}"
    using b by (auto simp: less_Suc_eq simp flip: word_unat_eq_iff)
  ultimately show ?case
    using Cons.IH [of "i + 1" r] Cons.prems(1) code(2) by (simp add: b_def)
qed simp

lemma build_root: "\<exists>root. buildRootHuffmanNode = Some root \<and> rep 4 root (tails [])"
proof -
  have "rep 4 newInternalNode {(code_of b, b) |b. unat b < 0}"
    using rep_new [of 3] by (simp add: numeral_eq_Suc)
  then obtain root where root: "build_loop 0 huffmanCodes newInternalNode = Some root"
    "rep 4 root {(code_of b, b) |b. unat b < 256}"
    using build_loop_rep [of 0 huffmanCodes newInternalNode] by (auto simp: length_tables)
  have "{(code_of b, b) |b. unat b < 256} = tails []"
    using unat_byte_less by (auto simp: tails_def)
  with root show ?thesis by (simp add: buildRootHuffmanNode_def length_tables)
qed

section \<open>The reference decoder\<close>

text \<open>Decoding bit by bit: strip one code word after the other; what is left when none matches must
  be fewer than eight ones.\<close>

definition strip_code :: "bool list \<Rightarrow> (byte \<times> bool list) option" where
  "strip_code bits =
     map_option (\<lambda>s. (s, drop (length (code_of s)) bits)) (find (\<lambda>s. prefix (code_of s) bits) (map of_nat [0..<256]))"

lemma all_bytes: "set (map of_nat [0..<256]) = (UNIV :: byte set)"
proof -
  have "b \<in> of_nat ` {0..<256}" for b :: byte
    using unat_byte_less [of b] by (intro image_eqI [of _ _ "unat b"]) simp_all
  then show ?thesis by auto
qed

lemma strip_code_None: "strip_code bits = None \<longleftrightarrow> (\<forall>s. \<not> prefix (code_of s) bits)"
  unfolding strip_code_def option.map_disc_iff find_None_iff all_bytes by simp

lemma strip_code_Some: "strip_code bits = Some (s, r) \<longleftrightarrow> bits = code_of s @ r"
proof
  assume "strip_code bits = Some (s, r)"
  then show "bits = code_of s @ r"
    by (auto simp: strip_code_def find_Some_iff prefix_def)
next
  assume bits: "bits = code_of s @ r"
  then have "prefix (code_of s) bits" by simp
  then have "\<not> (\<forall>s. \<not> prefix (code_of s) bits)" by blast
  then obtain t u where t: "strip_code bits = Some (t, u)"
    using strip_code_None [of bits] by (cases "strip_code bits") auto
  then have "bits = code_of t @ u" by (auto simp: strip_code_def find_Some_iff prefix_def)
  with bits t show "strip_code bits = Some (s, r)" using code_of_append_eq by metis
qed

function reference_decode :: "nat \<Rightarrow> bytes \<Rightarrow> bool list \<Rightarrow> hpack_error + bytes" where
  "reference_decode maxLen out bits =
     (case strip_code bits of
        Some (s, r) \<Rightarrow>
          if maxLen \<noteq> 0 \<and> length out = maxLen then Inl ErrStringLength
          else reference_decode maxLen (out @ [s]) r
      | None \<Rightarrow> if length bits < 8 \<and> (\<forall>b \<in> set bits. b) then Inr out else Inl ErrInvalidHuffman)"
  by pat_completeness auto
termination
  by (relation "measure (\<lambda>(_, _, bits). length bits)") (auto simp: strip_code_Some)

declare reference_decode.simps [simp del]

lemma reference_code:
  "reference_decode maxLen out (code_of s @ r) =
     (if maxLen \<noteq> 0 \<and> length out = maxLen then Inl ErrStringLength else reference_decode maxLen (out @ [s]) r)"
  using strip_code_Some [of "code_of s @ r" s r] by (subst reference_decode.simps) simp

lemma reference_stuck:
  "\<forall>s. \<not> prefix (code_of s) bits \<Longrightarrow> reference_decode maxLen out bits =
     (if length bits < 8 \<and> (\<forall>b \<in> set bits. b) then Inr out else Inl ErrInvalidHuffman)"
  by (subst reference_decode.simps) (simp add: strip_code_None [THEN iffD2])

section \<open>The table-driven decoder computes the reference\<close>

definition dec_inv :: "hnode \<Rightarrow> bool list \<Rightarrow> nat \<Rightarrow> nat \<Rightarrow> bool" where
  "dec_inv n p cbits sbits \<longleftrightarrow>
     (\<exists>k. rep k n (tails p) \<and> length p + 8 * k = 32) \<and> tails p \<noteq> {} \<and> sbits = length p + cbits"

lemma dec_inv_root: "rep 4 root (tails []) \<Longrightarrow> dec_inv root [] cbits cbits"
proof -
  assume "rep 4 root (tails [])"
  moreover have "(code_of 0, 0) \<in> tails []" by (simp add: tails_def)
  ultimately show ?thesis by (auto simp: dec_inv_def intro!: exI [of _ 4])
qed

lemma dec_inv_length: "dec_inv n p cbits sbits \<Longrightarrow> length p \<le> 24 \<and> 8 dvd length p"
proof -
  assume "dec_inv n p cbits sbits"
  then obtain k where "rep k n (tails p)" "length p + 8 * k = 32" by (auto simp: dec_inv_def)
  moreover from this have "0 < k" by (cases k) auto
  ultimately show ?thesis by presburger
qed

lemma dec_inv_internal: "dec_inv n p cbits sbits \<Longrightarrow> \<exists>ch. n = Internal ch"
  using rep_internal unfolding dec_inv_def by blast

text \<open>A code that starts within a bit string that continues \<open>p\<close> continues \<open>p\<close> itself.\<close>

lemma code_continues:
  assumes "tails p \<noteq> {}" and "prefix (code_of s) (p @ r)"
  shows "\<exists>c. (c, s) \<in> tails p \<and> prefix c r"
proof -
  obtain c t where t: "c \<noteq> []" "p @ c = code_of t" using assms(1) by (auto simp: tails_def)
  have "\<not> prefix (code_of s) p"
  proof
    assume "prefix (code_of s) p"
    then have "prefix (code_of s) (code_of t)" using t(2) by (metis prefixI prefix_order.trans)
    then have "s = t" by (rule code_of_prefix_free)
    then have "length (p @ c) \<le> length p" using prefix_length_le [OF \<open>prefix (code_of s) p\<close>] t(2) by simp
    with t(1) show False by simp
  qed
  with assms(2) show ?thesis by (auto simp: prefix_append tails_def)
qed

text \<open>The three outcomes of a look-up in an internal node.\<close>

lemma lookup_nil:
  assumes "dec_inv (Internal ch) p cbits sbits" and "ch b = None"
  shows "\<not> prefix (code_of s) (p @ byte_bits b @ r)"
proof
  assume pre: "prefix (code_of s) (p @ byte_bits b @ r)"
  obtain c where c: "(c, s) \<in> tails p" "prefix c (byte_bits b @ r)"
    using code_continues [OF _ pre] assms(1) by (auto simp: dec_inv_def)
  obtain k where "rep k (Internal ch) (tails p)" using assms(1) by (auto simp: dec_inv_def)
  then have "\<forall>(c, s) \<in> tails p. \<not> comparable c (byte_bits b)"
    using assms(2) by (cases k) (force split: option.splits)+
  moreover have "comparable c (byte_bits b)" using c(2) by (rule prefix_same_cases) simp
  ultimately show False using c(1) by blast
qed

lemma lookup_leaf:
  assumes "dec_inv (Internal ch) p cbits sbits" and "ch b = Some (LeafNode l s)"
  shows "code_of s = p @ take l (byte_bits b) \<and> 0 < l \<and> l \<le> 8"
proof -
  obtain k where k: "rep k (Internal ch) (tails p)" using assms(1) by (auto simp: dec_inv_def)
  obtain c where c: "(c, s) \<in> tails p" "length c = l" "prefix c (byte_bits b)"
  proof (cases k)
    case (Suc j)
    then have "\<exists>c. (c, s) \<in> tails p \<and> length c = l \<and> prefix c (byte_bits b)"
      using k assms(2) by (auto dest: spec [of _ b])
    then show ?thesis using that by blast
  qed (use k in simp)
  have "l \<le> 8" using prefix_length_le [OF c(3)] c(2) by simp
  with c show ?thesis by (auto simp: tails_def prefix_take_iff)
qed

lemma lookup_internal:
  assumes "dec_inv (Internal ch) p cbits sbits" and "ch b = Some (Internal ch')" and "8 \<le> cbits"
  shows "dec_inv (Internal ch') (p @ byte_bits b) (cbits - 8) sbits"
proof -
  obtain k where k: "rep k (Internal ch) (tails p)" "length p + 8 * k = 32" using assms(1) by (auto simp: dec_inv_def)
  then obtain j where j: "k = Suc j" using rep_internal by blast
  have "rep j (Internal ch') (tails (p @ byte_bits b)) \<and> tails (p @ byte_bits b) \<noteq> {}"
    using k(1) j assms(2) by (auto simp: below_tails dest: spec [of _ b])
  then show ?thesis using k(2) j assms(1,3) by (auto simp: dec_inv_def)
qed

lemma lookup_internal_stuck:
  assumes "dec_inv (Internal ch) p cbits sbits" and "ch b = Some (Internal ch')" and "prefix q (byte_bits b)"
  shows "\<not> prefix (code_of s) (p @ q)"
proof
  assume "prefix (code_of s) (p @ q)"
  then have s: "prefix (code_of s) (p @ byte_bits b)"
    using assms(3) by (metis prefix_order.trans same_prefix_prefix)
  have "dec_inv (Internal ch) p 8 (length p + 8)" using assms(1) by (auto simp: dec_inv_def)
  from lookup_internal [OF this assms(2)] obtain c t where "c \<noteq> []" "p @ byte_bits b @ c = code_of t"
    by (auto simp: dec_inv_def tails_def)
  then have t: "code_of t = (p @ byte_bits b) @ c" "c \<noteq> []" by simp_all
  have "prefix (code_of s) (code_of t)" unfolding t(1) using s by (rule prefix_prefix)
  then have "s = t" by (rule code_of_prefix_free)
  with prefix_length_le [OF s] t show False by simp
qed

lemma lookup_leaf_stuck:
  assumes "dec_inv (Internal ch) p cbits sbits" and "ch b = Some (LeafNode l t)" and "prefix q (byte_bits b)"
    and "length q < l"
  shows "\<not> prefix (code_of s) (p @ q)"
proof
  assume s: "prefix (code_of s) (p @ q)"
  have t: "code_of t = p @ take l (byte_bits b)" using lookup_leaf [OF assms(1,2)] by simp
  have "prefix q (take l (byte_bits b))"
    using assms(3,4) by (metis less_imp_le prefix_take_iff take_is_prefix min.absorb1 take_take)
  then have "prefix (code_of s) (code_of t)" using s t by (metis prefix_order.trans same_prefix_prefix)
  then have "s = t" by (rule code_of_prefix_free)
  with prefix_length_le [OF s] t lookup_leaf [OF assms(1,2)] assms(4) show False by simp
qed

lemma byte_loop_correct:
  assumes root: "rep 4 root (tails [])"
  shows "dec_inv n p cbits sbits \<Longrightarrow> cbits < 16 \<Longrightarrow>
     \<exists>res. byte_loop root maxLen cur n cbits sbits buf = Some res
       \<and> (case res of
            Inl e \<Rightarrow> \<forall>r. reference_decode maxLen buf (p @ low_bits cbits cur @ r) = Inl e
          | Inr (n', cbits', sbits', buf') \<Rightarrow>
              \<exists>p'. dec_inv n' p' cbits' sbits' \<and> cbits' < 8
                \<and> (\<forall>r. reference_decode maxLen buf (p @ low_bits cbits cur @ r)
                       = reference_decode maxLen buf' (p' @ low_bits cbits' cur @ r)))"
proof (induction cbits arbitrary: n p sbits buf rule: less_induct)
  case (less cbits)
  show ?case
  proof (cases "cbits \<ge> 8")
    case False
    with less.prems show ?thesis by (subst byte_loop.simps) auto
  next
    case True
    obtain ch where n: "n = Internal ch" using dec_inv_internal [OF less.prems(1)] by blast
    let ?b = "ucast (drop_bit (cbits - 8) cur) :: byte"
    have q: "low_bits cbits cur = byte_bits ?b @ low_bits (cbits - 8) cur"
      using low_bits_split [OF True, of cur] by (simp add: low_bits_ucast)
    show ?thesis
    proof (cases "ch ?b")
      case None
      have "reference_decode maxLen buf (p @ low_bits cbits cur @ r) = Inl ErrInvalidHuffman" for r
        using lookup_nil [OF less.prems(1) [unfolded n] None] by (subst reference_stuck) (simp_all add: q)
      with True None n show ?thesis by (subst byte_loop.simps) simp
    next
      case (Some m)
      show ?thesis
      proof (cases m)
        case (Internal ch')
        with Some have m: "ch ?b = Some (Internal ch')" by simp
        from lookup_internal [OF less.prems(1) [unfolded n] m True]
        have "dec_inv (Internal ch') (p @ byte_bits ?b) (cbits - 8) sbits" .
        moreover have "cbits - 8 < cbits" "cbits - 8 < 16" using True less.prems(2) by simp_all
        moreover have "byte_loop root maxLen cur n cbits sbits buf = byte_loop root maxLen cur (Internal ch') (cbits - 8) sbits buf"
          using True by (subst byte_loop.simps) (simp add: n m)
        moreover have "p @ low_bits cbits cur @ r = (p @ byte_bits ?b) @ low_bits (cbits - 8) cur @ r" for r
          unfolding q by simp
        ultimately show ?thesis using less.IH [of "cbits - 8" "Internal ch'" "p @ byte_bits ?b" sbits buf] by (simp only:)
      next
        case (LeafNode l s)
        with Some have m: "ch ?b = Some (LeafNode l s)" by simp
        from lookup_leaf [OF less.prems(1) [unfolded n] m]
        have l: "code_of s = p @ take l (byte_bits ?b)" "0 < l" "l \<le> 8" by simp_all
        have "low_bits cbits cur = take l (low_bits cbits cur) @ low_bits (cbits - l) cur"
          using l(3) True drop_low_bits [of l cbits cur] append_take_drop_id [of l "low_bits cbits cur"] by simp
        moreover have "take l (low_bits cbits cur) = take l (byte_bits ?b)" using l(3) by (simp add: q)
        ultimately have r: "p @ low_bits cbits cur @ r = code_of s @ low_bits (cbits - l) cur @ r" for r
          by (simp add: l(1))
        have "cbits + 256 - l = cbits - l + 256" "cbits - l < 256" using l(3) True less.prems(2) by simp_all
        then have c: "(cbits + 256 - l) mod 256 = cbits - l" by (simp only: mod_add_self2 mod_less)
        show ?thesis
        proof (cases "maxLen \<noteq> 0 \<and> length buf = maxLen")
          case full: True
          with True show ?thesis by (subst byte_loop.simps) (simp add: n m r reference_code)
        next
          case False
          have "byte_loop root maxLen cur n cbits sbits buf = byte_loop root maxLen cur root (cbits - l) (cbits - l) (buf @ [s])"
            using True False by (subst byte_loop.simps) (auto simp: n m c Let_def)
          moreover have "reference_decode maxLen buf (p @ low_bits cbits cur @ r)
              = reference_decode maxLen (buf @ [s]) ([] @ low_bits (cbits - l) cur @ r)" for r
            using False by (auto simp: r reference_code)
          moreover have "cbits - l < cbits" "cbits - l < 16" using l True less.prems(2) by simp_all
          ultimately show ?thesis
            using less.IH [OF _ dec_inv_root [OF root], of "cbits - l" "buf @ [s]"] by (simp only:)
        qed
      qed
    qed
  qed
qed

lemma input_loop_correct:
  assumes root: "rep 4 root (tails [])"
  shows "dec_inv n p cbits sbits \<Longrightarrow> cbits < 8 \<Longrightarrow>
     \<exists>res. input_loop root maxLen v cur (n, cbits, sbits, buf) = Some res
       \<and> (case res of
            Inl e \<Rightarrow> reference_decode maxLen buf (p @ low_bits cbits cur @ bits_of v) = Inl e
          | Inr (cur', n', cbits', sbits', buf') \<Rightarrow>
              \<exists>p'. dec_inv n' p' cbits' sbits' \<and> cbits' < 8
                \<and> reference_decode maxLen buf (p @ low_bits cbits cur @ bits_of v)
                    = reference_decode maxLen buf' (p' @ low_bits cbits' cur'))"
proof (induction v arbitrary: cur n p cbits sbits buf)
  case (Cons b v)
  let ?cur = "push_bit 8 cur OR ucast b :: u64"
  have len: "length p \<le> 24" "sbits = length p + cbits"
    using dec_inv_length [OF Cons.prems(1)] Cons.prems(1) by (simp_all add: dec_inv_def)
  have "low_bits (cbits + 8) ?cur = low_bits cbits cur @ low_bits 8 (ucast b :: u64)"
    using Cons.prems(2) by (intro low_bits_push) (auto simp: bit_simps dest: bit_imp_le_length)
  then have q: "low_bits (cbits + 8) ?cur = low_bits cbits cur @ byte_bits b" by (simp add: low_bits_ucast)
  have inv: "dec_inv n p (cbits + 8) (sbits + 8)" using Cons.prems(1) by (simp add: dec_inv_def)
  have c16: "cbits + 8 < 16" using Cons.prems(2) by simp
  obtain res where res: "byte_loop root maxLen ?cur n (cbits + 8) (sbits + 8) buf = Some res"
    "case res of
            Inl e \<Rightarrow> \<forall>r. reference_decode maxLen buf (p @ low_bits (cbits + 8) ?cur @ r) = Inl e
          | Inr (n', cbits', sbits', buf') \<Rightarrow>
              \<exists>p'. dec_inv n' p' cbits' sbits' \<and> cbits' < 8
                \<and> (\<forall>r. reference_decode maxLen buf (p @ low_bits (cbits + 8) ?cur @ r)
                       = reference_decode maxLen buf' (p' @ low_bits cbits' ?cur @ r))"
    using byte_loop_correct [OF root inv c16, of maxLen ?cur buf] by blast
  have eq: "input_loop root maxLen (b # v) cur (n, cbits, sbits, buf) =
      (case res of Inl e \<Rightarrow> Some (Inl e) | Inr st \<Rightarrow> input_loop root maxLen v ?cur st)"
    using res(1) len Cons.prems(2) by (simp add: Let_def split: sum.splits)
  show ?case
  proof (cases res)
    case (Inl e)
    with res(2) have "reference_decode maxLen buf (p @ low_bits (cbits + 8) ?cur @ bits_of v) = Inl e" by simp
    with Inl show ?thesis unfolding eq by (simp add: q)
  next
    case (Inr st)
    obtain n' cbits' sbits' buf' where st: "st = (n', cbits', sbits', buf')" by (cases st)
    with res(2) Inr obtain p' where p': "dec_inv n' p' cbits' sbits'" "cbits' < 8"
      "reference_decode maxLen buf (p @ low_bits (cbits + 8) ?cur @ bits_of v)
        = reference_decode maxLen buf' (p' @ low_bits cbits' ?cur @ bits_of v)" by auto
    have "p @ low_bits cbits cur @ bits_of (b # v) = p @ low_bits (cbits + 8) ?cur @ bits_of v" by (simp add: q)
    with Cons.IH [OF p'(1,2), of ?cur buf'] p'(3) show ?thesis unfolding eq Inr st by (simp only: sum.case)
  qed
qed auto

text \<open>The first byte of the padding: some code starts with it, so the look-up finds a node.\<close>

lemma ones_codes:
  "prefix (code_of 61) ([True] @ replicate 7 False)" "prefix (code_of 69) (replicate 2 True @ replicate 6 False)"
  "prefix (code_of 85) (replicate 3 True @ replicate 5 False)" "prefix (code_of 119) (replicate 4 True @ replicate 4 False)"
  "prefix (code_of 38) (replicate 5 True @ replicate 3 False)" "prefix (code_of 88) (replicate 6 True @ replicate 2 False)"
  "prefix (replicate 7 True @ [False]) (code_of 33)"
  by code_simp+

lemma ones_lookup:
  assumes "0 < j" and "j < 8"
  shows "\<exists>s. comparable (code_of s) (replicate j True @ replicate (8 - j) False)"
proof -
  have "j = 1 \<or> j = 2 \<or> j = 3 \<or> j = 4 \<or> j = 5 \<or> j = 6 \<or> j = 7" using assms by linarith
  then show ?thesis
    using ones_codes by (elim disjE) (simp_all, (blast | force)+)
qed

lemma tail_byte:
  fixes cur :: u64
  assumes "cbits \<le> 8"
  shows "byte_bits (ucast (push_bit (8 - cbits) cur)) = low_bits cbits cur @ replicate (8 - cbits) False"
proof -
  have "low_bits 8 (push_bit (8 - cbits) cur OR 0) = low_bits cbits cur @ low_bits (8 - cbits) (0 :: u64)"
    using assms low_bits_push [of cbits "8 - cbits" 0 cur] by simp
  moreover have "low_bits m (0 :: u64) = replicate m False" for m by (induction m) simp_all
  ultimately show ?thesis by (simp add: low_bits_ucast)
qed

lemma stuck_result:
  assumes "dec_inv n p cbits sbits" and "cbits < 8" and "\<And>s. \<not> prefix (code_of s) (p @ low_bits cbits cur)"
  shows "reference_decode maxLen buf (p @ low_bits cbits cur) =
    (if sbits > 7 \<or> (\<exists>b \<in> set (low_bits cbits cur). \<not> b) then Inl ErrInvalidHuffman else Inr buf)"
proof -
  have "sbits = length p + cbits" and "8 dvd length p" using assms(1) dec_inv_length by (auto simp: dec_inv_def)
  then have "length (p @ low_bits cbits cur) = sbits" and "sbits \<le> 7 \<Longrightarrow> p = []" by (auto dest: dvd_imp_le)
  moreover have "\<forall>s. \<not> prefix (code_of s) (p @ low_bits cbits cur)" using assms(3) by blast
  ultimately show ?thesis by (subst reference_stuck) auto
qed

lemma tail_loop_correct:
  assumes root: "rep 4 root (tails [])"
  shows "dec_inv n p cbits sbits \<Longrightarrow> cbits < 8 \<Longrightarrow>
     \<exists>res. tail_loop root maxLen cur n cbits sbits buf = Some res
       \<and> (case res of
            Inl e \<Rightarrow> reference_decode maxLen buf (p @ low_bits cbits cur) = Inl e
          | Inr (cbits', sbits', buf') \<Rightarrow>
              cbits' < 8 \<and> reference_decode maxLen buf (p @ low_bits cbits cur) =
                (if sbits' > 7 \<or> (\<exists>b \<in> set (low_bits cbits' cur). \<not> b) then Inl ErrInvalidHuffman else Inr buf'))"
proof (induction cbits arbitrary: n p sbits buf rule: less_induct)
  case (less cbits)
  obtain ch where n: "n = Internal ch" using dec_inv_internal [OF less.prems(1)] by blast
  note inv = less.prems(1) [unfolded n]
  let ?q = "low_bits cbits cur" and ?b = "ucast (push_bit (8 - cbits) cur) :: byte"
  have b: "byte_bits ?b = ?q @ replicate (8 - cbits) False" using less.prems(2) by (intro tail_byte) simp
  then have pre: "prefix ?q (byte_bits ?b)" by simp
  note stuck = stuck_result [OF less.prems, of cur maxLen buf]
  consider (finished) "cbits = 0" | (nil) "cbits > 0" "ch ?b = None"
    | (internal) ch' where "cbits > 0" "ch ?b = Some (Internal ch')"
    | (long) l s where "cbits > 0" "ch ?b = Some (LeafNode l s)" "l > cbits"
    | (leaf) l s where "cbits > 0" "ch ?b = Some (LeafNode l s)" "l \<le> cbits"
    by (metis gr0I hnode.exhaust not_le_imp_less option.exhaust)
  then show ?case
  proof cases
    case finished
    have "\<not> prefix (code_of s) (p @ ?q)" for s
      using code_continues [of p s "[]"] less.prems(1) finished by (auto simp: dec_inv_def tails_def)
    from stuck [OF this] finished show ?thesis by (subst tail_loop.simps) simp
  next
    case nil
    have no: "\<not> prefix (code_of s) (p @ ?q)" for s
      using lookup_nil [OF inv nil(2), of s "[]"] pre by (metis append_Nil2 prefix_order.trans same_prefix_prefix)
    have "sbits > 7 \<or> (\<exists>b \<in> set ?q. \<not> b)"
    proof (rule ccontr)
      assume "\<not> (sbits > 7 \<or> (\<exists>b \<in> set ?q. \<not> b))"
      then have "sbits \<le> 7" and "?q = replicate cbits True" by (auto intro!: nth_equalityI)
      moreover have "p = []" using calculation(1) dec_inv_length [OF inv] inv by (auto simp: dec_inv_def dest: dvd_imp_le)
      moreover obtain s where "comparable (code_of s) (byte_bits ?b)"
        using ones_lookup [OF nil(1) less.prems(2)] b calculation(2) by auto
      moreover obtain k where "rep k (Internal ch) (tails p)" using inv by (auto simp: dec_inv_def)
      ultimately show False using nil(2)
        by (cases k) (auto simp: tails_def dest!: spec [of _ ?b])
    qed
    with stuck [OF no] nil show ?thesis by (subst tail_loop.simps) (simp add: n)
  next
    case internal
    from stuck [OF lookup_internal_stuck [OF inv internal(2) pre]] internal less.prems(2)
    show ?thesis by (subst tail_loop.simps) (simp add: n)
  next
    case long
    have "length ?q < l" using long by simp
    from stuck [OF lookup_leaf_stuck [OF inv long(2) pre this]] long less.prems(2)
    show ?thesis by (subst tail_loop.simps) (simp add: n)
  next
    case leaf
    from lookup_leaf [OF inv leaf(2)] have l: "code_of s = p @ take l (byte_bits ?b)" "0 < l" by simp_all
    have "take l (byte_bits ?b) = take l ?q" unfolding b using leaf(3) by simp
    moreover have "?q = take l ?q @ low_bits (cbits - l) cur"
      using leaf(3) drop_low_bits [of l cbits cur] append_take_drop_id [of l ?q] by simp
    ultimately have r: "p @ ?q = code_of s @ low_bits (cbits - l) cur" by (simp add: l(1))
    show ?thesis
    proof (cases "maxLen \<noteq> 0 \<and> length buf = maxLen")
      case True
      with leaf show ?thesis by (subst tail_loop.simps) (simp add: n r reference_code)
    next
      case False
      have "tail_loop root maxLen cur n cbits sbits buf = tail_loop root maxLen cur root (cbits - l) (cbits - l) (buf @ [s])"
        using leaf False by (subst tail_loop.simps) (auto simp: n Let_def)
      moreover have "reference_decode maxLen buf (p @ ?q) = reference_decode maxLen (buf @ [s]) ([] @ low_bits (cbits - l) cur)"
        using False by (auto simp: r reference_code)
      moreover have "cbits - l < cbits" "cbits - l < 8" using l leaf less.prems(2) by simp_all
      ultimately show ?thesis
        using less.IH [OF _ dec_inv_root [OF root], of "cbits - l" "buf @ [s]"] by (simp only:)
    qed
  qed
qed

lemma mask_check:
  fixes cur :: u64
  assumes "cbits < 64"
  shows "cur AND (push_bit cbits 1 - 1) \<noteq> push_bit cbits 1 - 1 \<longleftrightarrow> (\<exists>b \<in> set (low_bits cbits cur). \<not> b)"
proof -
  have m: "push_bit cbits 1 - 1 = (mask cbits :: u64)" by (simp add: mask_eq_exp_minus_1 push_bit_eq_mult)
  have "cur AND mask cbits = mask cbits \<longleftrightarrow> (\<forall>i < cbits. bit cur i)"
  proof
    assume "cur AND mask cbits = mask cbits"
    then have *: "bit (cur AND mask cbits) i = bit (mask cbits :: u64) i" for i by simp
    show "\<forall>i < cbits. bit cur i"
    proof (intro allI impI)
      fix i
      assume "i < cbits"
      then show "bit cur i" using * [of i] assms by (simp add: bit_and_iff bit_mask_iff possible_bit_def)
    qed
  next
    assume "\<forall>i < cbits. bit cur i"
    then show "cur AND mask cbits = mask cbits" by (intro bit_word_eqI) (auto simp: bit_and_iff bit_mask_iff)
  qed
  moreover have "(\<forall>i < cbits. bit cur i) \<longleftrightarrow> (\<forall>b \<in> set (low_bits cbits cur). b)"
    by (induction cbits) (auto simp: less_Suc_eq)
  ultimately show ?thesis unfolding m by blast
qed

lemma huffmanDecode_eq:
  "huffmanDecode maxLen v = Some (reference_decode maxLen [] (bits_of v))"
proof -
  obtain root where root: "buildRootHuffmanNode = Some root" "rep 4 root (tails [])" using build_root by blast
  obtain res where res: "input_loop root maxLen v 0 (root, 0, 0, []) = Some res"
    "case res of
       Inl e \<Rightarrow> reference_decode maxLen [] ([] @ low_bits 0 (0 :: u64) @ bits_of v) = Inl e
     | Inr (cur', n', cbits', sbits', buf') \<Rightarrow>
         \<exists>p'. dec_inv n' p' cbits' sbits' \<and> cbits' < 8
           \<and> reference_decode maxLen [] ([] @ low_bits 0 (0 :: u64) @ bits_of v) = reference_decode maxLen buf' (p' @ low_bits cbits' cur')"
    using input_loop_correct [OF root(2) dec_inv_root [OF root(2), of 0] zero_less_numeral, of maxLen v 0 "[]"] by blast
  show ?thesis
  proof (cases res)
    case (Inl e)
    with res(2) show ?thesis unfolding huffmanDecode_def root(1) option.case res(1) by simp
  next
    case (Inr st)
    obtain cur n cbits sbits buf where st: "st = (cur, n, cbits, sbits, buf)" by (metis prod_cases5)
    with res(2) Inr obtain p where p: "dec_inv n p cbits sbits" "cbits < 8"
      "reference_decode maxLen [] (bits_of v) = reference_decode maxLen buf (p @ low_bits cbits cur)" by auto
    obtain r where r: "tail_loop root maxLen cur n cbits sbits buf = Some r"
      "case r of
         Inl e \<Rightarrow> reference_decode maxLen buf (p @ low_bits cbits cur) = Inl e
       | Inr (cbits', sbits', buf') \<Rightarrow>
           cbits' < 8 \<and> reference_decode maxLen buf (p @ low_bits cbits cur) =
             (if sbits' > 7 \<or> (\<exists>b \<in> set (low_bits cbits' cur). \<not> b) then Inl ErrInvalidHuffman else Inr buf')"
      using tail_loop_correct [OF root(2) p(1,2), of maxLen cur buf] by blast
    show ?thesis
    proof (cases r)
      case inl: (Inl e)
      with r p(3) show ?thesis unfolding huffmanDecode_def root(1) option.case res(1) Inr st by simp
    next
      case inr: (Inr t)
      obtain cb sb bf where t: "t = (cb, sb, bf)" by (cases t)
      with inr r(2) have cb: "cb < 8" and d: "reference_decode maxLen [] (bits_of v) =
          (if sb > 7 \<or> (\<exists>b \<in> set (low_bits cb cur). \<not> b) then Inl ErrInvalidHuffman else Inr bf)"
        using p(3) by simp_all
      have "huffmanDecode maxLen v = Some (if sb > 7 then Inl ErrInvalidHuffman
          else if cur AND (push_bit cb 1 - 1) \<noteq> push_bit cb 1 - 1 then Inl ErrInvalidHuffman else Inr bf)"
        unfolding huffmanDecode_def root(1) option.case res(1) Inr st using r(1) inr t by (simp add: Let_def)
      also have "\<dots> = Some (reference_decode maxLen [] (bits_of v))"
        unfolding d using mask_check [of cb cur] cb by auto
      finally show ?thesis .
    qed
  qed
qed

text \<open>C33: the table-driven decoder, which consumes a byte at a time, computes exactly what the reference decoder
  computes bit by bit, for every input and every length limit: the same string, or the same
  error. In particular it always returns.\<close>

theorem huffmanDecode_reference:
  "huffmanDecode maxLen v = Some (reference_decode maxLen [] (bits_of v))"
  by (rule huffmanDecode_eq)

section \<open>Decoding inverts encoding\<close>

lemma reference_codes:
  "reference_decode maxLen out (concat (map code_of s) @ r) =
     (if maxLen \<noteq> 0 \<and> length out \<le> maxLen \<and> maxLen < length out + length s then Inl ErrStringLength
      else reference_decode maxLen (out @ s) r)"
proof (induction s arbitrary: out)
  case (Cons c s)
  then show ?case by (auto simp: reference_code)
qed auto

lemma reference_ones: "k < 8 \<Longrightarrow> reference_decode maxLen out (replicate k True) = Inr out"
  using code_not_ones by (subst reference_stuck) auto

lemma reference_Inr:
  "reference_decode maxLen out bits = Inr out' \<Longrightarrow>
     \<exists>s k. out' = out @ s \<and> bits = concat (map code_of s) @ replicate k True \<and> k < 8"
proof (induction maxLen out bits rule: reference_decode.induct)
  case (1 maxLen out bits)
  show ?case
  proof (cases "strip_code bits")
    case None
    then have "out' = out" "length bits < 8" "\<forall>b \<in> set bits. b"
      using "1.prems" by (subst (asm) reference_decode.simps, simp split: if_splits)+
    then show ?thesis
      by (intro exI [of _ "[]"] exI [of _ "length bits"]) (auto intro!: nth_equalityI)
  next
    case (Some a)
    obtain c r where a: "a = (c, r)" by (cases a)
    have "\<not> (maxLen \<noteq> 0 \<and> length out = maxLen)" and "reference_decode maxLen (out @ [c]) r = Inr out'"
      using "1.prems" Some a by (subst (asm) reference_decode.simps, simp split: if_splits)+
    from "1.IH" [OF Some a [symmetric] this] obtain s k where
      "out' = out @ c # s" "r = concat (map code_of s) @ replicate k True" "k < 8" by auto
    moreover have "bits = code_of c @ r" using Some a strip_code_Some by simp
    ultimately show ?thesis by (intro exI [of _ "c # s"]) auto
  qed
qed

lemma encode_length_loop:
  "unat n + length (concat (map code_of s)) < 2 ^ 64 \<Longrightarrow>
     unat (encode_length_loop n s) = unat n + length (concat (map code_of s))"
proof (induction s arbitrary: n)
  case (Cons c s)
  have l: "huffmanCodeLen ! unat c = length (code_of c)" by (simp add: code_of_def)
  have "unat (n + of_nat (length (code_of c))) = unat n + length (code_of c)"
    using Cons.prems code_of_length(2) [of c] by (simp add: unat_word_ariths unat_of_nat)
  then show ?case using Cons.IH [of "n + of_nat (length (code_of c))"] Cons.prems by (simp add: l)
qed simp

lemma codes_length: "length (concat (map code_of s)) \<le> 30 * length s"
  using code_of_length(2) by (induction s) (auto intro: add_mono)

lemma padded_bytes: "n + pad_len n = 8 * ((n + 7) div 8)"
proof -
  define q r where "q = n div 8" and "r = n mod 8"
  then have n: "n = 8 * q + r" "r < 8" by simp_all
  then have "pad_len n = (if r = 0 then 0 else 8 - r)" by (simp add: pad_len_def)
  moreover have "(n + 7) div 8 = (if r = 0 then q else q + 1)" using n by auto
  ultimately show ?thesis using n by auto
qed

lemma pad_len_unique:
  assumes "k < 8" and "(n + k) mod 8 = 0"
  shows "k = pad_len n"
proof -
  define r where "r = n mod 8"
  have "(r + k) mod 8 = 0" and "r < 8" using assms(2) by (simp_all add: r_def mod_add_left_eq)
  then have "r + k = 0 \<or> r + k = 8" using assms(1) by (cases "r + k < 8") (auto simp: mod_if [of "r + k"])
  then show ?thesis using assms(1) \<open>r < 8\<close> by (auto simp: pad_len_def simp flip: r_def)
qed

lemma length_AppendHuffmanString:
  "length (AppendHuffmanString [] s) = (length (concat (map code_of (string_to_bytes s))) + 7) div 8"
proof -
  have "8 * length (AppendHuffmanString [] s) = length (bits_of (AppendHuffmanString [] s))" by simp
  also have "\<dots> = 8 * ((length (concat (map code_of (string_to_bytes s))) + 7) div 8)"
    unfolding AppendHuffmanString_bits padded_bytes [symmetric] by simp
  finally show ?thesis by simp
qed

lemma HuffmanEncodeLength_eq:
  assumes "30 * length s < 2 ^ 63"
  shows "unat (HuffmanEncodeLength s) = length (AppendHuffmanString [] s)"
proof -
  let ?n = "length (concat (map code_of (string_to_bytes s)))"
  have n: "?n < 2 ^ 63" using codes_length [of "string_to_bytes s"] assms by simp
  then have "unat (encode_length_loop 0 (string_to_bytes s)) = ?n" by (subst encode_length_loop) simp_all
  then have "unat (encode_length_loop 0 (string_to_bytes s) + 7) = ?n + 7" using n by (simp add: unat_word_ariths)
  then show ?thesis by (simp add: HuffmanEncodeLength_def unat_div length_AppendHuffmanString)
qed

lemma AppendHuffmanString_dst: "AppendHuffmanString dst s = dst @ AppendHuffmanString [] s"
  by (rule bits_of_inj) (simp add: AppendHuffmanString_bits)

lemma huffmanDecode_AppendHuffmanString:
  "huffmanDecode maxLen (AppendHuffmanString [] s) =
     Some (if maxLen \<noteq> 0 \<and> maxLen < length s then Inl ErrStringLength else Inr (string_to_bytes s))"
proof -
  have "pad_len n < 8" for n by (simp add: pad_len_def)
  then show ?thesis
    unfolding huffmanDecode_eq AppendHuffmanString_bits
    by (simp add: reference_codes reference_ones)
qed

text \<open>Huffman coding is a bijection between strings and the inputs the decoder accepts: without a length
  limit the decoder returns a string exactly when its input is what the encoder writes for that
  string. With a limit it still inverts the encoder, unless the string is longer than the limit;
  and the encoder writes exactly \<open>HuffmanEncodeLength\<close> bytes, whose 64-bit computation does not
  wrap for strings of up to \<open>2 ^ 58\<close> characters.\<close>

theorem huffman_bijection:
  "(huffmanDecode 0 v = Some (Inr (string_to_bytes s)) \<longleftrightarrow> v = AppendHuffmanString [] s)
   \<and> huffmanDecode maxLen (AppendHuffmanString [] s) =
       Some (if maxLen \<noteq> 0 \<and> maxLen < length s then Inl ErrStringLength else Inr (string_to_bytes s))
   \<and> AppendHuffmanString dst s = dst @ AppendHuffmanString [] s
   \<and> (length s < 2 ^ 58 \<longrightarrow> unat (HuffmanEncodeLength s) = length (AppendHuffmanString [] s))"
proof (intro conjI impI iffI)
  assume "huffmanDecode 0 v = Some (Inr (string_to_bytes s))"
  then have "reference_decode 0 [] (bits_of v) = Inr (string_to_bytes s)" by (simp add: huffmanDecode_eq)
  then obtain k where v: "bits_of v = concat (map code_of (string_to_bytes s)) @ replicate k True" "k < 8"
    using reference_Inr by fastforce
  let ?n = "length (concat (map code_of (string_to_bytes s)))"
  have "8 * length v = ?n + k" using arg_cong [OF v(1), of length] by simp
  then have "(?n + k) mod 8 = 0" by (metis mod_mult_self1_is_0)
  then have "k = pad_len ?n" using v(2) by (intro pad_len_unique)
  then have "bits_of v = bits_of (AppendHuffmanString [] s)" unfolding v(1) AppendHuffmanString_bits by simp
  then show "v = AppendHuffmanString [] s" by (rule bits_of_inj)
next
  assume "v = AppendHuffmanString [] s"
  then show "huffmanDecode 0 v = Some (Inr (string_to_bytes s))"
    using huffmanDecode_AppendHuffmanString [of 0 s] by simp
next
  show "AppendHuffmanString dst s = dst @ AppendHuffmanString [] s" by (rule AppendHuffmanString_dst)
next
  assume "length s < 2 ^ 58"
  then show "unat (HuffmanEncodeLength s) = length (AppendHuffmanString [] s)"
    by (intro HuffmanEncodeLength_eq) simp
qed (rule huffmanDecode_AppendHuffmanString)

theorem huffman_bijection_witness:
  "unat (HuffmanEncodeLength ''www.example.com'') = length (AppendHuffmanString [] ''www.example.com'')
   \<and> huffmanDecode 0 (AppendHuffmanString [] ''www.example.com'') = Some (Inr (string_to_bytes ''www.example.com''))"
  using huffman_bijection [of "AppendHuffmanString [] ''www.example.com''" "''www.example.com''" 0 "[]"] by simp

end
