(* ===== verification/Hpack_Encoder.thy ===== *)
theory Hpack_Encoder
  imports Hpack_Table Huffman
begin

unbundle bit_operations_syntax

text \<open>
  The package \<open>http2/hpack\<close>, part four: the encoder of \<open>encode.go\<close>. The encoder's scratch buffer
  \<open>buf\<close> is local to \<open>WriteField\<close>; the writer is a parameter that maps the bytes of the single \<open>Write\<close>
  call to the count and error it returns. \<open>None\<close> is a panic of the dynamic table.
\<close>

section \<open>Representations\<close>

text \<open>\<open>dst[i] |= x\<close> for an index within the slice.\<close>

definition or_at :: "bytes \<Rightarrow> nat \<Rightarrow> byte \<Rightarrow> bytes" where
  "or_at dst i x = dst[i := dst ! i OR x]"

definition encodeTypeByte :: "bool \<Rightarrow> bool \<Rightarrow> byte" where
  "encodeTypeByte indexing sensitive = (if sensitive then 0x10 else if indexing then 0x40 else 0)"

definition appendHpackString :: "bytes \<Rightarrow> string \<Rightarrow> bytes" where
  "appendHpackString dst s =
     (let huffmanLength = HuffmanEncodeLength s in
      if huffmanLength < of_nat (length s)
      then
        let first = length dst;
            dst = appendVarInt dst 7 huffmanLength;
            dst = AppendHuffmanString dst s
        in or_at dst first 0x80
      else
        let dst = appendVarInt dst 7 (of_nat (length s)) in dst @ string_to_bytes s)"

definition appendIndexed :: "bytes \<Rightarrow> u64 \<Rightarrow> bytes" where
  "appendIndexed dst i = or_at (appendVarInt dst 7 i) (length dst) 0x80"

definition appendNewName :: "bytes \<Rightarrow> HeaderField \<Rightarrow> bool \<Rightarrow> bytes" where
  "appendNewName dst f indexing =
     (let dst = dst @ [encodeTypeByte indexing (hf_Sensitive f)];
          dst = appendHpackString dst (hf_Name f)
      in appendHpackString dst (hf_Value f))"

definition appendIndexedName :: "bytes \<Rightarrow> HeaderField \<Rightarrow> u64 \<Rightarrow> bool \<Rightarrow> bytes" where
  "appendIndexedName dst f i indexing =
     (let first = length dst;
          n = (if indexing then 6 else 4);
          dst = appendVarInt dst n i;
          dst = or_at dst first (encodeTypeByte indexing (hf_Sensitive f))
      in appendHpackString dst (hf_Value f))"

definition appendTableSize :: "bytes \<Rightarrow> u32 \<Rightarrow> bytes" where
  "appendTableSize dst v = or_at (appendVarInt dst 5 (ucast v)) (length dst) 0x20"

section \<open>The encoder\<close>

record Encoder =
  e_dynTab :: dynamicTable
  e_minSize :: u32
  e_maxSizeLimit :: u32
  e_tableSizeUpdate :: bool

abbreviation uint32Max :: u32 where
  "uint32Max \<equiv> NOT 0"

abbreviation initialHeaderTableSize :: u32 where
  "initialHeaderTableSize \<equiv> 4096"

text \<open>A zero \<open>dynamicTable\<close> after \<open>table.init\<close>.\<close>

definition new_dynTab :: dynamicTable where
  "new_dynTab = \<lparr>table = table_init, dt_size = 0, maxSize = 0, allowedMaxSize = 0\<rparr>"

definition NewEncoder :: "Encoder option" where
  "NewEncoder =
     map_option (\<lambda>dt. \<lparr>e_dynTab = dt, e_minSize = uint32Max, e_maxSizeLimit = initialHeaderTableSize,
                      e_tableSizeUpdate = False\<rparr>)
       (setMaxSize new_dynTab initialHeaderTableSize)"

definition shouldIndex :: "Encoder \<Rightarrow> HeaderField \<Rightarrow> bool" where
  "shouldIndex e f = (\<not> hf_Sensitive f \<and> HeaderField_Size f \<le> maxSize (e_dynTab e))"

definition SetMaxDynamicTableSize :: "Encoder \<Rightarrow> u32 \<Rightarrow> Encoder option" where
  "SetMaxDynamicTableSize e v =
     (let v = (if v > e_maxSizeLimit e then e_maxSizeLimit e else v);
          e = (if v < e_minSize e then e\<lparr>e_minSize := v\<rparr> else e);
          e = e\<lparr>e_tableSizeUpdate := True\<rparr>
      in map_option (\<lambda>dt. e\<lparr>e_dynTab := dt\<rparr>) (setMaxSize (e_dynTab e) v))"

definition MaxDynamicTableSize :: "Encoder \<Rightarrow> u32" where
  "MaxDynamicTableSize e = maxSize (e_dynTab e)"

definition SetMaxDynamicTableSizeLimit :: "Encoder \<Rightarrow> u32 \<Rightarrow> Encoder option" where
  "SetMaxDynamicTableSizeLimit e v =
     (let e = e\<lparr>e_maxSizeLimit := v\<rparr> in
      if maxSize (e_dynTab e) > v
      then let e = e\<lparr>e_tableSizeUpdate := True\<rparr>
           in map_option (\<lambda>dt. e\<lparr>e_dynTab := dt\<rparr>) (setMaxSize (e_dynTab e) v)
      else Some e)"

text \<open>\<open>WriteField\<close> up to the \<open>Write\<close> call: the pending size updates, then the field.\<close>

definition write_updates :: "Encoder \<Rightarrow> bytes \<times> Encoder" where
  "write_updates e =
     (if e_tableSizeUpdate e
      then
        let buf = (if e_minSize e < maxSize (e_dynTab e) then appendTableSize [] (e_minSize e) else [])
        in (appendTableSize buf (maxSize (e_dynTab e)), e\<lparr>e_tableSizeUpdate := False, e_minSize := uint32Max\<rparr>)
      else ([], e))"

definition write_field :: "bytes \<Rightarrow> Encoder \<Rightarrow> HeaderField \<Rightarrow> (bytes \<times> Encoder) option" where
  "write_field buf e f =
     (case searchTable (table (e_dynTab e)) f of
        None \<Rightarrow> None
      | Some (idx, nameValueMatch) \<Rightarrow>
          if nameValueMatch then Some (appendIndexed buf (of_nat idx), e)
          else
            let indexing = shouldIndex e f in
            (case (if indexing then map_option (\<lambda>dt. e\<lparr>e_dynTab := dt\<rparr>) (dyn_add (e_dynTab e) f) else Some e) of
               None \<Rightarrow> None
             | Some e \<Rightarrow>
                 Some (if idx = 0 then appendNewName buf f indexing
                       else appendIndexedName buf f (of_nat idx) indexing, e)))"

datatype 'e write_error = WriterError 'e | ErrShortWrite

definition WriteField :: "(bytes \<Rightarrow> nat \<times> 'e option) \<Rightarrow> Encoder \<Rightarrow> HeaderField
    \<Rightarrow> ('e write_error option \<times> bytes \<times> Encoder) option" where
  "WriteField w e f =
     (let (buf, e) = write_updates e in
      case write_field buf e f of
        None \<Rightarrow> None
      | Some (buf, e) \<Rightarrow>
          let (n, err) = w buf in
          Some (case err of
                  None \<Rightarrow> if n \<noteq> length buf then Some ErrShortWrite else None
                | Some x \<Rightarrow> Some (WriterError x), buf, e))"

text \<open>A header block: the fields written one after the other to a writer that accepts every write.\<close>

definition accepting :: "bytes \<Rightarrow> nat \<times> 'e option" where
  "accepting buf = (length buf, None)"

fun WriteFields :: "Encoder \<Rightarrow> HeaderField list \<Rightarrow> (bytes \<times> Encoder) option" where
  "WriteFields e [] = Some ([], e)"
| "WriteFields e (f # fs) =
     (case WriteField (accepting :: bytes \<Rightarrow> nat \<times> unit option) e f of
        None \<Rightarrow> None
      | Some (_, buf, e) \<Rightarrow> map_option (\<lambda>(bufs, e). (buf @ bufs, e)) (WriteFields e fs))"

section \<open>Appending to a buffer\<close>

lemma or_at_append: "or_at (dst @ b # bs) (length dst) x = dst @ (b OR x) # bs"
  by (simp add: or_at_def nth_append list_update_append)

lemma appendVarInt_Cons: "\<exists>b bs. appendVarInt [] n i = b # bs"
  by (auto simp: appendVarInt_def Let_def)

lemma appendHpackString_dst: "appendHpackString dst s = dst @ appendHpackString [] s"
proof -
  obtain b bs where b: "appendVarInt [] 7 (HuffmanEncodeLength s) = b # bs" using appendVarInt_Cons by blast
  have v: "appendVarInt dst 7 (HuffmanEncodeLength s) = dst @ b # bs" for dst
    by (simp add: appendVarInt_dst [of dst] b)
  have a: "or_at (AppendHuffmanString (dst @ b # bs) s) (length dst) 0x80 = dst @ (b OR 0x80) # bs @ AppendHuffmanString [] s" for dst
    using or_at_append [of dst b "bs @ AppendHuffmanString [] s" "0x80"] by (subst AppendHuffmanString_dst) simp
  show ?thesis
    unfolding appendHpackString_def Let_def v a using appendVarInt_dst [of dst 7 "of_nat (length s)"] a [of "[]"] by simp
qed

lemma append_dst:
  "appendIndexed dst i = dst @ appendIndexed [] i"
  "appendTableSize dst v = dst @ appendTableSize [] v"
  "appendNewName dst f indexing = dst @ appendNewName [] f indexing"
  "appendIndexedName dst f i indexing = dst @ appendIndexedName [] f i indexing"
proof -
  show "appendIndexed dst i = dst @ appendIndexed [] i"
    using appendVarInt_Cons [of 7 i] or_at_append [of "[]"]
    by (auto simp: appendIndexed_def appendVarInt_dst [of dst] or_at_append)
  show "appendTableSize dst v = dst @ appendTableSize [] v"
    using appendVarInt_Cons [of 5 "ucast v"] or_at_append [of "[]"]
    by (auto simp: appendTableSize_def appendVarInt_dst [of dst] or_at_append)
  show "appendNewName dst f indexing = dst @ appendNewName [] f indexing"
    unfolding appendNewName_def Let_def
    by (subst (1 2 3 4) appendHpackString_dst) simp
  obtain b bs where b: "appendVarInt [] (if indexing then 6 else 4) i = b # bs" using appendVarInt_Cons by blast
  show "appendIndexedName dst f i indexing = dst @ appendIndexedName [] f i indexing"
    unfolding appendIndexedName_def Let_def
    by (subst (1 2) appendHpackString_dst) (use or_at_append [of "[]"] in \<open>simp add: appendVarInt_dst [of dst] b or_at_append\<close>)
qed

end
