(* ===== verification/Hpack_Decoder.thy ===== *)
theory Hpack_Decoder
  imports Hpack_Table Huffman
begin

unbundle bit_operations_syntax

text \<open>
  The package \<open>http2/hpack\<close>, part five: the decoder of \<open>hpack.go\<close>. The emit callback is a closure over
  a state \<open>d_env\<close> that it updates; it may also call \<open>SetEmitEnabled\<close>, so it maps the state and the
  flag to new ones. The unparsed buffer \<open>buf\<close> is passed along and returned. A parse function returns
  its error, if any, with the decoder and buffer as it leaves them; \<open>None\<close> is a panic or
  non-termination, which the lemmas exclude. \<open>maxStrLen\<close> is not negative.
\<close>

section \<open>The decoder\<close>

record 's Decoder =
  d_dynTab :: dynamicTable
  d_emit :: "HeaderField \<Rightarrow> 's \<times> bool \<Rightarrow> 's \<times> bool"
  d_env :: 's
  d_emitEnabled :: bool
  d_maxStrLen :: nat
  d_saveBuf :: bytes
  d_firstField :: bool

definition NewDecoder :: "u32 \<Rightarrow> (HeaderField \<Rightarrow> 's \<times> bool \<Rightarrow> 's \<times> bool) \<Rightarrow> 's \<Rightarrow> 's Decoder option" where
  "NewDecoder maxDynamicTableSize emitFunc env =
     (let dt = \<lparr>table = table_init, dt_size = 0, maxSize = 0, allowedMaxSize = maxDynamicTableSize\<rparr> in
      map_option (\<lambda>dt. \<lparr>d_dynTab = dt, d_emit = emitFunc, d_env = env, d_emitEnabled = True, d_maxStrLen = 0,
                       d_saveBuf = [], d_firstField = True\<rparr>)
        (setMaxSize dt maxDynamicTableSize))"

definition SetMaxStringLength :: "'s Decoder \<Rightarrow> nat \<Rightarrow> 's Decoder" where
  "SetMaxStringLength d n = d\<lparr>d_maxStrLen := n\<rparr>"

text \<open>\<open>SetEmitFunc\<close>; the new closure comes with its own state.\<close>

definition SetEmitFunc :: "'s Decoder \<Rightarrow> (HeaderField \<Rightarrow> 't \<times> bool \<Rightarrow> 't \<times> bool) \<Rightarrow> 't \<Rightarrow> 't Decoder" where
  "SetEmitFunc d emitFunc env =
     \<lparr>d_dynTab = d_dynTab d, d_emit = emitFunc, d_env = env, d_emitEnabled = d_emitEnabled d,
      d_maxStrLen = d_maxStrLen d, d_saveBuf = d_saveBuf d, d_firstField = d_firstField d\<rparr>"

definition SetEmitEnabled :: "'s Decoder \<Rightarrow> bool \<Rightarrow> 's Decoder" where
  "SetEmitEnabled d v = d\<lparr>d_emitEnabled := v\<rparr>"

definition EmitEnabled :: "'s Decoder \<Rightarrow> bool" where
  "EmitEnabled d = d_emitEnabled d"

definition dec_SetMaxDynamicTableSize :: "'s Decoder \<Rightarrow> u32 \<Rightarrow> 's Decoder option" where
  "dec_SetMaxDynamicTableSize d v = map_option (\<lambda>dt. d\<lparr>d_dynTab := dt\<rparr>) (setMaxSize (d_dynTab d) v)"

definition SetAllowedMaxDynamicTableSize :: "'s Decoder \<Rightarrow> u32 \<Rightarrow> 's Decoder" where
  "SetAllowedMaxDynamicTableSize d v = d\<lparr>d_dynTab := (d_dynTab d)\<lparr>allowedMaxSize := v\<rparr>\<rparr>"

section \<open>Strings\<close>

record undecodedString =
  isHuff :: bool
  us_b :: bytes

definition readString :: "nat \<Rightarrow> bytes \<Rightarrow> hpack_error + (undecodedString \<times> bytes)" where
  "readString maxStrLen p =
     (if length p = 0 then Inl ErrNeedMore
      else
        let huff = (p ! 0 AND 128 \<noteq> 0) in
        bind_res (readVarInt 7 p) (\<lambda>(strLen, p).
          if maxStrLen \<noteq> 0 \<and> strLen > of_nat maxStrLen then Inl ErrStringLength
          else if of_nat (length p) < strLen then Inl ErrNeedMore
          else Inr (\<lparr>isHuff = huff, us_b = take (unat strLen) p\<rparr>, drop (unat strLen) p)))"

definition decodeString :: "nat \<Rightarrow> undecodedString \<Rightarrow> (hpack_error + string) option" where
  "decodeString maxStrLen u =
     (if \<not> isHuff u then Some (Inr (bytes_to_string (us_b u)))
      else map_option (map_res bytes_to_string) (huffmanDecode maxStrLen (us_b u)))"

section \<open>Header field representations\<close>

datatype indexType = indexedTrue | indexedFalse | indexedNever

definition indexed :: "indexType \<Rightarrow> bool" where
  "indexed v = (v = indexedTrue)"

definition sensitive :: "indexType \<Rightarrow> bool" where
  "sensitive v = (v = indexedNever)"

type_synonym 's parse_result = "(hpack_error option \<times> 's Decoder \<times> bytes) option"

definition callEmit :: "'s Decoder \<Rightarrow> HeaderField \<Rightarrow> hpack_error option \<times> 's Decoder" where
  "callEmit d fl =
     (if d_maxStrLen d \<noteq> 0 \<and> (length (hf_Name fl) > d_maxStrLen d \<or> length (hf_Value fl) > d_maxStrLen d)
      then (Some ErrStringLength, d)
      else if d_emitEnabled d
      then let (env, en) = d_emit d fl (d_env d, d_emitEnabled d) in (None, d\<lparr>d_env := env, d_emitEnabled := en\<rparr>)
      else (None, d))"

definition parseFieldIndexed :: "'s Decoder \<Rightarrow> bytes \<Rightarrow> 's parse_result" where
  "parseFieldIndexed d buf0 =
     (case readVarInt 7 buf0 of
        Inl e \<Rightarrow> Some (Some e, d, buf0)
      | Inr (idx, buf) \<Rightarrow>
          (case at_index (table (d_dynTab d)) (unat idx) of
             None \<Rightarrow> Some (Some (InvalidIndexError idx), d, buf0)
           | Some fl \<Rightarrow>
               let (err, d) = callEmit d \<lparr>hf_Name = hf_Name fl, hf_Value = hf_Value fl, hf_Sensitive = False\<rparr>
               in Some (err, d, buf)))"

text \<open>The name of a literal field: from the table, or a string to be decoded later.\<close>

definition literal_name :: "'s Decoder \<Rightarrow> u64 \<Rightarrow> bytes \<Rightarrow> hpack_error + ((string + undecodedString) \<times> bytes)" where
  "literal_name d nameIdx buf =
     (if nameIdx > 0
      then case at_index (table (d_dynTab d)) (unat nameIdx) of
          None \<Rightarrow> Inl (InvalidIndexError nameIdx)
        | Some ihf \<Rightarrow> Inr (Inl (hf_Name ihf), buf)
      else map_res (\<lambda>(u, buf). (Inr u, buf)) (readString (d_maxStrLen d) buf))"

text \<open>The strings of a literal field; without \<open>wantStr\<close> only a name from the table is filled in.\<close>

definition literal_strings :: "nat \<Rightarrow> bool \<Rightarrow> string + undecodedString \<Rightarrow> undecodedString
    \<Rightarrow> (hpack_error + (string \<times> string)) option" where
  "literal_strings maxStrLen wantStr name undecodedValue =
     (if wantStr
      then
        (case (case name of Inl n \<Rightarrow> Some (Inr n) | Inr u \<Rightarrow> decodeString maxStrLen u) of
           None \<Rightarrow> None
         | Some (Inl e) \<Rightarrow> Some (Inl e)
         | Some (Inr n) \<Rightarrow> map_option (map_res (\<lambda>v. (n, v))) (decodeString maxStrLen undecodedValue))
      else Some (Inr (case name of Inl n \<Rightarrow> n | Inr _ \<Rightarrow> [], [])))"

definition parseFieldLiteral :: "'s Decoder \<Rightarrow> nat \<Rightarrow> indexType \<Rightarrow> bytes \<Rightarrow> 's parse_result" where
  "parseFieldLiteral d n it buf0 =
     (case bind_res (readVarInt n buf0) (\<lambda>(nameIdx, buf).
             bind_res (literal_name d nameIdx buf) (\<lambda>(name, buf).
             map_res (\<lambda>(u, buf). (name, u, buf)) (readString (d_maxStrLen d) buf))) of
        Inl e \<Rightarrow> Some (Some e, d, buf0)
      | Inr (name, undecodedValue, buf) \<Rightarrow>
          (case literal_strings (d_maxStrLen d) (d_emitEnabled d \<or> indexed it) name undecodedValue of
             None \<Rightarrow> None
           | Some (Inl e) \<Rightarrow> Some (Some e, d, buf0)
           | Some (Inr (nm, v)) \<Rightarrow>
               let fl = \<lparr>hf_Name = nm, hf_Value = v, hf_Sensitive = False\<rparr> in
               (case (if indexed it then map_option (\<lambda>dt. d\<lparr>d_dynTab := dt\<rparr>) (dyn_add (d_dynTab d) fl) else Some d) of
                  None \<Rightarrow> None
                | Some d \<Rightarrow>
                    let (err, d) = callEmit d (fl\<lparr>hf_Sensitive := sensitive it\<rparr>) in Some (err, d, buf))))"

definition parseDynamicTableSizeUpdate :: "'s Decoder \<Rightarrow> bytes \<Rightarrow> 's parse_result" where
  "parseDynamicTableSizeUpdate d buf0 =
     (if \<not> d_firstField d \<and> dt_size (d_dynTab d) > 0 then Some (Some SizeUpdateNotFirst, d, buf0)
      else case readVarInt 5 buf0 of
          Inl e \<Rightarrow> Some (Some e, d, buf0)
        | Inr (sz, buf) \<Rightarrow>
            if sz > ucast (allowedMaxSize (d_dynTab d)) then Some (Some SizeUpdateTooLarge, d, buf0)
            else (case setMaxSize (d_dynTab d) (ucast sz) of
                None \<Rightarrow> None
              | Some dt \<Rightarrow> Some (None, d\<lparr>d_dynTab := dt\<rparr>, buf)))"

definition parseHeaderFieldRepr :: "'s Decoder \<Rightarrow> bytes \<Rightarrow> 's parse_result" where
  "parseHeaderFieldRepr d buf =
     (case buf of
        [] \<Rightarrow> None
      | b # _ \<Rightarrow>
          if b AND 128 \<noteq> 0 then parseFieldIndexed d buf
          else if b AND 192 = 64 then parseFieldLiteral d 6 indexedTrue buf
          else if b AND 240 = 0 then parseFieldLiteral d 4 indexedFalse buf
          else if b AND 240 = 16 then parseFieldLiteral d 4 indexedNever buf
          else if b AND 224 = 32 then parseDynamicTableSizeUpdate d buf
          else Some (Some InvalidEncoding, d, buf))"

section \<open>Writing header blocks to the decoder\<close>

partial_function (option) parse_loop :: "nat \<Rightarrow> 's Decoder \<Rightarrow> bytes \<Rightarrow> (nat \<times> hpack_error option \<times> 's Decoder) option" where
  "parse_loop n d buf =
     (if length buf > 0
      then case parseHeaderFieldRepr d buf of
          None \<Rightarrow> None
        | Some (err, d, buf) \<Rightarrow>
            if err = Some ErrNeedMore
            then if d_maxStrLen d \<noteq> 0 \<and> length buf > 2 * (d_maxStrLen d + 8) then Some (0, Some ErrStringLength, d)
                 else Some (n, None, d\<lparr>d_saveBuf := d_saveBuf d @ buf\<rparr>)
            else
              let d = d\<lparr>d_firstField := False\<rparr> in
              if err \<noteq> None then Some (n, err, d) else parse_loop n d buf
      else Some (n, None, d))"

declare parse_loop.simps [code]

definition dec_Write :: "'s Decoder \<Rightarrow> bytes \<Rightarrow> (nat \<times> hpack_error option \<times> 's Decoder) option" where
  "dec_Write d p =
     (if length p = 0 then Some (0, None, d)
      else if length (d_saveBuf d) = 0 then parse_loop (length p) d p
      else parse_loop (length p) (d\<lparr>d_saveBuf := []\<rparr>) (d_saveBuf d @ p))"

definition dec_Close :: "'s Decoder \<Rightarrow> hpack_error option \<times> 's Decoder" where
  "dec_Close d =
     (if length (d_saveBuf d) > 0 then (Some TruncatedHeaders, d\<lparr>d_saveBuf := []\<rparr>)
      else (None, d\<lparr>d_firstField := True\<rparr>))"

definition collect :: "HeaderField \<Rightarrow> HeaderField list \<times> bool \<Rightarrow> HeaderField list \<times> bool" where
  "collect f = (\<lambda>(hfs, en). (hfs @ [f], en))"

definition DecodeFull :: "'s Decoder \<Rightarrow> bytes \<Rightarrow> ((hpack_error + HeaderField list) \<times> 's Decoder) option" where
  "DecodeFull d p =
     (case dec_Write (SetEmitFunc d collect []) p of
        None \<Rightarrow> None
      | Some (_, Some err, d') \<Rightarrow> Some (Inl err, SetEmitFunc d' (d_emit d) (d_env d))
      | Some (_, None, d') \<Rightarrow>
          (case dec_Close d' of
             (Some err, d') \<Rightarrow> Some (Inl err, SetEmitFunc d' (d_emit d) (d_env d))
           | (None, d') \<Rightarrow> Some (Inr (d_env d'), SetEmitFunc d' (d_emit d) (d_env d))))"

section \<open>Parsing looks at a prefix of the buffer\<close>

text \<open>An answer other than "need more data" does not change when more data follows.\<close>

abbreviation with_rest :: "bytes \<Rightarrow> 'e + ('a \<times> bytes) \<Rightarrow> 'e + ('a \<times> bytes)" where
  "with_rest q \<equiv> map_res (\<lambda>(v, r). (v, r @ q))"

lemma readVarInt_loop_more:
  "readVarInt_loop i m p \<noteq> Inl ErrNeedMore \<Longrightarrow> readVarInt_loop i m (p @ q) = with_rest q (readVarInt_loop i m p)"
  by (induction i m p rule: readVarInt_loop.induct) (auto simp: Let_def)

lemma readVarInt_more:
  "readVarInt n p \<noteq> Inl ErrNeedMore \<Longrightarrow> readVarInt n (p @ q) = with_rest q (readVarInt n p)"
  by (cases p) (auto simp: readVarInt_def Let_def readVarInt_loop_more split: if_splits)

lemma readVarInt_loop_rest: "readVarInt_loop i m p = Inr (v, r) \<Longrightarrow> length r < length p"
  by (induction i m p rule: readVarInt_loop.induct) (fastforce simp: Let_def split: if_splits)+

lemma readVarInt_rest: "readVarInt n p = Inr (v, r) \<Longrightarrow> length r < length p"
  by (auto simp: readVarInt_def Let_def dest: readVarInt_loop_rest split: list.splits if_splits)

lemma unat_ucast_u64: "unat (ucast (w :: u32) :: u64) = unat w"
proof -
  have "unat w < 2 ^ 32" using unsigned_less [of w, where 'a = nat] by simp
  then show ?thesis by (simp add: unsigned_ucast_eq take_bit_nat_eq_self)
qed

lemma of_nat_less_word: "n < 2 ^ 63 \<Longrightarrow> (of_nat n < (w :: u64)) = (n < unat w)"
  by (simp add: word_less_nat_alt unat_of_nat)

lemma readString_more:
  assumes "readString m p \<noteq> Inl ErrNeedMore" and "length (p @ q) < 2 ^ 63"
  shows "readString m (p @ q) = with_rest q (readString m p)"
proof -
  obtain b p' where p: "p = b # p'" using assms(1) by (cases p) (auto simp: readString_def)
  have v: "readVarInt 7 p \<noteq> Inl ErrNeedMore" using assms(1) by (auto simp: readString_def p)
  show ?thesis
  proof (cases "readVarInt 7 p")
    case (Inl e)
    with readVarInt_more [OF v, of q] show ?thesis by (simp add: readString_def p)
  next
    case (Inr x)
    then obtain n r where x: "readVarInt 7 p = Inr (n, r)" by (cases x) auto
    with readVarInt_more [OF v, of q] have "readVarInt 7 (p @ q) = Inr (n, r @ q)" by simp
    moreover have "length (r @ q) < 2 ^ 63" "length r < 2 ^ 63" using readVarInt_rest [OF x] assms(2) by simp_all
    moreover have "m \<noteq> 0 \<and> n > of_nat m \<or> unat n \<le> length r"
      using assms(1) x p calculation(3) by (auto simp: readString_def Let_def of_nat_less_word split: if_splits)
    ultimately show ?thesis
      using x p by (auto simp: readString_def Let_def of_nat_less_word simp del: of_nat_add)
  qed
qed

lemma readString_rest: "readString m p = Inr (u, r) \<Longrightarrow> length r < length p \<and> length (us_b u) \<le> length p"
  by (auto simp: readString_def Let_def dest!: readVarInt_rest split: if_splits prod.splits)

text \<open>The first stage of \<open>parseFieldLiteral\<close>: reading the index and the encoded strings.\<close>

definition read_literal :: "'s Decoder \<Rightarrow> nat \<Rightarrow> bytes \<Rightarrow> hpack_error + ((string + undecodedString) \<times> undecodedString \<times> bytes)" where
  "read_literal d n buf0 =
     bind_res (readVarInt n buf0) (\<lambda>(nameIdx, buf).
       bind_res (literal_name d nameIdx buf) (\<lambda>(name, buf).
       map_res (\<lambda>(u, buf). (name, u, buf)) (readString (d_maxStrLen d) buf)))"

lemma literal_name_more:
  "literal_name d i p \<noteq> Inl ErrNeedMore \<Longrightarrow> length (p @ q) < 2 ^ 63 \<Longrightarrow>
     literal_name d i (p @ q) = with_rest q (literal_name d i p)"
  by (cases "readString (d_maxStrLen d) p")
    (auto simp: literal_name_def readString_more split: option.splits)

lemma literal_name_rest: "literal_name d i p = Inr (x, r) \<Longrightarrow> length r \<le> length p"
  by (auto simp: literal_name_def dest: readString_rest split: option.splits if_splits)

lemma read_literal_more:
  assumes "read_literal d n p \<noteq> Inl ErrNeedMore" and "length (p @ q) < 2 ^ 63"
  shows "read_literal d n (p @ q) = map_res (\<lambda>(name, u, r). (name, u, r @ q)) (read_literal d n p)"
proof -
  have v: "readVarInt n (p @ q) = with_rest q (readVarInt n p)"
    using assms(1) by (intro readVarInt_more) (auto simp: read_literal_def)
  show ?thesis
  proof (cases "readVarInt n p")
    case (Inl e)
    with v show ?thesis by (simp add: read_literal_def)
  next
    case (Inr x)
    then obtain i r where i: "readVarInt n p = Inr (i, r)" by (cases x) auto
    then have "length (r @ q) < 2 ^ 63" using readVarInt_rest [OF i] assms(2) by simp
    then have l: "literal_name d i (r @ q) = with_rest q (literal_name d i r)"
      using assms(1) i by (intro literal_name_more) (auto simp: read_literal_def)
    show ?thesis
    proof (cases "literal_name d i r")
      case (Inl e)
      with v i l show ?thesis by (simp add: read_literal_def)
    next
      case (Inr y)
      then obtain name s where s: "literal_name d i r = Inr (name, s)" by (cases y) auto
      then have "length (s @ q) < 2 ^ 63" using literal_name_rest [OF s] \<open>length (r @ q) < 2 ^ 63\<close> by simp
      moreover have "readString (d_maxStrLen d) s \<noteq> Inl ErrNeedMore" using assms(1) i s by (auto simp: read_literal_def)
      ultimately have "readString (d_maxStrLen d) (s @ q) = with_rest q (readString (d_maxStrLen d) s)"
        by (intro readString_more)
      with v i l s show ?thesis by (cases "readString (d_maxStrLen d) s") (auto simp: read_literal_def)
    qed
  qed
qed

lemma read_literal_rest:
  "read_literal d n p = Inr (name, u, r) \<Longrightarrow> length r < length p"
  by (auto simp: read_literal_def dest!: readVarInt_rest literal_name_rest readString_rest)

text \<open>The second stage: decoding, indexing and emitting the field.\<close>

definition finish_literal :: "'s Decoder \<Rightarrow> indexType \<Rightarrow> string + undecodedString \<Rightarrow> undecodedString
    \<Rightarrow> (hpack_error + (hpack_error option \<times> 's Decoder)) option" where
  "finish_literal d it name u =
     (case literal_strings (d_maxStrLen d) (d_emitEnabled d \<or> indexed it) name u of
        None \<Rightarrow> None
      | Some (Inl e) \<Rightarrow> Some (Inl e)
      | Some (Inr (nm, v)) \<Rightarrow>
          let fl = \<lparr>hf_Name = nm, hf_Value = v, hf_Sensitive = False\<rparr> in
          (case (if indexed it then map_option (\<lambda>dt. d\<lparr>d_dynTab := dt\<rparr>) (dyn_add (d_dynTab d) fl) else Some d) of
             None \<Rightarrow> None
           | Some d \<Rightarrow> Some (Inr (callEmit d (fl\<lparr>hf_Sensitive := sensitive it\<rparr>)))))"

lemma parseFieldLiteral_stages:
  "parseFieldLiteral d n it buf0 =
     (case read_literal d n buf0 of
        Inl e \<Rightarrow> Some (Some e, d, buf0)
      | Inr (name, u, buf) \<Rightarrow>
          (case finish_literal d it name u of
             None \<Rightarrow> None
           | Some (Inl e) \<Rightarrow> Some (Some e, d, buf0)
           | Some (Inr (err, d)) \<Rightarrow> Some (err, d, buf)))"
  unfolding parseFieldLiteral_def read_literal_def [symmetric] finish_literal_def
  by (auto simp: Let_def split: sum.split option.split prod.split)

lemma parseFieldIndexed_more:
  assumes "parseFieldIndexed d p = Some (err, d', r)" and "err \<noteq> Some ErrNeedMore"
  shows "parseFieldIndexed d (p @ q) = Some (err, d', r @ q)"
proof -
  have "readVarInt 7 (p @ q) = with_rest q (readVarInt 7 p)"
    using assms by (intro readVarInt_more) (auto simp: parseFieldIndexed_def)
  with assms(1) show ?thesis
    by (auto simp: parseFieldIndexed_def split: sum.splits option.splits prod.splits)
qed

lemma parseFieldLiteral_more:
  assumes "parseFieldLiteral d n it p = Some (err, d', r)" and "err \<noteq> Some ErrNeedMore" and "length (p @ q) < 2 ^ 63"
  shows "parseFieldLiteral d n it (p @ q) = Some (err, d', r @ q)"
proof -
  have "read_literal d n p \<noteq> Inl ErrNeedMore" using assms(1,2) by (auto simp: parseFieldLiteral_stages)
  from read_literal_more [OF this assms(3)] assms(1) show ?thesis
    by (auto simp: parseFieldLiteral_stages split: sum.splits option.splits)
qed

lemma parseDynamicTableSizeUpdate_more:
  assumes "parseDynamicTableSizeUpdate d p = Some (err, d', r)" and "err \<noteq> Some ErrNeedMore"
  shows "parseDynamicTableSizeUpdate d (p @ q) = Some (err, d', r @ q)"
proof (cases "\<not> d_firstField d \<and> dt_size (d_dynTab d) > 0")
  case True
  with assms(1) show ?thesis by (auto simp: parseDynamicTableSizeUpdate_def)
next
  case False
  then have "readVarInt 5 (p @ q) = with_rest q (readVarInt 5 p)"
    using assms by (intro readVarInt_more) (auto simp: parseDynamicTableSizeUpdate_def)
  with False assms(1) show ?thesis
    by (auto simp: parseDynamicTableSizeUpdate_def split: sum.splits option.splits if_splits)
qed

lemma parse_more:
  assumes "parseHeaderFieldRepr d p = Some (err, d', r)" and "err \<noteq> Some ErrNeedMore" and "length (p @ q) < 2 ^ 63"
  shows "parseHeaderFieldRepr d (p @ q) = Some (err, d', r @ q)"
proof -
  obtain b p' where p: "p = b # p'" using assms(1) by (cases p) (auto simp: parseHeaderFieldRepr_def)
  show ?thesis
    using assms parseFieldIndexed_more [of d p err d' r q] parseFieldLiteral_more [of d _ _ p err d' r q]
      parseDynamicTableSizeUpdate_more [of d p err d' r q]
    unfolding parseHeaderFieldRepr_def p by (auto split: if_splits)
qed

section \<open>What parsing a field keeps\<close>

lemma callEmit_frame:
  "callEmit d f = (err, d') \<Longrightarrow> d_dynTab d' = d_dynTab d \<and> d_emit d' = d_emit d \<and> d_maxStrLen d' = d_maxStrLen d
     \<and> d_saveBuf d' = d_saveBuf d \<and> d_firstField d' = d_firstField d \<and> err \<noteq> Some ErrNeedMore"
  by (auto simp: callEmit_def split: if_splits prod.splits)

lemma finish_literal_frame:
  "finish_literal d it name u = Some (Inr (err, d')) \<Longrightarrow> d_emit d' = d_emit d \<and> d_maxStrLen d' = d_maxStrLen d
     \<and> d_saveBuf d' = d_saveBuf d \<and> d_firstField d' = d_firstField d \<and> err \<noteq> Some ErrNeedMore"
  by (auto simp: finish_literal_def Let_def dest!: callEmit_frame split: option.splits sum.splits if_splits)

lemma parse_frame:
  assumes "parseHeaderFieldRepr d p = Some (err, d', r)"
  shows "d_emit d' = d_emit d \<and> d_maxStrLen d' = d_maxStrLen d \<and> d_saveBuf d' = d_saveBuf d
    \<and> d_firstField d' = d_firstField d \<and> (err = Some ErrNeedMore \<longrightarrow> d' = d \<and> r = p) \<and> (err = None \<longrightarrow> length r < length p)"
proof -
  have "parseFieldIndexed d p = Some (err, d', r) \<Longrightarrow> ?thesis"
    by (auto simp: parseFieldIndexed_def dest: callEmit_frame readVarInt_rest split: sum.splits option.splits prod.splits)
  moreover have "parseFieldLiteral d n it p = Some (err, d', r) \<Longrightarrow> ?thesis" for n it
    by (auto simp: parseFieldLiteral_stages dest: finish_literal_frame read_literal_rest split: sum.splits option.splits)
  moreover have "parseDynamicTableSizeUpdate d p = Some (err, d', r) \<Longrightarrow> ?thesis"
    by (auto simp: parseDynamicTableSizeUpdate_def dest: readVarInt_rest split: sum.splits option.splits if_splits)
  ultimately show ?thesis
    using assms by (auto simp: parseHeaderFieldRepr_def split: list.splits if_splits)
qed

text \<open>What the emit function keeps of its state, the decoder keeps.\<close>

definition emit_keeps :: "('s \<times> bool \<Rightarrow> bool) \<Rightarrow> (HeaderField \<Rightarrow> 's \<times> bool \<Rightarrow> 's \<times> bool) \<Rightarrow> bool" where
  "emit_keeps P emit \<longleftrightarrow> (\<forall>f env. P (env, True) \<longrightarrow> P (emit f (env, True)))"

lemma callEmit_env:
  assumes "callEmit d f = (err, d')" and "P (d_env d, d_emitEnabled d)"
    and "emit_keeps P (d_emit d)"
  shows "P (d_env d', d_emitEnabled d')"
  using assms by (auto simp: callEmit_def emit_keeps_def split: if_splits prod.splits) (metis (full_types))+

lemma finish_literal_env:
  assumes "finish_literal d it name u = Some (Inr (err, d'))" and "P (d_env d, d_emitEnabled d)"
    and "emit_keeps P (d_emit d)"
  shows "P (d_env d', d_emitEnabled d')"
proof -
  obtain f d1 where "callEmit d1 f = (err, d')" "d_env d1 = d_env d" "d_emitEnabled d1 = d_emitEnabled d" "d_emit d1 = d_emit d"
    using assms(1) by (auto simp: finish_literal_def Let_def split: option.splits sum.splits if_splits prod.splits)
  with callEmit_env [of d1 f err d' P] assms(2,3) show ?thesis by simp
qed

lemma parse_env:
  assumes "parseHeaderFieldRepr d p = Some (err, d', r)" and "P (d_env d, d_emitEnabled d)"
    and "emit_keeps P (d_emit d)"
  shows "P (d_env d', d_emitEnabled d')"
proof -
  have "parseFieldIndexed d p = Some (err, d', r) \<Longrightarrow> ?thesis"
    using assms(2,3) by (auto simp: parseFieldIndexed_def dest: callEmit_env [where P = P] split: sum.splits option.splits prod.splits)
  moreover have "parseFieldLiteral d n it p = Some (err, d', r) \<Longrightarrow> ?thesis" for n it
    using assms(2,3) by (auto simp: parseFieldLiteral_stages dest: finish_literal_env [where P = P] split: sum.splits option.splits)
  moreover have "parseDynamicTableSizeUpdate d p = Some (err, d', r) \<Longrightarrow> ?thesis"
    using assms(2) by (auto simp: parseDynamicTableSizeUpdate_def split: sum.splits option.splits if_splits)
  ultimately show ?thesis
    using assms(1,2) by (auto simp: parseHeaderFieldRepr_def split: list.splits if_splits)
qed

lemma parse_loop_env:
  assumes "parse_loop n d p = Some (k, err, d')" and "P (d_env d, d_emitEnabled d)"
    and "emit_keeps P (d_emit d)"
  shows "P (d_env d', d_emitEnabled d') \<and> d_emit d' = d_emit d \<and> d_maxStrLen d' = d_maxStrLen d
    \<and> (d_saveBuf d = [] \<and> d_maxStrLen d \<noteq> 0 \<longrightarrow> length (d_saveBuf d') \<le> 2 * (d_maxStrLen d + 8))"
  using assms
proof (induction "length p" arbitrary: d p rule: less_induct)
  case less
  show ?case
  proof (cases "p = []")
    case True
    with less.prems show ?thesis by (subst (asm) parse_loop.simps) simp
  next
    case ne: False
    then obtain e d1 r where parse: "parseHeaderFieldRepr d p = Some (e, d1, r)"
      using less.prems(1) by (subst (asm) parse_loop.simps) (auto split: option.splits)
    note fr = parse_frame [OF parse]
    have P1: "P (d_env d1, d_emitEnabled d1)" by (rule parse_env [where P = P, OF parse less.prems(2,3)])
    let ?d = "d1\<lparr>d_firstField := False\<rparr>"
    show ?thesis
    proof (cases "e = None")
      case True
      with ne parse less.prems(1) have l: "parse_loop n ?d r = Some (k, err, d')"
        by (subst (asm) parse_loop.simps) (simp add: Let_def)
      from True fr have r: "length r < length p" by simp
      have P2: "P (d_env ?d, d_emitEnabled ?d)" using P1 by simp
      have P3: "emit_keeps P (d_emit ?d)" using less.prems(3) fr by simp
      from less.hyps [OF r l P2 P3] fr show ?thesis by simp
    next
      case False
      with ne parse less.prems(1) P1 fr show ?thesis
        by (subst (asm) parse_loop.simps) (auto simp: Let_def split: if_splits)
    qed
  qed
qed

lemma dec_Write_env:
  assumes "dec_Write d p = Some (k, err, d')" and "P (d_env d, d_emitEnabled d)"
    and "emit_keeps P (d_emit d)"
  shows "P (d_env d', d_emitEnabled d') \<and> d_emit d' = d_emit d \<and> d_maxStrLen d' = d_maxStrLen d
    \<and> (d_maxStrLen d \<noteq> 0 \<and> length (d_saveBuf d) \<le> 2 * (d_maxStrLen d + 8) \<longrightarrow>
         length (d_saveBuf d') \<le> 2 * (d_maxStrLen d + 8))"
proof (cases "p = []")
  case True
  with assms(1,2) show ?thesis by (simp add: dec_Write_def)
next
  case False
  let ?d = "if d_saveBuf d = [] then d else d\<lparr>d_saveBuf := []\<rparr>"
  have "parse_loop (length p) ?d (d_saveBuf d @ p) = Some (k, err, d')"
    using assms(1) False by (auto simp: dec_Write_def split: if_splits)
  moreover have "P (d_env ?d, d_emitEnabled ?d)" "d_emit ?d = d_emit d" "d_maxStrLen ?d = d_maxStrLen d" "d_saveBuf ?d = []"
    using assms(2) by simp_all
  ultimately show ?thesis using parse_loop_env [of "length p" ?d "d_saveBuf d @ p" k err d' P] assms(3) by auto
qed

section \<open>Splitting the input does not matter\<close>

lemma saveBuf_same: "d_saveBuf d = [] \<Longrightarrow> d\<lparr>d_saveBuf := []\<rparr> = (d :: 's Decoder)"
  by (cases d) simp

lemma parse_loop_count: "map_option snd (parse_loop n d p) = map_option snd (parse_loop m d p)"
proof (induction "length p" arbitrary: d p rule: less_induct)
  case less
  show ?case
  proof (cases "p = []")
    case True
    then show ?thesis by (subst (1 2) parse_loop.simps) simp
  next
    case False
    show ?thesis
    proof (cases "parseHeaderFieldRepr d p")
      case None
      with False show ?thesis by (subst (1 2) parse_loop.simps) simp
    next
      case (Some x)
      obtain e d1 r where x: "x = (e, d1, r)" by (cases x)
      with parse_frame [of d p e d1 r] Some have "e = None \<Longrightarrow> length r < length p" by simp
      from less.hyps [OF this] False Some x show ?thesis
        by (subst (1 2) parse_loop.simps) (auto simp: Let_def)
    qed
  qed
qed

text \<open>What a second \<open>Write\<close> parses: the bytes kept by the first, then the new ones.\<close>

lemma parse_loop_split:
  "parse_loop m d p = Some (k, err, d') \<Longrightarrow> d_saveBuf d = [] \<Longrightarrow> d_maxStrLen d = 0 \<Longrightarrow> length (p @ q) < 2 ^ 63 \<Longrightarrow>
     d_maxStrLen d' = 0 \<and>
     (case err of
        Some e \<Rightarrow> parse_loop n d (p @ q) = Some (n, Some e, d') \<and> d_saveBuf d' = []
      | None \<Rightarrow> parse_loop n d (p @ q) = parse_loop n (d'\<lparr>d_saveBuf := []\<rparr>) (d_saveBuf d' @ q)
          \<and> length (d_saveBuf d') \<le> length p)"
proof (induction "length p" arbitrary: d p rule: less_induct)
  case less
  show ?case
  proof (cases "p = []")
    case True
    then have "k = m" "err = None" "d' = d" using less.prems(1) by (subst (asm) parse_loop.simps, simp)+
    with True less.prems(2,3) show ?thesis by (simp add: saveBuf_same)
  next
    case ne: False
    then obtain e d1 r where parse: "parseHeaderFieldRepr d p = Some (e, d1, r)"
      using less.prems(1) by (subst (asm) parse_loop.simps) (auto split: option.splits)
    note fr = parse_frame [OF parse]
    show ?thesis
    proof (cases "e = Some ErrNeedMore")
      case True
      then have "d1 = d" "r = p" using fr by simp_all
      with True less.prems(1-3) ne parse have "err = None" "d' = d\<lparr>d_saveBuf := p\<rparr>"
        by (subst (asm) parse_loop.simps, simp)+
      then show ?thesis using less.prems(2,3) by (simp add: saveBuf_same)
    next
      case False
      from parse_more [OF parse False less.prems(4)] have more: "parseHeaderFieldRepr d (p @ q) = Some (e, d1, r @ q)" .
      let ?d = "d1\<lparr>d_firstField := False\<rparr>"
      show ?thesis
      proof (cases e)
        case (Some x)
        with False ne parse less.prems(1) have "err = Some x" "d' = ?d"
          by (subst (asm) parse_loop.simps, simp add: Let_def)+
        moreover have "parse_loop n d (p @ q) = Some (n, Some x, ?d)"
          using ne more False Some by (subst parse_loop.simps) (simp add: Let_def)
        ultimately show ?thesis using fr less.prems(2,3) by simp
      next
        case None
        have "parse_loop m ?d r = Some (k, err, d')"
          using ne parse None less.prems(1) by (subst (asm) parse_loop.simps) (simp add: Let_def)
        moreover have "parse_loop n d (p @ q) = parse_loop n ?d (r @ q)"
          using ne more None by (subst parse_loop.simps) (simp add: Let_def)
        moreover have "length r < length p" "d_saveBuf ?d = []" "d_maxStrLen ?d = 0"
          using None fr less.prems(2,3) by simp_all
        ultimately show ?thesis
          using less.hyps [of r ?d] less.prems(4) by (auto split: option.splits)
      qed
    qed
  qed
qed

text \<open>Header blocks may arrive in pieces: writing \<open>p\<close> and then \<open>q\<close> to a decoder without a string limit
  gives the error, the table, the emitted fields and the kept bytes that writing \<open>p @ q\<close> at once
  gives; an error in \<open>p\<close> is reported whatever follows.\<close>

theorem decoder_chunks:
  assumes "dec_Write d p = Some (k, err, d')" and "d_maxStrLen d = 0"
    and "length (d_saveBuf d) + length p + length q < 2 ^ 63"
  shows "(case err of
      Some e \<Rightarrow> map_option snd (dec_Write d (p @ q)) = Some (Some e, d')
    | None \<Rightarrow> map_option snd (dec_Write d (p @ q)) = map_option snd (dec_Write d' q))"
proof (cases "p = [] \<or> q = []")
  case True
  with assms(1) show ?thesis by (auto simp: dec_Write_def split: option.splits)
next
  case False
  define d0 where "d0 = d\<lparr>d_saveBuf := []\<rparr>"
  have d0: "d_saveBuf d0 = []" "d_maxStrLen d0 = 0" "d_saveBuf d = [] \<Longrightarrow> d0 = d" using assms(2) by (simp_all add: d0_def)
  let ?s = "d_saveBuf d @ p"
  have one: "dec_Write d x = parse_loop (length x) d0 (d_saveBuf d @ x)" if "x \<noteq> []" for x
    using that by (simp add: dec_Write_def d0_def saveBuf_same)
  have "parse_loop (length p) d0 ?s = Some (k, err, d')" using assms(1) one [of p] False by simp
  from parse_loop_split [OF this d0(1,2), of q "length (p @ q)"] assms(3)
  have r: "case err of
        Some e \<Rightarrow> parse_loop (length (p @ q)) d0 (?s @ q) = Some (length (p @ q), Some e, d') \<and> d_saveBuf d' = []
      | None \<Rightarrow> parse_loop (length (p @ q)) d0 (?s @ q) = parse_loop (length (p @ q)) (d'\<lparr>d_saveBuf := []\<rparr>) (d_saveBuf d' @ q)
          \<and> length (d_saveBuf d') \<le> length ?s"
    by simp
  moreover have "dec_Write d' q = parse_loop (length q) (d'\<lparr>d_saveBuf := []\<rparr>) (d_saveBuf d' @ q)"
    using False by (simp add: dec_Write_def saveBuf_same)
  ultimately show ?thesis
    using one [of "p @ q"] False parse_loop_count [of "length (p @ q)" "d'\<lparr>d_saveBuf := []\<rparr>" "d_saveBuf d' @ q" "length q"]
    by (cases err) simp_all
qed

text \<open>A new decoder with the initial table size of HTTP/2.\<close>

definition decoder0 :: "HeaderField list Decoder" where
  "decoder0 = \<lparr>d_dynTab = \<lparr>table = table_init, dt_size = 0, maxSize = 4096, allowedMaxSize = 4096\<rparr>,
     d_emit = collect, d_env = [], d_emitEnabled = True, d_maxStrLen = 0, d_saveBuf = [], d_firstField = True\<rparr>"

lemma NewDecoder_decoder0: "NewDecoder 4096 collect [] = Some decoder0"
  by (simp add: NewDecoder_def decoder0_def setMaxSize_def evict_def evictOldest_def table_init_def table_len_def)

lemma decoder0_split:
  "map_option (\<lambda>(k, err, d). (k, err, d_env d, d_saveBuf d)) (dec_Write decoder0 [0x82, 0x40])
     = Some (2, None, [hf '':method'' ''GET''], [0x40])"
  by code_simp

theorem decoder_chunks_witness:
  "\<exists>k d'. dec_Write decoder0 [0x82, 0x40] = Some (k, None, d')
     \<and> d_env d' = [hf '':method'' ''GET''] \<and> d_saveBuf d' = [0x40]
     \<and> map_option snd (dec_Write decoder0 ([0x82, 0x40] @ [0x01, 0x61, 0x01, 0x62]))
       = map_option snd (dec_Write d' [0x01, 0x61, 0x01, 0x62])"
proof -
  obtain k d' where d': "dec_Write decoder0 [0x82, 0x40] = Some (k, None, d')"
    "d_env d' = [hf '':method'' ''GET'']" "d_saveBuf d' = [0x40]" using decoder0_split by auto
  have "d_maxStrLen decoder0 = 0" "length (d_saveBuf decoder0) + length [0x82, 0x40 :: byte] + length [0x01, 0x61, 0x01, 0x62 :: byte] < 2 ^ 63"
    by (simp_all add: decoder0_def)
  from decoder_chunks [OF d'(1) this] d' show ?thesis by simp
qed

section \<open>The decoder always returns\<close>

text \<open>The table stays well-formed and small enough that neither its 32-bit size nor its eviction
  counter can wrap while \<open>k\<close> more bytes are parsed.\<close>

definition dec_safe :: "'s Decoder \<Rightarrow> nat \<Rightarrow> bool" where
  "dec_safe d k \<longleftrightarrow>
     wf_dyn (d_dynTab d) \<and> maxSize (d_dynTab d) \<le> 2 ^ 30 \<and> allowedMaxSize (d_dynTab d) \<le> 2 ^ 30
     \<and> evictCount (table (d_dynTab d)) + length (ents (table (d_dynTab d))) + k < 2 ^ 64"

lemma decodeString_total: "\<exists>r. decodeString m u = Some r \<and> (\<forall>s. r = Inr s \<longrightarrow> length s \<le> 2 * length (us_b u))"
proof (cases "isHuff u")
  case True
  let ?r = "reference_decode m [] (bits_of (us_b u))"
  have "length s \<le> 2 * length (us_b u)" if s: "?r = Inr s" for s
  proof -
    obtain k where "bits_of (us_b u) = concat (map code_of s) @ replicate k True"
      using reference_Inr [OF s] by auto
    then have "length (bits_of (us_b u)) = length (concat (map code_of s) @ replicate k True)" by simp
    then have "8 * length (us_b u) = length (concat (map code_of s)) + k" by simp
    moreover have "5 * length s \<le> length (concat (map code_of s))"
      using code_of_length(1) by (induction s) (auto intro: add_mono)
    ultimately show ?thesis by linarith
  qed
  then show ?thesis using True by (auto simp: decodeString_def huffmanDecode_eq)
next
  case False
  then show ?thesis by (simp add: decodeString_def)
qed

lemma static_name_length: "list_all (\<lambda>f. length (hf_Name f) \<le> 100) static_ents"
  by code_simp

lemma entry_le_total: "f \<in> set es \<Longrightarrow> entry_size f \<le> total_size es"
  by (induction es) auto

lemma wf_dyn_total: "wf_dyn dt \<Longrightarrow> maxSize dt \<le> 2 ^ 30 \<Longrightarrow> total_size (ents (table dt)) \<le> 2 ^ 30"
  using order_trans [of "dt_size dt" "maxSize dt" "2 ^ 30"] by (simp add: wf_dyn_def word_le_nat_alt)

lemma at_index_name:
  assumes "dec_safe d k" and "at_index (table (d_dynTab d)) i = Some f"
  shows "length (hf_Name f) \<le> 2 ^ 30"
proof (cases "i \<le> table_len staticTable")
  case True
  then have "f \<in> set static_ents"
    using assms(2) by (auto simp: at_index_def staticTable_def table_len_def split: if_splits)
  then show ?thesis using static_name_length by (auto simp: list_all_iff)
next
  case False
  then have "f \<in> set (ents (table (d_dynTab d)))"
    using assms(2) by (auto simp: at_index_def maxTableIndex_def table_len_def split: if_splits)
  then have "entry_size f \<le> 2 ^ 30"
    using entry_le_total assms(1) wf_dyn_total [of "d_dynTab d"] by (fastforce simp: dec_safe_def)
  then show ?thesis by (simp add: entry_size_def)
qed

lemma read_literal_bounds:
  assumes "dec_safe d k" and "read_literal d n p = Inr (name, u, r)"
  shows "length (us_b u) \<le> length p
    \<and> (case name of Inl s \<Rightarrow> length s \<le> 2 ^ 30 | Inr v \<Rightarrow> length (us_b v) \<le> length p)"
proof -
  obtain i b1 b2 where i: "readVarInt n p = Inr (i, b1)" "literal_name d i b1 = Inr (name, b2)"
    "readString (d_maxStrLen d) b2 = Inr (u, r)" using assms(2) by (auto simp: read_literal_def)
  have "length b1 \<le> length p" "length b2 \<le> length b1" "length (us_b u) \<le> length b2"
    using readVarInt_rest [OF i(1)] literal_name_rest [OF i(2)] readString_rest [OF i(3)] by simp_all
  moreover have "case name of Inl s \<Rightarrow> length s \<le> 2 ^ 30 | Inr v \<Rightarrow> length (us_b v) \<le> length b1"
    using i(2) at_index_name [OF assms(1)]
    by (auto simp: literal_name_def dest: readString_rest split: if_splits option.splits)
  ultimately show ?thesis by (auto split: sum.splits)
qed

lemma literal_strings_total:
  assumes "length (us_b u) < 2 ^ 28" and "case name of Inl s \<Rightarrow> length s \<le> 2 ^ 30 | Inr v \<Rightarrow> length (us_b v) < 2 ^ 28"
  shows "\<exists>r. literal_strings m want name u = Some r
    \<and> (\<forall>nm v. r = Inr (nm, v) \<longrightarrow> length nm \<le> 2 ^ 30 \<and> length v \<le> 2 ^ 29)"
proof -
  obtain rv where rv: "decodeString m u = Some rv" "\<forall>s. rv = Inr s \<longrightarrow> length s \<le> 2 * length (us_b u)"
    using decodeString_total by blast
  have "\<exists>rn. (case name of Inl n \<Rightarrow> Some (Inr n) | Inr x \<Rightarrow> decodeString m x) = Some rn
      \<and> (\<forall>s. rn = Inr s \<longrightarrow> length s \<le> 2 ^ 30)"
  proof (cases name)
    case (Inl s)
    with assms(2) show ?thesis by simp
  next
    case (Inr v)
    obtain rn where "decodeString m v = Some rn" "\<forall>s. rn = Inr s \<longrightarrow> length s \<le> 2 * length (us_b v)"
      using decodeString_total by blast
    with Inr assms(2) show ?thesis by fastforce
  qed
  then obtain rn where rn: "(case name of Inl n \<Rightarrow> Some (Inr n) | Inr x \<Rightarrow> decodeString m x) = Some rn"
    "\<forall>s. rn = Inr s \<longrightarrow> length s \<le> 2 ^ 30" by blast
  show ?thesis
    using rn rv assms by (cases rn; cases rv) (auto simp: literal_strings_def split: sum.splits)
qed

lemma dec_safe_add:
  assumes "dec_safe d k" and "length nm \<le> 2 ^ 30" and "length v \<le> 2 ^ 29" and "0 < k"
  shows "\<exists>dt. dyn_add (d_dynTab d) \<lparr>hf_Name = nm, hf_Value = v, hf_Sensitive = False\<rparr> = Some dt
    \<and> dec_safe (d\<lparr>d_dynTab := dt\<rparr>) (k - 1)"
proof -
  let ?f = "\<lparr>hf_Name = nm, hf_Value = v, hf_Sensitive = False\<rparr>"
  have "total_size (ents (table (d_dynTab d))) \<le> 2 ^ 30"
    using assms(1) by (intro wf_dyn_total) (simp_all add: dec_safe_def)
  then have "total_size (ents (table (d_dynTab d))) + entry_size ?f < 2 ^ 32"
    using assms(2,3) by (simp add: entry_size_def)
  moreover have "wf_dyn (d_dynTab d)" "evictCount (table (d_dynTab d)) + length (ents (table (d_dynTab d))) + 1 < 2 ^ 64"
    using assms(1,4) by (simp_all add: dec_safe_def)
  ultimately obtain dt where "dyn_add (d_dynTab d) ?f = Some dt" "wf_dyn dt" "maxSize dt = maxSize (d_dynTab d)"
    "allowedMaxSize dt = allowedMaxSize (d_dynTab d)"
    "evictCount (table dt) + length (ents (table dt)) = evictCount (table (d_dynTab d)) + length (ents (table (d_dynTab d))) + 1"
    using dyn_add_spec by metis
  then show ?thesis using assms(1,4) by (auto simp: dec_safe_def)
qed

lemma dec_safe_dynTab: "d_dynTab d' = d_dynTab d \<Longrightarrow> dec_safe d k \<Longrightarrow> j \<le> k \<Longrightarrow> dec_safe d' j"
  by (simp add: dec_safe_def)

lemma parse_safe:
  assumes "dec_safe d k" and "p \<noteq> []" and "length p < 2 ^ 28" and k: "0 < k"
  shows "\<exists>err d' r. parseHeaderFieldRepr d p = Some (err, d', r) \<and> dec_safe d' (k - 1)"
proof -
  have small: "dec_safe d (k - 1)" using assms(1) by (rule dec_safe_dynTab [OF refl]) simp
  have "\<exists>err d' r. parseFieldIndexed d p = Some (err, d', r) \<and> dec_safe d' (k - 1)"
    using small by (auto simp: parseFieldIndexed_def dec_safe_def dest: callEmit_frame split: sum.splits option.splits prod.splits)
  moreover have "\<exists>err d' r. parseFieldLiteral d n it p = Some (err, d', r) \<and> dec_safe d' (k - 1)" for n it
  proof (cases "read_literal d n p")
    case (Inl e)
    with small show ?thesis by (simp add: parseFieldLiteral_stages)
  next
    case (Inr x)
    obtain name u r where x: "read_literal d n p = Inr (name, u, r)" using Inr by (cases x) auto
    from read_literal_bounds [OF assms(1) x] assms(3)
    have "length (us_b u) < 2 ^ 28" "case name of Inl s \<Rightarrow> length s \<le> 2 ^ 30 | Inr v \<Rightarrow> length (us_b v) < 2 ^ 28"
      by (auto split: sum.splits)
    from literal_strings_total [OF this, of "d_maxStrLen d" "d_emitEnabled d \<or> indexed it"]
    obtain s where s: "literal_strings (d_maxStrLen d) (d_emitEnabled d \<or> indexed it) name u = Some s"
      "\<forall>nm v. s = Inr (nm, v) \<longrightarrow> length nm \<le> 2 ^ 30 \<and> length v \<le> 2 ^ 29" by blast
    show ?thesis
    proof (cases s)
      case (Inl e)
      with s x small show ?thesis by (simp add: parseFieldLiteral_stages finish_literal_def)
    next
      case (Inr y)
      obtain nm v where y: "y = (nm, v)" by (cases y)
      from dec_safe_add [OF assms(1) _ _ k, of nm v] s(2) Inr y
      obtain dt where dt: "dyn_add (d_dynTab d) \<lparr>hf_Name = nm, hf_Value = v, hf_Sensitive = False\<rparr> = Some dt"
        "dec_safe (d\<lparr>d_dynTab := dt\<rparr>) (k - 1)" by auto
      obtain err d' where c: "callEmit (if indexed it then d\<lparr>d_dynTab := dt\<rparr> else d)
          \<lparr>hf_Name = nm, hf_Value = v, hf_Sensitive = sensitive it\<rparr> = (err, d')" by force
      have "dec_safe d' (k - 1)"
        using callEmit_frame [OF c] dt(2) small by (auto simp: dec_safe_def split: if_splits)
      then show ?thesis
        using s Inr y x dt(1) c by (auto simp: parseFieldLiteral_stages finish_literal_def Let_def)
    qed
  qed
  moreover have "\<exists>err d' r. parseDynamicTableSizeUpdate d p = Some (err, d', r) \<and> dec_safe d' (k - 1)"
  proof -
    have "\<exists>dt. setMaxSize (d_dynTab d) (ucast sz) = Some dt \<and> dec_safe (d\<lparr>d_dynTab := dt\<rparr>) (k - 1)"
      if "\<not> sz > ucast (allowedMaxSize (d_dynTab d))" for sz :: u64
    proof -
      have "unat sz \<le> unat (allowedMaxSize (d_dynTab d))" using that by (simp add: word_le_nat_alt not_less unat_ucast_u64)
      moreover have "unat (allowedMaxSize (d_dynTab d)) \<le> 2 ^ 30" using assms(1) by (simp add: dec_safe_def word_le_nat_alt)
      ultimately have "ucast sz \<le> (2 ^ 30 :: u32)" by (simp add: word_le_nat_alt unsigned_ucast_eq unsigned_take_bit_eq take_bit_nat_eq_self)
      moreover have "wf_dyn (d_dynTab d)" "evictCount (table (d_dynTab d)) + length (ents (table (d_dynTab d))) < 2 ^ 64"
        using assms(1) by (simp_all add: dec_safe_def)
      then obtain dt where "setMaxSize (d_dynTab d) (ucast sz) = Some dt" "wf_dyn dt" "maxSize dt = ucast sz"
        "allowedMaxSize dt = allowedMaxSize (d_dynTab d)"
        "evictCount (table dt) + length (ents (table dt)) = evictCount (table (d_dynTab d)) + length (ents (table (d_dynTab d)))"
        by (rule setMaxSize_spec)
      ultimately show ?thesis using small by (simp add: dec_safe_def)
    qed
    then show ?thesis
      using small by (fastforce simp: parseDynamicTableSizeUpdate_def split: sum.split)
  qed
  ultimately show ?thesis
    using assms(2) small by (auto simp: parseHeaderFieldRepr_def split: list.split)
qed

lemma parse_loop_safe:
  "dec_safe d (length p + m) \<Longrightarrow> length p < 2 ^ 28 \<Longrightarrow> \<exists>k err d'. parse_loop n d p = Some (k, err, d') \<and> dec_safe d' m"
proof (induction "length p" arbitrary: d p rule: less_induct)
  case less
  show ?case
  proof (cases "p = []")
    case True
    with less.prems show ?thesis by (subst parse_loop.simps) simp
  next
    case False
    obtain err d' r where parse: "parseHeaderFieldRepr d p = Some (err, d', r)" "dec_safe d' (length p + m - 1)"
      using parse_safe [OF less.prems(1) False less.prems(2)] False by auto
    note fr = parse_frame [OF parse(1)]
    have d': "dec_safe (d'\<lparr>d_firstField := False\<rparr>) j" "dec_safe (d'\<lparr>d_saveBuf := x\<rparr>) j" "dec_safe d' j"
      if "j \<le> length p + m - 1" for j x
      using parse(2) that by (auto simp: dec_safe_def)
    show ?thesis
    proof (cases "err = None")
      case True
      then have r: "length r < length p" using fr by simp
      then obtain k e d'' where "parse_loop n (d'\<lparr>d_firstField := False\<rparr>) r = Some (k, e, d'')" "dec_safe d'' m"
        using less.hyps [OF r d'(1)] less.prems(2) by fastforce
      with False parse(1) True show ?thesis by (subst parse_loop.simps) (simp add: Let_def)
    next
      case err: False
      show ?thesis
        using False parse(1) err d' [of m] length_greater_0_conv [of p]
        by (subst parse_loop.simps) (auto simp: Let_def Suc_le_eq simp del: length_greater_0_conv)
    qed
  qed
qed

lemma dec_Write_safe:
  assumes "dec_safe d (length (d_saveBuf d @ p) + m)" and "length (d_saveBuf d @ p) < 2 ^ 28"
  shows "\<exists>k err d'. dec_Write d p = Some (k, err, d') \<and> dec_safe d' m"
proof (cases "p = []")
  case True
  with assms show ?thesis by (auto simp: dec_Write_def dec_safe_def)
next
  case False
  have "dec_safe (d\<lparr>d_saveBuf := []\<rparr>) (length (d_saveBuf d @ p) + m)" using assms(1) by (simp add: dec_safe_def)
  from parse_loop_safe [OF this assms(2), of "length p"] False show ?thesis
    by (cases "d_saveBuf d = []") (simp_all add: dec_Write_def saveBuf_same)
qed

text \<open>C34: the decoder returns on every input: with a well-formed table of at most \<open>2 ^ 30\<close> bytes, no header
  block below \<open>2 ^ 28\<close> bytes makes \<open>Write\<close> loop or panic, and the table it leaves is again
  well-formed and within the same limits, with a budget of \<open>m\<close> bytes left for the next calls.\<close>

theorem decoder_returns:
  assumes "dec_safe d (length (d_saveBuf d @ p) + m)" and "length (d_saveBuf d @ p) < 2 ^ 28"
  shows "\<exists>k err d'. dec_Write d p = Some (k, err, d') \<and> dec_safe d' m"
  by (rule dec_Write_safe [OF assms])

lemma dec_safe_decoder0: "k < 2 ^ 64 \<Longrightarrow> dec_safe decoder0 k"
  by (simp add: dec_safe_def decoder0_def wf_dyn_def wf_table_init) (simp add: table_init_def)

theorem decoder_returns_witness:
  "\<exists>k err d'. dec_Write decoder0 [0xff, 0x80, 0x80] = Some (k, err, d') \<and> dec_safe d' 0"
  using decoder_returns [of decoder0 "[0xff, 0x80, 0x80]" 0] dec_safe_decoder0 by (simp add: decoder0_def)

end
