(* ===== verification/Hpack_Sync.thy ===== *)
theory Hpack_Sync
  imports Hpack_Encoder Hpack_Decoder "HOL-Library.Code_Target_Nat"
begin

unbundle bit_operations_syntax

text \<open>
  The encoder and the decoder of \<open>http2/hpack\<close> together: a header block written by an encoder is
  decoded to the fields that were written, by every decoder whose dynamic table is in step with
  the encoder's, and the two are in step again afterwards. Being in step does not mean having
  equal tables: the encoder may have evicted entries that the decoder still has, because a change
  of the table size takes effect in the encoder at once.
\<close>

section \<open>Type bits of the first byte\<close>

lemma byte_eqI:
  fixes v w :: byte
  assumes "bit v 0 = bit w 0" "bit v 1 = bit w 1" "bit v 2 = bit w 2" "bit v 3 = bit w 3"
    "bit v 4 = bit w 4" "bit v 5 = bit w 5" "bit v 6 = bit w 6" "bit v 7 = bit w 7"
  shows "v = w"
proof (rule bit_word_eqI)
  fix n :: nat
  assume "n < LENGTH(8)"
  then have "n = 0 \<or> n = 1 \<or> n = 2 \<or> n = 3 \<or> n = 4 \<or> n = 5 \<or> n = 6 \<or> n = 7" by simp linarith
  with assms show "bit v n = bit w n" by (elim disjE) simp_all
qed

lemma type_bits:
  fixes b :: byte
  assumes "\<And>j. bit b j \<Longrightarrow> j < n"
  shows "n = 7 \<Longrightarrow> (b OR 0x80) AND 128 \<noteq> 0 \<and> b AND 128 = 0"
    and "n = 6 \<Longrightarrow> (b OR 0x40) AND 128 = 0 \<and> (b OR 0x40) AND 192 = 64"
    and "n = 4 \<Longrightarrow> (b OR 0x10) AND 128 = 0 \<and> (b OR 0x10) AND 192 = 0 \<and> (b OR 0x10) AND 240 = 16"
    and "n = 4 \<Longrightarrow> b AND 128 = 0 \<and> b AND 192 = 0 \<and> b AND 240 = 0"
    and "n = 5 \<Longrightarrow> (b OR 0x20) AND 128 = 0 \<and> (b OR 0x20) AND 192 = 0 \<and> (b OR 0x20) AND 224 = 32"
proof -
  have nb: "\<not> bit b 7" if "n \<le> 7" using assms [of 7] that by auto
  have nb6: "\<not> bit b 6" if "n \<le> 6" using assms [of 6] that by auto
  have nb5: "\<not> bit b 5" if "n \<le> 5" using assms [of 5] that by auto
  have nb4: "\<not> bit b 4" if "n \<le> 4" using assms [of 4] that by auto
  note simps = bit_or_iff bit_and_iff nb nb6 nb5 nb4
  show "n = 7 \<Longrightarrow> (b OR 0x80) AND 128 \<noteq> 0 \<and> b AND 128 = 0"
  proof
    have "bit ((b OR 0x80) AND 128) 7" by (simp add: bit_or_iff bit_and_iff)
    then show "(b OR 0x80) AND 128 \<noteq> 0" by (metis bit_0_eq bot_apply bot_bool_def)
  qed (rule byte_eqI; simp add: simps)
  show "n = 6 \<Longrightarrow> (b OR 0x40) AND 128 = 0 \<and> (b OR 0x40) AND 192 = 64"
    by (intro conjI byte_eqI) (simp_all add: simps)
  show "n = 4 \<Longrightarrow> (b OR 0x10) AND 128 = 0 \<and> (b OR 0x10) AND 192 = 0 \<and> (b OR 0x10) AND 240 = 16"
    by (intro conjI byte_eqI) (simp_all add: simps)
  show "n = 4 \<Longrightarrow> b AND 128 = 0 \<and> b AND 192 = 0 \<and> b AND 240 = 0"
    by (intro conjI byte_eqI) (simp_all add: simps)
  show "n = 5 \<Longrightarrow> (b OR 0x20) AND 128 = 0 \<and> (b OR 0x20) AND 192 = 0 \<and> (b OR 0x20) AND 224 = 32"
    by (intro conjI byte_eqI) (simp_all add: simps)
qed

text \<open>The bits that a type byte may use.\<close>

lemma flag_bits:
  fixes j :: nat
  shows "j < 7 \<Longrightarrow> \<not> bit (0x80 :: byte) j" "j < 6 \<Longrightarrow> \<not> bit (0x40 :: byte) j" "j < 4 \<Longrightarrow> \<not> bit (0x10 :: byte) j"
    "j < 5 \<Longrightarrow> \<not> bit (0x20 :: byte) j"
  by (auto simp: numeral_eq_Suc less_Suc_eq bit_Suc)

lemma readVarInt_flag:
  assumes "1 \<le> n" and "n \<le> 8" and "\<And>j. j < n \<Longrightarrow> \<not> bit flag j" and "unat i < 2 ^ 63"
    and "appendVarInt [] n i = b # bs"
  shows "readVarInt n ((b OR flag) # bs @ rest) = Inr (i, rest)"
proof -
  have "i < push_bit n 1 - 1 \<or> unat (i - (push_bit n 1 - 1)) < 2 ^ 63"
  proof (cases "i < push_bit n 1 - 1")
    case False
    then have "unat (i - (push_bit n 1 - 1)) \<le> unat i" by (subst unat_sub) (simp_all add: not_less)
    with assms(4) show ?thesis by (intro disjI2) (rule le_less_trans)
  qed simp
  with readVarInt_append [OF assms(1-3), of i rest] assms(5) show ?thesis by auto
qed

section \<open>Strings\<close>

lemma readString_append:
  assumes "length s < 2 ^ 32" and "m = 0 \<or> length s \<le> m" and "m < 2 ^ 63" and "length rest < 2 ^ 62"
  shows "\<exists>u. readString m (appendHpackString [] s @ rest) = Inr (u, rest) \<and> decodeString m u = Some (Inr s)"
proof (cases "HuffmanEncodeLength s < of_nat (length s)")
  case True
  let ?h = "HuffmanEncodeLength s" and ?e = "AppendHuffmanString [] s"
  have h: "unat ?h = length ?e" using assms(1) by (intro HuffmanEncodeLength_eq) simp
  have lt: "length ?e < length s" using True assms(1) h by (simp add: word_less_nat_alt unat_of_nat)
  obtain b bs where b: "appendVarInt [] 7 ?h = b # bs" using appendVarInt_Cons by blast
  have s: "appendHpackString [] s = (b OR 0x80) # bs @ ?e"
    using True or_at_append [of "[]" b "bs @ ?e" "0x80"]
    by (simp add: appendHpackString_def b AppendHuffmanString_dst [of "b # bs"])
  have v: "readVarInt 7 ((b OR 0x80) # bs @ ?e @ rest) = Inr (?h, ?e @ rest)"
    using h lt assms(1) flag_bits(1) by (intro readVarInt_flag [OF _ _ _ _ b]) simp_all
  have "(b OR 0x80) AND 128 \<noteq> 0"
    using type_bits(1) [of b 7] appendVarInt_first [OF _ _ b] by simp
  moreover have "\<not> (m \<noteq> 0 \<and> ?h > of_nat m)"
    using assms(2,3) h lt by (auto simp: word_less_nat_alt unat_of_nat)
  moreover have "\<not> of_nat (length (?e @ rest)) < ?h"
    using h lt assms(1,4) by (simp add: word_less_nat_alt unat_of_nat del: of_nat_add)
  ultimately have "readString m (appendHpackString [] s @ rest) = Inr (\<lparr>isHuff = True, us_b = ?e\<rparr>, rest)"
    using v h unfolding s by (simp add: readString_def del: of_nat_add)
  moreover have "decodeString m \<lparr>isHuff = True, us_b = ?e\<rparr> = Some (Inr s)"
    using assms(2) by (auto simp: decodeString_def huffmanDecode_AppendHuffmanString)
  ultimately show ?thesis by blast
next
  case False
  let ?n = "of_nat (length s) :: u64" and ?e = "string_to_bytes s"
  have n: "unat ?n = length s" using assms(1) by (simp add: unat_of_nat)
  obtain b bs where b: "appendVarInt [] 7 ?n = b # bs" using appendVarInt_Cons by blast
  have s: "appendHpackString [] s = b # bs @ ?e" using False by (simp add: appendHpackString_def b)
  have v: "readVarInt 7 (b # bs @ ?e @ rest) = Inr (?n, ?e @ rest)"
    using n assms(1) readVarInt_flag [OF _ _ _ _ b, of 0 "?e @ rest"] by simp
  have "b AND 128 = 0" using type_bits(1) [of b 7] appendVarInt_first [OF _ _ b] by simp
  moreover have "\<not> (m \<noteq> 0 \<and> ?n > of_nat m)"
    using assms(2,3) n by (auto simp: word_less_nat_alt unat_of_nat)
  moreover have "\<not> of_nat (length (?e @ rest)) < ?n"
    using n assms(1,4) by (simp add: word_less_nat_alt unat_of_nat del: of_nat_add)
  ultimately have "readString m (appendHpackString [] s @ rest) = Inr (\<lparr>isHuff = False, us_b = ?e\<rparr>, rest)"
    using v n unfolding s by (simp add: readString_def del: of_nat_add)
  moreover have "decodeString m \<lparr>isHuff = False, us_b = ?e\<rparr> = Some (Inr s)" by (simp add: decodeString_def)
  ultimately show ?thesis by blast
qed

section \<open>Parsing what the encoder appends\<close>

definition fits :: "'s Decoder \<Rightarrow> HeaderField \<Rightarrow> bool" where
  "fits d f \<longleftrightarrow> length (hf_Name f) < 2 ^ 32 \<and> length (hf_Value f) < 2 ^ 32 \<and> d_maxStrLen d < 2 ^ 63
     \<and> (d_maxStrLen d = 0 \<or> length (hf_Name f) \<le> d_maxStrLen d \<and> length (hf_Value f) \<le> d_maxStrLen d)"

definition emit_field :: "'s Decoder \<Rightarrow> HeaderField \<Rightarrow> 's Decoder" where
  "emit_field d f =
     (if d_emitEnabled d
      then d\<lparr>d_env := fst (d_emit d f (d_env d, True)), d_emitEnabled := snd (d_emit d f (d_env d, True))\<rparr>
      else d)"

lemma callEmit_fits: "fits d f \<Longrightarrow> callEmit d f = (None, emit_field d f)"
  by (auto simp: callEmit_def fits_def emit_field_def split: prod.splits)

abbreviation plain :: "HeaderField \<Rightarrow> HeaderField" where
  "plain f \<equiv> \<lparr>hf_Name = hf_Name f, hf_Value = hf_Value f, hf_Sensitive = False\<rparr>"

lemma plain_same: "\<not> hf_Sensitive f \<Longrightarrow> plain f = f"
  by (cases f) simp

lemma plain_unset: "\<not> hf_Sensitive f \<Longrightarrow> f\<lparr>hf_Sensitive := False\<rparr> = (f :: HeaderField)"
  by (cases f) simp

lemma field_same: "\<lparr>hf_Name = hf_Name f, hf_Value = hf_Value f, hf_Sensitive = hf_Sensitive f\<rparr> = f"
  by (cases f) simp

lemma parse_indexed:
  assumes "at_index (table (d_dynTab d)) i = Some g" and "hf_Name g = hf_Name f" and "hf_Value g = hf_Value f"
    and "\<not> hf_Sensitive f" and "i < 2 ^ 62" and "fits d f"
  shows "parseHeaderFieldRepr d (appendIndexed [] (of_nat i) @ rest) = Some (None, emit_field d f, rest)"
proof -
  obtain b bs where b: "appendVarInt [] 7 (of_nat i) = b # bs" using appendVarInt_Cons by blast
  have i: "unat (of_nat i :: u64) = i" using assms(5) by (simp add: unat_of_nat)
  have a: "appendIndexed [] (of_nat i) = (b OR 0x80) # bs"
    using or_at_append [of "[]" b bs "0x80"] by (simp add: appendIndexed_def b)
  have "readVarInt 7 ((b OR 0x80) # bs @ rest) = Inr (of_nat i, rest)"
    using i assms(5) flag_bits(1) by (intro readVarInt_flag [OF _ _ _ _ b]) simp_all
  moreover have "(b OR 0x80) AND 128 \<noteq> 0" using type_bits(1) [of b 7] appendVarInt_first [OF _ _ b] by simp
  ultimately show ?thesis
    using assms i callEmit_fits [OF assms(6)]
    by (simp add: a parseHeaderFieldRepr_def parseFieldIndexed_def plain_same)
qed

lemma parse_size_update:
  assumes "d_firstField d \<or> ents (table (d_dynTab d)) = []" and "wf_dyn (d_dynTab d)"
    and "v \<le> allowedMaxSize (d_dynTab d)" and "setMaxSize (d_dynTab d) v = Some dt"
  shows "parseHeaderFieldRepr d (appendTableSize [] v @ rest) = Some (None, d\<lparr>d_dynTab := dt\<rparr>, rest)"
proof -
  obtain b bs where b: "appendVarInt [] 5 (ucast v) = b # bs" using appendVarInt_Cons by blast
  have v: "unat (ucast v :: u64) = unat v" by (rule unat_ucast_u64)
  have "unat v < 2 ^ 32" using unsigned_less [of v, where 'a = nat] by simp
  then have "readVarInt 5 ((b OR 0x20) # bs @ rest) = Inr (ucast v, rest)"
    using v flag_bits(4) by (intro readVarInt_flag [OF _ _ _ _ b]) simp_all
  moreover have a: "appendTableSize [] v = (b OR 0x20) # bs"
    using or_at_append [of "[]" b bs "0x20"] by (simp add: appendTableSize_def b)
  moreover have t: "(b OR 0x20) AND 128 = 0" "(b OR 0x20) AND 192 = 0" "(b OR 0x20) AND 224 = 32"
    using type_bits(5) [of b 5] appendVarInt_first [OF _ _ b] by simp_all
  moreover have "(b OR 0x20) AND 240 \<noteq> 0" "(b OR 0x20) AND 240 \<noteq> 16"
  proof -
    have "((b OR 0x20) AND 240) AND 224 = ((b OR 0x20) AND 224)"
      by (rule byte_eqI) (simp_all add: bit_and_iff)
    then show "(b OR 0x20) AND 240 \<noteq> 0" "(b OR 0x20) AND 240 \<noteq> 16" using t(3) by auto
  qed
  moreover have "\<not> (\<not> d_firstField d \<and> dt_size (d_dynTab d) > 0)"
    using assms(1,2) by (auto simp: wf_dyn_def word_less_nat_alt)
  moreover have "\<not> (ucast v :: u64) > ucast (allowedMaxSize (d_dynTab d))"
    using assms(3) by (simp add: word_less_nat_alt word_le_nat_alt unat_ucast_u64 not_less)
  moreover have "ucast (ucast v :: u64) = v" by (simp add: ucast_up_ucast_id is_up)
  ultimately show ?thesis using assms(4)
    by (simp add: parseHeaderFieldRepr_def parseDynamicTableSizeUpdate_def)
qed

text \<open>Literal fields: the type byte selects the prefix length and the kind of literal.\<close>

definition literal_type :: "bool \<Rightarrow> bool \<Rightarrow> indexType" where
  "literal_type indexing sens = (if sens then indexedNever else if indexing then indexedTrue else indexedFalse)"

abbreviation prefix_len :: "bool \<Rightarrow> nat" where
  "prefix_len indexing \<equiv> (if indexing then 6 else 4)"

lemma parse_literal_dispatch:
  assumes "indexing \<longrightarrow> \<not> sens" and "\<And>j. bit b j \<Longrightarrow> j < prefix_len indexing"
  shows "parseHeaderFieldRepr d ((b OR encodeTypeByte indexing sens) # p)
    = parseFieldLiteral d (prefix_len indexing) (literal_type indexing sens) ((b OR encodeTypeByte indexing sens) # p)"
  using assms(1) type_bits(2) [of b 6] type_bits(3,4) [of b 4] assms(2)
  by (cases indexing; cases sens) (simp_all add: parseHeaderFieldRepr_def encodeTypeByte_def literal_type_def)

lemma type_flag: "indexing \<longrightarrow> \<not> sens \<Longrightarrow> j < prefix_len indexing \<Longrightarrow> \<not> bit (encodeTypeByte indexing sens) j"
  using flag_bits(2,3) by (auto simp: encodeTypeByte_def)

lemma finish_literal_decoded:
  assumes "case name of Inl s \<Rightarrow> s = hf_Name f | Inr x \<Rightarrow> decodeString (d_maxStrLen d) x = Some (Inr (hf_Name f))"
    and "decodeString (d_maxStrLen d) u = Some (Inr (hf_Value f))" and "fits d f" and "indexed it \<longrightarrow> \<not> hf_Sensitive f"
    and "sensitive it = hf_Sensitive f" and "indexed it \<longrightarrow> dyn_add (d_dynTab d) f = Some dt"
  shows "finish_literal d it name u
    = Some (Inr (None, emit_field (if indexed it then d\<lparr>d_dynTab := dt\<rparr> else d) f))"
proof (cases "d_emitEnabled d \<or> indexed it")
  case True
  let ?d = "if indexed it then d\<lparr>d_dynTab := dt\<rparr> else d"
  have "literal_strings (d_maxStrLen d) True name u = Some (Inr (hf_Name f, hf_Value f))"
    using assms(1,2) by (auto simp: literal_strings_def split: sum.splits)
  moreover have "callEmit ?d f = (None, emit_field ?d f)"
    using assms(3) by (intro callEmit_fits) (simp add: fits_def)
  ultimately show ?thesis
    using True assms(4,5,6) by (auto simp: finish_literal_def Let_def plain_same field_same plain_unset)
next
  case False
  obtain nm where nm: "literal_strings (d_maxStrLen d) False name u = Some (Inr (nm, []))" "nm = [] \<or> nm = hf_Name f"
    using assms(1) by (auto simp: literal_strings_def split: sum.splits)
  have "callEmit d \<lparr>hf_Name = nm, hf_Value = [], hf_Sensitive = sensitive it\<rparr> = (None, d)"
    using False nm(2) assms(3) by (auto simp: callEmit_def fits_def)
  with False nm(1) show ?thesis by (simp add: finish_literal_def Let_def emit_field_def)
qed

lemma literal_type_simps:
  "indexing \<longrightarrow> \<not> sens \<Longrightarrow> indexed (literal_type indexing sens) = indexing" "sensitive (literal_type indexing sens) = sens"
  by (auto simp: literal_type_def indexed_def sensitive_def)

lemma length_appendVarInt: "length (appendVarInt [] n i) \<le> 11"
proof -
  have "unat j < 2 ^ (7 * 10)" for j :: u64
    using unsigned_less [of j, where 'a = nat] by simp
  from length_appendVarInt_loop [OF this] show ?thesis by (simp add: appendVarInt_def Let_def)
qed

lemma length_appendHpackString:
  assumes "length s < 2 ^ 32"
  shows "length (appendHpackString [] s) < 2 ^ 33"
proof -
  obtain b bs where b: "appendVarInt [] 7 (HuffmanEncodeLength s) = b # bs" using appendVarInt_Cons by blast
  have "length bs \<le> 10" using length_appendVarInt [of 7 "HuffmanEncodeLength s"] b by simp
  moreover have "length (AppendHuffmanString [] s) < length s" if "HuffmanEncodeLength s < of_nat (length s)"
    using that assms HuffmanEncodeLength_eq [of s] by (simp add: word_less_nat_alt unat_of_nat)
  moreover have "length (appendVarInt [] 7 (of_nat (length s))) \<le> 11" by (rule length_appendVarInt)
  ultimately show ?thesis
    using assms by (fastforce simp: appendHpackString_def Let_def b AppendHuffmanString_dst [of "b # bs"] or_at_def)
qed

lemma fits_strings:
  assumes "fits d f" and "length rest < 2 ^ 61"
  shows "\<exists>u. readString (d_maxStrLen d) (appendHpackString [] (hf_Value f) @ rest) = Inr (u, rest)
      \<and> decodeString (d_maxStrLen d) u = Some (Inr (hf_Value f))"
    and "\<exists>u. readString (d_maxStrLen d) (appendHpackString [] (hf_Name f) @ appendHpackString [] (hf_Value f) @ rest)
        = Inr (u, appendHpackString [] (hf_Value f) @ rest) \<and> decodeString (d_maxStrLen d) u = Some (Inr (hf_Name f))"
  using assms length_appendHpackString [of "hf_Value f"] by (intro readString_append; force simp: fits_def)+

lemma parse_new_name:
  assumes "fits d f" and "length rest < 2 ^ 61" and "indexing \<longrightarrow> \<not> hf_Sensitive f"
    and "indexing \<longrightarrow> dyn_add (d_dynTab d) f = Some dt"
  shows "parseHeaderFieldRepr d (appendNewName [] f indexing @ rest)
    = Some (None, emit_field (if indexing then d\<lparr>d_dynTab := dt\<rparr> else d) f, rest)"
proof -
  let ?t = "encodeTypeByte indexing (hf_Sensitive f)" and ?n = "prefix_len indexing"
  let ?p = "appendHpackString [] (hf_Name f) @ appendHpackString [] (hf_Value f) @ rest"
  have a: "appendNewName [] f indexing @ rest = (0 OR ?t) # ?p"
    unfolding appendNewName_def Let_def by (subst appendHpackString_dst, subst appendHpackString_dst) simp
  have "appendVarInt [] ?n 0 = [0]" by (simp add: appendVarInt_def)
  then have v: "readVarInt ?n ((0 OR ?t) # ?p) = Inr (0, ?p)"
    using readVarInt_flag [of ?n ?t 0 0 "[]" ?p] type_flag [OF assms(3)] by simp
  obtain u where u: "readString (d_maxStrLen d) (appendHpackString [] (hf_Value f) @ rest) = Inr (u, rest)"
    "decodeString (d_maxStrLen d) u = Some (Inr (hf_Value f))" using fits_strings(1) [OF assms(1,2)] by blast
  obtain w where w: "readString (d_maxStrLen d) ?p = Inr (w, appendHpackString [] (hf_Value f) @ rest)"
    "decodeString (d_maxStrLen d) w = Some (Inr (hf_Name f))" using fits_strings(2) [OF assms(1,2)] by blast
  have "read_literal d ?n ((0 OR ?t) # ?p) = Inr (Inr w, u, rest)"
    using v u(1) w(1) by (simp add: read_literal_def literal_name_def)
  moreover have "finish_literal d (literal_type indexing (hf_Sensitive f)) (Inr w) u
      = Some (Inr (None, emit_field (if indexing then d\<lparr>d_dynTab := dt\<rparr> else d) f))"
    using finish_literal_decoded [where name = "Inr w" and f = f and d = d and u = u and dt = dt and it = "literal_type indexing (hf_Sensitive f)"]
      u(2) w(2) assms literal_type_simps(1) [OF assms(3)] literal_type_simps(2) [of indexing "hf_Sensitive f"] by simp
  ultimately show ?thesis
    unfolding a using parse_literal_dispatch [OF assms(3), of 0 d ?p] by (simp add: parseFieldLiteral_stages)
qed

lemma parse_indexed_name:
  assumes "fits d f" and "length rest < 2 ^ 61" and "indexing \<longrightarrow> \<not> hf_Sensitive f"
    and "indexing \<longrightarrow> dyn_add (d_dynTab d) f = Some dt"
    and "at_index (table (d_dynTab d)) i = Some g" and "hf_Name g = hf_Name f" and "0 < i" and "i < 2 ^ 62"
  shows "parseHeaderFieldRepr d (appendIndexedName [] f (of_nat i) indexing @ rest)
    = Some (None, emit_field (if indexing then d\<lparr>d_dynTab := dt\<rparr> else d) f, rest)"
proof -
  let ?t = "encodeTypeByte indexing (hf_Sensitive f)" and ?n = "prefix_len indexing"
  let ?p = "appendHpackString [] (hf_Value f) @ rest"
  obtain b bs where b: "appendVarInt [] ?n (of_nat i) = b # bs" using appendVarInt_Cons by blast
  have a: "appendIndexedName [] f (of_nat i) indexing @ rest = (b OR ?t) # bs @ ?p"
    unfolding appendIndexedName_def Let_def b
    by (subst appendHpackString_dst) (use or_at_append [of "[]" b bs ?t] in simp)
  have i: "unat (of_nat i :: u64) = i" using assms(8) by (simp add: unat_of_nat)
  have v: "readVarInt ?n ((b OR ?t) # bs @ ?p) = Inr (of_nat i, ?p)"
    using type_flag [OF assms(3)] assms(8) i by (intro readVarInt_flag [OF _ _ _ _ b]) simp_all
  obtain u where u: "readString (d_maxStrLen d) ?p = Inr (u, rest)"
    "decodeString (d_maxStrLen d) u = Some (Inr (hf_Value f))" using fits_strings(1) [OF assms(1,2)] by blast
  have "0 < (of_nat i :: u64)" using i assms(7) by (simp add: word_less_nat_alt)
  then have "read_literal d ?n ((b OR ?t) # bs @ ?p) = Inr (Inl (hf_Name f), u, rest)"
    using v u(1) assms(5,6) i by (simp add: read_literal_def literal_name_def)
  moreover have "finish_literal d (literal_type indexing (hf_Sensitive f)) (Inl (hf_Name f)) u
      = Some (Inr (None, emit_field (if indexing then d\<lparr>d_dynTab := dt\<rparr> else d) f))"
    using finish_literal_decoded [where name = "Inl (hf_Name f)" and f = f and d = d and u = u and dt = dt and it = "literal_type indexing (hf_Sensitive f)"]
      u(2) assms literal_type_simps(1) [OF assms(3)] literal_type_simps(2) [of indexing "hf_Sensitive f"] by simp
  moreover have "\<And>j. bit b j \<Longrightarrow> j < ?n" using appendVarInt_first [OF _ _ b] by simp
  ultimately show ?thesis
    unfolding a using parse_literal_dispatch [OF assms(3), of b d "bs @ ?p"] by (simp add: parseFieldLiteral_stages)
qed

section \<open>Tables in step\<close>

lemma rfc_evict_suffix: "suffix (rfc_evict m es) es"
  by (induction es) (auto intro: suffix_ConsI)

lemma rfc_evict_id: "total_size es \<le> m \<Longrightarrow> rfc_evict m es = es"
  by (cases es) auto

lemma total_size_suffix: "suffix xs ys \<Longrightarrow> total_size xs \<le> total_size ys"
  by (auto simp: suffix_def)

lemma rfc_evict_mono: "suffix xs ys \<Longrightarrow> a \<le> b \<Longrightarrow> suffix (rfc_evict a xs) (rfc_evict b ys)"
proof (induction ys arbitrary: xs)
  case (Cons y ys)
  show ?case
  proof (cases "total_size (y # ys) > b")
    case False
    then have "rfc_evict b (y # ys) = y # ys" by simp
    then show ?thesis using rfc_evict_suffix [of a xs] Cons.prems(1) by (simp add: suffix_order.trans)
  next
    case True
    then have b: "rfc_evict b (y # ys) = rfc_evict b ys" by simp
    show ?thesis
    proof (cases "xs = y # ys")
      case eq: True
      then have "rfc_evict a xs = rfc_evict a ys" using True Cons.prems(2) by simp
      with b Cons show ?thesis by simp
    next
      case False
      then have "suffix xs ys" using Cons.prems(1) by (simp add: suffix_Cons)
      with b Cons show ?thesis by simp
    qed
  qed
qed simp

lemma rfc_evict_keeps: "suffix xs ys \<Longrightarrow> total_size xs \<le> m \<Longrightarrow> suffix xs (rfc_evict m ys)"
  using rfc_evict_mono [of xs ys m m] by (simp add: rfc_evict_id)

lemma total_size_length: "32 * length es \<le> total_size es"
  by (induction es) (auto simp: entry_size_def)

text \<open>Newer entries have lower indexes, so a decoder that still has older entries resolves every
  index of the encoder in the same way.\<close>

lemma at_index_suffix:
  assumes "suffix (ents t) (ents t')" and "at_index t i = Some g"
  shows "at_index t' i = Some g"
proof -
  obtain zs where zs: "ents t' = zs @ ents t" using assms(1) by (auto simp: suffix_def)
  show ?thesis
    using assms(2) by (auto simp: at_index_def maxTableIndex_def table_len_def zs nth_append split: if_splits)
qed

definition in_step :: "Encoder \<Rightarrow> 's Decoder \<Rightarrow> nat \<Rightarrow> bool" where
  "in_step e d k \<longleftrightarrow>
     wf_dyn (e_dynTab e) \<and> wf_dyn (d_dynTab d)
     \<and> suffix (ents (table (e_dynTab e))) (ents (table (d_dynTab d)))
     \<and> (\<not> e_tableSizeUpdate e \<longrightarrow> maxSize (e_dynTab e) \<le> maxSize (d_dynTab d) \<and> e_minSize e = uint32Max)
     \<and> total_size (ents (table (e_dynTab e))) \<le> unat (e_minSize e)
     \<and> maxSize (e_dynTab e) \<le> allowedMaxSize (d_dynTab d) \<and> maxSize (d_dynTab d) \<le> allowedMaxSize (d_dynTab d)
     \<and> evictCount (table (e_dynTab e)) + length (ents (table (e_dynTab e))) + k < 2 ^ 64
     \<and> evictCount (table (d_dynTab d)) + length (ents (table (d_dynTab d))) + k < 2 ^ 64"

text \<open>When the size updates that are due can be sent: at the start of a block, and a second one only
  if the first has emptied the table.\<close>

definition updates_ok :: "Encoder \<Rightarrow> 's Decoder \<Rightarrow> bool" where
  "updates_ok e d \<longleftrightarrow>
     (e_tableSizeUpdate e \<longrightarrow>
        (d_firstField d \<or> ents (table (d_dynTab d)) = [])
        \<and> (e_minSize e < maxSize (e_dynTab e) \<longrightarrow> rfc_evict (unat (e_minSize e)) (ents (table (d_dynTab d))) = []))"

lemma wf_dyn_le: "wf_dyn dt \<Longrightarrow> total_size (ents (table dt)) \<le> unat (maxSize dt)"
  by (simp add: wf_dyn_def word_le_nat_alt)

lemma wf_dyn_max: "wf_dyn dt \<Longrightarrow> m = uint32Max \<Longrightarrow> total_size (ents (table dt)) \<le> unat m"
proof -
  assume "wf_dyn dt" and "m = uint32Max"
  moreover have "dt_size dt \<le> uint32Max" by simp
  ultimately show ?thesis by (simp only: word_le_nat_alt wf_dyn_def)
qed

lemma parse_loop_step:
  assumes "parseHeaderFieldRepr d (x @ rest) = Some (None, d', rest)" and "x \<noteq> []"
  shows "parse_loop n d (x @ rest) = parse_loop n (d'\<lparr>d_firstField := False\<rparr>) rest"
  using assms by (subst parse_loop.simps) (simp add: Let_def)

lemma append_ne: "appendTableSize [] v \<noteq> []" "appendIndexed [] i \<noteq> []" "appendNewName [] f b \<noteq> []" "appendIndexedName [] f i b \<noteq> []"
proof -
  show "appendTableSize [] v \<noteq> []" "appendIndexed [] i \<noteq> []"
    using appendVarInt_Cons [of 5 "ucast v"] appendVarInt_Cons [of 7 i]
    by (auto simp: appendTableSize_def appendIndexed_def or_at_def)
  show "appendNewName [] f b \<noteq> []"
    unfolding appendNewName_def Let_def by (subst appendHpackString_dst, subst appendHpackString_dst) simp
  show "appendIndexedName [] f i b \<noteq> []"
    unfolding appendIndexedName_def Let_def
    by (subst appendHpackString_dst) (use appendVarInt_Cons [of "prefix_len b" i] in \<open>auto simp: or_at_def\<close>)
qed

lemma step_size_update:
  assumes "wf_dyn (d_dynTab d)" and "evictCount (table (d_dynTab d)) + length (ents (table (d_dynTab d))) < 2 ^ 64"
    and "d_firstField d \<or> ents (table (d_dynTab d)) = []" and "v \<le> allowedMaxSize (d_dynTab d)"
  obtains dt where "\<And>n rest. parse_loop n d (appendTableSize [] v @ rest)
      = parse_loop n (d\<lparr>d_dynTab := dt, d_firstField := False\<rparr>) rest"
    and "wf_dyn dt" and "ents (table dt) = rfc_evict (unat v) (ents (table (d_dynTab d)))" and "maxSize dt = v"
    and "allowedMaxSize dt = allowedMaxSize (d_dynTab d)"
    and "evictCount (table dt) + length (ents (table dt)) = evictCount (table (d_dynTab d)) + length (ents (table (d_dynTab d)))"
proof -
  obtain dt where dt: "setMaxSize (d_dynTab d) v = Some dt" "wf_dyn dt"
    "ents (table dt) = rfc_evict (unat v) (ents (table (d_dynTab d)))" "maxSize dt = v"
    "allowedMaxSize dt = allowedMaxSize (d_dynTab d)"
    "evictCount (table dt) + length (ents (table dt)) = evictCount (table (d_dynTab d)) + length (ents (table (d_dynTab d)))"
    using setMaxSize_spec [OF assms(1,2)] by metis
  have "parse_loop n d (appendTableSize [] v @ rest) = parse_loop n (d\<lparr>d_dynTab := dt, d_firstField := False\<rparr>) rest" for n rest
    using parse_loop_step [OF parse_size_update [OF assms(3,1,4) dt(1), of rest] append_ne(1), of n] by simp
  then show thesis using dt by (intro that)
qed

lemma step_updates:
  assumes "in_step e d k" and "updates_ok e d" and "write_updates e = (buf, e')"
  obtains dt ff where "\<And>n rest. parse_loop n d (buf @ rest) = parse_loop n (d\<lparr>d_dynTab := dt, d_firstField := ff\<rparr>) rest"
    and "in_step e' (d\<lparr>d_dynTab := dt, d_firstField := ff\<rparr>) k" and "\<not> e_tableSizeUpdate e'"
    and "allowedMaxSize dt = allowedMaxSize (d_dynTab d)"
proof (cases "e_tableSizeUpdate e")
  case False
  then have "buf = []" "e' = e" using assms(3) by (simp_all add: write_updates_def)
  then show thesis using that [where dt = "d_dynTab d" and ff = "d_firstField d"] assms(1) False by (cases d) simp
next
  case True
  let ?es = "ents (table (e_dynTab e))" and ?ds = "ents (table (d_dynTab d))" and ?m = "maxSize (e_dynTab e)"
  have e': "e' = e\<lparr>e_tableSizeUpdate := False, e_minSize := uint32Max\<rparr>"
    using True assms(3) by (auto simp: write_updates_def Let_def)
  have st: "wf_dyn (e_dynTab e)" "wf_dyn (d_dynTab d)" "suffix ?es ?ds" "total_size ?es \<le> unat (e_minSize e)"
    "?m \<le> allowedMaxSize (d_dynTab d)" "evictCount (table (d_dynTab d)) + length ?ds < 2 ^ 64"
    "evictCount (table (d_dynTab d)) + length ?ds + k < 2 ^ 64" "evictCount (table (e_dynTab e)) + length ?es + k < 2 ^ 64"
    using assms(1) by (simp_all add: in_step_def)
  have tot: "total_size ?es \<le> unat ?m" using st(1) by (rule wf_dyn_le)
  have top: "total_size ?es \<le> unat (NOT 0 :: u32)" using st(1) refl by (rule wf_dyn_max)
  have ff: "d_firstField d \<or> ?ds = []" using assms(2) True by (simp add: updates_ok_def)
  have goal: "in_step e' (d\<lparr>d_dynTab := dt, d_firstField := False\<rparr>) k"
    if "wf_dyn dt" "suffix ?es (ents (table dt))" "maxSize dt = ?m" "allowedMaxSize dt = allowedMaxSize (d_dynTab d)"
      "evictCount (table dt) + length (ents (table dt)) = evictCount (table (d_dynTab d)) + length ?ds" for dt
    using that st top unfolding e' in_step_def by simp
  show thesis
  proof (cases "e_minSize e < ?m")
    case False
    then have buf: "buf = appendTableSize [] ?m" using True assms(3) by (simp add: write_updates_def)
    obtain dt where dt: "\<And>n rest. parse_loop n d (appendTableSize [] ?m @ rest)
        = parse_loop n (d\<lparr>d_dynTab := dt, d_firstField := False\<rparr>) rest"
      "wf_dyn dt" "ents (table dt) = rfc_evict (unat ?m) ?ds" "maxSize dt = ?m"
      "allowedMaxSize dt = allowedMaxSize (d_dynTab d)"
      "evictCount (table dt) + length (ents (table dt)) = evictCount (table (d_dynTab d)) + length ?ds"
      using step_size_update [OF st(2,6) ff st(5)] by metis
    have "suffix ?es (ents (table dt))" unfolding dt(3) using st(3) tot by (rule rfc_evict_keeps)
    from that [OF dt(1) [folded buf] goal] this dt e' show thesis by simp
  next
    case less: True
    let ?v = "e_minSize e"
    have buf: "buf = appendTableSize [] ?v @ appendTableSize [] ?m"
      using True less assms(3) append_dst(2) [of "appendTableSize [] ?v" ?m] by (simp add: write_updates_def)
    have "?v \<le> allowedMaxSize (d_dynTab d)" using less st(5) by simp
    then obtain d1 where d1: "\<And>n rest. parse_loop n d (appendTableSize [] ?v @ rest)
        = parse_loop n (d\<lparr>d_dynTab := d1, d_firstField := False\<rparr>) rest"
      "wf_dyn d1" "ents (table d1) = rfc_evict (unat ?v) ?ds" "maxSize d1 = ?v"
      "allowedMaxSize d1 = allowedMaxSize (d_dynTab d)"
      "evictCount (table d1) + length (ents (table d1)) = evictCount (table (d_dynTab d)) + length ?ds"
      using step_size_update [OF st(2,6) ff] by metis
    let ?d1 = "d\<lparr>d_dynTab := d1, d_firstField := False\<rparr>"
    have empty: "ents (table d1) = []" using assms(2) True less d1(3) by (simp add: updates_ok_def)
    have "wf_dyn (d_dynTab ?d1)" "evictCount (table (d_dynTab ?d1)) + length (ents (table (d_dynTab ?d1))) < 2 ^ 64"
      "d_firstField ?d1 \<or> ents (table (d_dynTab ?d1)) = []" "?m \<le> allowedMaxSize (d_dynTab ?d1)"
      using d1 empty st(5,6) by simp_all
    from step_size_update [OF this] obtain dt where dt: "\<And>n rest. parse_loop n ?d1 (appendTableSize [] ?m @ rest)
        = parse_loop n (?d1\<lparr>d_dynTab := dt, d_firstField := False\<rparr>) rest"
      "wf_dyn dt" "ents (table dt) = rfc_evict (unat ?m) (ents (table (d_dynTab ?d1)))" "maxSize dt = ?m"
      "allowedMaxSize dt = allowedMaxSize (d_dynTab ?d1)"
      "evictCount (table dt) + length (ents (table dt)) = evictCount (table (d_dynTab ?d1)) + length (ents (table (d_dynTab ?d1)))"
      by metis
    have "suffix ?es (ents (table d1))" unfolding d1(3) using st(3,4) by (rule rfc_evict_keeps)
    then have suf: "suffix ?es (ents (table dt))" unfolding dt(3) using tot by (simp add: rfc_evict_keeps)
    have "parse_loop n d (buf @ rest) = parse_loop n (d\<lparr>d_dynTab := dt, d_firstField := False\<rparr>) rest" for n rest
      using d1(1) dt(1) by (simp add: buf)
    from that [OF this goal [OF dt(2) suf dt(4)]] d1 dt e' show thesis by simp
  qed
qed

lemma step_field:
  assumes "in_step e d (Suc k)" and "\<not> e_tableSizeUpdate e" and "fits d f"
    and "unat (allowedMaxSize (d_dynTab d)) + entry_size f < 2 ^ 32"
  obtains x e' dt where "\<And>buf. write_field buf e f = Some (buf @ x, e')"
    and "\<And>n rest. length rest < 2 ^ 61 \<Longrightarrow>
      parse_loop n d (x @ rest) = parse_loop n ((emit_field (d\<lparr>d_dynTab := dt\<rparr>) f)\<lparr>d_firstField := False\<rparr>) rest"
    and "in_step e' (d\<lparr>d_dynTab := dt\<rparr>) k" and "\<not> e_tableSizeUpdate e'"
    and "allowedMaxSize dt = allowedMaxSize (d_dynTab d)"
proof -
  let ?et = "table (e_dynTab e)" and ?dt = "table (d_dynTab d)"
  have st: "wf_dyn (e_dynTab e)" "wf_dyn (d_dynTab d)" "suffix (ents ?et) (ents ?dt)"
    "maxSize (e_dynTab e) \<le> maxSize (d_dynTab d)" "maxSize (d_dynTab d) \<le> allowedMaxSize (d_dynTab d)"
    "total_size (ents ?et) \<le> unat (e_minSize e)"
    "evictCount ?et + length (ents ?et) + 1 < 2 ^ 64" "evictCount ?dt + length (ents ?dt) + 1 < 2 ^ 64"
    using assms(1,2) by (auto simp: in_step_def)
  have same: "in_step e d k" using assms(1) by (simp add: in_step_def)
  have "wf_table ?et" using st(1) by (simp add: wf_dyn_def)
  from searchTable_spec [OF this, of f] obtain i m where s: "searchTable ?et f = Some (i, m)"
    "m \<longrightarrow> \<not> hf_Sensitive f" "m \<longrightarrow> (\<exists>g. at_index ?et i = Some g \<and> hf_Name g = hf_Name f \<and> hf_Value g = hf_Value f)"
    "i \<noteq> 0 \<longrightarrow> (\<exists>g. at_index ?et i = Some g \<and> hf_Name g = hf_Name f)" by blast
  have i: "i < 2 ^ 62" if "i \<noteq> 0"
  proof -
    obtain g where "at_index ?et i = Some g" using s(4) \<open>i \<noteq> 0\<close> by blast
    then have "i \<le> length (ents ?et) + 61"
      by (auto simp: at_index_def maxTableIndex_def table_len_def staticTable_def static_ents_def split: if_splits)
    moreover have "32 * length (ents ?et) < 2 ^ 32"
      using total_size_length [of "ents ?et"] st(1) unsigned_less [of "dt_size (e_dynTab e)", where 'a = nat] by (simp add: wf_dyn_def)
    ultimately show ?thesis by simp
  qed
  show thesis
  proof (cases m)
    case True
    then obtain g where g: "at_index ?et i = Some g" "hf_Name g = hf_Name f" "hf_Value g = hf_Value f" using s(3) by blast
    then have i0: "i \<noteq> 0" by (cases "i = 0") (simp_all add: at_index_def)
    have "parse_loop n d (appendIndexed [] (of_nat i) @ rest)
        = parse_loop n ((emit_field (d\<lparr>d_dynTab := d_dynTab d\<rparr>) f)\<lparr>d_firstField := False\<rparr>) rest" for n rest
      using parse_loop_step [OF parse_indexed [OF at_index_suffix [OF st(3) g(1)] g(2,3) _ i [OF i0] assms(3), of rest] append_ne(2)]
        s(2) True by simp
    moreover have "write_field buf e f = Some (buf @ appendIndexed [] (of_nat i), e)" for buf
      using s(1) True append_dst(1) [of buf] by (simp add: write_field_def)
    ultimately show thesis using that [of "appendIndexed [] (of_nat i)" e "d_dynTab d"] same assms(2) by simp
  next
    case False
    define indexing where "indexing = shouldIndex e f"
    have sens: "indexing \<longrightarrow> \<not> hf_Sensitive f" by (simp add: indexing_def shouldIndex_def)
    have size: "total_size (ents ?et) + entry_size f < 2 ^ 32" "total_size (ents ?dt) + entry_size f < 2 ^ 32"
      using wf_dyn_le [OF st(1)] wf_dyn_le [OF st(2)] st(4,5) assms(4) by (simp_all add: word_le_nat_alt)
    obtain e1 where e1: "dyn_add (e_dynTab e) f = Some e1" "wf_dyn e1"
      "ents (table e1) = rfc_evict (unat (maxSize (e_dynTab e))) (ents ?et @ [f])" "maxSize e1 = maxSize (e_dynTab e)"
      "evictCount (table e1) + length (ents (table e1)) = evictCount ?et + length (ents ?et) + 1"
      using dyn_add_spec [OF st(1,7) size(1)] by metis
    obtain d1 where d1: "dyn_add (d_dynTab d) f = Some d1" "wf_dyn d1"
      "ents (table d1) = rfc_evict (unat (maxSize (d_dynTab d))) (ents ?dt @ [f])" "maxSize d1 = maxSize (d_dynTab d)"
      "allowedMaxSize d1 = allowedMaxSize (d_dynTab d)"
      "evictCount (table d1) + length (ents (table d1)) = evictCount ?dt + length (ents ?dt) + 1"
      using dyn_add_spec [OF st(2,8) size(2)] by metis
    have "suffix (ents ?et @ [f]) (ents ?dt @ [f])" using st(3) by (auto simp: suffix_def)
    then have suf: "suffix (ents (table e1)) (ents (table d1))"
      unfolding e1(3) d1(3) using st(4) by (intro rfc_evict_mono) (simp_all add: word_le_nat_alt)
    have tot: "total_size (ents (table e1)) \<le> unat (e_minSize e)"
      using e1(2) assms(1,2) by (intro wf_dyn_max) (simp_all add: in_step_def)
    define e' where "e' = (if indexing then e\<lparr>e_dynTab := e1\<rparr> else e)"
    define dt where "dt = (if indexing then d1 else d_dynTab d)"
    define x where "x = (if i = 0 then appendNewName [] f indexing else appendIndexedName [] f (of_nat i) indexing)"
    have "write_field buf e f = Some (buf @ x, e')" for buf
      using s(1) False e1(1) append_dst(3,4) [of buf f]
      by (auto simp: write_field_def Let_def x_def e'_def indexing_def [symmetric])
    moreover have "parse_loop n d (x @ rest) = parse_loop n ((emit_field (d\<lparr>d_dynTab := dt\<rparr>) f)\<lparr>d_firstField := False\<rparr>) rest"
      if rest: "length rest < 2 ^ 61" for n rest
    proof -
      have "parseHeaderFieldRepr d (x @ rest) = Some (None, emit_field (if indexing then d\<lparr>d_dynTab := d1\<rparr> else d) f, rest)"
      proof (cases "i = 0")
        case True
        then show ?thesis using parse_new_name [OF assms(3) rest sens, of d1] d1(1) by (simp add: x_def)
      next
        case i0: False
        then obtain g where g: "at_index ?et i = Some g" "hf_Name g = hf_Name f" using s(4) by blast
        from i0 show ?thesis
          using parse_indexed_name [OF assms(3) rest sens _ at_index_suffix [OF st(3) g(1)] g(2) _ i [OF i0], of d1] d1(1)
          by (simp add: x_def)
      qed
      moreover have "(if indexing then d\<lparr>d_dynTab := d1\<rparr> else d) = d\<lparr>d_dynTab := dt\<rparr>" by (simp add: dt_def)
      moreover have "x \<noteq> []" using append_ne by (simp add: x_def)
      ultimately show ?thesis using parse_loop_step [of d x rest] by simp
    qed
    moreover have "in_step e' (d\<lparr>d_dynTab := dt\<rparr>) k"
    proof (cases indexing)
      case True
      then show ?thesis
        using assms(1,2) e1 d1 suf tot by (simp add: in_step_def e'_def dt_def)
    next
      case False
      then show ?thesis using same by (simp add: e'_def dt_def in_step_def)
    qed
    moreover have "\<not> e_tableSizeUpdate e'" using assms(2) by (simp add: e'_def)
    moreover have "allowedMaxSize dt = allowedMaxSize (d_dynTab d)" using d1 by (simp add: dt_def)
    ultimately show thesis using that by blast
  qed
qed

section \<open>Whole blocks\<close>

lemma in_step_dynTab: "d_dynTab d' = d_dynTab d \<Longrightarrow> in_step e d k \<Longrightarrow> in_step e d' k"
  by (simp add: in_step_def)

text \<open>What the decoder's callback has seen after a list of fields; all of them if it collects them.\<close>

lemma emit_field_frame:
  "d_dynTab (emit_field d f) = d_dynTab d" "d_maxStrLen (emit_field d f) = d_maxStrLen d"
  "d_saveBuf (emit_field d f) = d_saveBuf d" "d_emit (emit_field d f) = d_emit d"
  by (simp_all add: emit_field_def)

lemma emit_field_collect:
  "d_emit d = collect \<Longrightarrow> d_emitEnabled d \<Longrightarrow> d_env (emit_field d f) = d_env d @ [f] \<and> d_emitEnabled (emit_field d f)"
  by (simp add: emit_field_def collect_def)

lemma WriteFields_decoded:
  "in_step e d (length fs + k) \<Longrightarrow> updates_ok e d \<Longrightarrow> \<forall>f \<in> set fs. fits d f \<Longrightarrow>
   \<forall>f \<in> set fs. unat (allowedMaxSize (d_dynTab d)) + entry_size f < 2 ^ 32 \<Longrightarrow>
   d_emit d = collect \<Longrightarrow> d_emitEnabled d \<Longrightarrow>
     \<exists>bs e'. WriteFields e fs = Some (bs, e') \<and>
       (length bs < 2 ^ 61 \<longrightarrow>
         (\<exists>d'. (\<forall>n. parse_loop n d bs = Some (n, None, d')) \<and> in_step e' d' k \<and> d_env d' = d_env d @ fs
           \<and> d_saveBuf d' = d_saveBuf d \<and> d_emitEnabled d' \<and> d_maxStrLen d' = d_maxStrLen d
           \<and> allowedMaxSize (d_dynTab d') = allowedMaxSize (d_dynTab d)))"
proof (induction fs arbitrary: e d)
  case Nil
  then show ?case by (subst parse_loop.simps) auto
next
  case (Cons f fs)
  obtain ub e1 where u: "write_updates e = (ub, e1)" by force
  obtain dt ff where dt: "\<And>n rest. parse_loop n d (ub @ rest) = parse_loop n (d\<lparr>d_dynTab := dt, d_firstField := ff\<rparr>) rest"
    "in_step e1 (d\<lparr>d_dynTab := dt, d_firstField := ff\<rparr>) (Suc (length fs + k))" "\<not> e_tableSizeUpdate e1"
    "allowedMaxSize dt = allowedMaxSize (d_dynTab d)"
    using step_updates [OF Cons.prems(1,2) u] by (metis Suc_eq_plus1_left add.assoc length_Cons plus_1_eq_Suc)
  let ?d1 = "d\<lparr>d_dynTab := dt, d_firstField := ff\<rparr>"
  have "fits ?d1 f" "unat (allowedMaxSize (d_dynTab ?d1)) + entry_size f < 2 ^ 32"
    using Cons.prems(3,4) dt(4) by (simp_all add: fits_def)
  from step_field [OF dt(2,3) this] obtain x e2 dt2 where x: "\<And>buf. write_field buf e1 f = Some (buf @ x, e2)"
    "\<And>n rest. length rest < 2 ^ 61 \<Longrightarrow>
      parse_loop n ?d1 (x @ rest) = parse_loop n ((emit_field (?d1\<lparr>d_dynTab := dt2\<rparr>) f)\<lparr>d_firstField := False\<rparr>) rest"
    "in_step e2 (?d1\<lparr>d_dynTab := dt2\<rparr>) (length fs + k)" "\<not> e_tableSizeUpdate e2"
    "allowedMaxSize dt2 = allowedMaxSize (d_dynTab ?d1)" by blast
  let ?d2 = "(emit_field (?d1\<lparr>d_dynTab := dt2\<rparr>) f)\<lparr>d_firstField := False\<rparr>"
  have d2: "d_emit ?d2 = collect" "d_emitEnabled ?d2" "d_env ?d2 = d_env d @ [f]" "d_saveBuf ?d2 = d_saveBuf d"
    "d_maxStrLen ?d2 = d_maxStrLen d" "d_dynTab ?d2 = dt2"
    using Cons.prems(5,6) emit_field_collect [of "?d1\<lparr>d_dynTab := dt2\<rparr>" f] by (simp_all add: emit_field_frame)
  have "in_step e2 ?d2 (length fs + k)" using x(3) by (rule in_step_dynTab [rotated]) (simp add: emit_field_frame)
  moreover have "updates_ok e2 ?d2" using x(4) by (simp add: updates_ok_def)
  moreover have "\<forall>f \<in> set fs. fits ?d2 f" using Cons.prems(3) by (simp add: fits_def emit_field_frame)
  moreover have "\<forall>f \<in> set fs. unat (allowedMaxSize (d_dynTab ?d2)) + entry_size f < 2 ^ 32"
    using Cons.prems(4) x(5) dt(4) by (simp add: emit_field_frame)
  ultimately obtain bs e' where bs: "WriteFields e2 fs = Some (bs, e')"
    "length bs < 2 ^ 61 \<longrightarrow>
         (\<exists>d'. (\<forall>n. parse_loop n ?d2 bs = Some (n, None, d')) \<and> in_step e' d' k \<and> d_env d' = d_env ?d2 @ fs
           \<and> d_saveBuf d' = d_saveBuf ?d2 \<and> d_emitEnabled d' \<and> d_maxStrLen d' = d_maxStrLen ?d2
           \<and> allowedMaxSize (d_dynTab d') = allowedMaxSize (d_dynTab ?d2))"
    using Cons.IH [of e2 ?d2] d2 by blast
  have "WriteFields e (f # fs) = Some ((ub @ x) @ bs, e')"
    using u x(1) [of ub] bs(1) by (simp add: WriteField_def accepting_def)
  moreover have "\<exists>d'. (\<forall>n. parse_loop n d ((ub @ x) @ bs) = Some (n, None, d')) \<and> in_step e' d' k \<and> d_env d' = d_env d @ f # fs
           \<and> d_saveBuf d' = d_saveBuf d \<and> d_emitEnabled d' \<and> d_maxStrLen d' = d_maxStrLen d
           \<and> allowedMaxSize (d_dynTab d') = allowedMaxSize (d_dynTab d)" if "length ((ub @ x) @ bs) < 2 ^ 61"
  proof -
    have l: "length bs < 2 ^ 61" using that by simp
    have "parse_loop n d ((ub @ x) @ bs) = parse_loop n ?d2 bs" for n
      using dt(1) [of n "x @ bs"] x(2) [OF l, of n] by simp
    then show ?thesis using bs(2) l d2 x(5) dt(4) by simp
  qed
  ultimately show ?case by blast
qed

lemma block_decoded:
  assumes "in_step e d (length fs + k)" and "updates_ok e d" and "\<forall>f \<in> set fs. fits d f"
    and "\<forall>f \<in> set fs. unat (allowedMaxSize (d_dynTab d)) + entry_size f < 2 ^ 32"
    and "d_emitEnabled d" and "d_saveBuf d = []"
  shows "\<exists>bs e'. WriteFields e fs = Some (bs, e') \<and>
    (length bs < 2 ^ 61 \<longrightarrow>
      (\<exists>d'. DecodeFull d bs = Some (Inr fs, d') \<and> in_step e' d' k \<and> d_firstField d' \<and> d_saveBuf d' = [] \<and> d_emitEnabled d'))"
proof -
  let ?d = "SetEmitFunc d collect []"
  have d: "in_step e ?d (length fs + k)" "updates_ok e ?d" "\<forall>f \<in> set fs. fits ?d f"
    "\<forall>f \<in> set fs. unat (allowedMaxSize (d_dynTab ?d)) + entry_size f < 2 ^ 32" "d_emit ?d = collect" "d_emitEnabled ?d"
    "d_env ?d = []" "d_saveBuf ?d = []"
    using assms by (simp_all add: SetEmitFunc_def in_step_def updates_ok_def fits_def)
  obtain bs e' where bs: "WriteFields e fs = Some (bs, e')"
    "length bs < 2 ^ 61 \<longrightarrow>
         (\<exists>d'. (\<forall>n. parse_loop n ?d bs = Some (n, None, d')) \<and> in_step e' d' k \<and> d_env d' = d_env ?d @ fs
           \<and> d_saveBuf d' = d_saveBuf ?d \<and> d_emitEnabled d' \<and> d_maxStrLen d' = d_maxStrLen ?d
           \<and> allowedMaxSize (d_dynTab d') = allowedMaxSize (d_dynTab ?d))"
    using WriteFields_decoded [OF d(1-6)] by blast
  have "\<exists>d'. DecodeFull d bs = Some (Inr fs, d') \<and> in_step e' d' k \<and> d_firstField d' \<and> d_saveBuf d' = [] \<and> d_emitEnabled d'"
    if short: "length bs < 2 ^ 61"
  proof -
    obtain d' where d': "\<And>n. parse_loop n ?d bs = Some (n, None, d')" "in_step e' d' k" "d_env d' = fs" "d_saveBuf d' = []"
      "d_emitEnabled d'" using bs(2) short d(7,8) by auto
    have "dec_Write ?d bs = Some (length bs, None, d')"
      using d'(1) [of 0] d'(1) [of "length bs"] d(8)
      by (cases "bs = []") (simp_all add: dec_Write_def parse_loop.simps [of 0 ?d "[]"])
    with d' show ?thesis
      by (auto simp: DecodeFull_def dec_Close_def SetEmitFunc_def in_step_def)
  qed
  with bs(1) show ?thesis by blast
qed

text \<open>C8: HPACK is lossless: a block of header fields written by an encoder is decoded, by a decoder that is
  in step with it, to exactly the fields that were written, in order and with their sensitivity;
  encoding never fails, and encoder and decoder are in step again afterwards. Whatever the tables
  hold, the fields may be indexed, literal, new, huffman-coded or follow table size updates. The
  hypotheses bound sizes (strings below 4 GiB and the decoder's limit, table plus entry below
  \<open>2 ^ 32\<close>) and say when pending size updates can be sent.\<close>

theorem hpack_block_roundtrip:
  assumes "in_step e d (length fs + k)" and "updates_ok e d" and "\<forall>f \<in> set fs. fits d f"
    and "\<forall>f \<in> set fs. unat (allowedMaxSize (d_dynTab d)) + entry_size f < 2 ^ 32"
    and "d_emitEnabled d" and "d_saveBuf d = []"
  shows "\<exists>bs e'. WriteFields e fs = Some (bs, e') \<and>
    (length bs < 2 ^ 61 \<longrightarrow>
      (\<exists>d'. DecodeFull d bs = Some (Inr fs, d') \<and> in_step e' d' k \<and> d_firstField d' \<and> d_saveBuf d' = [] \<and> d_emitEnabled d'))"
  using block_decoded [OF assms] .

section \<open>Fresh codecs are in step, and stay so when the table size changes\<close>

definition encoder0 :: Encoder where
  "encoder0 = \<lparr>e_dynTab = \<lparr>table = table_init, dt_size = 0, maxSize = 4096, allowedMaxSize = 0\<rparr>,
     e_minSize = uint32Max, e_maxSizeLimit = 4096, e_tableSizeUpdate = False\<rparr>"

lemma NewEncoder_encoder0: "NewEncoder = Some encoder0"
  by (simp add: NewEncoder_def encoder0_def new_dynTab_def setMaxSize_def evict_def evictOldest_def table_init_def table_len_def)

lemma in_step_new: "k < 2 ^ 64 \<Longrightarrow> in_step encoder0 decoder0 k"
  by (simp add: in_step_def encoder0_def decoder0_def wf_dyn_def wf_table_init) (simp add: table_init_def)

theorem hpack_block_roundtrip_witness:
  "\<exists>bs e'. WriteFields encoder0 [hf '':method'' ''GET'', hf ''x'' ''y''] = Some (bs, e') \<and>
    (length bs < 2 ^ 61 \<longrightarrow>
      (\<exists>d'. DecodeFull decoder0 bs = Some (Inr [hf '':method'' ''GET'', hf ''x'' ''y''], d') \<and> in_step e' d' 0
         \<and> d_firstField d' \<and> d_saveBuf d' = [] \<and> d_emitEnabled d'))"
proof (rule hpack_block_roundtrip)
  show "in_step encoder0 decoder0 (length [hf '':method'' ''GET'', hf ''x'' ''y''] + 0)" by (rule in_step_new) simp
qed (simp_all add: updates_ok_def encoder0_def decoder0_def fits_def entry_size_def)

text \<open>Changing the encoder's table size keeps it in step with the decoder as long as the new size stays
  within what the decoder allows; the change is announced with the next field.\<close>

theorem table_size_change_in_step:
  assumes "in_step e d k" and "e_maxSizeLimit e \<le> allowedMaxSize (d_dynTab d)"
  shows "(\<exists>e'. SetMaxDynamicTableSize e v = Some e' \<and> in_step e' d k \<and> e_tableSizeUpdate e'
            \<and> MaxDynamicTableSize e' = min v (e_maxSizeLimit e))
       \<and> (\<exists>e'. SetMaxDynamicTableSizeLimit e v = Some e' \<and> in_step e' d k
            \<and> MaxDynamicTableSize e' = min v (MaxDynamicTableSize e))"
proof
  let ?dt = "e_dynTab e" and ?ds = "ents (table (d_dynTab d))"
  have st: "wf_dyn ?dt" "evictCount (table ?dt) + length (ents (table ?dt)) < 2 ^ 64" "suffix (ents (table ?dt)) ?ds"
    "total_size (ents (table ?dt)) \<le> unat (e_minSize e)"
    using assms(1) by (simp_all add: in_step_def)
  have set: "\<exists>t. setMaxSize ?dt w = Some t \<and> maxSize t = w
      \<and> in_step (e\<lparr>e_dynTab := t, e_tableSizeUpdate := True, e_minSize := m, e_maxSizeLimit := l\<rparr>) d k"
    if w: "w \<le> allowedMaxSize (d_dynTab d)" "m = e_minSize e \<or> m = w" for w m l
  proof -
    obtain t where t: "setMaxSize ?dt w = Some t" "wf_dyn t" "ents (table t) = rfc_evict (unat w) (ents (table ?dt))"
      "maxSize t = w" "evictCount (table t) + length (ents (table t)) = evictCount (table ?dt) + length (ents (table ?dt))"
      using setMaxSize_spec [OF st(1,2)] by metis
    have "suffix (ents (table t)) ?ds" unfolding t(3) using rfc_evict_suffix st(3) by (rule suffix_order.trans)
    moreover have "total_size (ents (table t)) \<le> unat m"
      using w(2) wf_dyn_le [OF t(2)] t(3,4) total_size_suffix [OF rfc_evict_suffix, of "unat w" "ents (table ?dt)"] st(4) by auto
    ultimately show ?thesis using assms(1) t w(1) by (simp add: in_step_def)
  qed
  define w where "w = (if v > e_maxSizeLimit e then e_maxSizeLimit e else v)"
  define m where "m = (if w < e_minSize e then w else e_minSize e)"
  have "w \<le> allowedMaxSize (d_dynTab d)" "m = e_minSize e \<or> m = w" using assms(2) by (auto simp: w_def m_def)
  then obtain t where t: "setMaxSize ?dt w = Some t" "maxSize t = w"
    "in_step (e\<lparr>e_dynTab := t, e_tableSizeUpdate := True, e_minSize := m, e_maxSizeLimit := e_maxSizeLimit e\<rparr>) d k"
    using set by blast
  moreover have "SetMaxDynamicTableSize e v
      = Some (e\<lparr>e_dynTab := t, e_tableSizeUpdate := True, e_minSize := m, e_maxSizeLimit := e_maxSizeLimit e\<rparr>)"
    unfolding SetMaxDynamicTableSize_def Let_def w_def [symmetric] using t(1) by (cases e) (auto simp: m_def)
  moreover have "w = min v (e_maxSizeLimit e)" by (auto simp: w_def min_def)
  ultimately show "\<exists>e'. SetMaxDynamicTableSize e v = Some e' \<and> in_step e' d k \<and> e_tableSizeUpdate e'
      \<and> MaxDynamicTableSize e' = min v (e_maxSizeLimit e)"
    by (auto simp: MaxDynamicTableSize_def)
  show "\<exists>e'. SetMaxDynamicTableSizeLimit e v = Some e' \<and> in_step e' d k
            \<and> MaxDynamicTableSize e' = min v (MaxDynamicTableSize e)"
  proof (cases "maxSize ?dt > v")
    case True
    moreover have "maxSize ?dt \<le> allowedMaxSize (d_dynTab d)" using assms(1) by (simp add: in_step_def)
    ultimately have "v \<le> allowedMaxSize (d_dynTab d)" by simp
    from set [OF this, of "e_minSize e" v] obtain t where "setMaxSize ?dt v = Some t" "maxSize t = v"
      "in_step (e\<lparr>e_dynTab := t, e_tableSizeUpdate := True, e_minSize := e_minSize e, e_maxSizeLimit := v\<rparr>) d k" by auto
    then show ?thesis
      using True by (simp add: SetMaxDynamicTableSizeLimit_def Let_def MaxDynamicTableSize_def in_step_def)
  next
    case False
    then show ?thesis
      using assms(1) by (auto simp: SetMaxDynamicTableSizeLimit_def Let_def MaxDynamicTableSize_def in_step_def)
  qed
qed

theorem table_size_change_in_step_witness:
  "\<exists>e'. SetMaxDynamicTableSize encoder0 100 = Some e' \<and> in_step e' decoder0 7 \<and> e_tableSizeUpdate e'
     \<and> MaxDynamicTableSize e' = 100"
  using table_size_change_in_step [OF in_step_new [of 7], of 100] by (auto simp: encoder0_def decoder0_def)

section \<open>Two size updates in a row\<close>

text \<open>Between two blocks the table is first shrunk, then grown again.\<close>

definition shrink_then_grow :: "Encoder \<Rightarrow> u32 \<Rightarrow> u32 \<Rightarrow> Encoder option" where
  "shrink_then_grow e v w = Option.bind (SetMaxDynamicTableSize e v) (\<lambda>e. SetMaxDynamicTableSize e w)"

definition two_blocks :: "(bytes \<times> bytes) option" where
  "two_blocks =
     Option.bind (WriteFields encoder0 [hf ''x'' ''y'']) (\<lambda>(b1, e).
     Option.bind (shrink_then_grow e 100 4096) (\<lambda>e.
     map_option (\<lambda>(b2, e). (b1, b2)) (WriteFields e [hf ''x'' ''y''])))"

definition decode_two :: "(hpack_error + HeaderField list) list option" where
  "decode_two =
     Option.bind two_blocks (\<lambda>(b1, b2).
     Option.bind (DecodeFull decoder0 b1) (\<lambda>(r1, d).
     map_option (\<lambda>(r2, d). [r1, r2]) (DecodeFull d b2)))"


end
