(* ===== verification/Flow.thy ===== *)
theory Flow
  imports Prelude
begin

text \<open>
  Flow control of the HTTP/2 implementation (\<open>http2/flow.go\<close>). An \<open>int32\<close> is an \<open>int\<close>
  whose arithmetic wraps through \<open>int32\<close>; \<open>uint32\<close> conversions are \<open>mod 2^32\<close>. A panic is
  \<open>None\<close>. The outbound windows live in a store, because the streams of a connection share the
  connection's window through a pointer.
\<close>

section \<open>Signed 32-bit arithmetic\<close>

definition int32 :: "int \<Rightarrow> int" where
  "int32 x = (x + 2 ^ 31) mod 2 ^ 32 - 2 ^ 31"

definition uint32 :: "int \<Rightarrow> int" where
  "uint32 x = x mod 2 ^ 32"

definition in_int32 :: "int \<Rightarrow> bool" where
  "in_int32 x \<longleftrightarrow> - (2 ^ 31) \<le> x \<and> x < 2 ^ 31"

lemma int32_id [simp]: "in_int32 x \<Longrightarrow> int32 x = x"
  by (simp add: int32_def in_int32_def)

lemma in_int32_int32 [simp]: "in_int32 (int32 x)"
proof -
  have "0 \<le> (x + 2 ^ 31) mod 2 ^ 32" "(x + 2 ^ 31) mod 2 ^ 32 < 2 ^ 32" by simp_all
  then show ?thesis by (simp add: int32_def in_int32_def)
qed

lemma int32_over: "2 ^ 31 \<le> x \<Longrightarrow> x < 3 * 2 ^ 31 \<Longrightarrow> int32 x = x - 2 ^ 32"
  using mod_add_self2 [of "x - 2 ^ 31" "2 ^ 32"] by (simp add: int32_def add.commute)

lemma int32_under: "- (3 * 2 ^ 31) \<le> x \<Longrightarrow> x < - (2 ^ 31) \<Longrightarrow> int32 x = x + 2 ^ 32"
  using mod_add_self2 [of "x + 2 ^ 31" "2 ^ 32"] by (simp add: int32_def)

lemma uint32_id: "0 \<le> x \<Longrightarrow> x < 2 ^ 32 \<Longrightarrow> uint32 x = x"
  by (simp add: uint32_def)

section \<open>Inbound windows\<close>

abbreviation (input) inflowMinRefresh :: int where "inflowMinRefresh \<equiv> 4096"
abbreviation (input) maxWindow :: int where "maxWindow \<equiv> 2 ^ 31 - 1"

record inflow =
  avail :: int
  unsent :: int

definition inflow_init :: "inflow \<Rightarrow> int \<Rightarrow> inflow" where
  "inflow_init f n = f\<lparr>avail := n\<rparr>"

definition inflow_add :: "inflow \<Rightarrow> int \<Rightarrow> (int \<times> inflow) option" where
  "inflow_add f n =
     (if n < 0 then None
      else
        let u = unsent f + n in
        if u + avail f > maxWindow then None
        else
          let f = f\<lparr>unsent := int32 u\<rparr> in
          if unsent f < inflowMinRefresh \<and> unsent f < avail f then Some (0, f)
          else Some (int32 u, f\<lparr>avail := int32 (avail f + unsent f), unsent := 0\<rparr>))"

definition inflow_take :: "inflow \<Rightarrow> int \<Rightarrow> bool \<times> inflow" where
  "inflow_take f n =
     (if n > uint32 (avail f) then (False, f)
      else (True, f\<lparr>avail := int32 (avail f - int32 n)\<rparr>))"

definition takeInflows :: "inflow \<Rightarrow> inflow \<Rightarrow> int \<Rightarrow> bool \<times> inflow \<times> inflow" where
  "takeInflows f1 f2 n =
     (if n > uint32 (avail f1) \<or> n > uint32 (avail f2) then (False, f1, f2)
      else (True, f1\<lparr>avail := int32 (avail f1 - int32 n)\<rparr>, f2\<lparr>avail := int32 (avail f2 - int32 n)\<rparr>))"

section \<open>Outbound windows\<close>

record outflow =
  o_n :: int
  o_conn :: "nat option"

type_synonym flow_store = "nat \<Rightarrow> outflow"

definition setConnFlow :: "flow_store \<Rightarrow> nat \<Rightarrow> nat option \<Rightarrow> flow_store" where
  "setConnFlow h f cf = h(f := (h f)\<lparr>o_conn := cf\<rparr>)"

definition available :: "flow_store \<Rightarrow> nat \<Rightarrow> int" where
  "available h f =
     (let n = o_n (h f) in
      case o_conn (h f) of
        Some c \<Rightarrow> if o_n (h c) < n then o_n (h c) else n
      | None \<Rightarrow> n)"

definition outflow_take :: "flow_store \<Rightarrow> nat \<Rightarrow> int \<Rightarrow> flow_store option" where
  "outflow_take h f n =
     (if n > available h f then None
      else
        let h = h(f := (h f)\<lparr>o_n := int32 (o_n (h f) - n)\<rparr>) in
        Some (case o_conn (h f) of
          Some c \<Rightarrow> h(c := (h c)\<lparr>o_n := int32 (o_n (h c) - n)\<rparr>)
        | None \<Rightarrow> h))"

definition outflow_add :: "flow_store \<Rightarrow> nat \<Rightarrow> int \<Rightarrow> bool \<times> flow_store" where
  "outflow_add h f n =
     (let sum = int32 (o_n (h f) + n) in
      if (sum > n) = (o_n (h f) > 0) then (True, h(f := (h f)\<lparr>o_n := sum\<rparr>)) else (False, h))"

section \<open>Inbound accounting\<close>

definition wf_inflow :: "inflow \<Rightarrow> bool" where
  "wf_inflow f \<longleftrightarrow> 0 \<le> avail f \<and> 0 \<le> unsent f \<and> avail f + unsent f \<le> maxWindow"

lemma inflow_add_spec:
  assumes "wf_inflow f" and "inflow_add f n = Some (k, f')"
  shows "wf_inflow f' \<and> 0 \<le> k \<and> avail f' = avail f + k \<and> avail f' + unsent f' = avail f + unsent f + n
    \<and> (unsent f' = 0 \<or> unsent f' < inflowMinRefresh \<and> unsent f' < avail f')"
proof -
  from assms have n: "0 \<le> n" "unsent f + n + avail f \<le> maxWindow"
    by (auto simp: inflow_add_def Let_def split: if_splits)
  have u: "int32 (unsent f + n) = unsent f + n"
    using assms(1) n by (intro int32_id) (simp add: wf_inflow_def in_int32_def)
  have a: "int32 (avail f + (unsent f + n)) = avail f + (unsent f + n)"
    using assms(1) n by (intro int32_id) (simp add: wf_inflow_def in_int32_def)
  show ?thesis
    using assms n by (auto simp: inflow_add_def Let_def u a wf_inflow_def split: if_splits)
qed

lemma inflow_add_panics:
  "wf_inflow f \<Longrightarrow> inflow_add f n = None \<longleftrightarrow> n < 0 \<or> avail f + unsent f + n > maxWindow"
  by (auto simp: inflow_add_def Let_def)

lemma inflow_take_spec:
  assumes "wf_inflow f" and "0 \<le> n" and "n < 2 ^ 32"
  shows "inflow_take f n = (if n \<le> avail f then (True, f\<lparr>avail := avail f - n\<rparr>) else (False, f))"
proof -
  have "uint32 (avail f) = avail f" using assms(1) by (intro uint32_id) (simp_all add: wf_inflow_def)
  moreover have "int32 n = n" "int32 (avail f - n) = avail f - n" if "n \<le> avail f"
    using assms that by (simp_all add: wf_inflow_def in_int32_def)
  ultimately show ?thesis by (auto simp: inflow_take_def)
qed

text \<open>The operations on an inbound window as a step system: data arrives (\<open>take\<close>), or is consumed
  (\<open>add\<close>). \<open>sent\<close> is what has been announced to the peer in WINDOW_UPDATE frames, \<open>taken\<close> and
  \<open>consumed\<close> are the totals.\<close>

record inflow_run =
  flow :: inflow
  sent :: int
  taken :: int
  consumed :: int

inductive inflow_step :: "inflow_run \<Rightarrow> inflow_run \<Rightarrow> bool" where
  add: "inflow_add (flow s) n = Some (k, f) \<Longrightarrow>
     inflow_step s (s\<lparr>flow := f, sent := sent s + k, consumed := consumed s + n\<rparr>)"
| take: "0 \<le> n \<Longrightarrow> n < 2 ^ 32 \<Longrightarrow> inflow_take (flow s) n = (True, f) \<Longrightarrow>
     inflow_step s (s\<lparr>flow := f, taken := taken s + n\<rparr>)"

definition inflow_start :: "int \<Rightarrow> inflow_run" where
  "inflow_start w = \<lparr>flow = inflow_init \<lparr>avail = 0, unsent = 0\<rparr> w, sent = 0, taken = 0, consumed = 0\<rparr>"

definition inflow_inv :: "int \<Rightarrow> inflow_run \<Rightarrow> bool" where
  "inflow_inv w s \<longleftrightarrow>
     wf_inflow (flow s)
     \<and> avail (flow s) = w + sent s - taken s
     \<and> avail (flow s) + unsent (flow s) = w + consumed s - taken s
     \<and> (unsent (flow s) = 0 \<or> unsent (flow s) < inflowMinRefresh)"

lemma inflow_step_inv:
  assumes "inflow_step s t" and i: "inflow_inv w s"
  shows "inflow_inv w t"
  using assms(1)
proof cases
  case (add n k f)
  from i have "wf_inflow (flow s)" by (simp add: inflow_inv_def)
  from inflow_add_spec [OF this add(2)] i show ?thesis by (auto simp: inflow_inv_def add(1))
next
  case (take n f)
  from i have "wf_inflow (flow s)" by (simp add: inflow_inv_def)
  from inflow_take_spec [OF this take(2,3)] take i show ?thesis
    by (auto simp: inflow_inv_def wf_inflow_def split: if_splits)
qed

lemma inflow_reach_inv:
  assumes "inflow_step\<^sup>*\<^sup>* (inflow_start w) s" and "0 \<le> w" and "w \<le> maxWindow"
  shows "inflow_inv w s"
  using assms(1)
proof (induction rule: rtranclp_induct)
  case base
  show ?case using assms(2,3) by (simp add: inflow_inv_def inflow_start_def inflow_init_def wf_inflow_def)
qed (blast intro: inflow_step_inv)

text \<open>C31: inbound flow control never loses or invents window. Over any sequence of received data and consumed
  bytes, the window the peer may use is the initial one plus the announced updates minus the
  data received; what has been consumed but not announced is held back and stays below 4096
  bytes; window and held-back bytes stay non-negative and within \<open>2^31 - 1\<close> together; and
  nothing panics except a negative update or one past that maximum.\<close>

theorem inflow_conservation:
  assumes "inflow_step\<^sup>*\<^sup>* (inflow_start w) s" and "0 \<le> w" and "w \<le> 2 ^ 31 - 1"
  shows "avail (flow s) = w + sent s - taken s
    \<and> unsent (flow s) = consumed s - sent s \<and> 0 \<le> unsent (flow s) \<and> unsent (flow s) < 4096
    \<and> 0 \<le> avail (flow s) \<and> avail (flow s) + unsent (flow s) \<le> 2 ^ 31 - 1
    \<and> (inflow_add (flow s) n = None \<longleftrightarrow> n < 0 \<or> avail (flow s) + unsent (flow s) + n > 2 ^ 31 - 1)"
  using inflow_reach_inv [OF assms] inflow_add_panics [of "flow s" n]
  by (auto simp: inflow_inv_def wf_inflow_def)

theorem inflow_conservation_witness:
  "\<exists>s. inflow_step\<^sup>*\<^sup>* (inflow_start 100) s \<and> taken s = 60 \<and> consumed s = 20 \<and> unsent (flow s) = 20 - sent s
    \<and> avail (flow s) = 40 + sent s"
proof -
  let ?a = "(inflow_start 100)\<lparr>flow := \<lparr>avail = 40, unsent = 0\<rparr>, taken := 60\<rparr>"
  let ?b = "?a\<lparr>flow := \<lparr>avail = 40, unsent = 20\<rparr>, sent := 0, consumed := 20\<rparr>"
  have "inflow_take (flow (inflow_start 100)) 60 = (True, \<lparr>avail = 40, unsent = 0\<rparr>)"
    by (simp add: inflow_start_def inflow_init_def inflow_take_def uint32_def int32_def)
  from take [OF _ _ this] have "inflow_step (inflow_start 100) ?a" by (simp add: inflow_start_def)
  moreover have "inflow_add (flow ?a) 20 = Some (0, \<lparr>avail = 40, unsent = 20\<rparr>)"
    by (simp add: inflow_add_def int32_def)
  from add [OF this] have "inflow_step ?a ?b" by (simp add: inflow_start_def)
  ultimately have "inflow_step\<^sup>*\<^sup>* (inflow_start 100) ?b" by (meson converse_rtranclp_into_rtranclp r_into_rtranclp)
  with inflow_conservation [OF this, of 0] show ?thesis
    by (intro exI [of _ ?b]) (simp add: inflow_start_def)
qed

text \<open>The peer never stalls: when the consumer has just caught up with the data received, at least half
  of the initial window is open to the peer again, although small updates are held back.\<close>

theorem inflow_no_stall:
  assumes "inflow_step\<^sup>*\<^sup>* (inflow_start w) s" and "0 \<le> w" and "w \<le> 2 ^ 31 - 1"
    and "inflow_add (flow s) n = Some (k, f)" and "consumed s + n = taken s"
  shows "w \<le> 2 * avail f \<and> avail f + unsent f = w"
proof -
  have i: "inflow_inv w s" using assms(1-3) by (intro inflow_reach_inv) simp_all
  then have "wf_inflow (flow s)" by (simp add: inflow_inv_def)
  from inflow_add_spec [OF this assms(4)] i assms(5) show ?thesis
    by (auto simp: inflow_inv_def wf_inflow_def)
qed

theorem inflow_no_stall_witness:
  "\<exists>f k. inflow_add \<lparr>avail = 40, unsent = 0\<rparr> 60 = Some (k, f) \<and> 100 \<le> 2 * avail f"
proof -
  let ?a = "(inflow_start 100)\<lparr>flow := \<lparr>avail = 40, unsent = 0\<rparr>, taken := 60\<rparr>"
  have "inflow_take (flow (inflow_start 100)) 60 = (True, \<lparr>avail = 40, unsent = 0\<rparr>)"
    by (simp add: inflow_start_def inflow_init_def inflow_take_def uint32_def int32_def)
  from take [OF _ _ this] have "inflow_step (inflow_start 100) ?a" by (simp add: inflow_start_def)
  then have r: "inflow_step\<^sup>*\<^sup>* (inflow_start 100) ?a" by blast
  have "inflow_add (flow ?a) 60 = Some (60, \<lparr>avail = 100, unsent = 0\<rparr>)"
    by (simp add: inflow_add_def int32_def)
  from inflow_no_stall [OF r _ _ this] this show ?thesis by (auto simp: inflow_start_def)
qed

section \<open>Outbound windows\<close>

text \<open>\<open>outflow.add\<close> detects overflow exactly: it reports success if and only if the mathematical sum fits
  an \<open>int32\<close>, and then the window is that sum; otherwise nothing changes.\<close>

theorem outflow_add_exact:
  assumes "in_int32 (o_n (h f))" and "in_int32 n"
  shows "outflow_add h f n =
    (if in_int32 (o_n (h f) + n) then (True, h(f := (h f)\<lparr>o_n := o_n (h f) + n\<rparr>)) else (False, h))"
proof -
  consider (fits) "in_int32 (o_n (h f) + n)" | (over) "o_n (h f) + n \<ge> 2 ^ 31" | (under) "o_n (h f) + n < - (2 ^ 31)"
    unfolding in_int32_def by linarith
  then show ?thesis
  proof cases
    case fits
    then show ?thesis by (simp add: outflow_add_def)
  next
    case over
    then have "int32 (o_n (h f) + n) = o_n (h f) + n - 2 ^ 32"
      using assms by (intro int32_over) (simp_all add: in_int32_def)
    then show ?thesis using over assms by (simp add: outflow_add_def in_int32_def)
  next
    case under
    then have "int32 (o_n (h f) + n) = o_n (h f) + n + 2 ^ 32"
      using assms by (intro int32_under) (simp_all add: in_int32_def)
    then show ?thesis using under assms by (simp add: outflow_add_def in_int32_def)
  qed
qed

theorem outflow_add_exact_witness:
  "outflow_add (\<lambda>_. \<lparr>o_n = 2147483647, o_conn = None\<rparr>) 0 1 = (False, \<lambda>_. \<lparr>o_n = 2147483647, o_conn = None\<rparr>)"
  using outflow_add_exact [of "\<lambda>_. \<lparr>o_n = 2147483647, o_conn = None\<rparr>" 0 1] by (simp add: in_int32_def)

text \<open>\<open>take\<close> respects both windows: for a stream whose connection window is another cell, taking \<open>n >= 0\<close> bytes
  panics exactly when the stream or the connection has less; otherwise both windows shrink by
  \<open>n\<close> without wrapping, stay non-negative, and no other stream's own window changes.\<close>

theorem outflow_take_both:
  assumes "o_conn (h f) = Some c" and "c \<noteq> f" and "0 \<le> n"
    and "in_int32 (o_n (h f))" and "in_int32 (o_n (h c))"
  shows "(outflow_take h f n = None \<longleftrightarrow> n > o_n (h f) \<or> n > o_n (h c))
    \<and> (\<forall>h'. outflow_take h f n = Some h' \<longrightarrow>
        o_n (h' f) = o_n (h f) - n \<and> o_n (h' c) = o_n (h c) - n \<and> 0 \<le> o_n (h' f) \<and> 0 \<le> o_n (h' c)
        \<and> (\<forall>g. g \<noteq> f \<and> g \<noteq> c \<longrightarrow> h' g = h g) \<and> (\<forall>g. o_conn (h' g) = o_conn (h g)))"
proof -
  have "in_int32 (o_n (h f) - n)" "in_int32 (o_n (h c) - n)" if "n \<le> o_n (h f)" "n \<le> o_n (h c)"
    using assms that by (simp_all add: in_int32_def)
  then show ?thesis
    using assms by (auto simp: outflow_take_def available_def Let_def split: if_splits)
qed

theorem outflow_take_both_witness:
  "\<exists>h'. outflow_take (\<lambda>a. \<lparr>o_n = 10, o_conn = if a = 1 then Some 0 else None\<rparr>) 1 4 = Some h'
     \<and> o_n (h' 0) = 6 \<and> o_n (h' 1) = 6 \<and> o_n (h' 2) = 10"
proof -
  let ?h = "\<lambda>a :: nat. \<lparr>o_n = 10, o_conn = if a = 1 then Some 0 else None\<rparr>"
  have t: "(outflow_take ?h 1 4 = None \<longleftrightarrow> 4 > o_n (?h 1) \<or> 4 > o_n (?h 0))
    \<and> (\<forall>h'. outflow_take ?h 1 4 = Some h' \<longrightarrow>
        o_n (h' 1) = o_n (?h 1) - 4 \<and> o_n (h' 0) = o_n (?h 0) - 4 \<and> 0 \<le> o_n (h' 1) \<and> 0 \<le> o_n (h' 0)
        \<and> (\<forall>g. g \<noteq> 1 \<and> g \<noteq> 0 \<longrightarrow> h' g = ?h g) \<and> (\<forall>g. o_conn (h' g) = o_conn (?h g)))"
    by (rule outflow_take_both) (simp_all add: in_int32_def)
  then obtain h' where h': "outflow_take ?h 1 4 = Some h'" by (cases "outflow_take ?h 1 4") simp_all
  from t [THEN conjunct2, rule_format, OF h'] have "o_n (h' 0) = 6" "o_n (h' 1) = 6" "h' 2 = ?h 2" by simp_all
  with h' show ?thesis by simp
qed

end
