(* ===== verification/Data_Buffer.thy ===== *)
theory Data_Buffer
  imports Prelude
begin

text \<open>
  The chunked byte buffer of the HTTP/2 implementation (\<open>http2/databuffer.go\<close>). The chunk
  pools hand out chunks with whatever a previous user left in them: the argument \<open>stale\<close> gives
  these bytes, possibly others at every allocation. A destination slice of \<open>Read\<close> is its
  length; the bytes copied into it are the result. The loops are \<open>partial_function\<close>s:
  \<open>None\<close> is a panic or an endless loop, and the theorems show that neither happens.
\<close>

section \<open>The interface of a pipe buffer\<close>

text \<open>
  \<open>pipeBuffer\<close> of \<open>pipe.go\<close> as a locale: a buffer holds a queue of bytes (\<open>queue\<close>); \<open>Len\<close> is its
  length, \<open>Write\<close> appends, \<open>Read\<close> removes as many bytes from the front as fit, and fails only
  when there are none.
\<close>

locale pipe_buffer =
  fixes queue :: "'b \<Rightarrow> bytes"
    and inv :: "'b \<Rightarrow> bool"
    and buf_Len :: "'b \<Rightarrow> nat"
    and buf_Read :: "'b \<Rightarrow> nat \<Rightarrow> (bytes option \<times> 'b) option"
    and buf_Write :: "'b \<Rightarrow> bytes \<Rightarrow> (nat \<times> 'b) option"
  assumes Len_queue: "inv b \<Longrightarrow> buf_Len b = length (queue b)"
    and Read_some: "inv b \<Longrightarrow> queue b \<noteq> [] \<Longrightarrow>
      \<exists>b'. buf_Read b k = Some (Some (take k (queue b)), b') \<and> inv b' \<and> queue b' = drop k (queue b)"
    and Read_empty: "inv b \<Longrightarrow> queue b = [] \<Longrightarrow> buf_Read b k = Some (None, b)"
    and Write_appends: "inv b \<Longrightarrow>
      \<exists>b'. buf_Write b p = Some (length p, b') \<and> inv b' \<and> queue b' = queue b @ p"

section \<open>Chunks\<close>

abbreviation chunk_sizes :: "nat set" where
  "chunk_sizes \<equiv> {1024, 2048, 4096, 8192, 16384}"

definition getDataBufferChunk :: "(nat \<Rightarrow> byte) \<Rightarrow> int \<Rightarrow> bytes" where
  "getDataBufferChunk stale want =
     (if want \<le> 1024 then map stale [0..<1024]
      else if want \<le> 2048 then map stale [0..<2048]
      else if want \<le> 4096 then map stale [0..<4096]
      else if want \<le> 8192 then map stale [0..<8192]
      else map stale [0..<16384])"

text \<open>\<open>putDataBufferChunk\<close> returns a chunk to its pool; it panics on an unknown length.\<close>

definition putDataBufferChunk_ok :: "bytes \<Rightarrow> bool" where
  "putDataBufferChunk_ok p \<longleftrightarrow> length p \<in> chunk_sizes"

record dataBuffer =
  chunks :: "bytes list"
  b_r :: nat
  b_w :: nat
  b_size :: nat
  b_expected :: int

definition bytesFromFirstChunk :: "dataBuffer \<Rightarrow> bytes" where
  "bytesFromFirstChunk b =
     (if length (chunks b) = 1 then drop (b_r b) (take (b_w b) (chunks b ! 0))
      else drop (b_r b) (chunks b ! 0))"

definition dataBuffer_Len :: "dataBuffer \<Rightarrow> nat" where
  "dataBuffer_Len b = b_size b"

text \<open>One round of the loop of \<open>Read\<close>, on a destination with \<open>k\<close> bytes left.\<close>

definition read_round :: "dataBuffer \<Rightarrow> nat \<Rightarrow> (bytes \<times> dataBuffer) option" where
  "read_round b k =
     (if chunks b = [] then None
      else
        let readFrom = bytesFromFirstChunk b;
            n = min k (length readFrom);
            b = b\<lparr>b_r := b_r b + n, b_size := b_size b - n\<rparr>
        in if b_r b = length (chunks b ! 0) then
             if putDataBufferChunk_ok (chunks b ! 0)
             then Some (take n readFrom, b\<lparr>chunks := tl (chunks b), b_r := 0\<rparr>) else None
           else Some (take n readFrom, b))"

partial_function (option) read_loop :: "dataBuffer \<Rightarrow> nat \<Rightarrow> (bytes \<times> dataBuffer) option" where
  "read_loop b k =
     (if k > 0 \<and> b_size b > 0
      then Option.bind (read_round b k) (\<lambda>(xs, b').
             Option.bind (read_loop b' (k - length xs)) (\<lambda>(ys, b''). Some (xs @ ys, b'')))
      else Some ([], b))"

text \<open>\<open>Read\<close>: an inner \<open>None\<close> is \<open>errReadEmpty\<close>.\<close>

definition dataBuffer_Read :: "dataBuffer \<Rightarrow> nat \<Rightarrow> (bytes option \<times> dataBuffer) option" where
  "dataBuffer_Read b k =
     (if b_size b = 0 then Some (None, b)
      else map_option (\<lambda>(xs, b'). (Some xs, b')) (read_loop b k))"

definition lastChunkOrAlloc :: "(dataBuffer \<Rightarrow> nat \<Rightarrow> byte) \<Rightarrow> dataBuffer \<Rightarrow> int \<Rightarrow> dataBuffer" where
  "lastChunkOrAlloc stale b want =
     (if length (chunks b) \<noteq> 0 \<and> b_w b < length (last (chunks b)) then b
      else b\<lparr>chunks := chunks b @ [getDataBufferChunk (stale b) want], b_w := 0\<rparr>)"

text \<open>\<open>copy(dst[w:], p)\<close>: overwrite part of a chunk, as many bytes as fit.\<close>

definition copy_at :: "bytes \<Rightarrow> nat \<Rightarrow> bytes \<Rightarrow> bytes" where
  "copy_at dst w p =
     take w dst @ take (length dst - w) p @ drop (w + min (length dst - w) (length p)) dst"

definition write_round :: "(dataBuffer \<Rightarrow> nat \<Rightarrow> byte) \<Rightarrow> dataBuffer \<Rightarrow> bytes \<Rightarrow> nat \<times> dataBuffer" where
  "write_round stale b p =
     (let want = (if b_expected b > int (length p) then b_expected b else int (length p));
          b = lastChunkOrAlloc stale b want;
          chunk = last (chunks b);
          n = min (length chunk - b_w b) (length p)
      in (n, b\<lparr>chunks := butlast (chunks b) @ [copy_at chunk (b_w b) p], b_w := b_w b + n,
               b_size := b_size b + n, b_expected := b_expected b - int n\<rparr>))"

partial_function (option) write_loop :: "(dataBuffer \<Rightarrow> nat \<Rightarrow> byte) \<Rightarrow> dataBuffer \<Rightarrow> bytes \<Rightarrow> dataBuffer option" where
  "write_loop stale b p =
     (if length p > 0 then let (n, b') = write_round stale b p in write_loop stale b' (drop n p) else Some b)"

definition dataBuffer_Write :: "(dataBuffer \<Rightarrow> nat \<Rightarrow> byte) \<Rightarrow> dataBuffer \<Rightarrow> bytes \<Rightarrow> (nat \<times> dataBuffer) option" where
  "dataBuffer_Write stale b p = map_option (\<lambda>b'. (length p, b')) (write_loop stale b p)"

section \<open>The queue that a buffer holds\<close>

fun unread :: "bytes list \<Rightarrow> nat \<Rightarrow> nat \<Rightarrow> bytes" where
  "unread [] r w = []"
| "unread [c] r w = drop r (take w c)"
| "unread (c # d # cs) r w = drop r c @ unread (d # cs) 0 w"

definition queue_of :: "dataBuffer \<Rightarrow> bytes" where
  "queue_of b = unread (chunks b) (b_r b) (b_w b)"

definition wf_buffer :: "dataBuffer \<Rightarrow> bool" where
  "wf_buffer b \<longleftrightarrow>
     (\<forall>c \<in> set (chunks b). length c \<in> chunk_sizes)
     \<and> (chunks b = [] \<longrightarrow> b_r b = 0)
     \<and> (chunks b \<noteq> [] \<longrightarrow> b_r b < length (hd (chunks b)) \<and> b_w b \<le> length (last (chunks b))
          \<and> (length (chunks b) = 1 \<longrightarrow> b_r b \<le> b_w b))
     \<and> b_size b = length (queue_of b)"

lemma wf_empty: "wf_buffer \<lparr>chunks = [], b_r = 0, b_w = 0, b_size = 0, b_expected = e\<rparr>"
  by (simp add: wf_buffer_def queue_of_def)

text \<open>One round of reading.\<close>

lemma read_round_spec:
  assumes "wf_buffer b" and "k > 0" and "b_size b > 0"
  shows "\<exists>n b'. read_round b k = Some (take n (queue_of b), b') \<and> 0 < n \<and> n \<le> k \<and> n \<le> length (queue_of b)
    \<and> wf_buffer b' \<and> queue_of b' = drop n (queue_of b)"
proof (cases "chunks b")
  case Nil
  with assms show ?thesis by (simp add: wf_buffer_def queue_of_def)
next
  case (Cons c cs)
  have c: "length c \<in> chunk_sizes" "b_r b < length c" using assms(1) Cons by (simp_all add: wf_buffer_def)
  define n where "n = min k (length (bytesFromFirstChunk b))"
  show ?thesis
  proof (cases cs)
    case Nil
    have w: "b_r b \<le> b_w b" "b_w b \<le> length c" using assms(1) Cons Nil by (simp_all add: wf_buffer_def)
    have q: "queue_of b = drop (b_r b) (take (b_w b) c)" "bytesFromFirstChunk b = queue_of b"
      using Cons Nil by (simp_all add: queue_of_def bytesFromFirstChunk_def)
    have len: "length (queue_of b) = b_w b - b_r b" using w q by simp
    have n: "0 < n" "n \<le> k" "n \<le> length (queue_of b)" "b_r b + n \<le> b_w b"
      using assms q(2) len by (auto simp: n_def wf_buffer_def)
    let ?b = "b\<lparr>b_r := b_r b + n, b_size := b_size b - n\<rparr>"
    let ?b' = "if b_r b + n = length c then ?b\<lparr>chunks := [], b_r := 0\<rparr> else ?b"
    have "read_round b k = Some (take n (queue_of b), ?b')"
      using Cons Nil c(1) q(2) by (simp add: read_round_def Let_def n_def putDataBufferChunk_ok_def)
    moreover have "queue_of ?b' = drop n (queue_of b)"
      using Cons Nil w n q(1) by (auto simp: queue_of_def add.commute)
    moreover have "wf_buffer ?b'"
      using assms(1) Cons Nil w n c len calculation(2) by (auto simp: wf_buffer_def)
    ultimately show ?thesis using n by blast
  next
    case (Cons d ds)
    with \<open>chunks b = c # cs\<close> have ch: "chunks b = c # d # ds" by simp
    have q: "queue_of b = drop (b_r b) c @ unread (d # ds) 0 (b_w b)" "bytesFromFirstChunk b = drop (b_r b) c"
      using ch by (simp_all add: queue_of_def bytesFromFirstChunk_def)
    have n: "0 < n" "n \<le> k" "n \<le> length c - b_r b" using assms c(2) q(2) by (auto simp: n_def)
    let ?b = "b\<lparr>b_r := b_r b + n, b_size := b_size b - n\<rparr>"
    let ?b' = "if b_r b + n = length c then ?b\<lparr>chunks := d # ds, b_r := 0\<rparr> else ?b"
    have t: "take n (drop (b_r b) c) = take n (queue_of b)" using n(3) q(1) by simp
    have "read_round b k = Some (take n (drop (b_r b) c), ?b')"
      using ch c(1) q(2) by (simp add: read_round_def Let_def n_def putDataBufferChunk_ok_def)
    moreover have dq: "queue_of ?b' = drop n (queue_of b)"
      using ch n q(1) by (auto simp: queue_of_def add.commute)
    moreover have "wf_buffer ?b'"
    proof -
      have "length d \<in> chunk_sizes" using assms(1) ch by (simp add: wf_buffer_def)
      then have "0 < length d" by auto
      then show ?thesis using assms(1) ch n c dq by (auto simp: wf_buffer_def)
    qed
    ultimately show ?thesis using n q(1) unfolding t by (intro exI [of _ n] exI [of _ ?b']) simp
  qed
qed

lemma read_loop_spec:
  "wf_buffer b \<Longrightarrow>
     \<exists>b'. read_loop b k = Some (take k (queue_of b), b') \<and> wf_buffer b' \<and> queue_of b' = drop k (queue_of b)"
proof (induction k arbitrary: b rule: less_induct)
  case (less k)
  show ?case
  proof (cases "k > 0 \<and> b_size b > 0")
    case False
    then have "k = 0 \<or> queue_of b = []" using less.prems by (auto simp: wf_buffer_def)
    with False less.prems show ?thesis by (subst read_loop.simps) auto
  next
    case True
    then obtain n b' where r: "read_round b k = Some (take n (queue_of b), b')" "0 < n" "n \<le> k"
      "n \<le> length (queue_of b)" "wf_buffer b'" "queue_of b' = drop n (queue_of b)"
      using read_round_spec [OF less.prems, of k] by blast
    then have "k - n < k" using True by simp
    from less.IH [OF this r(5)] obtain b'' where
      l: "read_loop b' (k - n) = Some (take (k - n) (queue_of b'), b'')" "wf_buffer b''"
        "queue_of b'' = drop (k - n) (queue_of b')" by blast
    have "read_loop b k = Some (take n (queue_of b) @ take (k - n) (queue_of b'), b'')"
      using True r l by (subst read_loop.simps) simp
    moreover have "take n (queue_of b) @ take (k - n) (queue_of b') = take k (queue_of b)"
      using r(3,6) by (metis le_add_diff_inverse take_add)
    ultimately show ?thesis using l r(3,6) by simp
  qed
qed

section \<open>Writing\<close>

lemma unread_snoc: "cs \<noteq> [] \<Longrightarrow> unread (cs @ [c]) r w = drop r (hd cs) @ concat (tl cs) @ take w c"
proof (induction cs arbitrary: r)
  case (Cons a cs)
  then show ?case by (cases cs) simp_all
qed simp

lemma unread_snoc_write:
  assumes "w + n \<le> length c" and "take w c' = take w c" and "length c' = length c" and "cs = [] \<longrightarrow> r \<le> w"
    and "take n (drop w c') = take n p" and "n \<le> length p"
  shows "unread (cs @ [c']) r (w + n) = unread (cs @ [c]) r w @ take n p"
proof -
  have "take (w + n) c' = take w c @ take n p" using assms(2,5) by (simp add: take_add)
  then show ?thesis using assms by (cases "cs = []") (simp_all add: unread_snoc)
qed

lemma getDataBufferChunk_size:
  "length (getDataBufferChunk st want) \<in> chunk_sizes"
  by (simp add: getDataBufferChunk_def)

lemma lastChunkOrAlloc_spec:
  assumes "wf_buffer b"
  obtains cs c where "chunks (lastChunkOrAlloc stale b want) = cs @ [c]"
    and "\<forall>d \<in> set (cs @ [c]). length d \<in> chunk_sizes"
    and "b_w (lastChunkOrAlloc stale b want) < length c"
    and "cs = [] \<longrightarrow> b_r b \<le> b_w (lastChunkOrAlloc stale b want)"
    and "b_r b < length (hd (cs @ [c]))"
    and "unread (cs @ [c]) (b_r b) (b_w (lastChunkOrAlloc stale b want)) = queue_of b"
proof (cases "chunks b \<noteq> [] \<and> b_w b < length (last (chunks b))")
  case True
  then have ch: "chunks b = butlast (chunks b) @ [last (chunks b)]" by simp
  have "lastChunkOrAlloc stale b want = b" using True by (simp add: lastChunkOrAlloc_def)
  moreover have "b_r b \<le> b_w b" if "butlast (chunks b) = []"
  proof -
    have "length (chunks b) = 1" using ch that by (metis One_nat_def append_Nil length_Cons list.size(3))
    with assms(1) True show ?thesis by (simp add: wf_buffer_def)
  qed
  ultimately show thesis
    using True assms(1) ch that [of "butlast (chunks b)" "last (chunks b)"]
    by (simp add: wf_buffer_def queue_of_def)
next
  case False
  let ?c = "getDataBufferChunk (stale b) want"
  have l: "lastChunkOrAlloc stale b want = b\<lparr>chunks := chunks b @ [?c], b_w := 0\<rparr>"
    using False by (auto simp: lastChunkOrAlloc_def)
  have c: "length ?c \<in> chunk_sizes" by (rule getDataBufferChunk_size)
  then have c0: "0 < length ?c" by auto
  have q: "unread (chunks b @ [?c]) (b_r b) 0 = queue_of b"
  proof (cases "chunks b = []")
    case True
    then show ?thesis by (simp add: queue_of_def)
  next
    case ne: False
    then have w: "b_w b = length (last (chunks b))" using assms False by (auto simp: wf_buffer_def)
    have ch: "chunks b = butlast (chunks b) @ [last (chunks b)]" using ne by simp
    show ?thesis
    proof (cases "butlast (chunks b) = []")
      case True
      with ch obtain a where "chunks b = [a]" by (metis append_Nil)
      then show ?thesis using w by (simp add: queue_of_def)
    next
      case False
      have "hd (chunks b) = hd (butlast (chunks b))" using ch False by (metis hd_append2)
      moreover have "concat (tl (chunks b)) = concat (tl (butlast (chunks b))) @ last (chunks b)"
        using ch False by (metis concat.simps(1,2) concat_append self_append_conv tl_append2)
      moreover have "queue_of b = drop (b_r b) (hd (butlast (chunks b))) @ concat (tl (butlast (chunks b))) @ last (chunks b)"
        unfolding queue_of_def using unread_snoc [OF False, of "last (chunks b)" "b_r b" "b_w b"] ch w by simp
      ultimately show ?thesis using unread_snoc [OF ne, of ?c "b_r b" 0] by simp
    qed
  qed
  have "b_r b < length (hd (chunks b @ [?c]))" "chunks b = [] \<longrightarrow> b_r b \<le> 0"
    using assms(1) c0 by (cases "chunks b"; auto simp: wf_buffer_def)+
  moreover have "\<forall>d \<in> set (chunks b @ [?c]). length d \<in> chunk_sizes"
    using assms(1) c by (auto simp: wf_buffer_def)
  ultimately show thesis using that [of "chunks b" ?c] l c0 q by simp
qed

lemma write_round_spec:
  assumes "wf_buffer b" and "p \<noteq> []"
  shows "\<exists>n b'. write_round stale b p = (n, b') \<and> 0 < n \<and> n \<le> length p \<and> wf_buffer b'
    \<and> queue_of b' = queue_of b @ take n p"
proof -
  let ?want = "if b_expected b > int (length p) then b_expected b else int (length p)"
  let ?b = "lastChunkOrAlloc stale b ?want"
  obtain cs c where l: "chunks ?b = cs @ [c]" "\<forall>d \<in> set (cs @ [c]). length d \<in> chunk_sizes" "b_w ?b < length c"
    "cs = [] \<longrightarrow> b_r b \<le> b_w ?b" "b_r b < length (hd (cs @ [c]))" "unread (cs @ [c]) (b_r b) (b_w ?b) = queue_of b"
    using lastChunkOrAlloc_spec [OF assms(1)] by blast
  have same: "b_r ?b = b_r b" "b_size ?b = b_size b" "b_expected ?b = b_expected b"
    by (simp_all add: lastChunkOrAlloc_def)
  define n where "n = min (length c - b_w ?b) (length p)"
  define c' where "c' = copy_at c (b_w ?b) p"
  have n: "0 < n" "n \<le> length p" "b_w ?b + n \<le> length c" using l(3) assms(2) by (auto simp: n_def)
  have c': "length c' = length c" "take (b_w ?b) c' = take (b_w ?b) c" "take n (drop (b_w ?b) c') = take n p"
    using l(3) by (auto simp: c'_def copy_at_def n_def min_def)
  let ?b' = "?b\<lparr>chunks := cs @ [c'], b_w := b_w ?b + n, b_size := b_size b + n, b_expected := b_expected b - int n\<rparr>"
  have "write_round stale b p = (n, ?b')" using l(1) same by (simp add: write_round_def Let_def n_def c'_def)
  moreover have q: "queue_of ?b' = queue_of b @ take n p"
    unfolding l(6) [symmetric] using n c' l(4) same(1)
    by (simp add: queue_of_def unread_snoc_write [of "b_w ?b" n c c'])
  moreover have "wf_buffer ?b'"
    using assms(1) l n c' q same by (cases cs) (auto simp: wf_buffer_def)
  ultimately show ?thesis using n by blast
qed

lemma write_loop_spec:
  "wf_buffer b \<Longrightarrow> \<exists>b'. write_loop stale b p = Some b' \<and> wf_buffer b' \<and> queue_of b' = queue_of b @ p"
proof (induction "length p" arbitrary: b p rule: less_induct)
  case less
  show ?case
  proof (cases "p = []")
    case True
    with less.prems show ?thesis by (subst write_loop.simps) simp
  next
    case False
    then obtain n b' where w: "write_round stale b p = (n, b')" "0 < n" "n \<le> length p" "wf_buffer b'"
      "queue_of b' = queue_of b @ take n p"
      using write_round_spec [OF less.prems] by blast
    then have "length (drop n p) < length p" by simp
    from less.hyps [OF this w(4)] show ?thesis
      using False w by (subst write_loop.simps) auto
  qed
qed

section \<open>The buffer implements the interface\<close>

lemma b_size_queue: "wf_buffer b \<Longrightarrow> b_size b = length (queue_of b)"
  by (simp add: wf_buffer_def)

interpretation data_buffer: pipe_buffer queue_of wf_buffer dataBuffer_Len dataBuffer_Read "dataBuffer_Write stale"
  for stale
proof
  fix b k p
  show "dataBuffer_Len b = length (queue_of b)" if "wf_buffer b"
    using that by (simp add: dataBuffer_Len_def b_size_queue)
  show "\<exists>b'. dataBuffer_Read b k = Some (Some (take k (queue_of b)), b') \<and> wf_buffer b' \<and> queue_of b' = drop k (queue_of b)"
    if "wf_buffer b" "queue_of b \<noteq> []"
    using read_loop_spec [OF that(1), of k] that by (auto simp: dataBuffer_Read_def b_size_queue)
  show "dataBuffer_Read b k = Some (None, b)" if "wf_buffer b" "queue_of b = []"
    using that by (simp add: dataBuffer_Read_def b_size_queue)
  show "\<exists>b'. dataBuffer_Write stale b p = Some (length p, b') \<and> wf_buffer b' \<and> queue_of b' = queue_of b @ p"
    if "wf_buffer b"
    using write_loop_spec [OF that, of stale p] by (auto simp: dataBuffer_Write_def)
qed

text \<open>C32: the chunked buffer is a byte queue. From every well-formed buffer, \<open>Write\<close> terminates, takes all bytes
  and appends them; \<open>Read\<close> terminates and returns exactly the next bytes, as many as fit, or
  \<open>errReadEmpty\<close> when there are none; \<open>Len\<close> is the number of unread bytes; the buffer stays
  well-formed, and the stale content of pooled chunks never shows.\<close>

theorem dataBuffer_is_queue:
  assumes "wf_buffer b"
  shows "(\<exists>b'. dataBuffer_Write stale b p = Some (length p, b') \<and> wf_buffer b' \<and> queue_of b' = queue_of b @ p)
    \<and> (\<exists>b'. dataBuffer_Read b k =
          Some (if queue_of b = [] then None else Some (take k (queue_of b)), b')
        \<and> wf_buffer b' \<and> queue_of b' = drop k (queue_of b))
    \<and> dataBuffer_Len b = length (queue_of b)"
  using data_buffer.Write_appends [OF assms, of stale p] data_buffer.Len_queue [OF assms]
    data_buffer.Read_some [OF assms, of k] data_buffer.Read_empty [OF assms, of k] assms
  by (cases "queue_of b = []") simp_all

theorem dataBuffer_is_queue_witness:
  "\<exists>b'. dataBuffer_Write (\<lambda>_ _. 9) \<lparr>chunks = [], b_r = 0, b_w = 0, b_size = 0, b_expected = 0\<rparr> [1, 2, 3] = Some (3, b')
     \<and> queue_of b' = [1, 2, 3]"
  using dataBuffer_is_queue [OF wf_empty [of 0], where stale = "\<lambda>_ _. 9" and p = "[1, 2, 3]" and k = 0]
  by (auto simp: queue_of_def)

end
