(* ===== verification/Pipe.thy ===== *)
theory Pipe
  imports Data_Buffer
begin

text \<open>
  The pipe between the HTTP/2 connection and the reader of a body (\<open>http2/pipe.go\<close>), for any
  buffer that meets the interface \<open>pipe_buffer\<close>. Every method runs under the pipe's mutex and
  is one transition; a \<open>Read\<close> that would block in \<open>c.Wait()\<close> is the result \<open>ReadWaits\<close> with
  the state unchanged. The optional code \<open>readFn\<close> is a number, and \<open>pipe_Read\<close> says which
  code it ran. The error type is a parameter; the channel \<open>donec\<close> is \<open>None\<close> until it is made,
  then \<open>Some closed\<close>.
\<close>

record ('b, 'e) pipe =
  p_b :: "'b option"
  p_unread :: nat
  p_err :: "'e option"
  p_breakErr :: "'e option"
  p_donec :: "bool option"
  p_readFn :: "nat option"

datatype 'e read_result =
    ReadData bytes
  | ReadErr 'e
  | ReadBufferErr
  | ReadWaits
  | ReadPanics

datatype write_result = Wrote nat | ErrClosedPipeWrite | ErrUninitializedPipeWrite | WritePanics

definition setBuffer :: "('b, 'e) pipe \<Rightarrow> 'b option \<Rightarrow> ('b, 'e) pipe" where
  "setBuffer p b = (if p_err p \<noteq> None \<or> p_breakErr p \<noteq> None then p else p\<lparr>p_b := b\<rparr>)"

definition pipe_Len :: "('b \<Rightarrow> nat) \<Rightarrow> ('b, 'e) pipe \<Rightarrow> nat" where
  "pipe_Len buf_Len p = (case p_b p of None \<Rightarrow> p_unread p | Some b \<Rightarrow> buf_Len b)"

definition pipe_Read :: "('b \<Rightarrow> nat) \<Rightarrow> ('b \<Rightarrow> nat \<Rightarrow> (bytes option \<times> 'b) option)
    \<Rightarrow> ('b, 'e) pipe \<Rightarrow> nat \<Rightarrow> 'e read_result \<times> nat option \<times> ('b, 'e) pipe" where
  "pipe_Read buf_Len buf_Read p k =
     (case p_breakErr p of
        Some e \<Rightarrow> (ReadErr e, None, p)
      | None \<Rightarrow>
          if (case p_b p of Some b \<Rightarrow> buf_Len b > 0 | None \<Rightarrow> False)
          then (case buf_Read (the (p_b p)) k of
              None \<Rightarrow> (ReadPanics, None, p)
            | Some (None, b') \<Rightarrow> (ReadBufferErr, None, p\<lparr>p_b := Some b'\<rparr>)
            | Some (Some xs, b') \<Rightarrow> (ReadData xs, None, p\<lparr>p_b := Some b'\<rparr>))
          else (case p_err p of
              Some e \<Rightarrow> (ReadErr e, p_readFn p, p\<lparr>p_readFn := None, p_b := None\<rparr>)
            | None \<Rightarrow> (ReadWaits, None, p)))"

definition pipe_Write :: "('b \<Rightarrow> bytes \<Rightarrow> (nat \<times> 'b) option)
    \<Rightarrow> ('b, 'e) pipe \<Rightarrow> bytes \<Rightarrow> write_result \<times> ('b, 'e) pipe" where
  "pipe_Write buf_Write p d =
     (if p_err p \<noteq> None \<or> p_breakErr p \<noteq> None then (ErrClosedPipeWrite, p)
      else case p_b p of
        None \<Rightarrow> (ErrUninitializedPipeWrite, p)
      | Some b \<Rightarrow> (case buf_Write b d of
          None \<Rightarrow> (WritePanics, p)
        | Some (n, b') \<Rightarrow> (Wrote n, p\<lparr>p_b := Some b'\<rparr>)))"

definition closeDoneLocked :: "('b, 'e) pipe \<Rightarrow> ('b, 'e) pipe" where
  "closeDoneLocked p = (case p_donec p of None \<Rightarrow> p | Some _ \<Rightarrow> p\<lparr>p_donec := Some True\<rparr>)"

datatype dst = Err | BreakErr

text \<open>\<open>closeWithError\<close>; the pointer \<open>dst\<close> is one of the two error fields, and a nil error panics.\<close>

definition closeWithError :: "('b \<Rightarrow> nat) \<Rightarrow> ('b, 'e) pipe \<Rightarrow> dst \<Rightarrow> 'e option \<Rightarrow> nat option \<Rightarrow> ('b, 'e) pipe option" where
  "closeWithError buf_Len p d err fn =
     (if err = None then None
      else if (case d of Err \<Rightarrow> p_err p | BreakErr \<Rightarrow> p_breakErr p) \<noteq> None then Some p
      else
        let p = p\<lparr>p_readFn := fn\<rparr>;
            p = (case d of
                   BreakErr \<Rightarrow>
                     let p = (case p_b p of Some b \<Rightarrow> p\<lparr>p_unread := p_unread p + buf_Len b\<rparr> | None \<Rightarrow> p)
                     in p\<lparr>p_b := None\<rparr>
                 | Err \<Rightarrow> p);
            p = (case d of Err \<Rightarrow> p\<lparr>p_err := err\<rparr> | BreakErr \<Rightarrow> p\<lparr>p_breakErr := err\<rparr>)
        in Some (closeDoneLocked p))"

definition CloseWithError :: "('b \<Rightarrow> nat) \<Rightarrow> ('b, 'e) pipe \<Rightarrow> 'e option \<Rightarrow> ('b, 'e) pipe option" where
  "CloseWithError buf_Len p err = closeWithError buf_Len p Err err None"

definition BreakWithError :: "('b \<Rightarrow> nat) \<Rightarrow> ('b, 'e) pipe \<Rightarrow> 'e option \<Rightarrow> ('b, 'e) pipe option" where
  "BreakWithError buf_Len p err = closeWithError buf_Len p BreakErr err None"

definition closeWithErrorAndCode :: "('b \<Rightarrow> nat) \<Rightarrow> ('b, 'e) pipe \<Rightarrow> 'e option \<Rightarrow> nat \<Rightarrow> ('b, 'e) pipe option" where
  "closeWithErrorAndCode buf_Len p err fn = closeWithError buf_Len p Err err (Some fn)"

definition pipe_Err :: "('b, 'e) pipe \<Rightarrow> 'e option" where
  "pipe_Err p = (if p_breakErr p \<noteq> None then p_breakErr p else p_err p)"

definition pipe_Done :: "('b, 'e) pipe \<Rightarrow> ('b, 'e) pipe" where
  "pipe_Done p =
     (if p_donec p = None then
        let p = p\<lparr>p_donec := Some False\<rparr> in
        if p_err p \<noteq> None \<or> p_breakErr p \<noteq> None then closeDoneLocked p else p
      else p)"

section \<open>Runs of a pipe\<close>

text \<open>The state of a run: the pipe, the bytes accepted by \<open>Write\<close> and the bytes returned by \<open>Read\<close>.\<close>

record ('b, 'e) pipe_run =
  the_pipe :: "('b, 'e) pipe"
  written :: bytes
  delivered :: bytes

text \<open>One call of any method, by a writer, a reader or a closer, in any order.\<close>

inductive pipe_step :: "('b \<Rightarrow> nat) \<Rightarrow> ('b \<Rightarrow> nat \<Rightarrow> (bytes option \<times> 'b) option)
    \<Rightarrow> ('b \<Rightarrow> bytes \<Rightarrow> (nat \<times> 'b) option) \<Rightarrow> ('b, 'e) pipe_run \<Rightarrow> ('b, 'e) pipe_run \<Rightarrow> bool"
  for buf_Len buf_Read buf_Write where
  step_write: "pipe_Write buf_Write (the_pipe s) d = (res, p) \<Longrightarrow>
     pipe_step buf_Len buf_Read buf_Write s
       (s\<lparr>the_pipe := p, written := (case res of Wrote n \<Rightarrow> written s @ take n d | _ \<Rightarrow> written s)\<rparr>)"
| step_read: "pipe_Read buf_Len buf_Read (the_pipe s) k = (res, code, p) \<Longrightarrow>
     pipe_step buf_Len buf_Read buf_Write s
       (s\<lparr>the_pipe := p, delivered := (case res of ReadData xs \<Rightarrow> delivered s @ xs | _ \<Rightarrow> delivered s)\<rparr>)"
| step_close: "closeWithError buf_Len (the_pipe s) d err fn = Some p \<Longrightarrow>
     pipe_step buf_Len buf_Read buf_Write s (s\<lparr>the_pipe := p\<rparr>)"
| step_done: "pipe_step buf_Len buf_Read buf_Write s (s\<lparr>the_pipe := pipe_Done (the_pipe s)\<rparr>)"

definition pipe_start :: "'b \<Rightarrow> ('b, 'e) pipe_run" where
  "pipe_start b =
     \<lparr>the_pipe = setBuffer \<lparr>p_b = None, p_unread = 0, p_err = None, p_breakErr = None, p_donec = None, p_readFn = None\<rparr> (Some b),
      written = [], delivered = []\<rparr>"

lemma pipe_Done_fields [simp]:
  "p_b (pipe_Done p) = p_b p" "p_unread (pipe_Done p) = p_unread p" "p_err (pipe_Done p) = p_err p"
  "p_breakErr (pipe_Done p) = p_breakErr p"
  by (simp_all add: pipe_Done_def closeDoneLocked_def Let_def split: option.splits)

section \<open>Delivery, for every buffer that meets the interface\<close>

context pipe_buffer
begin

definition pipe_inv :: "('b, 'e) pipe_run \<Rightarrow> bool" where
  "pipe_inv s \<longleftrightarrow>
     (case p_b (the_pipe s) of
        Some b \<Rightarrow> inv b \<and> p_breakErr (the_pipe s) = None \<and> p_unread (the_pipe s) = 0 \<and> written s = delivered s @ queue b
      | None \<Rightarrow>
          if p_breakErr (the_pipe s) = None
          then p_err (the_pipe s) \<noteq> None \<and> p_unread (the_pipe s) = 0 \<and> written s = delivered s
          else \<exists>rest. written s = delivered s @ rest \<and> length rest = p_unread (the_pipe s))"

lemma pipe_start_inv: "inv b \<Longrightarrow> queue b = [] \<Longrightarrow> pipe_inv (pipe_start b)"
  by (simp add: pipe_inv_def pipe_start_def setBuffer_def)

lemma write_inv:
  assumes "pipe_inv s" and "pipe_Write buf_Write (the_pipe s) d = (res, p)"
  shows "pipe_inv (s\<lparr>the_pipe := p, written := (case res of Wrote n \<Rightarrow> written s @ take n d | _ \<Rightarrow> written s)\<rparr>)"
proof (cases "p_err (the_pipe s) \<noteq> None \<or> p_breakErr (the_pipe s) \<noteq> None")
  case True
  then have "res = ErrClosedPipeWrite" "p = the_pipe s" using assms(2) by (auto simp: pipe_Write_def)
  then show ?thesis using assms(1) by (simp add: pipe_inv_def)
next
  case False
  then obtain b where b: "p_b (the_pipe s) = Some b" "inv b" "written s = delivered s @ queue b" "p_unread (the_pipe s) = 0"
    using assms(1) by (auto simp: pipe_inv_def split: option.splits)
  obtain b' where "buf_Write b d = Some (length d, b')" "inv b'" "queue b' = queue b @ d"
    using Write_appends [OF b(2)] by blast
  with b False assms(2) show ?thesis by (auto simp: pipe_Write_def pipe_inv_def)
qed

text \<open>What a \<open>Read\<close> returns in a state that satisfies the invariant.\<close>

lemma read_cases:
  assumes "pipe_inv s" and "pipe_Read buf_Len buf_Read (the_pipe s) k = (res, code, p)"
  obtains (broken) e where "p_breakErr (the_pipe s) = Some e" "res = ReadErr e" "p = the_pipe s"
  | (data) b b' where "p_breakErr (the_pipe s) = None" "p_b (the_pipe s) = Some b" "inv b" "queue b \<noteq> []"
      "res = ReadData (take k (queue b))" "p = (the_pipe s)\<lparr>p_b := Some b'\<rparr>" "inv b'" "queue b' = drop k (queue b)"
  | (eof) e where "p_breakErr (the_pipe s) = None" "p_err (the_pipe s) = Some e" "res = ReadErr e" "written s = delivered s"
      "p = (the_pipe s)\<lparr>p_readFn := None, p_b := None\<rparr>"
  | (wait) "p_breakErr (the_pipe s) = None" "p_err (the_pipe s) = None" "res = ReadWaits" "written s = delivered s"
      "p = the_pipe s"
proof (cases "p_breakErr (the_pipe s)")
  case (Some e)
  with assms(2) show thesis by (intro broken [of e]) (auto simp: pipe_Read_def)
next
  case nb: None
  show thesis
  proof (cases "\<exists>b. p_b (the_pipe s) = Some b \<and> queue b \<noteq> []")
    case True
    then obtain b where b: "p_b (the_pipe s) = Some b" "inv b" "queue b \<noteq> []"
      using assms(1) by (auto simp: pipe_inv_def)
    obtain b' where b': "buf_Read b k = Some (Some (take k (queue b)), b')" "inv b'" "queue b' = drop k (queue b)"
      using Read_some [OF b(2,3)] by blast
    have "res = ReadData (take k (queue b))" "p = (the_pipe s)\<lparr>p_b := Some b'\<rparr>"
      using assms(2) nb b b' by (simp_all add: pipe_Read_def Len_queue)
    with nb b b' show thesis by (intro data [of b b'])
  next
    case False
    then have emp: "\<not> (case p_b (the_pipe s) of Some b \<Rightarrow> buf_Len b > 0 | None \<Rightarrow> False)"
      using assms(1) by (auto simp: pipe_inv_def Len_queue split: option.splits)
    have wd: "written s = delivered s"
      using assms(1) nb False by (auto simp: pipe_inv_def split: option.splits)
    show thesis
    proof (cases "p_err (the_pipe s)")
      case (Some e)
      with nb emp wd assms(2) show thesis by (intro eof [of e]) (simp_all add: pipe_Read_def)
    next
      case None
      with nb emp wd assms(2) show thesis by (intro wait) (simp_all add: pipe_Read_def)
    qed
  qed
qed

lemma read_inv:
  assumes "pipe_inv s" and "pipe_Read buf_Len buf_Read (the_pipe s) k = (res, code, p)"
  shows "pipe_inv (s\<lparr>the_pipe := p, delivered := (case res of ReadData xs \<Rightarrow> delivered s @ xs | _ \<Rightarrow> delivered s)\<rparr>)"
  using assms
proof (cases rule: read_cases)
  case (data b b')
  then show ?thesis using assms(1) by (simp add: pipe_inv_def)
next
  case (eof e)
  then show ?thesis using assms(1) by (auto simp: pipe_inv_def split: option.splits)
qed (use assms(1) in \<open>simp_all add: pipe_inv_def\<close>)

lemma close_inv:
  assumes "pipe_inv s" and "closeWithError buf_Len (the_pipe s) d err fn = Some p"
  shows "pipe_inv (s\<lparr>the_pipe := p\<rparr>)"
  using assms
  by (auto simp: closeWithError_def pipe_inv_def closeDoneLocked_def Let_def Len_queue
      split: if_splits dst.splits option.splits)

lemma pipe_step_inv:
  "pipe_step buf_Len buf_Read buf_Write s t \<Longrightarrow> pipe_inv s \<Longrightarrow> pipe_inv t"
proof (induction rule: pipe_step.induct)
  case (step_done s)
  then show ?case by (auto simp: pipe_inv_def split: option.splits if_splits)
qed (auto intro: write_inv read_inv close_inv)

lemma pipe_reach_inv:
  assumes "(pipe_step buf_Len buf_Read buf_Write)\<^sup>*\<^sup>* (pipe_start b) s" and "inv b" and "queue b = []"
  shows "pipe_inv s"
  using assms(1)
  by (induction rule: rtranclp_induct) (auto intro: pipe_step_inv pipe_start_inv assms(2,3))

lemma pipe_delivery:
  assumes "pipe_inv s"
  shows "\<exists>rest. written s = delivered s @ rest"
    and "pipe_Len buf_Len (the_pipe s) = length (written s) - length (delivered s)"
    and "pipe_Read buf_Len buf_Read (the_pipe s) k = (res, code, p) \<Longrightarrow>
      (case p_breakErr (the_pipe s) of
         Some e \<Rightarrow> res = ReadErr e
       | None \<Rightarrow>
           if written s \<noteq> delivered s then res = ReadData (take k (drop (length (delivered s)) (written s)))
           else (case p_err (the_pipe s) of Some e \<Rightarrow> res = ReadErr e | None \<Rightarrow> res = ReadWaits))"
proof -
  show "\<exists>rest. written s = delivered s @ rest"
    using assms by (auto simp: pipe_inv_def split: option.splits if_splits)
  show "pipe_Len buf_Len (the_pipe s) = length (written s) - length (delivered s)"
    using assms by (auto simp: pipe_inv_def pipe_Len_def Len_queue split: option.splits if_splits)
  show "case p_breakErr (the_pipe s) of
         Some e \<Rightarrow> res = ReadErr e
       | None \<Rightarrow>
           if written s \<noteq> delivered s then res = ReadData (take k (drop (length (delivered s)) (written s)))
           else (case p_err (the_pipe s) of Some e \<Rightarrow> res = ReadErr e | None \<Rightarrow> res = ReadWaits)"
    if r: "pipe_Read buf_Len buf_Read (the_pipe s) k = (res, code, p)"
    using assms r
  proof (cases rule: read_cases)
    case (data b b')
    then have "written s = delivered s @ queue b" using assms by (simp add: pipe_inv_def)
    with data show ?thesis by simp
  qed simp_all
qed

end

text \<open>C30: a pipe over the chunked buffer delivers in order and loses nothing. In every state that any
  interleaving of writes, reads, closes, breaks and \<open>Done\<close> calls can reach from a fresh pipe: the
  bytes returned so far are a prefix of the bytes accepted; \<open>Len\<close> is the number of accepted bytes
  not returned; and the next \<open>Read\<close> returns the break error if there is one, else the next bytes
  if any are left, else the close error, and waits only when the pipe is open and empty. So a
  reader sees the close error only after every byte, and \<open>Read\<close> never panics.\<close>

theorem pipe_delivers_in_order:
  assumes "(pipe_step dataBuffer_Len dataBuffer_Read (dataBuffer_Write stale))\<^sup>*\<^sup>* (pipe_start b) s"
    and "wf_buffer b" and "queue_of b = []"
    and "pipe_Read dataBuffer_Len dataBuffer_Read (the_pipe s) k = (res, code, p)"
  shows "(\<exists>rest. written s = delivered s @ rest)
    \<and> pipe_Len dataBuffer_Len (the_pipe s) = length (written s) - length (delivered s)
    \<and> (case p_breakErr (the_pipe s) of
         Some e \<Rightarrow> res = ReadErr e
       | None \<Rightarrow>
           if written s \<noteq> delivered s then res = ReadData (take k (drop (length (delivered s)) (written s)))
           else (case p_err (the_pipe s) of Some e \<Rightarrow> res = ReadErr e | None \<Rightarrow> res = ReadWaits))"
proof -
  note inv = data_buffer.pipe_reach_inv [OF assms(1-3)]
  show ?thesis
    using data_buffer.pipe_delivery(1,2) [OF inv] data_buffer.pipe_delivery(3) [OF inv assms(4)] by blast
qed

theorem pipe_delivers_in_order_witness:
  "\<exists>s res code p. (pipe_step dataBuffer_Len dataBuffer_Read (dataBuffer_Write (\<lambda>_ _. 0)))\<^sup>*\<^sup>*
      (pipe_start \<lparr>chunks = [], b_r = 0, b_w = 0, b_size = 0, b_expected = 0\<rparr>) s
    \<and> written s = [5, 6, 7] \<and> p_err (the_pipe s) = Some (1 :: nat)
    \<and> pipe_Read dataBuffer_Len dataBuffer_Read (the_pipe s) 2 = (res, code, p) \<and> res = ReadData [5, 6]"
proof -
  let ?b = "\<lparr>chunks = [], b_r = 0, b_w = 0, b_size = 0, b_expected = 0\<rparr>"
  let ?W = "dataBuffer_Write (\<lambda>_ _. 0)"
  let ?step = "pipe_step dataBuffer_Len dataBuffer_Read ?W :: (dataBuffer, nat) pipe_run \<Rightarrow> _"
  let ?s0 = "pipe_start ?b :: (dataBuffer, nat) pipe_run"
  have b: "wf_buffer ?b" "queue_of ?b = []" by (rule wf_empty) (simp add: queue_of_def)
  obtain b' where b': "?W ?b [5, 6, 7] = Some (3, b')"
    using data_buffer.Write_appends [OF b(1), of "\<lambda>_ _. 0" "[5, 6, 7]"] by auto
  let ?p1 = "(the_pipe ?s0)\<lparr>p_b := Some b'\<rparr>"
  let ?s1 = "?s0\<lparr>the_pipe := ?p1, written := [5, 6, 7]\<rparr>"
  let ?s2 = "?s1\<lparr>the_pipe := ?p1\<lparr>p_err := Some 1\<rparr>\<rparr>"
  have "pipe_Write ?W (the_pipe ?s0) [5, 6, 7] = (Wrote 3, ?p1)"
    by (simp add: pipe_Write_def pipe_start_def setBuffer_def b')
  from step_write [OF this, of dataBuffer_Len dataBuffer_Read] have "?step ?s0 ?s1"
    by (simp add: pipe_start_def)
  moreover have "closeWithError dataBuffer_Len (the_pipe ?s1) Err (Some 1) None = Some (?p1\<lparr>p_err := Some 1\<rparr>)"
    by (simp add: closeWithError_def pipe_start_def setBuffer_def closeDoneLocked_def)
  from step_close [OF this, of dataBuffer_Read ?W] have "?step ?s1 ?s2" by simp
  ultimately have reach: "?step\<^sup>*\<^sup>* ?s0 ?s2" by (meson converse_rtranclp_into_rtranclp r_into_rtranclp)
  obtain res code p where r: "pipe_Read dataBuffer_Len dataBuffer_Read (the_pipe ?s2) 2 = (res, code, p)"
    by (metis prod_cases3)
  from pipe_delivers_in_order [OF reach b r] have "res = ReadData [5, 6]"
    by (simp add: pipe_start_def setBuffer_def)
  with reach r show ?thesis by (intro exI [of _ ?s2] exI conjI) (auto simp: pipe_start_def)
qed

end
