(* ===== verification/Frame_Types.thy ===== *)
theory Frame_Types
  imports Go_Strings Hpack_Table
begin

unbundle bit_operations_syntax

text \<open>
  The package \<open>http2\<close>, the vocabulary of its framing layer: the error codes and error types of
  \<open>errors.go\<close>, the settings of \<open>http2.go\<close> and the frame types, flags, frame header and frame structs of
  \<open>frame.go\<close>. Frames are values: the pointer to a frame struct that the reader keeps as \<open>lastFrame\<close>
  is a copy of the frame, and the \<open>valid\<close> flag of the header is part of it, so the panic of an
  accessor that is called too late is the result \<open>None\<close> of the accessor. \<open>strconv.Quote\<close> (the verb
  \<open>%q\<close>) is the argument \<open>quote\<close> of the functions that use it.
\<close>

section \<open>Error codes and errors\<close>

type_synonym ErrCode = u32

abbreviation (input) ErrCodeNo :: ErrCode where "ErrCodeNo \<equiv> 0"
abbreviation (input) ErrCodeProtocol :: ErrCode where "ErrCodeProtocol \<equiv> 1"
abbreviation (input) ErrCodeInternal :: ErrCode where "ErrCodeInternal \<equiv> 2"
abbreviation (input) ErrCodeFlowControl :: ErrCode where "ErrCodeFlowControl \<equiv> 3"
abbreviation (input) ErrCodeStreamClosed :: ErrCode where "ErrCodeStreamClosed \<equiv> 5"
abbreviation (input) ErrCodeFrameSize :: ErrCode where "ErrCodeFrameSize \<equiv> 6"
abbreviation (input) ErrCodeRefusedStream :: ErrCode where "ErrCodeRefusedStream \<equiv> 7"
abbreviation (input) ErrCodeCancel :: ErrCode where "ErrCodeCancel \<equiv> 8"
abbreviation (input) ErrCodeCompression :: ErrCode where "ErrCodeCompression \<equiv> 9"
abbreviation (input) ErrCodeEnhanceYourCalm :: ErrCode where "ErrCodeEnhanceYourCalm \<equiv> 11"

definition errCodeName :: "(ErrCode \<times> string) list" where
  "errCodeName =
    [(0x0, ''NO_ERROR''), (0x1, ''PROTOCOL_ERROR''), (0x2, ''INTERNAL_ERROR''), (0x3, ''FLOW_CONTROL_ERROR''),
     (0x4, ''SETTINGS_TIMEOUT''), (0x5, ''STREAM_CLOSED''), (0x6, ''FRAME_SIZE_ERROR''), (0x7, ''REFUSED_STREAM''),
     (0x8, ''CANCEL''), (0x9, ''COMPRESSION_ERROR''), (0xa, ''CONNECT_ERROR''), (0xb, ''ENHANCE_YOUR_CALM''),
     (0xc, ''INADEQUATE_SECURITY''), (0xd, ''HTTP_1_1_REQUIRED'')]"

definition ErrCode_String :: "ErrCode \<Rightarrow> string" where
  "ErrCode_String e =
     (case map_of errCodeName e of
        Some s \<Rightarrow> s
      | None \<Rightarrow> ''unknown error code 0x'' @ digits_in 16 (uint e))"

definition stringToken :: "ErrCode \<Rightarrow> string" where
  "stringToken e =
     (case map_of errCodeName e of
        Some s \<Rightarrow> s
      | None \<Rightarrow> ''ERR_UNKNOWN_'' @ Itoa (uint e))"

text \<open>
  The errors of the framing layer. \<open>connError\<close> only occurs as the result of a frame parser and is
  turned into a \<open>ConnectionError\<close>. \<open>errors_New\<close> are the errors made from a string where they
  occur, \<open>HTTP1Looking\<close> the wrapping with a note on HTTP/1.1, and \<open>IOError\<close> any other error of the
  underlying reader or writer.
\<close>

datatype h2_error =
    ConnectionError ErrCode
  | StreamError u32 ErrCode "h2_error option"
  | connError ErrCode string
  | goAwayFlowError
  | pseudoHeaderError string
  | duplicatePseudoHeaderError string
  | headerFieldNameError string
  | headerFieldValueError string
  | errMixPseudoHeaderTypes
  | errPseudoAfterRegular
  | ErrFrameTooLarge
  | errStreamID
  | errDepStreamID
  | errPadLength
  | errPadBytes
  | HTTP1Looking h2_error
  | EOF
  | ErrUnexpectedEOF
  | ErrShortWrite
  | GoAwayError u32 ErrCode string
  | errors_New string
  | IOError string

definition streamError :: "u32 \<Rightarrow> ErrCode \<Rightarrow> h2_error" where
  "streamError sid code = StreamError sid code None"

fun h2_Error :: "(string \<Rightarrow> string) \<Rightarrow> h2_error \<Rightarrow> string" where
  "h2_Error quote (ConnectionError e) = ''connection error: '' @ ErrCode_String e"
| "h2_Error quote (StreamError sid code cause) =
     (case cause of
        Some c \<Rightarrow> ''stream error: stream ID '' @ Itoa (uint sid) @ ''; '' @ ErrCode_String code @ ''; '' @ h2_Error quote c
      | None \<Rightarrow> ''stream error: stream ID '' @ Itoa (uint sid) @ ''; '' @ ErrCode_String code)"
| "h2_Error quote (connError code reason) =
     ''http2: connection error: '' @ ErrCode_String code @ '': '' @ reason"
| "h2_Error quote goAwayFlowError = ''connection exceeded flow control window size''"
| "h2_Error quote (pseudoHeaderError e) = ''invalid pseudo-header '' @ quote e"
| "h2_Error quote (duplicatePseudoHeaderError e) = ''duplicate pseudo-header '' @ quote e"
| "h2_Error quote (headerFieldNameError e) = ''invalid header field name '' @ quote e"
| "h2_Error quote (headerFieldValueError e) = ''invalid header field value for '' @ quote e"
| "h2_Error quote errMixPseudoHeaderTypes = ''mix of request and response pseudo headers''"
| "h2_Error quote errPseudoAfterRegular = ''pseudo header field after regular''"
| "h2_Error quote ErrFrameTooLarge = ''http2: frame too large''"
| "h2_Error quote errStreamID = ''invalid stream ID''"
| "h2_Error quote errDepStreamID = ''invalid dependent stream ID''"
| "h2_Error quote errPadLength = ''pad length too large''"
| "h2_Error quote errPadBytes = ''padding bytes must all be zeros unless AllowIllegalWrites is enabled''"
| "h2_Error quote (HTTP1Looking e) =
     ''http2: failed reading the frame payload: '' @ h2_Error quote e
       @ '', note that the frame header looked like an HTTP/1.1 header''"
| "h2_Error quote EOF = ''EOF''"
| "h2_Error quote ErrUnexpectedEOF = ''unexpected EOF''"
| "h2_Error quote ErrShortWrite = ''short write''"
| "h2_Error quote (GoAwayError lastID code debug) =
     ''http2: server sent GOAWAY and closed the connection; LastStreamID='' @ Itoa (uint lastID) @ '', ErrCode=''
       @ ErrCode_String code @ '', debug='' @ quote debug"
| "h2_Error quote (errors_New s) = s"
| "h2_Error quote (IOError s) = s"

text \<open>\<open>terminalReadFrameError\<close>; \<open>None\<close> is a nil error.\<close>

definition terminalReadFrameError :: "h2_error option \<Rightarrow> bool" where
  "terminalReadFrameError err =
     (case err of
        Some (StreamError _ _ _) \<Rightarrow> False
      | _ \<Rightarrow> err \<noteq> None)"

section \<open>Settings\<close>

type_synonym SettingID = u16

abbreviation (input) SettingHeaderTableSize :: SettingID where "SettingHeaderTableSize \<equiv> 0x1"
abbreviation (input) SettingEnablePush :: SettingID where "SettingEnablePush \<equiv> 0x2"
abbreviation (input) SettingMaxConcurrentStreams :: SettingID where "SettingMaxConcurrentStreams \<equiv> 0x3"
abbreviation (input) SettingInitialWindowSize :: SettingID where "SettingInitialWindowSize \<equiv> 0x4"
abbreviation (input) SettingMaxFrameSize :: SettingID where "SettingMaxFrameSize \<equiv> 0x5"
abbreviation (input) SettingMaxHeaderListSize :: SettingID where "SettingMaxHeaderListSize \<equiv> 0x6"
abbreviation (input) SettingEnableConnectProtocol :: SettingID where "SettingEnableConnectProtocol \<equiv> 0x8"

definition settingName :: "(SettingID \<times> string) list" where
  "settingName =
    [(0x1, ''HEADER_TABLE_SIZE''), (0x2, ''ENABLE_PUSH''), (0x3, ''MAX_CONCURRENT_STREAMS''),
     (0x4, ''INITIAL_WINDOW_SIZE''), (0x5, ''MAX_FRAME_SIZE''), (0x6, ''MAX_HEADER_LIST_SIZE''),
     (0x8, ''ENABLE_CONNECT_PROTOCOL'')]"

definition SettingID_String :: "SettingID \<Rightarrow> string" where
  "SettingID_String s =
     (case map_of settingName s of
        Some v \<Rightarrow> v
      | None \<Rightarrow> ''UNKNOWN_SETTING_'' @ Itoa (uint s))"

record Setting =
  s_ID :: SettingID
  s_Val :: u32

definition Setting_String :: "Setting \<Rightarrow> string" where
  "Setting_String s = ''['' @ SettingID_String (s_ID s) @ '' = '' @ Itoa (uint (s_Val s)) @ '']''"

text \<open>\<open>Setting.Valid\<close>; \<open>None\<close> is the nil error.\<close>

definition Setting_Valid :: "Setting \<Rightarrow> h2_error option" where
  "Setting_Valid s =
     (if s_ID s = SettingEnablePush then
        if s_Val s \<noteq> 1 \<and> s_Val s \<noteq> 0 then Some (ConnectionError ErrCodeProtocol) else None
      else if s_ID s = SettingInitialWindowSize then
        if s_Val s > 2147483647 then Some (ConnectionError ErrCodeFlowControl) else None
      else if s_ID s = SettingMaxFrameSize then
        if s_Val s < 16384 \<or> s_Val s > 16777215 then Some (ConnectionError ErrCodeProtocol) else None
      else if s_ID s = SettingEnableConnectProtocol then
        if s_Val s \<noteq> 1 \<and> s_Val s \<noteq> 0 then Some (ConnectionError ErrCodeProtocol) else None
      else None)"

section \<open>Frame types, flags and the frame header\<close>

type_synonym FrameType = byte
type_synonym Flags = byte

abbreviation (input) FrameData :: FrameType where "FrameData \<equiv> 0x0"
abbreviation (input) FrameHeaders :: FrameType where "FrameHeaders \<equiv> 0x1"
abbreviation (input) FramePriority :: FrameType where "FramePriority \<equiv> 0x2"
abbreviation (input) FrameRSTStream :: FrameType where "FrameRSTStream \<equiv> 0x3"
abbreviation (input) FrameSettings :: FrameType where "FrameSettings \<equiv> 0x4"
abbreviation (input) FramePushPromise :: FrameType where "FramePushPromise \<equiv> 0x5"
abbreviation (input) FramePing :: FrameType where "FramePing \<equiv> 0x6"
abbreviation (input) FrameGoAway :: FrameType where "FrameGoAway \<equiv> 0x7"
abbreviation (input) FrameWindowUpdate :: FrameType where "FrameWindowUpdate \<equiv> 0x8"
abbreviation (input) FrameContinuation :: FrameType where "FrameContinuation \<equiv> 0x9"

definition frameNames :: "string list" where
  "frameNames = [''DATA'', ''HEADERS'', ''PRIORITY'', ''RST_STREAM'', ''SETTINGS'', ''PUSH_PROMISE'',
     ''PING'', ''GOAWAY'', ''WINDOW_UPDATE'', ''CONTINUATION'']"

definition FrameType_String :: "FrameType \<Rightarrow> string" where
  "FrameType_String t =
     (if unat t < length frameNames then frameNames ! unat t
      else ''UNKNOWN_FRAME_TYPE_'' @ Itoa (uint t))"

definition Has :: "Flags \<Rightarrow> Flags \<Rightarrow> bool" where
  "Has f v = (f AND v = v)"

abbreviation (input) FlagDataEndStream :: Flags where "FlagDataEndStream \<equiv> 0x1"
abbreviation (input) FlagDataPadded :: Flags where "FlagDataPadded \<equiv> 0x8"
abbreviation (input) FlagHeadersEndStream :: Flags where "FlagHeadersEndStream \<equiv> 0x1"
abbreviation (input) FlagHeadersEndHeaders :: Flags where "FlagHeadersEndHeaders \<equiv> 0x4"
abbreviation (input) FlagHeadersPadded :: Flags where "FlagHeadersPadded \<equiv> 0x8"
abbreviation (input) FlagHeadersPriority :: Flags where "FlagHeadersPriority \<equiv> 0x20"
abbreviation (input) FlagSettingsAck :: Flags where "FlagSettingsAck \<equiv> 0x1"
abbreviation (input) FlagPingAck :: Flags where "FlagPingAck \<equiv> 0x1"
abbreviation (input) FlagContinuationEndHeaders :: Flags where "FlagContinuationEndHeaders \<equiv> 0x4"
abbreviation (input) FlagPushPromiseEndHeaders :: Flags where "FlagPushPromiseEndHeaders \<equiv> 0x4"
abbreviation (input) FlagPushPromisePadded :: Flags where "FlagPushPromisePadded \<equiv> 0x8"

definition flagName :: "FrameType \<Rightarrow> Flags \<Rightarrow> string" where
  "flagName t f =
     (case map_of
        [((FrameData, FlagDataEndStream), ''END_STREAM''), ((FrameData, FlagDataPadded), ''PADDED''),
         ((FrameHeaders, FlagHeadersEndStream), ''END_STREAM''), ((FrameHeaders, FlagHeadersEndHeaders), ''END_HEADERS''),
         ((FrameHeaders, FlagHeadersPadded), ''PADDED''), ((FrameHeaders, FlagHeadersPriority), ''PRIORITY''),
         ((FrameSettings, FlagSettingsAck), ''ACK''), ((FramePing, FlagPingAck), ''ACK''),
         ((FrameContinuation, FlagContinuationEndHeaders), ''END_HEADERS''),
         ((FramePushPromise, FlagPushPromiseEndHeaders), ''END_HEADERS''),
         ((FramePushPromise, FlagPushPromisePadded), ''PADDED'')] (t, f) of
        Some s \<Rightarrow> s
      | None \<Rightarrow> [])"

record FrameHeader =
  fh_valid :: bool
  fh_Type :: FrameType
  fh_Flags :: Flags
  fh_Length :: u32
  fh_StreamID :: u32

text \<open>The loop of \<open>writeDebug\<close> over the eight flag bits; \<open>set\<close> counts the bits that are set.\<close>

definition debug_flag :: "FrameHeader \<Rightarrow> nat \<Rightarrow> nat \<times> string \<Rightarrow> nat \<times> string" where
  "debug_flag h i = (\<lambda>(set, buf).
     if fh_Flags h AND push_bit i 1 = 0 then (set, buf)
     else
       let name = flagName (fh_Type h) (push_bit i 1) in
       (set + 1, buf @ (if set + 1 > 1 then ''|'' else [])
          @ (if name \<noteq> [] then name else ''0x'' @ digits_in 16 (2 ^ i))))"

definition writeDebug :: "FrameHeader \<Rightarrow> string" where
  "writeDebug h =
     FrameType_String (fh_Type h)
     @ (if fh_Flags h \<noteq> 0 then '' flags='' @ snd (fold (debug_flag h) [0..<8] (0, [])) else [])
     @ (if fh_StreamID h \<noteq> 0 then '' stream='' @ Itoa (uint (fh_StreamID h)) else [])
     @ '' len='' @ Itoa (uint (fh_Length h))"

definition FrameHeader_String :: "FrameHeader \<Rightarrow> string" where
  "FrameHeader_String h = ''[FrameHeader '' @ writeDebug h @ '']''"

section \<open>Frames\<close>

record PriorityParam =
  StreamDep :: u32
  Exclusive :: bool
  Weight :: byte
  urgency :: byte
  incremental :: byte

definition zeroPriority :: PriorityParam where
  "zeroPriority = \<lparr>StreamDep = 0, Exclusive = False, Weight = 0, urgency = 0, incremental = 0\<rparr>"

definition defaultRFC9218Priority :: PriorityParam where
  "defaultRFC9218Priority = \<lparr>StreamDep = 0, Exclusive = False, Weight = 0, urgency = 3, incremental = 0\<rparr>"

definition PriorityParam_IsZero :: "PriorityParam \<Rightarrow> bool" where
  "PriorityParam_IsZero p = (p = zeroPriority)"

text \<open>
  The frame structs, one constructor each, with the fields in the order of the source. A
  \<open>MetaHeadersFrame\<close> embeds a pointer to its \<open>HeadersFrame\<close>: header, priority and fragment come
  first, then the decoded fields and \<open>Truncated\<close>.
\<close>

datatype Frame =
    DataFrame FrameHeader bytes
  | HeadersFrame FrameHeader PriorityParam bytes
  | PriorityFrame FrameHeader PriorityParam
  | RSTStreamFrame FrameHeader ErrCode
  | SettingsFrame FrameHeader bytes
  | PushPromiseFrame FrameHeader u32 bytes
  | PingFrame FrameHeader bytes
  | GoAwayFrame FrameHeader u32 ErrCode bytes
  | WindowUpdateFrame FrameHeader u32
  | ContinuationFrame FrameHeader bytes
  | UnknownFrame FrameHeader bytes
  | MetaHeadersFrame FrameHeader PriorityParam bytes "HeaderField list" bool

fun frame_Header :: "Frame \<Rightarrow> FrameHeader" where
  "frame_Header (DataFrame h _) = h"
| "frame_Header (HeadersFrame h _ _) = h"
| "frame_Header (PriorityFrame h _) = h"
| "frame_Header (RSTStreamFrame h _) = h"
| "frame_Header (SettingsFrame h _) = h"
| "frame_Header (PushPromiseFrame h _ _) = h"
| "frame_Header (PingFrame h _) = h"
| "frame_Header (GoAwayFrame h _ _ _) = h"
| "frame_Header (WindowUpdateFrame h _) = h"
| "frame_Header (ContinuationFrame h _) = h"
| "frame_Header (UnknownFrame h _) = h"
| "frame_Header (MetaHeadersFrame h _ _ _ _) = h"

fun set_header :: "FrameHeader \<Rightarrow> Frame \<Rightarrow> Frame" where
  "set_header h (DataFrame _ d) = DataFrame h d"
| "set_header h (HeadersFrame _ p b) = HeadersFrame h p b"
| "set_header h (PriorityFrame _ p) = PriorityFrame h p"
| "set_header h (RSTStreamFrame _ c) = RSTStreamFrame h c"
| "set_header h (SettingsFrame _ p) = SettingsFrame h p"
| "set_header h (PushPromiseFrame _ i b) = PushPromiseFrame h i b"
| "set_header h (PingFrame _ d) = PingFrame h d"
| "set_header h (GoAwayFrame _ l c d) = GoAwayFrame h l c d"
| "set_header h (WindowUpdateFrame _ i) = WindowUpdateFrame h i"
| "set_header h (ContinuationFrame _ b) = ContinuationFrame h b"
| "set_header h (UnknownFrame _ p) = UnknownFrame h p"
| "set_header h (MetaHeadersFrame _ p b fs t) = MetaHeadersFrame h p b fs t"

definition invalidate :: "Frame \<Rightarrow> Frame" where
  "invalidate f = set_header ((frame_Header f)\<lparr>fh_valid := False\<rparr>) f"

text \<open>
  The accessors. \<open>checkValid\<close> panics on a frame that a later \<open>ReadFrame\<close> has invalidated:
  \<open>None\<close>. An accessor is only defined on the frames that have it.
\<close>

definition checkValid :: "FrameHeader \<Rightarrow> 'a \<Rightarrow> 'a option" where
  "checkValid h x = (if \<not> fh_valid h then None else Some x)"

fun StreamEnded :: "Frame \<Rightarrow> bool" where
  "StreamEnded (DataFrame h _) = Has (fh_Flags h) FlagDataEndStream"
| "StreamEnded (HeadersFrame h _ _) = Has (fh_Flags h) FlagHeadersEndStream"
| "StreamEnded (MetaHeadersFrame h _ _ _ _) = Has (fh_Flags h) FlagHeadersEndStream"
| "StreamEnded _ = False"

fun HeadersEnded :: "Frame \<Rightarrow> bool" where
  "HeadersEnded (HeadersFrame h _ _) = Has (fh_Flags h) FlagHeadersEndHeaders"
| "HeadersEnded (ContinuationFrame h _) = Has (fh_Flags h) FlagContinuationEndHeaders"
| "HeadersEnded (PushPromiseFrame h _ _) = Has (fh_Flags h) FlagPushPromiseEndHeaders"
| "HeadersEnded (MetaHeadersFrame h _ _ _ _) = Has (fh_Flags h) FlagHeadersEndHeaders"
| "HeadersEnded _ = False"

fun HasPriority :: "Frame \<Rightarrow> bool" where
  "HasPriority (HeadersFrame h _ _) = Has (fh_Flags h) FlagHeadersPriority"
| "HasPriority (MetaHeadersFrame h _ _ _ _) = Has (fh_Flags h) FlagHeadersPriority"
| "HasPriority _ = False"

fun frame_IsAck :: "Frame \<Rightarrow> bool" where
  "frame_IsAck (SettingsFrame h _) = Has (fh_Flags h) FlagSettingsAck"
| "frame_IsAck (PingFrame h _) = Has (fh_Flags h) FlagPingAck"
| "frame_IsAck _ = False"

fun frame_Data :: "Frame \<Rightarrow> bytes option" where
  "frame_Data (DataFrame h d) = checkValid h d"
| "frame_Data _ = None"

fun DebugData :: "Frame \<Rightarrow> bytes option" where
  "DebugData (GoAwayFrame h _ _ d) = checkValid h d"
| "DebugData _ = None"

fun Payload :: "Frame \<Rightarrow> bytes option" where
  "Payload (UnknownFrame h p) = checkValid h p"
| "Payload _ = None"

fun HeaderBlockFragment :: "Frame \<Rightarrow> bytes option" where
  "HeaderBlockFragment (HeadersFrame h _ b) = checkValid h b"
| "HeaderBlockFragment (ContinuationFrame h b) = checkValid h b"
| "HeaderBlockFragment (PushPromiseFrame h _ b) = checkValid h b"
| "HeaderBlockFragment (MetaHeadersFrame h _ b _ _) = checkValid h b"
| "HeaderBlockFragment _ = None"

lemma frame_Header_set_header [simp]: "frame_Header (set_header h f) = h"
  by (cases f) simp_all

lemma invalidate_Header [simp]: "frame_Header (invalidate f) = (frame_Header f)\<lparr>fh_valid := False\<rparr>"
  by (simp add: invalidate_def)

text \<open>After a frame is invalidated, none of the accessors to its buffers returns.\<close>

lemma invalidated_accessors:
  "frame_Data (invalidate f) = None" "DebugData (invalidate f) = None"
  "Payload (invalidate f) = None" "HeaderBlockFragment (invalidate f) = None"
  by (cases f; simp add: invalidate_def checkValid_def)+

end
