(* ===== verification/Frame_Read.thy ===== *)
theory Frame_Read
  imports Frame_Types Hpack_Decoder
begin

unbundle bit_operations_syntax

text \<open>
  The reading half of the \<open>Framer\<close> of \<open>frame.go\<close>, without header blocks (\<open>Frame_Meta\<close>): the frame
  header, the order check and the ten frame parsers. The underlying reader is the list of bytes it
  still delivers and the error it returns after them. The calls of \<open>countError\<close> are collected in
  \<open>fr_counted\<close>; every error path of a parser calls it once, so a parser's error comes with its token.
  A parser result \<open>None\<close> is a panic. Frames are not reused (\<open>SetReuseFrames\<close> only saves an
  allocation), and logging is left out.
\<close>

section \<open>The framer\<close>

record reader =
  rd_data :: bytes
  rd_err :: h2_error

text \<open>\<open>io.ReadFull\<close>: the wanted bytes, or the reader's error.\<close>

definition ReadFull :: "reader \<Rightarrow> nat \<Rightarrow> (h2_error + bytes) \<times> reader" where
  "ReadFull r n =
     (if n \<le> length (rd_data r) then (Inr (take n (rd_data r)), r\<lparr>rd_data := drop n (rd_data r)\<rparr>)
      else (Inl (if rd_err r = EOF \<and> rd_data r \<noteq> [] then ErrUnexpectedEOF else rd_err r), r\<lparr>rd_data := []\<rparr>))"

text \<open>
  The \<open>Framer\<close>. \<open>fr_w\<close> is the list of the byte slices handed to the writer so far, and
  \<open>fr_reply\<close> what the writer returns for the next one.
\<close>

record Framer =
  fr_r :: reader
  fr_lastFrame :: "Frame option"
  fr_errDetail :: "h2_error option"
  fr_counted :: "string list"
  lastHeaderStream :: u32
  lastFrameType :: FrameType
  maxReadSize :: u32
  fr_w :: "bytes list"
  fr_reply :: "bytes list \<Rightarrow> bytes \<Rightarrow> nat \<times> h2_error option"
  wbuf :: bytes
  AllowIllegalWrites :: bool
  AllowIllegalReads :: bool
  ReadMetaHeaders :: "unit Decoder option"
  MaxHeaderListSize :: u32

abbreviation (input) maxFrameSize :: u32 where "maxFrameSize \<equiv> 16777215"

definition SetMaxReadFrameSize :: "Framer \<Rightarrow> u32 \<Rightarrow> Framer" where
  "SetMaxReadFrameSize fr v = fr\<lparr>maxReadSize := if v > maxFrameSize then maxFrameSize else v\<rparr>"

definition NewFramer :: "(bytes list \<Rightarrow> bytes \<Rightarrow> nat \<times> h2_error option) \<Rightarrow> reader \<Rightarrow> Framer" where
  "NewFramer w r =
     SetMaxReadFrameSize
       \<lparr>fr_r = r, fr_lastFrame = None, fr_errDetail = None, fr_counted = [], lastHeaderStream = 0,
        lastFrameType = 0, maxReadSize = 0, fr_w = [], fr_reply = w, wbuf = [], AllowIllegalWrites = False,
        AllowIllegalReads = False, ReadMetaHeaders = None, MaxHeaderListSize = 0\<rparr> maxFrameSize"

definition maxHeaderListSize :: "Framer \<Rightarrow> u32" where
  "maxHeaderListSize fr = (if MaxHeaderListSize fr = 0 then 16777216 else MaxHeaderListSize fr)"

section \<open>Reading the frame header\<close>

definition header_of :: "bytes \<Rightarrow> FrameHeader" where
  "header_of buf =
     \<lparr>fh_valid = True, fh_Type = buf ! 3, fh_Flags = buf ! 4,
      fh_Length = push_bit 16 (ucast (buf ! 0)) OR push_bit 8 (ucast (buf ! 1)) OR ucast (buf ! 2),
      fh_StreamID = be32 (buf ! 5) (buf ! 6) (buf ! 7) (buf ! 8) AND 2147483647\<rparr>"

definition readFrameHeader :: "reader \<Rightarrow> (h2_error + FrameHeader) \<times> reader" where
  "readFrameHeader r = (case ReadFull r 9 of (res, r) \<Rightarrow> (map_res header_of res, r))"

definition zeroHeader :: FrameHeader where
  "zeroHeader = \<lparr>fh_valid = False, fh_Type = 0, fh_Flags = 0, fh_Length = 0, fh_StreamID = 0\<rparr>"

definition invalidHTTP1LookingFrameHeader :: FrameHeader where
  "invalidHTTP1LookingFrameHeader =
     (case fst (readFrameHeader \<lparr>rd_data = string_to_bytes ''HTTP/1.1 '', rd_err = EOF\<rparr>) of
        Inl _ \<Rightarrow> zeroHeader
      | Inr fh \<Rightarrow> fh)"

definition fr_connError :: "Framer \<Rightarrow> ErrCode \<Rightarrow> string \<Rightarrow> h2_error \<times> Framer" where
  "fr_connError fr code reason = (ConnectionError code, fr\<lparr>fr_errDetail := Some (errors_New reason)\<rparr>)"

text \<open>\<open>checkFrameOrder\<close>: HEADERS and CONTINUATION frames of a header block are contiguous.\<close>

definition checkFrameOrder :: "Framer \<Rightarrow> FrameHeader \<Rightarrow> h2_error option \<times> Framer" where
  "checkFrameOrder fr fh =
     (let lastType = lastFrameType fr;
          fr = fr\<lparr>lastFrameType := fh_Type fh\<rparr>
      in if AllowIllegalReads fr then (None, fr)
         else if lastHeaderStream fr \<noteq> 0 \<and> fh_Type fh \<noteq> FrameContinuation then
           apfst Some (fr_connError fr ErrCodeProtocol
             (''got '' @ FrameType_String (fh_Type fh) @ '' for stream '' @ Itoa (uint (fh_StreamID fh))
              @ ''; expected CONTINUATION following '' @ FrameType_String lastType
              @ '' for stream '' @ Itoa (uint (lastHeaderStream fr))))
         else if lastHeaderStream fr \<noteq> 0 \<and> fh_StreamID fh \<noteq> lastHeaderStream fr then
           apfst Some (fr_connError fr ErrCodeProtocol
             (''got CONTINUATION for stream '' @ Itoa (uint (fh_StreamID fh))
              @ ''; expected stream '' @ Itoa (uint (lastHeaderStream fr))))
         else if lastHeaderStream fr = 0 \<and> fh_Type fh = FrameContinuation then
           apfst Some (fr_connError fr ErrCodeProtocol
             (''unexpected CONTINUATION for stream '' @ Itoa (uint (fh_StreamID fh))))
         else if fh_Type fh = FrameHeaders \<or> fh_Type fh = FrameContinuation then
           (None, fr\<lparr>lastHeaderStream := if Has (fh_Flags fh) FlagHeadersEndHeaders then 0 else fh_StreamID fh\<rparr>)
         else (None, fr))"

definition ReadFrameHeader :: "Framer \<Rightarrow> (FrameHeader \<times> h2_error option) \<times> Framer" where
  "ReadFrameHeader fr =
     (case readFrameHeader (fr_r fr) of
        (Inl e, r) \<Rightarrow> ((zeroHeader, Some e), fr\<lparr>fr_errDetail := None, fr_r := r\<rparr>)
      | (Inr fh, r) \<Rightarrow>
          let fr = fr\<lparr>fr_errDetail := None, fr_r := r\<rparr> in
          if fh_Length fh > maxReadSize fr
          then ((fh, Some (if fh = invalidHTTP1LookingFrameHeader then HTTP1Looking ErrFrameTooLarge else ErrFrameTooLarge)), fr)
          else (case checkFrameOrder fr fh of (err, fr) \<Rightarrow> ((fh, err), fr)))"

section \<open>The frame parsers\<close>

type_synonym parsed = "((string \<times> h2_error) + Frame) option"

definition readByte :: "bytes \<Rightarrow> h2_error + (bytes \<times> byte)" where
  "readByte p = (case p of [] \<Rightarrow> Inl ErrUnexpectedEOF | b # r \<Rightarrow> Inr (r, b))"

definition readUint32 :: "bytes \<Rightarrow> h2_error + (bytes \<times> u32)" where
  "readUint32 p =
     (if length p < 4 then Inl ErrUnexpectedEOF
      else Inr (drop 4 p, be32 (p ! 0) (p ! 1) (p ! 2) (p ! 3)))"

text \<open>The error of a read, with the token that is counted for it.\<close>

definition counted :: "string \<Rightarrow> h2_error + 'a \<Rightarrow> (string \<times> h2_error) + 'a" where
  "counted token r = (case r of Inl e \<Rightarrow> Inl (token, e) | Inr x \<Rightarrow> Inr x)"

definition parseDataFrame :: "FrameHeader \<Rightarrow> bytes \<Rightarrow> parsed" where
  "parseDataFrame fh payload = Some (
     if fh_StreamID fh = 0
     then Inl (''frame_data_stream_0'', connError ErrCodeProtocol ''DATA frame with stream ID 0'')
     else
       bind_res (if Has (fh_Flags fh) FlagDataPadded then counted ''frame_data_pad_byte_short'' (readByte payload)
                 else Inr (payload, 0)) (\<lambda>(payload, padSize).
       if unat padSize > length payload
       then Inl (''frame_data_pad_too_big'', connError ErrCodeProtocol ''pad size larger than data payload'')
       else Inr (DataFrame fh (take (length payload - unat padSize) payload))))"

definition NumSettings :: "bytes \<Rightarrow> nat" where
  "NumSettings p = length p div 6"

text \<open>\<open>SettingsFrame.Setting\<close>; an index out of range is a panic.\<close>

definition Setting_at :: "bytes \<Rightarrow> nat \<Rightarrow> Setting option" where
  "Setting_at buf i =
     (if i * 6 + 6 \<le> length buf
      then Some \<lparr>s_ID = be16 (buf ! (i * 6)) (buf ! (i * 6 + 1)),
                 s_Val = be32 (buf ! (i * 6 + 2)) (buf ! (i * 6 + 3)) (buf ! (i * 6 + 4)) (buf ! (i * 6 + 5))\<rparr>
      else None)"

fun Value_loop :: "bytes \<Rightarrow> SettingID \<Rightarrow> nat list \<Rightarrow> u32 option option" where
  "Value_loop p sid [] = Some None"
| "Value_loop p sid (i # is) =
     (case Setting_at p i of
        None \<Rightarrow> None
      | Some s \<Rightarrow> if s_ID s = sid then Some (Some (s_Val s)) else Value_loop p sid is)"

text \<open>\<open>SettingsFrame.Value\<close>: the first value of a setting; the outer \<open>None\<close> is a panic.\<close>

definition Settings_Value :: "FrameHeader \<Rightarrow> bytes \<Rightarrow> SettingID \<Rightarrow> u32 option option" where
  "Settings_Value h p sid = (if \<not> fh_valid h then None else Value_loop p sid [0..<NumSettings p])"

definition parseSettingsFrame :: "FrameHeader \<Rightarrow> bytes \<Rightarrow> parsed" where
  "parseSettingsFrame fh p =
     (if Has (fh_Flags fh) FlagSettingsAck \<and> fh_Length fh > 0
      then Some (Inl (''frame_settings_ack_with_length'', ConnectionError ErrCodeFrameSize))
      else if fh_StreamID fh \<noteq> 0
      then Some (Inl (''frame_settings_has_stream'', ConnectionError ErrCodeProtocol))
      else if length p mod 6 \<noteq> 0
      then Some (Inl (''frame_settings_mod_6'', ConnectionError ErrCodeFrameSize))
      else case Settings_Value fh p SettingInitialWindowSize of
          None \<Rightarrow> None
        | Some (Some v) \<Rightarrow>
            Some (if v > 2147483647 then Inl (''frame_settings_window_size_too_big'', ConnectionError ErrCodeFlowControl)
                  else Inr (SettingsFrame fh p))
        | Some None \<Rightarrow> Some (Inr (SettingsFrame fh p)))"

definition parsePingFrame :: "FrameHeader \<Rightarrow> bytes \<Rightarrow> parsed" where
  "parsePingFrame fh payload = Some (
     if length payload \<noteq> 8 then Inl (''frame_ping_length'', ConnectionError ErrCodeFrameSize)
     else if fh_StreamID fh \<noteq> 0 then Inl (''frame_ping_has_stream'', ConnectionError ErrCodeProtocol)
     else Inr (PingFrame fh payload))"

definition parseGoAwayFrame :: "FrameHeader \<Rightarrow> bytes \<Rightarrow> parsed" where
  "parseGoAwayFrame fh p = Some (
     if fh_StreamID fh \<noteq> 0 then Inl (''frame_goaway_has_stream'', ConnectionError ErrCodeProtocol)
     else if length p < 8 then Inl (''frame_goaway_short'', ConnectionError ErrCodeFrameSize)
     else Inr (GoAwayFrame fh (be32 (p ! 0) (p ! 1) (p ! 2) (p ! 3) AND 2147483647)
                 (be32 (p ! 4) (p ! 5) (p ! 6) (p ! 7)) (drop 8 p)))"

definition parseUnknownFrame :: "FrameHeader \<Rightarrow> bytes \<Rightarrow> parsed" where
  "parseUnknownFrame fh p = Some (Inr (UnknownFrame fh p))"

definition parseWindowUpdateFrame :: "FrameHeader \<Rightarrow> bytes \<Rightarrow> parsed" where
  "parseWindowUpdateFrame fh p = Some (
     if length p \<noteq> 4 then Inl (''frame_windowupdate_bad_len'', ConnectionError ErrCodeFrameSize)
     else
       let inc = be32 (p ! 0) (p ! 1) (p ! 2) (p ! 3) AND 0x7fffffff in
       if inc = 0
       then if fh_StreamID fh = 0
            then Inl (''frame_windowupdate_zero_inc_conn'', ConnectionError ErrCodeProtocol)
            else Inl (''frame_windowupdate_zero_inc_stream'', streamError (fh_StreamID fh) ErrCodeProtocol)
       else Inr (WindowUpdateFrame fh inc))"

definition headers_priority :: "FrameHeader \<Rightarrow> bytes \<Rightarrow> (string \<times> h2_error) + (bytes \<times> PriorityParam)" where
  "headers_priority fh p =
     (if Has (fh_Flags fh) FlagHeadersPriority
      then
        bind_res (counted ''frame_headers_prio_short'' (readUint32 p)) (\<lambda>(p, v).
        let dep = v AND 0x7fffffff in
        map_res (\<lambda>(p, w). (p, zeroPriority\<lparr>StreamDep := dep, Exclusive := v \<noteq> dep, Weight := w\<rparr>))
          (counted ''frame_headers_prio_weight_short'' (readByte p)))
      else Inr (p, zeroPriority))"

definition parseHeadersFrame :: "FrameHeader \<Rightarrow> bytes \<Rightarrow> parsed" where
  "parseHeadersFrame fh p = Some (
     if fh_StreamID fh = 0
     then Inl (''frame_headers_zero_stream'', connError ErrCodeProtocol ''HEADERS frame with stream ID 0'')
     else
       bind_res (if Has (fh_Flags fh) FlagHeadersPadded then counted ''frame_headers_pad_short'' (readByte p)
                 else Inr (p, 0)) (\<lambda>(p, padLength).
       bind_res (headers_priority fh p) (\<lambda>(p, prio).
       if int (length p) - int (unat padLength) < 0
       then Inl (''frame_headers_pad_too_big'', streamError (fh_StreamID fh) ErrCodeProtocol)
       else Inr (HeadersFrame fh prio (take (length p - unat padLength) p)))))"

definition parsePriorityFrame :: "FrameHeader \<Rightarrow> bytes \<Rightarrow> parsed" where
  "parsePriorityFrame fh payload = Some (
     if fh_StreamID fh = 0
     then Inl (''frame_priority_zero_stream'', connError ErrCodeProtocol ''PRIORITY frame with stream ID 0'')
     else if length payload \<noteq> 5
     then Inl (''frame_priority_bad_length'', connError ErrCodeFrameSize
            (''PRIORITY frame payload size was '' @ Itoa (int (length payload)) @ ''; want 5''))
     else
       let v = be32 (payload ! 0) (payload ! 1) (payload ! 2) (payload ! 3);
           streamID = v AND 0x7fffffff
       in Inr (PriorityFrame fh (zeroPriority\<lparr>Weight := payload ! 4, StreamDep := streamID, Exclusive := streamID \<noteq> v\<rparr>)))"

definition parseRSTStreamFrame :: "FrameHeader \<Rightarrow> bytes \<Rightarrow> parsed" where
  "parseRSTStreamFrame fh p = Some (
     if length p \<noteq> 4 then Inl (''frame_rststream_bad_len'', ConnectionError ErrCodeFrameSize)
     else if fh_StreamID fh = 0 then Inl (''frame_rststream_zero_stream'', ConnectionError ErrCodeProtocol)
     else Inr (RSTStreamFrame fh (be32 (p ! 0) (p ! 1) (p ! 2) (p ! 3))))"

definition parseContinuationFrame :: "FrameHeader \<Rightarrow> bytes \<Rightarrow> parsed" where
  "parseContinuationFrame fh p = Some (
     if fh_StreamID fh = 0
     then Inl (''frame_continuation_zero_stream'', connError ErrCodeProtocol ''CONTINUATION frame with stream ID 0'')
     else Inr (ContinuationFrame fh p))"

definition parsePushPromise :: "FrameHeader \<Rightarrow> bytes \<Rightarrow> parsed" where
  "parsePushPromise fh p = Some (
     if fh_StreamID fh = 0 then Inl (''frame_pushpromise_zero_stream'', ConnectionError ErrCodeProtocol)
     else
       bind_res (if Has (fh_Flags fh) FlagPushPromisePadded then counted ''frame_pushpromise_pad_short'' (readByte p)
                 else Inr (p, 0)) (\<lambda>(p, padLength).
       bind_res (counted ''frame_pushpromise_promiseid_short'' (readUint32 p)) (\<lambda>(p, promiseID).
       if unat padLength > length p then Inl (''frame_pushpromise_pad_too_big'', ConnectionError ErrCodeProtocol)
       else Inr (PushPromiseFrame fh (promiseID AND 2147483647) (take (length p - unat padLength) p)))))"

definition frameParsers :: "(FrameHeader \<Rightarrow> bytes \<Rightarrow> parsed) list" where
  "frameParsers =
     [parseDataFrame, parseHeadersFrame, parsePriorityFrame, parseRSTStreamFrame, parseSettingsFrame,
      parsePushPromise, parsePingFrame, parseGoAwayFrame, parseWindowUpdateFrame, parseContinuationFrame]"

definition typeFrameParser :: "FrameType \<Rightarrow> FrameHeader \<Rightarrow> bytes \<Rightarrow> parsed" where
  "typeFrameParser t = (if unat t < length frameParsers then frameParsers ! unat t else parseUnknownFrame)"

section \<open>Settings frames\<close>

fun dup_inner :: "bytes \<Rightarrow> SettingID \<Rightarrow> nat list \<Rightarrow> bool option" where
  "dup_inner p idi [] = Some False"
| "dup_inner p idi (j # js) =
     (case Setting_at p j of
        None \<Rightarrow> None
      | Some s \<Rightarrow> if idi = s_ID s then Some True else dup_inner p idi js)"

fun dup_quadratic :: "bytes \<Rightarrow> nat \<Rightarrow> nat list \<Rightarrow> bool option" where
  "dup_quadratic p num [] = Some False"
| "dup_quadratic p num (i # is) =
     (case Setting_at p i of
        None \<Rightarrow> None
      | Some s \<Rightarrow>
          (case dup_inner p (s_ID s) [i + 1..<num] of
             None \<Rightarrow> None
           | Some True \<Rightarrow> Some True
           | Some False \<Rightarrow> dup_quadratic p num is))"

fun dup_seen :: "bytes \<Rightarrow> (SettingID \<Rightarrow> bool) \<Rightarrow> nat list \<Rightarrow> bool option" where
  "dup_seen p seen [] = Some False"
| "dup_seen p seen (i # is) =
     (case Setting_at p i of
        None \<Rightarrow> None
      | Some s \<Rightarrow> if seen (s_ID s) then Some True else dup_seen p (seen(s_ID s := True)) is)"

definition HasDuplicates :: "bytes \<Rightarrow> bool option" where
  "HasDuplicates p =
     (let num = NumSettings p in
      if num = 0 then Some False
      else if num < 10 then dup_quadratic p num [0..<num]
      else dup_seen p (\<lambda>_. False) [0..<num])"

text \<open>\<open>ForeachSetting\<close>: the callback is a state transformer that may return an error.\<close>

fun Foreach_loop :: "bytes \<Rightarrow> (Setting \<Rightarrow> 's \<Rightarrow> h2_error option \<times> 's) \<Rightarrow> nat list \<Rightarrow> 's
    \<Rightarrow> (h2_error option \<times> 's) option" where
  "Foreach_loop p fn [] st = Some (None, st)"
| "Foreach_loop p fn (i # is) st =
     (case Setting_at p i of
        None \<Rightarrow> None
      | Some s \<Rightarrow>
          (case fn s st of
             (Some err, st) \<Rightarrow> Some (Some err, st)
           | (None, st) \<Rightarrow> Foreach_loop p fn is st))"

definition ForeachSetting :: "FrameHeader \<Rightarrow> bytes \<Rightarrow> (Setting \<Rightarrow> 's \<Rightarrow> h2_error option \<times> 's) \<Rightarrow> 's
    \<Rightarrow> (h2_error option \<times> 's) option" where
  "ForeachSetting h p fn st = (if \<not> fh_valid h then None else Foreach_loop p fn [0..<NumSettings p] st)"

section \<open>Reading a frame\<close>

type_synonym read_result = "(Frame option \<times> h2_error option \<times> Framer) option"

text \<open>
  \<open>ReadFrameForHeader\<close> up to the point where a HEADERS frame is handed to \<open>readMetaFrame\<close>.
\<close>

definition read_payload :: "Framer \<Rightarrow> FrameHeader \<Rightarrow> read_result" where
  "read_payload fr fh =
     (let fr = fr\<lparr>fr_lastFrame := map_option invalidate (fr_lastFrame fr)\<rparr> in
      case ReadFull (fr_r fr) (unat (fh_Length fh)) of
        (Inl e, r) \<Rightarrow>
          Some (None, Some (if fh = invalidHTTP1LookingFrameHeader then HTTP1Looking e else e), fr\<lparr>fr_r := r\<rparr>)
      | (Inr payload, r) \<Rightarrow>
          let fr = fr\<lparr>fr_r := r\<rparr> in
          (case typeFrameParser (fh_Type fh) fh payload of
             None \<Rightarrow> None
           | Some (Inl (token, err)) \<Rightarrow>
               let fr = fr\<lparr>fr_counted := fr_counted fr @ [token]\<rparr> in
               (case err of
                  connError code reason \<Rightarrow>
                    (case fr_connError fr code reason of (e, fr) \<Rightarrow> Some (None, Some e, fr))
                | _ \<Rightarrow> Some (None, Some err, fr))
           | Some (Inr f) \<Rightarrow> Some (Some f, None, fr\<lparr>fr_lastFrame := Some f\<rparr>)))"

end
