(* ===== verification/Frame_Meta.thy ===== *)
theory Frame_Meta
  imports Frame_Read
begin

unbundle bit_operations_syntax

text \<open>
  The framer of \<open>frame.go\<close>, header blocks: \<open>readMetaFrame\<close> reads the CONTINUATION frames that follow
  a HEADERS frame, feeds the fragments to the HPACK decoder and checks the decoded fields.
  \<open>httpguts.ValidHeaderFieldValue\<close> and \<open>httpguts.IsTokenRune\<close> are the arguments \<open>vv\<close> and \<open>tok\<close>. The
  latter is false beyond ASCII, so the loop of \<open>validWireHeaderFieldName\<close> over the runes of a string
  is a loop over its bytes. The emit closure of \<open>readMetaFrame\<close> captures the variables of \<open>meta_env\<close>.
  An \<open>int\<close> has 64 bits.
\<close>

section \<open>Pseudo header fields\<close>

definition validWireHeaderFieldName :: "(char \<Rightarrow> bool) \<Rightarrow> string \<Rightarrow> bool" where
  "validWireHeaderFieldName tok v =
     (if length v = 0 then False
      else list_all (\<lambda>r. tok r \<and> \<not> (65 \<le> char_code r \<and> char_code r \<le> 90)) v)"

fun PseudoValue :: "HeaderField list \<Rightarrow> string \<Rightarrow> string" where
  "PseudoValue [] pseudo = []"
| "PseudoValue (f # fs) pseudo =
     (if \<not> IsPseudo f then []
      else if drop 1 (hf_Name f) = pseudo then hf_Value f
      else PseudoValue fs pseudo)"

fun RegularFields :: "HeaderField list \<Rightarrow> HeaderField list" where
  "RegularFields [] = []"
| "RegularFields (f # fs) = (if \<not> IsPseudo f then f # fs else RegularFields fs)"

fun PseudoFields :: "HeaderField list \<Rightarrow> HeaderField list" where
  "PseudoFields [] = []"
| "PseudoFields (f # fs) = (if \<not> IsPseudo f then [] else f # PseudoFields fs)"

text \<open>The loop of \<open>checkPseudos\<close>; \<open>prev\<close> is \<open>pf[:i]\<close>.\<close>

fun checkPseudos_loop :: "HeaderField list \<Rightarrow> bool \<Rightarrow> bool \<Rightarrow> HeaderField list \<Rightarrow> h2_error option" where
  "checkPseudos_loop prev isRequest isResponse [] =
     (if isRequest \<and> isResponse then Some errMixPseudoHeaderTypes else None)"
| "checkPseudos_loop prev isRequest isResponse (f # fs) =
     (if hf_Name f \<in> set ['':method'', '':path'', '':scheme'', '':authority'', '':protocol''] then
        if \<exists>f2 \<in> set prev. hf_Name f = hf_Name f2 then Some (duplicatePseudoHeaderError (hf_Name f))
        else checkPseudos_loop (prev @ [f]) True isResponse fs
      else if hf_Name f = '':status'' then
        if \<exists>f2 \<in> set prev. hf_Name f = hf_Name f2 then Some (duplicatePseudoHeaderError (hf_Name f))
        else checkPseudos_loop (prev @ [f]) isRequest True fs
      else Some (pseudoHeaderError (hf_Name f)))"

definition checkPseudos :: "HeaderField list \<Rightarrow> h2_error option" where
  "checkPseudos fs = checkPseudos_loop [] False False (PseudoFields fs)"

section \<open>Reading a header block\<close>

record meta_env =
  me_Fields :: "HeaderField list"
  me_Truncated :: bool
  me_remainSize :: u32
  me_sawRegular :: bool
  me_invalid :: "h2_error option"

text \<open>The emit closure; the flag is the decoder's \<open>emitEnabled\<close>.\<close>

definition emit_meta :: "(string \<Rightarrow> bool) \<Rightarrow> (char \<Rightarrow> bool) \<Rightarrow> HeaderField \<Rightarrow> meta_env \<times> bool \<Rightarrow> meta_env \<times> bool" where
  "emit_meta vv tok f = (\<lambda>(env, en).
     let env = (if \<not> vv (hf_Value f) then env\<lparr>me_invalid := Some (headerFieldValueError (hf_Name f))\<rparr> else env);
         env = (if IsPseudo f
                then if me_sawRegular env then env\<lparr>me_invalid := Some errPseudoAfterRegular\<rparr> else env
                else if \<not> validWireHeaderFieldName tok (hf_Name f)
                then env\<lparr>me_sawRegular := True, me_invalid := Some (headerFieldNameError (hf_Name f))\<rparr>
                else env\<lparr>me_sawRegular := True\<rparr>)
     in if me_invalid env \<noteq> None then (env, False)
        else
          let size = HeaderField_Size f in
          if size > me_remainSize env then (env\<lparr>me_Truncated := True, me_remainSize := 0\<rparr>, False)
          else (env\<lparr>me_remainSize := me_remainSize env - size, me_Fields := me_Fields env @ [f]\<rparr>, en))"

definition maxHeaderStringLen :: "Framer \<Rightarrow> nat" where
  "maxHeaderStringLen fr = unat (maxHeaderListSize fr)"

definition meta_init :: "(string \<Rightarrow> bool) \<Rightarrow> (char \<Rightarrow> bool) \<Rightarrow> Framer \<Rightarrow> unit Decoder \<Rightarrow> meta_env Decoder" where
  "meta_init vv tok fr hdec =
     SetEmitFunc (SetMaxStringLength (SetEmitEnabled hdec True) (maxHeaderStringLen fr)) (emit_meta vv tok)
       \<lparr>me_Fields = [], me_Truncated = False, me_remainSize = maxHeaderListSize fr, me_sawRegular = False,
        me_invalid = None\<rparr>"

text \<open>The deferred \<open>SetEmitFunc\<close>; the framer and \<open>readMetaFrame\<close> share the decoder.\<close>

definition release :: "meta_env Decoder \<Rightarrow> Framer \<Rightarrow> Framer" where
  "release hdec fr = fr\<lparr>ReadMetaHeaders := Some (SetEmitFunc hdec (\<lambda>_ s. s) ())\<rparr>"

text \<open>The frame \<open>mh\<close>; it shares the header of the HEADERS frame.\<close>

definition mh_of :: "FrameHeader \<Rightarrow> PriorityParam \<Rightarrow> bytes \<Rightarrow> meta_env Decoder \<Rightarrow> Frame" where
  "mh_of h prio frag hdec = MetaHeadersFrame h prio frag (me_Fields (d_env hdec)) (me_Truncated (d_env hdec))"

text \<open>The part of \<open>readMetaFrame\<close> after the loop; \<open>hc\<close> is the last frame that was read.\<close>

definition meta_end :: "FrameHeader \<Rightarrow> PriorityParam \<Rightarrow> Frame \<Rightarrow> meta_env Decoder \<Rightarrow> Framer
    \<Rightarrow> Frame option \<times> h2_error option \<times> Framer" where
  "meta_end h prio hc hdec fr =
     (let h = h\<lparr>fh_valid := False\<rparr>;
          fr = (case hc of HeadersFrame _ _ _ \<Rightarrow> fr\<lparr>fr_lastFrame := Some (HeadersFrame h prio [])\<rparr> | _ \<Rightarrow> fr)
      in case dec_Close hdec of
          (Some _, hdec) \<Rightarrow> (Some (mh_of h prio [] hdec), Some (ConnectionError ErrCodeCompression), release hdec fr)
        | (None, hdec) \<Rightarrow>
            (case me_invalid (d_env hdec) of
               Some invalid \<Rightarrow>
                 (None, Some (StreamError (fh_StreamID h) ErrCodeProtocol (Some invalid)),
                  (release hdec fr)\<lparr>fr_errDetail := Some invalid\<rparr>)
             | None \<Rightarrow>
                 (case checkPseudos (me_Fields (d_env hdec)) of
                    Some err \<Rightarrow>
                      (None, Some (StreamError (fh_StreamID h) ErrCodeProtocol (Some err)),
                       (release hdec fr)\<lparr>fr_errDetail := Some err\<rparr>)
                  | None \<Rightarrow> (Some (mh_of h prio [] hdec), None, release hdec fr))))"

text \<open>
  The loop. \<open>h\<close>, \<open>prio\<close> and \<open>frag0\<close> are the HEADERS frame, \<open>hc\<close> the frame whose fragment is next.
  \<open>ReadFrame\<close> would call \<open>readMetaFrame\<close> again on a HEADERS frame; the frame it returned would then
  fail the type assertion to \<open>*ContinuationFrame\<close>, and so would any other frame: a panic, \<open>None\<close>.
\<close>

partial_function (option) meta_loop :: "(string \<Rightarrow> bool) \<Rightarrow> (char \<Rightarrow> bool) \<Rightarrow> FrameHeader \<Rightarrow> PriorityParam \<Rightarrow> bytes
    \<Rightarrow> Frame \<Rightarrow> meta_env Decoder \<Rightarrow> Framer \<Rightarrow> (Frame option \<times> h2_error option \<times> Framer) option" where
  "meta_loop vv tok h prio frag0 hc hdec fr =
     (case HeaderBlockFragment hc of
        None \<Rightarrow> None
      | Some frag \<Rightarrow>
          if length frag > unat (2 * me_remainSize (d_env hdec)) \<or> me_invalid (d_env hdec) \<noteq> None
          then Some (Some (mh_of h prio frag0 hdec), Some (ConnectionError ErrCodeProtocol), release hdec fr)
          else
            (case dec_Write hdec frag of
               None \<Rightarrow> None
             | Some (_, Some _, hdec) \<Rightarrow>
                 Some (Some (mh_of h prio frag0 hdec), Some (ConnectionError ErrCodeCompression), release hdec fr)
             | Some (_, None, hdec) \<Rightarrow>
                 if HeadersEnded hc then Some (meta_end h prio hc hdec fr)
                 else
                   (case ReadFrameHeader (release hdec fr) of
                      ((_, Some err), fr) \<Rightarrow> Some (None, Some err, fr)
                    | ((fh, None), fr) \<Rightarrow>
                        (case read_payload fr fh of
                           Some (_, Some err, fr) \<Rightarrow> Some (None, Some err, fr)
                         | Some (Some f, None, fr) \<Rightarrow>
                             (case f of
                                ContinuationFrame _ _ \<Rightarrow>
                                  meta_loop vv tok (h\<lparr>fh_valid := False\<rparr>) prio frag0 f hdec fr
                              | HeadersFrame h2 prio2 frag2 \<Rightarrow>
                                  (case ReadMetaHeaders fr of
                                     None \<Rightarrow> None
                                   | Some hdec2 \<Rightarrow>
                                       if AllowIllegalReads fr
                                       then Some (None, Some (errors_New ''illegal use of AllowIllegalReads with ReadMetaHeaders''), fr)
                                       else Option.bind (meta_loop vv tok h2 prio2 frag2 f (meta_init vv tok fr hdec2) fr)
                                         (\<lambda>(_, err, fr). if err \<noteq> None then Some (None, err, fr) else None))
                              | _ \<Rightarrow> None)
                         | _ \<Rightarrow> None))))"

declare meta_loop.simps [code]

definition readMetaFrame :: "(string \<Rightarrow> bool) \<Rightarrow> (char \<Rightarrow> bool) \<Rightarrow> Framer \<Rightarrow> unit Decoder \<Rightarrow> FrameHeader \<Rightarrow> PriorityParam \<Rightarrow> bytes
    \<Rightarrow> read_result" where
  "readMetaFrame vv tok fr hdec h prio frag =
     (if AllowIllegalReads fr
      then Some (None, Some (errors_New ''illegal use of AllowIllegalReads with ReadMetaHeaders''), fr)
      else meta_loop vv tok h prio frag (HeadersFrame h prio frag) (meta_init vv tok fr hdec) fr)"

definition ReadFrameForHeader :: "(string \<Rightarrow> bool) \<Rightarrow> (char \<Rightarrow> bool) \<Rightarrow> Framer \<Rightarrow> FrameHeader \<Rightarrow> read_result" where
  "ReadFrameForHeader vv tok fr fh =
     (case read_payload fr fh of
        Some (Some f, None, fr) \<Rightarrow>
          (case (f, ReadMetaHeaders fr) of
             (HeadersFrame h prio frag, Some hdec) \<Rightarrow> readMetaFrame vv tok fr hdec h prio frag
           | _ \<Rightarrow> Some (Some f, None, fr))
      | r \<Rightarrow> r)"

definition ReadFrame :: "(string \<Rightarrow> bool) \<Rightarrow> (char \<Rightarrow> bool) \<Rightarrow> Framer \<Rightarrow> read_result" where
  "ReadFrame vv tok fr =
     (case ReadFrameHeader fr of
        ((_, Some err), fr) \<Rightarrow> Some (None, Some err, fr)
      | ((fh, None), fr) \<Rightarrow> ReadFrameForHeader vv tok fr fh)"

end
