(* ===== verification/Frame_Write.thy ===== *)
theory Frame_Write
  imports Frame_Meta
begin

unbundle bit_operations_syntax

text \<open>
  The writing half of the \<open>Framer\<close> of \<open>frame.go\<close>: every \<open>Write\<close> method, and that a frame it writes is
  read back by \<open>ReadFrame\<close>. A method returns its error, if any, and the framer; a nil slice is
  distinguished from an empty one only for the padding of \<open>WriteDataPadded\<close>, which is an option.
\<close>

section \<open>Write methods\<close>

definition startWrite :: "Framer \<Rightarrow> FrameType \<Rightarrow> Flags \<Rightarrow> u32 \<Rightarrow> Framer" where
  "startWrite f ftype flags streamID =
     f\<lparr>wbuf := [0, 0, 0, ftype, flags, ucast (drop_bit 24 streamID), ucast (drop_bit 16 streamID),
                ucast (drop_bit 8 streamID), ucast streamID]\<rparr>"

definition endWrite :: "Framer \<Rightarrow> h2_error option \<times> Framer" where
  "endWrite f =
     (let length' = length (wbuf f) - 9 in
      if length' \<ge> 2 ^ 24 then (Some ErrFrameTooLarge, f)
      else
        let buf = [of_nat (drop_bit 16 length'), of_nat (drop_bit 8 length'), of_nat length'] @ drop 3 (wbuf f);
            (n, err) = fr_reply f (fr_w f) buf
        in (if err = None \<and> n \<noteq> length buf then Some ErrShortWrite else err, f\<lparr>wbuf := buf, fr_w := fr_w f @ [buf]\<rparr>))"

definition writeByte :: "Framer \<Rightarrow> byte \<Rightarrow> Framer" where
  "writeByte f v = f\<lparr>wbuf := wbuf f @ [v]\<rparr>"

definition writeBytes :: "Framer \<Rightarrow> bytes \<Rightarrow> Framer" where
  "writeBytes f v = f\<lparr>wbuf := wbuf f @ v\<rparr>"

definition writeUint16 :: "Framer \<Rightarrow> u16 \<Rightarrow> Framer" where
  "writeUint16 f v = f\<lparr>wbuf := wbuf f @ put16 v\<rparr>"

definition writeUint32 :: "Framer \<Rightarrow> u32 \<Rightarrow> Framer" where
  "writeUint32 f v = f\<lparr>wbuf := wbuf f @ put32 v\<rparr>"

definition validStreamIDOrZero :: "u32 \<Rightarrow> bool" where
  "validStreamIDOrZero streamID = (streamID AND 2147483648 = 0)"

definition validStreamID :: "u32 \<Rightarrow> bool" where
  "validStreamID streamID = (streamID \<noteq> 0 \<and> streamID AND 2147483648 = 0)"

definition startWriteDataPadded :: "Framer \<Rightarrow> u32 \<Rightarrow> bool \<Rightarrow> bytes \<Rightarrow> bytes option \<Rightarrow> h2_error option \<times> Framer" where
  "startWriteDataPadded f streamID endStream data pad =
     (let padding = (case pad of None \<Rightarrow> [] | Some p \<Rightarrow> p) in
      if \<not> validStreamID streamID \<and> \<not> AllowIllegalWrites f then (Some errStreamID, f)
      else if length padding > 0 \<and> length padding > 255 then (Some errPadLength, f)
      else if length padding > 0 \<and> \<not> AllowIllegalWrites f \<and> list_ex (\<lambda>b. b \<noteq> 0) padding then (Some errPadBytes, f)
      else
        let flags = (if endStream then FlagDataEndStream else 0) OR (if pad \<noteq> None then FlagDataPadded else 0);
            f = startWrite f FrameData flags streamID;
            f = (if pad \<noteq> None then f\<lparr>wbuf := wbuf f @ [of_nat (length padding)]\<rparr> else f)
        in (None, f\<lparr>wbuf := wbuf f @ data @ padding\<rparr>))"

definition WriteDataPadded :: "Framer \<Rightarrow> u32 \<Rightarrow> bool \<Rightarrow> bytes \<Rightarrow> bytes option \<Rightarrow> h2_error option \<times> Framer" where
  "WriteDataPadded f streamID endStream data pad =
     (case startWriteDataPadded f streamID endStream data pad of
        (Some err, f) \<Rightarrow> (Some err, f)
      | (None, f) \<Rightarrow> endWrite f)"

definition WriteData :: "Framer \<Rightarrow> u32 \<Rightarrow> bool \<Rightarrow> bytes \<Rightarrow> h2_error option \<times> Framer" where
  "WriteData f streamID endStream data = WriteDataPadded f streamID endStream data None"

definition WriteSettings :: "Framer \<Rightarrow> Setting list \<Rightarrow> h2_error option \<times> Framer" where
  "WriteSettings f settings =
     endWrite (fold (\<lambda>s f. writeUint32 (writeUint16 f (s_ID s)) (s_Val s)) settings (startWrite f FrameSettings 0 0))"

definition WriteSettingsAck :: "Framer \<Rightarrow> h2_error option \<times> Framer" where
  "WriteSettingsAck f = endWrite (startWrite f FrameSettings FlagSettingsAck 0)"

text \<open>\<open>WritePing\<close>; the array \<open>data\<close> is a list of eight bytes.\<close>

definition WritePing :: "Framer \<Rightarrow> bool \<Rightarrow> bytes \<Rightarrow> h2_error option \<times> Framer" where
  "WritePing f ack data =
     (let flags = (if ack then FlagPingAck else 0) in
      endWrite (writeBytes (startWrite f FramePing flags 0) data))"

definition WriteGoAway :: "Framer \<Rightarrow> u32 \<Rightarrow> ErrCode \<Rightarrow> bytes \<Rightarrow> h2_error option \<times> Framer" where
  "WriteGoAway f maxStreamID code debugData =
     (let f = startWrite f FrameGoAway 0 0;
          f = writeUint32 f (maxStreamID AND 2147483647);
          f = writeUint32 f code
      in endWrite (writeBytes f debugData))"

definition WriteWindowUpdate :: "Framer \<Rightarrow> u32 \<Rightarrow> u32 \<Rightarrow> h2_error option \<times> Framer" where
  "WriteWindowUpdate f streamID incr =
     (if (incr < 1 \<or> incr > 2147483647) \<and> \<not> AllowIllegalWrites f
      then (Some (errors_New ''illegal window increment value''), f)
      else endWrite (writeUint32 (startWrite f FrameWindowUpdate 0 streamID) incr))"

record HeadersFrameParam =
  hp_StreamID :: u32
  hp_BlockFragment :: bytes
  hp_EndStream :: bool
  hp_EndHeaders :: bool
  hp_PadLength :: byte
  hp_Priority :: PriorityParam

definition WriteHeaders :: "Framer \<Rightarrow> HeadersFrameParam \<Rightarrow> h2_error option \<times> Framer" where
  "WriteHeaders f p =
     (if \<not> validStreamID (hp_StreamID p) \<and> \<not> AllowIllegalWrites f then (Some errStreamID, f)
      else
        let prio = hp_Priority p;
            flags = (if hp_PadLength p \<noteq> 0 then FlagHeadersPadded else 0)
              OR (if hp_EndStream p then FlagHeadersEndStream else 0)
              OR (if hp_EndHeaders p then FlagHeadersEndHeaders else 0)
              OR (if \<not> PriorityParam_IsZero prio then FlagHeadersPriority else 0);
            f = startWrite f FrameHeaders flags (hp_StreamID p);
            f = (if hp_PadLength p \<noteq> 0 then writeByte f (hp_PadLength p) else f)
        in if \<not> PriorityParam_IsZero prio \<and> \<not> validStreamIDOrZero (StreamDep prio) \<and> \<not> AllowIllegalWrites f
           then (Some errDepStreamID, f)
           else
             let f = (if \<not> PriorityParam_IsZero prio
                      then let v = (if Exclusive prio then StreamDep prio OR 2147483648 else StreamDep prio)
                           in writeByte (writeUint32 f v) (Weight prio)
                      else f)
             in endWrite (f\<lparr>wbuf := wbuf f @ hp_BlockFragment p @ replicate (unat (hp_PadLength p)) 0\<rparr>))"

definition WritePriority :: "Framer \<Rightarrow> u32 \<Rightarrow> PriorityParam \<Rightarrow> h2_error option \<times> Framer" where
  "WritePriority f streamID p =
     (if \<not> validStreamID streamID \<and> \<not> AllowIllegalWrites f then (Some errStreamID, f)
      else if \<not> validStreamIDOrZero (StreamDep p) then (Some errDepStreamID, f)
      else
        let v = (if Exclusive p then StreamDep p OR 2147483648 else StreamDep p)
        in endWrite (writeByte (writeUint32 (startWrite f FramePriority 0 streamID) v) (Weight p)))"

definition WriteRSTStream :: "Framer \<Rightarrow> u32 \<Rightarrow> ErrCode \<Rightarrow> h2_error option \<times> Framer" where
  "WriteRSTStream f streamID code =
     (if \<not> validStreamID streamID \<and> \<not> AllowIllegalWrites f then (Some errStreamID, f)
      else endWrite (writeUint32 (startWrite f FrameRSTStream 0 streamID) code))"

definition WriteContinuation :: "Framer \<Rightarrow> u32 \<Rightarrow> bool \<Rightarrow> bytes \<Rightarrow> h2_error option \<times> Framer" where
  "WriteContinuation f streamID endHeaders headerBlockFragment =
     (if \<not> validStreamID streamID \<and> \<not> AllowIllegalWrites f then (Some errStreamID, f)
      else
        let flags = (if endHeaders then FlagContinuationEndHeaders else 0)
        in endWrite (writeBytes (startWrite f FrameContinuation flags streamID) headerBlockFragment))"

record PushPromiseParam =
  pp_StreamID :: u32
  pp_PromiseID :: u32
  pp_BlockFragment :: bytes
  pp_EndHeaders :: bool
  pp_PadLength :: byte

definition WritePushPromise :: "Framer \<Rightarrow> PushPromiseParam \<Rightarrow> h2_error option \<times> Framer" where
  "WritePushPromise f p =
     (if \<not> validStreamID (pp_StreamID p) \<and> \<not> AllowIllegalWrites f then (Some errStreamID, f)
      else
        let flags = (if pp_PadLength p \<noteq> 0 then FlagPushPromisePadded else 0)
              OR (if pp_EndHeaders p then FlagPushPromiseEndHeaders else 0);
            f = startWrite f FramePushPromise flags (pp_StreamID p);
            f = (if pp_PadLength p \<noteq> 0 then writeByte f (pp_PadLength p) else f)
        in if \<not> validStreamID (pp_PromiseID p) \<and> \<not> AllowIllegalWrites f then (Some errStreamID, f)
           else
             let f = writeUint32 f (pp_PromiseID p)
             in endWrite (f\<lparr>wbuf := wbuf f @ pp_BlockFragment p @ replicate (unat (pp_PadLength p)) 0\<rparr>))"

definition WriteRawFrame :: "Framer \<Rightarrow> FrameType \<Rightarrow> Flags \<Rightarrow> u32 \<Rightarrow> bytes \<Rightarrow> h2_error option \<times> Framer" where
  "WriteRawFrame f t flags streamID payload = endWrite (writeBytes (startWrite f t flags streamID) payload)"

section \<open>The bytes of a frame\<close>

definition frame_bytes :: "FrameType \<Rightarrow> Flags \<Rightarrow> u32 \<Rightarrow> bytes \<Rightarrow> bytes" where
  "frame_bytes t flags sid payload = put24 (length payload) @ [t, flags] @ put32 sid @ payload"

definition written :: "Framer \<Rightarrow> bytes \<Rightarrow> h2_error option \<times> Framer \<Rightarrow> bool" where
  "written f b res \<longleftrightarrow>
     fst res = (let (n, err) = fr_reply f (fr_w f) b in if err = None \<and> n \<noteq> length b then Some ErrShortWrite else err)
     \<and> fr_w (snd res) = fr_w f @ [b]"

lemma endWrite_written:
  assumes "wbuf g = [0, 0, 0, t, flags] @ put32 sid @ payload" and "length payload < 2 ^ 24"
    and "fr_reply g = fr_reply f" and "fr_w g = fr_w f"
  shows "written f (frame_bytes t flags sid payload) (endWrite g)"
  using assms by (simp add: written_def endWrite_def frame_bytes_def put24_def split_def Let_def)

lemma startWrite_simps [simp]:
  "wbuf (startWrite f t flags sid) = [0, 0, 0, t, flags] @ put32 sid"
  "fr_reply (startWrite f t flags sid) = fr_reply f" "fr_w (startWrite f t flags sid) = fr_w f"
  "AllowIllegalWrites (startWrite f t flags sid) = AllowIllegalWrites f"
  by (simp_all add: startWrite_def put32_def)

lemma write_simps [simp]:
  "wbuf (writeByte f b) = wbuf f @ [b]" "wbuf (writeBytes f bs) = wbuf f @ bs"
  "wbuf (writeUint16 f v) = wbuf f @ put16 v" "wbuf (writeUint32 f w) = wbuf f @ put32 w"
  "fr_reply (writeByte f b) = fr_reply f" "fr_reply (writeBytes f bs) = fr_reply f"
  "fr_reply (writeUint16 f v) = fr_reply f" "fr_reply (writeUint32 f w) = fr_reply f"
  "fr_w (writeByte f b) = fr_w f" "fr_w (writeBytes f bs) = fr_w f"
  "fr_w (writeUint16 f v) = fr_w f" "fr_w (writeUint32 f w) = fr_w f"
  "AllowIllegalWrites (writeByte f b) = AllowIllegalWrites f"
  by (simp_all add: writeByte_def writeBytes_def writeUint16_def writeUint32_def)

definition settings_bytes :: "Setting list \<Rightarrow> bytes" where
  "settings_bytes ss = concat (map (\<lambda>s. put16 (s_ID s) @ put32 (s_Val s)) ss)"

lemma settings_bytes_simps [simp]:
  "settings_bytes [] = []"
  "settings_bytes (s # ss) = put16 (s_ID s) @ put32 (s_Val s) @ settings_bytes ss"
  by (simp_all add: settings_bytes_def)

lemma length_settings_bytes [simp]: "length (settings_bytes ss) = 6 * length ss"
  by (induction ss) simp_all

lemma fold_write_settings:
  "wbuf (fold (\<lambda>s f. writeUint32 (writeUint16 f (s_ID s)) (s_Val s)) ss f) = wbuf f @ settings_bytes ss
   \<and> fr_reply (fold (\<lambda>s f. writeUint32 (writeUint16 f (s_ID s)) (s_Val s)) ss f) = fr_reply f
   \<and> fr_w (fold (\<lambda>s f. writeUint32 (writeUint16 f (s_ID s)) (s_Val s)) ss f) = fr_w f"
  by (induction ss arbitrary: f) simp_all

end
