(* ===== verification/Frame_Roundtrip.thy ===== *)
theory Frame_Roundtrip
  imports Frame_Write
begin

unbundle bit_operations_syntax

text \<open>
  The two halves of the framer fit together: a request to a \<open>Write\<close> method is a value of
  \<open>frame_req\<close>, \<open>req_wire\<close> is the wire format of RFC 7540 for it and \<open>req_frame\<close> the frame that a
  reader should get.
\<close>

section \<open>Stream identifiers\<close>

lemma mask31 [simp]: "(x :: u32) AND 2147483648 = 0 \<Longrightarrow> x AND 2147483647 = x"
proof -
  assume "x AND 2147483648 = 0"
  then have "x AND (2147483648 OR 2147483647) = x AND 2147483647"
    by (simp only: bit.conj_disj_distrib or.left_neutral)
  moreover have all: "(2147483648 OR 2147483647 :: u32) = - 1" by simp
  ultimately show ?thesis by (simp only: all) simp
qed

lemma valid_masked: "validStreamID sid \<Longrightarrow> sid AND 2147483647 = sid \<and> sid \<noteq> 0"
  by (simp add: validStreamID_def)

lemma exclusive_bit:
  assumes "(x :: u32) AND 2147483648 = 0"
  shows "(x OR 2147483648) AND 2147483647 = x" "x OR 2147483648 \<noteq> x"
proof -
  show "(x OR 2147483648) AND 2147483647 = x"
    using assms by (simp add: bit.conj_disj_distrib2)
  have "(x OR 2147483648) AND 2147483648 = 2147483648"
    by (simp only: bit.conj_disj_distrib2 assms or.left_neutral and.idem)
  moreover have "(0 :: u32) \<noteq> 2147483648" by simp
  ultimately show "x OR 2147483648 \<noteq> x" using assms by metis
qed

section \<open>Reading the bytes of a frame\<close>

lemma unat_length24:
  "unat (push_bit 16 (ucast (a :: byte)) OR push_bit 8 (ucast (b :: byte)) OR ucast (c :: byte) :: u32) = be24 a b c"
proof -
  have "push_bit 16 (unat a) < 2 ^ 32" "push_bit 8 (unat b) < 2 ^ 32"
    using unat_byte_less [of a] unat_byte_less [of b] by (simp_all add: push_bit_nat_def)
  then show ?thesis
    using unat_byte_less [of a] unat_byte_less [of b] unat_byte_less [of c]
    unfolding be24_def unsigned_or_eq unsigned_push_bit_eq unsigned_ucast_eq
    by (simp add: take_bit_nat_eq_self)
qed

definition wire_header :: "FrameType \<Rightarrow> Flags \<Rightarrow> u32 \<Rightarrow> bytes \<Rightarrow> FrameHeader" where
  "wire_header t flags sid payload =
     \<lparr>fh_valid = True, fh_Type = t, fh_Flags = flags, fh_Length = of_nat (length payload),
      fh_StreamID = sid AND 2147483647\<rparr>"

lemma length_frame_bytes [simp]: "length (frame_bytes t flags sid payload) = 9 + length payload"
  by (simp add: frame_bytes_def)

lemma take9: "take 9 (a # b # c # t # fl # p # q # r # s # xs) = [a, b, c, t, fl, p, q, r, s]"
  by (simp add: numeral_nat)

lemma header_of_9:
  "header_of [a, b, c, t, fl, p, q, r, s] =
     \<lparr>fh_valid = True, fh_Type = t, fh_Flags = fl,
      fh_Length = push_bit 16 (ucast a) OR push_bit 8 (ucast b) OR ucast c, fh_StreamID = be32 p q r s AND 2147483647\<rparr>"
  by (simp add: header_of_def numeral_nat)

lemma header_of_frame_bytes:
  assumes "length payload < 2 ^ 24"
  shows "header_of (take 9 (frame_bytes t flags sid payload @ rest)) = wire_header t flags sid payload"
proof -
  let ?n = "length payload"
  have "push_bit 16 (ucast (of_nat (drop_bit 16 ?n) :: byte)) OR push_bit 8 (ucast (of_nat (drop_bit 8 ?n) :: byte))
      OR ucast (of_nat ?n :: byte) = (of_nat ?n :: u32)"
    by (rule unsigned_word_eqI [where 'a = nat])
      (use assms in \<open>simp only: unat_length24 be24_put24 unat_of_nat, simp\<close>)
  then show ?thesis
    by (simp only: frame_bytes_def put24_def put32_def append.simps take9 header_of_9 be32_put32 wire_header_def)
qed

lemma drop_frame_bytes: "drop 9 (frame_bytes t flags sid payload @ rest) = payload @ rest"
  by (simp add: frame_bytes_def put24_def put32_def drop_Cons numeral_nat)

lemma readFrameHeader_frame_bytes:
  assumes "rd_data r = frame_bytes t flags sid payload @ rest" and "length payload < 2 ^ 24"
  shows "readFrameHeader r = (Inr (wire_header t flags sid payload), r\<lparr>rd_data := payload @ rest\<rparr>)"
  using header_of_frame_bytes [OF assms(2), of t flags sid rest] assms
  by (simp add: readFrameHeader_def ReadFull_def drop_frame_bytes del: drop_append take_append)

lemma read_payload_append:
  assumes "rd_data (fr_r fr) = payload @ rest" and "length payload < 2 ^ 24"
    and "typeFrameParser t (wire_header t flags sid payload) payload = Some (Inr f)"
  shows "\<exists>fr'. read_payload fr (wire_header t flags sid payload) = Some (Some f, None, fr')
    \<and> fr' = fr\<lparr>fr_lastFrame := Some f, fr_r := (fr_r fr)\<lparr>rd_data := rest\<rparr>\<rparr>"
proof -
  have "unat (of_nat (length payload) :: u32) = length payload" using assms(2) by (simp add: unat_of_nat)
  with assms show ?thesis by (simp add: read_payload_def wire_header_def ReadFull_def Let_def)
qed

text \<open>The order of frames that \<open>checkFrameOrder\<close> accepts.\<close>

definition order_ok :: "Framer \<Rightarrow> FrameType \<Rightarrow> u32 \<Rightarrow> bool" where
  "order_ok fr t sid \<longleftrightarrow> AllowIllegalReads fr
     \<or> (if lastHeaderStream fr \<noteq> 0 then t = FrameContinuation \<and> sid = lastHeaderStream fr else t \<noteq> FrameContinuation)"

lemma checkFrameOrder_ok_iff:
  "fst (checkFrameOrder fr fh) = None \<longleftrightarrow> order_ok fr (fh_Type fh) (fh_StreamID fh)"
  by (auto simp: checkFrameOrder_def order_ok_def Let_def fr_connError_def)

lemma checkFrameOrder_frame:
  "checkFrameOrder fr fh = (err, fr') \<Longrightarrow>
     fr_r fr' = fr_r fr \<and> ReadMetaHeaders fr' = ReadMetaHeaders fr \<and> AllowIllegalReads fr' = AllowIllegalReads fr
     \<and> MaxHeaderListSize fr' = MaxHeaderListSize fr \<and> maxReadSize fr' = maxReadSize fr"
  by (auto simp: checkFrameOrder_def Let_def fr_connError_def split: if_splits)

lemma ReadFrame_frame_bytes:
  assumes data: "rd_data (fr_r fr) = frame_bytes t flags sid payload @ rest"
    and size: "length payload \<le> unat (maxReadSize fr)" "length payload < 2 ^ 24"
    and order: "order_ok fr t (sid AND 2147483647)" and meta: "ReadMetaHeaders fr = None"
    and parse: "typeFrameParser t (wire_header t flags sid payload) payload = Some (Inr f)"
  shows "\<exists>fr'. ReadFrame vv tok fr = Some (Some f, None, fr') \<and> rd_data (fr_r fr') = rest
    \<and> maxReadSize fr' = maxReadSize fr \<and> ReadMetaHeaders fr' = None \<and> AllowIllegalReads fr' = AllowIllegalReads fr
    \<and> lastHeaderStream fr' = lastHeaderStream (snd (checkFrameOrder fr (wire_header t flags sid payload)))"
proof -
  let ?fh = "wire_header t flags sid payload"
  let ?fr = "fr\<lparr>fr_errDetail := None, fr_r := (fr_r fr)\<lparr>rd_data := payload @ rest\<rparr>\<rparr>"
  have "order_ok ?fr (fh_Type ?fh) (fh_StreamID ?fh)" using order by (auto simp: order_ok_def wire_header_def)
  then obtain fr1 where fr1: "checkFrameOrder ?fr ?fh = (None, fr1)"
    by (metis checkFrameOrder_ok_iff prod.collapse)
  from checkFrameOrder_frame [OF this]
  have fields: "rd_data (fr_r fr1) = payload @ rest" "ReadMetaHeaders fr1 = None" "maxReadSize fr1 = maxReadSize fr"
    "AllowIllegalReads fr1 = AllowIllegalReads fr" using meta by simp_all
  have "lastHeaderStream (snd (checkFrameOrder ?fr ?fh)) = lastHeaderStream (snd (checkFrameOrder fr ?fh))"
    by (simp add: checkFrameOrder_def Let_def fr_connError_def)
  with fr1 have last: "lastHeaderStream fr1 = lastHeaderStream (snd (checkFrameOrder fr ?fh))" by simp
  have "\<not> of_nat (length payload) > maxReadSize fr" using size by (simp add: word_less_nat_alt unat_of_nat)
  with fr1 have "ReadFrameHeader fr = ((?fh, None), fr1)"
    by (simp add: ReadFrameHeader_def readFrameHeader_frame_bytes [OF data size(2)] Let_def)
      (simp add: wire_header_def)
  moreover obtain fr2 where "read_payload fr1 ?fh = Some (Some f, None, fr2)"
    and "fr2 = fr1\<lparr>fr_lastFrame := Some f, fr_r := (fr_r fr1)\<lparr>rd_data := rest\<rparr>\<rparr>"
    using read_payload_append [OF fields(1) size(2) parse] by blast
  ultimately show ?thesis
    using fields last by (cases f) (simp_all add: ReadFrame_def ReadFrameForHeader_def)
qed

section \<open>Requests\<close>

datatype frame_req =
    ReqData u32 bool bytes "bytes option"
  | ReqHeaders HeadersFrameParam
  | ReqPriority u32 PriorityParam
  | ReqRSTStream u32 ErrCode
  | ReqSettings "Setting list"
  | ReqSettingsAck
  | ReqPushPromise PushPromiseParam
  | ReqPing bool bytes
  | ReqGoAway u32 ErrCode bytes
  | ReqWindowUpdate u32 u32
  | ReqContinuation u32 bool bytes
  | ReqRaw FrameType Flags u32 bytes

fun write_req :: "Framer \<Rightarrow> frame_req \<Rightarrow> h2_error option \<times> Framer" where
  "write_req f (ReqData sid es d pad) = WriteDataPadded f sid es d pad"
| "write_req f (ReqHeaders p) = WriteHeaders f p"
| "write_req f (ReqPriority sid p) = WritePriority f sid p"
| "write_req f (ReqRSTStream sid code) = WriteRSTStream f sid code"
| "write_req f (ReqSettings ss) = WriteSettings f ss"
| "write_req f ReqSettingsAck = WriteSettingsAck f"
| "write_req f (ReqPushPromise p) = WritePushPromise f p"
| "write_req f (ReqPing ack d) = WritePing f ack d"
| "write_req f (ReqGoAway sid code d) = WriteGoAway f sid code d"
| "write_req f (ReqWindowUpdate sid incr) = WriteWindowUpdate f sid incr"
| "write_req f (ReqContinuation sid eh b) = WriteContinuation f sid eh b"
| "write_req f (ReqRaw t fl sid p) = WriteRawFrame f t fl sid p"

text \<open>The wire format: type, flags, stream and payload.\<close>

definition bit_if :: "byte \<Rightarrow> bool \<Rightarrow> Flags" where
  "bit_if b c = (if c then b else 0)"

definition prio_bytes :: "PriorityParam \<Rightarrow> bytes" where
  "prio_bytes p = put32 (StreamDep p OR (if Exclusive p then 2147483648 else 0)) @ [Weight p]"

definition padded :: "byte \<Rightarrow> bytes \<Rightarrow> bytes" where
  "padded n b = (if n = 0 then b else n # b @ replicate (unat n) 0)"

fun req_wire :: "frame_req \<Rightarrow> FrameType \<times> Flags \<times> u32 \<times> bytes" where
  "req_wire (ReqData sid es d pad) =
     (0, bit_if 1 es OR bit_if 8 (pad \<noteq> None), sid, (case pad of None \<Rightarrow> d | Some p \<Rightarrow> of_nat (length p) # d @ p))"
| "req_wire (ReqHeaders p) =
     (1, bit_if 8 (hp_PadLength p \<noteq> 0) OR bit_if 1 (hp_EndStream p) OR bit_if 4 (hp_EndHeaders p)
         OR bit_if 32 (\<not> PriorityParam_IsZero (hp_Priority p)), hp_StreamID p,
      padded (hp_PadLength p)
        ((if PriorityParam_IsZero (hp_Priority p) then [] else prio_bytes (hp_Priority p)) @ hp_BlockFragment p))"
| "req_wire (ReqPriority sid p) = (2, 0, sid, prio_bytes p)"
| "req_wire (ReqRSTStream sid code) = (3, 0, sid, put32 code)"
| "req_wire (ReqSettings ss) = (4, 0, 0, settings_bytes ss)"
| "req_wire ReqSettingsAck = (4, 1, 0, [])"
| "req_wire (ReqPushPromise p) =
     (5, bit_if 8 (pp_PadLength p \<noteq> 0) OR bit_if 4 (pp_EndHeaders p), pp_StreamID p,
      padded (pp_PadLength p) (put32 (pp_PromiseID p) @ pp_BlockFragment p))"
| "req_wire (ReqPing ack d) = (6, bit_if 1 ack, 0, d)"
| "req_wire (ReqGoAway sid code d) = (7, 0, 0, put32 (sid AND 2147483647) @ put32 code @ d)"
| "req_wire (ReqWindowUpdate sid incr) = (8, 0, sid, put32 incr)"
| "req_wire (ReqContinuation sid eh b) = (9, bit_if 4 eh, sid, b)"
| "req_wire (ReqRaw t fl sid p) = (t, fl, sid, p)"

definition req_bytes :: "frame_req \<Rightarrow> bytes" where
  "req_bytes q = (case req_wire q of (t, fl, sid, p) \<Rightarrow> frame_bytes t fl sid p)"

definition req_payload :: "frame_req \<Rightarrow> bytes" where
  "req_payload q = (case req_wire q of (t, fl, sid, p) \<Rightarrow> p)"

text \<open>What the specification allows to send.\<close>

definition sid_ok :: "u32 \<Rightarrow> bool" where
  "sid_ok sid \<longleftrightarrow> 0 < sid \<and> sid < 2147483648"

fun req_legal :: "frame_req \<Rightarrow> bool" where
  "req_legal (ReqData sid es d pad) \<longleftrightarrow>
     sid_ok sid \<and> (case pad of None \<Rightarrow> True | Some p \<Rightarrow> length p \<le> 255 \<and> (\<forall>b \<in> set p. b = 0))"
| "req_legal (ReqHeaders p) \<longleftrightarrow> sid_ok (hp_StreamID p) \<and> StreamDep (hp_Priority p) < 2147483648"
| "req_legal (ReqPriority sid p) \<longleftrightarrow> sid_ok sid \<and> StreamDep p < 2147483648"
| "req_legal (ReqRSTStream sid code) \<longleftrightarrow> sid_ok sid"
| "req_legal (ReqPushPromise p) \<longleftrightarrow> sid_ok (pp_StreamID p) \<and> sid_ok (pp_PromiseID p)"
| "req_legal (ReqWindowUpdate sid incr) \<longleftrightarrow> 0 < incr \<and> incr < 2147483648"
| "req_legal (ReqContinuation sid eh b) \<longleftrightarrow> sid_ok sid"
| "req_legal _ \<longleftrightarrow> True"

lemma high_bit_less: "((x :: u32) AND 2147483648 = 0) = (x < 2147483648)"
proof -
  have "(x AND 2147483648 = 0) = (\<not> bit x 31)"
    using and_exp_eq_0_iff_not_bit [of x 31] by simp
  also have "bit x 31 = odd (unat x div 2147483648)"
    using bit_unsigned_iff [of x 31, where 'a = nat] by (simp add: bit_iff_odd)
  also have "unat x div 2147483648 < 2"
    using unsigned_less [of x, where 'a = nat] by (simp add: less_mult_imp_div_less)
  then have "(\<not> odd (unat x div 2147483648)) = (x < 2147483648)"
    by (auto simp: word_less_nat_alt less_2_cases_iff div_eq_0_iff)
  finally show ?thesis .
qed

lemma valid_sid_ok: "validStreamID sid = sid_ok sid" "validStreamIDOrZero sid = (sid < 2147483648)"
  by (auto simp: validStreamID_def validStreamIDOrZero_def sid_ok_def high_bit_less word_neq_0_conv)

section \<open>What is written\<close>

text \<open>The result of a method that has staged a frame in \<open>wbuf\<close> and calls \<open>endWrite\<close>.\<close>

definition staged :: "Framer \<Rightarrow> FrameType \<times> Flags \<times> u32 \<times> bytes \<Rightarrow> h2_error option \<times> Framer \<Rightarrow> bool" where
  "staged f w res \<longleftrightarrow> (\<exists>g. res = endWrite g \<and> fr_reply g = fr_reply f \<and> fr_w g = fr_w f
     \<and> (case w of (t, fl, sid, p) \<Rightarrow> wbuf g = [0, 0, 0, t, fl] @ put32 sid @ p))"

lemma stagedI:
  "wbuf g = [0, 0, 0, t, fl] @ put32 sid @ p \<Longrightarrow> fr_reply g = fr_reply f \<Longrightarrow> fr_w g = fr_w f \<Longrightarrow>
     staged f (t, fl, sid, p) (endWrite g)"
  by (auto simp: staged_def)

lemmas write_defs = WriteDataPadded_def startWriteDataPadded_def WriteHeaders_def WritePriority_def
  WriteRSTStream_def WriteSettings_def WriteSettingsAck_def WritePushPromise_def WritePing_def WriteGoAway_def
  WriteWindowUpdate_def WriteContinuation_def WriteRawFrame_def

lemma fold_bit_if: "(if c then b else 0) = bit_if b c"
  by (simp add: bit_if_def)

lemmas write_simps' = write_defs valid_sid_ok Let_def fold_bit_if

lemma excl_or: "(if e then x OR 2147483648 else x) = (x OR (if e then 2147483648 else 0) :: u32)"
  by simp

lemma staged_Data:
  assumes "req_legal (ReqData sid es d pad)"
  shows "staged f (req_wire (ReqData sid es d pad)) (WriteDataPadded f sid es d pad)"
proof (cases pad)
  case None
  with assms show ?thesis by (simp add: write_simps') (intro stagedI; simp)
next
  case (Some p)
  with assms have "\<not> list_ex (\<lambda>b. b \<noteq> 0) p" by (auto simp: list_ex_iff)
  with Some assms show ?thesis by (simp add: write_simps') (intro stagedI; simp)
qed

lemma staged_Headers:
  assumes "req_legal (ReqHeaders p)"
  shows "staged f (req_wire (ReqHeaders p)) (WriteHeaders f p)"
proof -
  have v: "validStreamID (hp_StreamID p)" "validStreamIDOrZero (StreamDep (hp_Priority p))"
    using assms by (simp_all add: valid_sid_ok)
  show ?thesis
    unfolding WriteHeaders_def Let_def req_wire.simps fold_bit_if
    by (simp add: v) (intro conjI impI stagedI; auto simp: prio_bytes_def padded_def excl_or)
qed

lemma staged_PushPromise:
  assumes "req_legal (ReqPushPromise p)"
  shows "staged f (req_wire (ReqPushPromise p)) (WritePushPromise f p)"
proof -
  have v: "validStreamID (pp_StreamID p)" "validStreamID (pp_PromiseID p)"
    using assms by (simp_all add: valid_sid_ok)
  show ?thesis
    unfolding WritePushPromise_def Let_def req_wire.simps fold_bit_if
    by (simp add: v) (intro conjI impI stagedI; auto simp: padded_def)
qed

lemma write_staged:
  assumes "req_legal q"
  shows "staged f (req_wire q) (write_req f q)"
proof (cases q)
  case (ReqSettings ss)
  then show ?thesis by (simp add: write_defs) (intro stagedI; simp add: fold_write_settings)
next
  case (ReqPriority sid p)
  with assms show ?thesis
    by (simp add: write_defs valid_sid_ok Let_def) (intro conjI impI stagedI; simp add: prio_bytes_def)
next
  case (ReqWindowUpdate sid incr)
  with assms have "\<not> (incr < 1 \<or> incr > 2147483647)" by (simp add: word_less_nat_alt)
  with ReqWindowUpdate show ?thesis by (simp add: write_simps') (intro stagedI; simp)
next
  case (ReqRSTStream sid code)
  with assms show ?thesis by (simp add: write_simps') (intro stagedI; simp)
next
  case ReqSettingsAck
  then show ?thesis by (simp add: write_simps') (intro stagedI; simp)
next
  case (ReqPing ack d)
  then show ?thesis by (simp add: write_simps') (intro stagedI; simp)
next
  case (ReqGoAway sid code d)
  then show ?thesis by (simp add: write_simps') (intro stagedI; simp)
next
  case (ReqContinuation sid eh b)
  with assms show ?thesis by (simp add: write_simps') (intro stagedI; simp)
next
  case (ReqRaw t fl sid p)
  then show ?thesis by (simp add: write_simps') (intro stagedI; simp)
qed (use assms staged_Data staged_Headers staged_PushPromise in simp_all)

lemma write_legal:
  assumes "req_legal q" and "length (req_payload q) < 2 ^ 24"
  shows "written f (req_bytes q) (write_req f q)"
  using write_staged [OF assms(1), of f] assms(2)
  by (cases "req_wire q") (auto simp: staged_def req_bytes_def req_payload_def endWrite_written)

lemma write_too_large:
  assumes "req_legal q" and "2 ^ 24 \<le> length (req_payload q)"
  shows "fst (write_req f q) = Some ErrFrameTooLarge \<and> fr_w (snd (write_req f q)) = fr_w f"
  using write_staged [OF assms(1), of f] assms(2)
  by (cases "req_wire q") (auto simp: staged_def req_payload_def endWrite_def)

lemma write_illegal:
  assumes "\<not> AllowIllegalWrites f" and "\<not> req_legal q"
  shows "fst (write_req f q) \<noteq> None \<and> fr_w (snd (write_req f q)) = fr_w f"
proof (cases q)
  case (ReqData sid es d pad)
  with assms show ?thesis
    by (auto simp: write_defs valid_sid_ok Let_def list_ex_iff split: option.splits)
next
  case (ReqWindowUpdate sid incr)
  with assms have "incr < 1 \<or> incr > 2147483647" by (auto simp: word_less_nat_alt unat_gt_0)
  with ReqWindowUpdate assms show ?thesis by (simp add: write_defs)
next
  case (ReqHeaders p)
  with assms show ?thesis
    by (auto simp: WriteHeaders_def valid_sid_ok Let_def PriorityParam_IsZero_def zeroPriority_def)
qed (use assms in \<open>auto simp: write_defs valid_sid_ok Let_def\<close>)

section \<open>What is read\<close>

text \<open>The list of settings of a SETTINGS payload.\<close>

fun settings_of :: "bytes \<Rightarrow> Setting list" where
  "settings_of (a # b # c # d # e # f # rest) = \<lparr>s_ID = be16 a b, s_Val = be32 c d e f\<rparr> # settings_of rest"
| "settings_of _ = []"

lemma settings_of_bytes [simp]: "settings_of (settings_bytes ss) = ss"
  by (induction ss) (simp_all add: put16_def put32_def)

lemma length_settings_of [simp]: "length (settings_of p) = NumSettings p"
  by (induction p rule: settings_of.induct) (simp_all add: NumSettings_def)

lemma Setting_at_Cons6: "Setting_at (a # b # c # d # e # f # rest) (Suc i) = Setting_at rest i"
proof -
  have "(a # b # c # d # e # f # rest) ! (Suc i * 6 + k) = rest ! (i * 6 + k)" for k
    by (simp add: nth_append [of "[a, b, c, d, e, f]", simplified, of rest "6 + i * 6 + k"])
  from this [of 0] this [of 1] this [of 2] this [of 3] this [of 4] this [of 5] show ?thesis
    by (simp add: Setting_at_def)
qed

lemma Setting_at_nth: "i < NumSettings p \<Longrightarrow> Setting_at p i = Some (settings_of p ! i)"
proof (induction p arbitrary: i rule: settings_of.induct)
  case (1 a b c d e f rest)
  show ?case
  proof (cases i)
    case 0
    then show ?thesis by (simp add: Setting_at_def numeral_nat)
  next
    case (Suc j)
    with 1 show ?thesis by (simp add: Setting_at_Cons6 NumSettings_def)
  qed
qed (simp_all add: NumSettings_def)

lemma Value_loop_find:
  "\<forall>i \<in> set is. i < NumSettings p \<Longrightarrow>
     Value_loop p sid is = Some (map_option s_Val (find (\<lambda>s. s_ID s = sid) (map (\<lambda>i. settings_of p ! i) is)))"
  by (induction "is") (simp_all add: Setting_at_nth)

lemma map_settings_of [simp]: "map (\<lambda>i. settings_of p ! i) [0..<NumSettings p] = settings_of p"
  using map_nth [of "settings_of p"] by simp

lemma Settings_Value_find:
  "fh_valid h \<Longrightarrow> Settings_Value h p sid = Some (map_option s_Val (find (\<lambda>s. s_ID s = sid) (settings_of p)))"
  by (simp add: Settings_Value_def Value_loop_find)

fun foreach :: "(Setting \<Rightarrow> 's \<Rightarrow> h2_error option \<times> 's) \<Rightarrow> Setting list \<Rightarrow> 's \<Rightarrow> h2_error option \<times> 's" where
  "foreach fn [] st = (None, st)"
| "foreach fn (s # ss) st = (case fn s st of (Some err, st) \<Rightarrow> (Some err, st) | (None, st) \<Rightarrow> foreach fn ss st)"

lemma Foreach_loop_foreach:
  "\<forall>i \<in> set is. i < NumSettings p \<Longrightarrow>
     Foreach_loop p fn is st = Some (foreach fn (map (\<lambda>i. settings_of p ! i) is) st)"
  by (induction "is" arbitrary: st) (simp_all add: Setting_at_nth split: prod.splits option.splits)

lemma ForeachSetting_foreach:
  "fh_valid h \<Longrightarrow> ForeachSetting h p fn st = Some (foreach fn (settings_of p) st)"
  by (simp add: ForeachSetting_def Foreach_loop_foreach)

lemma dup_inner_mem:
  "\<forall>j \<in> set js. j < NumSettings p \<Longrightarrow>
     dup_inner p x js = Some (x \<in> (\<lambda>j. s_ID (settings_of p ! j)) ` set js)"
  by (induction js) (auto simp: Setting_at_nth)

lemma bex_fun_upd_True: "(\<exists>x \<in> A. (f(a := True)) x) \<longleftrightarrow> a \<in> A \<or> (\<exists>x \<in> A. f x)"
  by auto

lemma dup_seen_distinct:
  "\<forall>i \<in> set is. i < NumSettings p \<Longrightarrow>
     dup_seen p seen is = Some (let ids = map (\<lambda>i. s_ID (settings_of p ! i)) is in
       \<not> distinct ids \<or> (\<exists>x \<in> set ids. seen x))"
proof (induction "is" arbitrary: seen)
  case (Cons i "is")
  let ?id = "\<lambda>i. s_ID (settings_of p ! i)"
  have "dup_seen p (seen(?id i := True)) is
      = Some (\<not> distinct (map ?id is) \<or> ?id i \<in> set (map ?id is) \<or> (\<exists>x \<in> set (map ?id is). seen x))"
  proof -
    have "\<forall>i \<in> set is. i < NumSettings p" using Cons.prems by simp
    from Cons.IH [OF this] show ?thesis by (simp only: Let_def bex_fun_upd_True)
  qed
  with Cons.prems show ?case by (auto simp: Setting_at_nth Let_def)
qed simp

lemma dup_quadratic_distinct:
  "k \<le> NumSettings p \<Longrightarrow>
     dup_quadratic p (NumSettings p) [k..<NumSettings p]
       = Some (\<not> distinct (map (\<lambda>i. s_ID (settings_of p ! i)) [k..<NumSettings p]))"
proof (induction k rule: inc_induct)
  case (step k)
  have "[k..<NumSettings p] = k # [Suc k..<NumSettings p]" using step by (simp add: upt_conv_Cons)
  with step show ?case by (simp add: Setting_at_nth dup_inner_mem split: bool.splits)
qed simp

lemma HasDuplicates_distinct: "HasDuplicates p = Some (\<not> distinct (map s_ID (settings_of p)))"
proof -
  have m: "map (\<lambda>i. s_ID (settings_of p ! i)) [0..<NumSettings p] = map s_ID (settings_of p)"
    by (subst (2) map_settings_of [symmetric]) (simp add: comp_def del: map_settings_of)
  show ?thesis
  proof (cases "NumSettings p = 0")
    case True
    then have "settings_of p = []" by (metis length_settings_of length_0_conv)
    with True show ?thesis by (simp add: HasDuplicates_def)
  next
    case False
    then show ?thesis
      using dup_quadratic_distinct [of 0 p] by (simp add: HasDuplicates_def Let_def dup_seen_distinct m)
  qed
qed

text \<open>The frame a reader gets for a request.\<close>

definition wire_priority :: "PriorityParam \<Rightarrow> PriorityParam" where
  "wire_priority p = zeroPriority\<lparr>StreamDep := StreamDep p, Exclusive := Exclusive p, Weight := Weight p\<rparr>"

fun req_frame :: "FrameHeader \<Rightarrow> frame_req \<Rightarrow> Frame" where
  "req_frame h (ReqData sid es d pad) = DataFrame h d"
| "req_frame h (ReqHeaders p) = HeadersFrame h (wire_priority (hp_Priority p)) (hp_BlockFragment p)"
| "req_frame h (ReqPriority sid p) = PriorityFrame h (wire_priority p)"
| "req_frame h (ReqRSTStream sid code) = RSTStreamFrame h code"
| "req_frame h (ReqSettings ss) = SettingsFrame h (settings_bytes ss)"
| "req_frame h ReqSettingsAck = SettingsFrame h []"
| "req_frame h (ReqPushPromise p) = PushPromiseFrame h (pp_PromiseID p) (pp_BlockFragment p)"
| "req_frame h (ReqPing ack d) = PingFrame h d"
| "req_frame h (ReqGoAway sid code d) = GoAwayFrame h (sid AND 2147483647) code d"
| "req_frame h (ReqWindowUpdate sid incr) = WindowUpdateFrame h incr"
| "req_frame h (ReqContinuation sid eh b) = ContinuationFrame h b"
| "req_frame h (ReqRaw t fl sid p) = UnknownFrame h p"

text \<open>
  The requests whose frames a reader accepts, beyond those the writer checks: a PING payload has
  eight bytes, a window in SETTINGS is in range, and a raw frame is not of a standard type.
\<close>

fun req_readable :: "frame_req \<Rightarrow> bool" where
  "req_readable (ReqSettings ss) \<longleftrightarrow>
     (case find (\<lambda>s. s_ID s = SettingInitialWindowSize) ss of None \<Rightarrow> True | Some s \<Rightarrow> s_Val s \<le> 2147483647)"
| "req_readable (ReqPing ack d) \<longleftrightarrow> length d = 8"
| "req_readable (ReqRaw t fl sid p) \<longleftrightarrow> 10 \<le> t"
| "req_readable _ \<longleftrightarrow> True"

definition req_header :: "frame_req \<Rightarrow> FrameHeader" where
  "req_header q = (case req_wire q of (t, fl, sid, p) \<Rightarrow> wire_header t fl sid p)"

lemma sid_ok_mask: "sid_ok sid \<Longrightarrow> sid AND 2147483647 = sid" "sid_ok sid \<Longrightarrow> sid \<noteq> 0"
  using high_bit_less [of sid] by (auto simp: sid_ok_def)

lemma readUint32_put32 [simp]: "readUint32 (put32 v @ rest) = Inr (rest, v)"
  by (simp add: readUint32_def put32_def)

lemma readByte_Cons [simp]: "readByte (b # rest) = Inr (rest, b)"
  by (simp add: readByte_def)

lemma counted_Inr [simp]: "counted t (Inr x) = Inr x"
  by (simp add: counted_def)

lemma be32_nth_put32 [simp]:
  "be32 (put32 v ! 0) (put32 v ! Suc 0) (put32 v ! 2) (put32 v ! 3) = v"
  by (simp add: put32_def)

lemma be32_nth_put32_append [simp]:
  "be32 ((put32 v @ r) ! 0) ((put32 v @ r) ! Suc 0) ((put32 v @ r) ! 2) ((put32 v @ r) ! 3) = v"
  "be32 ((put32 w @ put32 v @ r) ! 4) ((put32 w @ put32 v @ r) ! 5) ((put32 w @ put32 v @ r) ! 6) ((put32 w @ put32 v @ r) ! 7) = v"
  by (simp_all add: put32_def)

lemma nth4_put32: "(put32 v @ b # r) ! 4 = b"
  by (simp add: put32_def)

lemma Has_or: "Has (bit_if 1 a OR bit_if 8 b) 8 = b" "Has (bit_if 8 a OR bit_if 4 b) 8 = a"
  "Has (bit_if 8 a OR bit_if 1 b OR bit_if 4 c OR bit_if 32 d) 8 = a"
  "Has (bit_if 8 a OR bit_if 1 b OR bit_if 4 c OR bit_if 32 d) 32 = d"
  by (simp_all add: Has_def bit_if_def)

lemma padded_read:
  "(if n = 0 then Inr (padded n b, 0) else counted t (readByte (padded n b))) = Inr (b @ replicate (unat n) 0, n)"
  "(if n \<noteq> 0 then counted t (readByte (padded n b)) else Inr (padded n b, 0)) = Inr (b @ replicate (unat n) 0, n)"
  by (simp_all add: padded_def)

lemma excl_read:
  assumes "(d :: u32) < 2147483648"
  shows "(d OR (if e then 2147483648 else 0)) AND 2147483647 = d"
    "(d OR (if e then 2147483648 else 0)) \<noteq> d \<longleftrightarrow> e" "d \<noteq> (d OR (if e then 2147483648 else 0)) \<longleftrightarrow> e"
  using exclusive_bit [of d] assms high_bit_less [of d] by auto

lemma prio_read:
  assumes "StreamDep p < 2147483648" and flag: "Has fl 32 = (\<not> PriorityParam_IsZero p)"
  shows "headers_priority \<lparr>fh_valid = v, fh_Type = t, fh_Flags = fl, fh_Length = l, fh_StreamID = s\<rparr>
      ((if PriorityParam_IsZero p then [] else prio_bytes p) @ b)
    = Inr (b, wire_priority p)"
proof (cases "PriorityParam_IsZero p")
  case True
  with flag show ?thesis by (simp add: headers_priority_def PriorityParam_IsZero_def wire_priority_def zeroPriority_def)
next
  case False
  with flag show ?thesis
    by (simp add: headers_priority_def prio_bytes_def Let_def excl_read [OF assms(1)] wire_priority_def zeroPriority_def)
qed

lemma parse_req:
  assumes "req_legal q" and "req_readable q" and "req_wire q = (t, fl, sid, p)" and "length p < 2 ^ 24"
  shows "typeFrameParser t (wire_header t fl sid p) p = Some (Inr (req_frame (wire_header t fl sid p) q))"
proof (cases q)
  case (ReqData sid' es d pad)
  then show ?thesis
    using assms by (cases pad) (auto simp: typeFrameParser_def frameParsers_def parseDataFrame_def wire_header_def
        sid_ok_mask Has_or unat_of_nat simp del: bind_res_eq_Inr)
next
  case (ReqHeaders r)
  then show ?thesis
    using assms by (auto simp: typeFrameParser_def frameParsers_def parseHeadersFrame_def wire_header_def sid_ok_mask Has_or
        padded_read prio_read simp del: bind_res_eq_Inr split del: if_split)
next
  case (ReqPriority sid' r)
  then show ?thesis
    using assms exclusive_bit [of "StreamDep r"] high_bit_less [of "StreamDep r"]
    by (auto simp: typeFrameParser_def frameParsers_def parsePriorityFrame_def wire_header_def sid_ok_mask 
        prio_bytes_def Let_def excl_read wire_priority_def zeroPriority_def nth4_put32)
next
  case (ReqRSTStream sid' code)
  then show ?thesis
    using assms by (auto simp: typeFrameParser_def frameParsers_def parseRSTStreamFrame_def wire_header_def sid_ok_mask)
next
  case (ReqSettings ss)
  then show ?thesis
    using assms by (auto simp: typeFrameParser_def frameParsers_def parseSettingsFrame_def wire_header_def Has_def
        Settings_Value_find split: option.splits)
next
  case ReqSettingsAck
  then show ?thesis
    using assms by (auto simp: typeFrameParser_def frameParsers_def parseSettingsFrame_def wire_header_def
        Settings_Value_find)
next
  case (ReqPushPromise r)
  then show ?thesis
    using assms by (auto simp: typeFrameParser_def frameParsers_def parsePushPromise_def wire_header_def sid_ok_mask Has_or
        padded_read simp del: bind_res_eq_Inr split del: if_split)
next
  case (ReqPing ack d)
  then show ?thesis
    using assms by (auto simp: typeFrameParser_def frameParsers_def parsePingFrame_def wire_header_def)
next
  case (ReqGoAway sid' code d)
  then show ?thesis
    using assms by (auto simp: typeFrameParser_def frameParsers_def parseGoAwayFrame_def wire_header_def)
next
  case (ReqWindowUpdate sid' incr)
  then show ?thesis
    using assms high_bit_less [of incr] by (auto simp: typeFrameParser_def frameParsers_def parseWindowUpdateFrame_def wire_header_def)
next
  case (ReqContinuation sid' eh b)
  then show ?thesis
    using assms by (auto simp: typeFrameParser_def frameParsers_def parseContinuationFrame_def wire_header_def sid_ok_mask)
next
  case (ReqRaw t' fl' sid' p')
  then show ?thesis
    using assms by (auto simp: typeFrameParser_def frameParsers_def parseUnknownFrame_def word_le_nat_alt)
qed

section \<open>Properties\<close>

lemma read_written:
  assumes "req_legal q" and "req_readable q" and "length (req_payload q) < 2 ^ 24"
    and "rd_data (fr_r g) = req_bytes q @ rest" and "length (req_payload q) \<le> unat (maxReadSize g)"
    and "order_ok g (fh_Type (req_header q)) (fh_StreamID (req_header q))" and "ReadMetaHeaders g = None"
  shows "\<exists>g'. ReadFrame vv tok g = Some (Some (req_frame (req_header q) q), None, g') \<and> rd_data (fr_r g') = rest
    \<and> maxReadSize g' = maxReadSize g \<and> ReadMetaHeaders g' = None \<and> AllowIllegalReads g' = AllowIllegalReads g
    \<and> lastHeaderStream g' = lastHeaderStream (snd (checkFrameOrder g (req_header q)))"
proof -
  obtain t fl sid p where q: "req_wire q = (t, fl, sid, p)" by (cases "req_wire q") auto
  then have len: "length p < 2 ^ 24" using assms(3) by (simp add: req_payload_def)
  have h: "req_header q = wire_header t fl sid p" by (simp add: req_header_def q)
  from parse_req [OF assms(1,2) q len] show ?thesis
    using assms q len unfolding h
    by (intro ReadFrame_frame_bytes) (simp_all add: req_bytes_def req_payload_def req_header_def wire_header_def)
qed

text \<open>C9: a frame that a \<open>Write\<close> method of a framer writes (any of the twelve kinds of request, with or
  without padding and priority) is handed to the writer as one slice, and a framer that reads these
  bytes, at a point where the frame order allows the frame and with a large enough read limit,
  returns the frame with the requested contents and leaves exactly the bytes after it.\<close>

theorem frame_write_read:
  assumes "req_legal q" and "req_readable q" and "length (req_payload q) < 2 ^ 24"
    and "rd_data (fr_r g) = req_bytes q @ rest" and "length (req_payload q) \<le> unat (maxReadSize g)"
    and "order_ok g (fh_Type (req_header q)) (fh_StreamID (req_header q))" and "ReadMetaHeaders g = None"
  shows "written f (req_bytes q) (write_req f q)
    \<and> (\<exists>g'. ReadFrame vv tok g = Some (Some (req_frame (req_header q) q), None, g') \<and> rd_data (fr_r g') = rest)"
  using write_legal [OF assms(1,3)] read_written [OF assms] by blast

definition example_req :: frame_req where
  "example_req = ReqHeaders \<lparr>hp_StreamID = 5, hp_BlockFragment = [0x82, 0x84], hp_EndStream = True, hp_EndHeaders = True,
     hp_PadLength = 2, hp_Priority = \<lparr>StreamDep = 3, Exclusive = True, Weight = 200, urgency = 0, incremental = 0\<rparr>\<rparr>"

definition sink :: "bytes list \<Rightarrow> bytes \<Rightarrow> nat \<times> h2_error option" where
  "sink ws b = (length b, None)"

definition example_framer :: "bytes \<Rightarrow> Framer" where
  "example_framer bs = NewFramer sink \<lparr>rd_data = bs, rd_err = EOF\<rparr>"

lemma example_framer_simps [simp]:
  "rd_data (fr_r (example_framer bs)) = bs" "maxReadSize (example_framer bs) = 16777215"
  "lastHeaderStream (example_framer bs) = 0" "AllowIllegalReads (example_framer bs) = False"
  "ReadMetaHeaders (example_framer bs) = None"
  by (simp_all add: example_framer_def NewFramer_def SetMaxReadFrameSize_def)

theorem frame_write_read_witness:
  "written (example_framer []) (req_bytes example_req) (write_req (example_framer []) example_req)
   \<and> (\<exists>g'. ReadFrame (\<lambda>_. True) (\<lambda>_. True) (example_framer (req_bytes example_req @ [1, 2]))
         = Some (Some (req_frame (req_header example_req) example_req), None, g') \<and> rd_data (fr_r g') = [1, 2])"
  by (rule frame_write_read)
    (simp_all add: example_req_def sid_ok_def req_payload_def req_header_def wire_header_def order_ok_def padded_def
      prio_bytes_def PriorityParam_IsZero_def zeroPriority_def)

text \<open>Without \<open>AllowIllegalWrites\<close>, a request the specification does not allow (an invalid stream,
  dependency or promised stream, too long or non-zero padding, a window increment out of range) or
  whose payload does not fit a frame is refused with an error, and nothing reaches the writer.\<close>

theorem illegal_write_refused:
  assumes "\<not> AllowIllegalWrites f"
    and "\<not> req_legal q \<or> 2 ^ 24 \<le> length (req_payload q)"
  shows "fst (write_req f q) \<noteq> None \<and> fr_w (snd (write_req f q)) = fr_w f"
  using assms write_illegal write_too_large by (cases "req_legal q") auto

theorem illegal_write_refused_witness:
  "fst (write_req (example_framer []) (ReqWindowUpdate 1 0)) \<noteq> None
   \<and> fr_w (snd (write_req (example_framer []) (ReqWindowUpdate 1 0))) = fr_w (example_framer [])"
  by (rule illegal_write_refused) (simp_all add: example_framer_def NewFramer_def SetMaxReadFrameSize_def)

text \<open>The accessors of a valid SETTINGS frame agree with the list of its settings: \<open>Value\<close> finds
  the first setting with an identifier, \<open>ForeachSetting\<close> visits the settings in order up to the first
  error, and both algorithms of \<open>HasDuplicates\<close> (all pairs below ten settings, a map of seen
  identifiers above) decide whether an identifier occurs twice; none of them panics.\<close>

theorem settings_accessors:
  assumes "fh_valid h"
  shows "Settings_Value h p sid = Some (map_option s_Val (find (\<lambda>s. s_ID s = sid) (settings_of p)))
    \<and> ForeachSetting h p fn st = Some (foreach fn (settings_of p) st)
    \<and> HasDuplicates p = Some (\<not> distinct (map s_ID (settings_of p)))"
  using assms by (simp_all add: Settings_Value_find ForeachSetting_foreach HasDuplicates_distinct)

theorem settings_accessors_witness:
  "Settings_Value (wire_header 4 0 0 [0, 3, 0, 0, 0, 100]) [0, 3, 0, 0, 0, 100] 3
     = Some (map_option s_Val (find (\<lambda>s. s_ID s = 3) (settings_of [0, 3, 0, 0, 0, 100])))"
  by (rule settings_accessors [THEN conjunct1]) (simp add: wire_header_def)

section \<open>The order of frames\<close>

fun accepts :: "Framer \<Rightarrow> FrameHeader list \<Rightarrow> bool" where
  "accepts fr [] \<longleftrightarrow> True"
| "accepts fr (h # hs) \<longleftrightarrow> (case checkFrameOrder fr h of (None, fr') \<Rightarrow> accepts fr' hs | (Some _, _) \<Rightarrow> False)"

text \<open>The stream whose header block a frame leaves open; 0 for none.\<close>

definition opens :: "FrameHeader \<Rightarrow> u32" where
  "opens h = (if fh_Type h \<in> {FrameHeaders, FrameContinuation} \<and> \<not> Has (fh_Flags h) 4 then fh_StreamID h else 0)"

definition follows :: "u32 \<Rightarrow> FrameHeader \<Rightarrow> bool" where
  "follows op h \<longleftrightarrow> (if op = 0 then fh_Type h \<noteq> FrameContinuation else fh_Type h = FrameContinuation \<and> fh_StreamID h = op)"

lemma accepts_Cons:
  assumes "\<not> AllowIllegalReads fr"
  shows "\<exists>fr'. \<not> AllowIllegalReads fr' \<and> lastHeaderStream fr' = opens h
    \<and> (accepts fr (h # hs) \<longleftrightarrow> follows (lastHeaderStream fr) h \<and> accepts fr' hs)"
proof (cases "follows (lastHeaderStream fr) h")
  case True
  with assms show ?thesis
    by (intro exI [of _ "snd (checkFrameOrder fr h)"])
      (auto simp: checkFrameOrder_def Let_def follows_def opens_def split: if_splits)
next
  case False
  with assms have "\<not> accepts fr (h # hs)"
    by (auto simp: checkFrameOrder_def Let_def follows_def fr_connError_def split: if_splits)
  with False assms show ?thesis
    by (intro exI [of _ "fr\<lparr>lastHeaderStream := opens h\<rparr>"]) simp
qed

lemma accepts_chain:
  "\<not> AllowIllegalReads fr \<Longrightarrow>
     accepts fr hs \<longleftrightarrow> (\<forall>i < length hs. follows (if i = 0 then lastHeaderStream fr else opens (hs ! (i - 1))) (hs ! i))"
proof (induction hs arbitrary: fr)
  case (Cons h hs)
  obtain fr' where fr': "\<not> AllowIllegalReads fr'" "lastHeaderStream fr' = opens h"
    and acc: "accepts fr (h # hs) \<longleftrightarrow> follows (lastHeaderStream fr) h \<and> accepts fr' hs"
    using accepts_Cons [OF Cons.prems] by blast
  have "(\<forall>i < length hs. follows (if i = 0 then opens h else opens (hs ! (i - 1))) (hs ! i))
      \<longleftrightarrow> (\<forall>i < length hs. follows (opens ((h # hs) ! i)) (hs ! i))"
    by (auto simp: nth_Cons')
  with Cons.IH [OF fr'(1), unfolded fr'(2)] acc show ?case
    by (simp add: All_less_Suc2 del: accepts.simps split del: if_split)
qed simp

text \<open>A new framer accepts a sequence of frame headers exactly when a CONTINUATION frame occurs
  directly after a HEADERS or CONTINUATION frame of the same non-zero stream that does not end its
  header block, and nothing else occurs there: header blocks are contiguous.\<close>

theorem header_blocks_contiguous:
  "accepts (NewFramer w r) hs \<longleftrightarrow>
     (\<forall>i < length hs.
        if i > 0 \<and> opens (hs ! (i - 1)) \<noteq> 0
        then fh_Type (hs ! i) = FrameContinuation \<and> fh_StreamID (hs ! i) = opens (hs ! (i - 1))
        else fh_Type (hs ! i) \<noteq> FrameContinuation)"
proof -
  have "\<not> AllowIllegalReads (NewFramer w r)" "lastHeaderStream (NewFramer w r) = 0"
    by (simp_all add: NewFramer_def SetMaxReadFrameSize_def)
  then show ?thesis by (auto simp: accepts_chain follows_def)
qed

theorem header_blocks_contiguous_witness:
  "\<exists>w r. let h = (\<lambda>t fl i. \<lparr>fh_valid = True, fh_Type = t, fh_Flags = fl, fh_Length = 0, fh_StreamID = i\<rparr>) in
     accepts (NewFramer w r) [h FrameHeaders 0 1, h FrameContinuation 4 1, h FrameData 1 3]
     \<and> \<not> accepts (NewFramer w r) [h FrameHeaders 0 1, h FrameData 0 1]"
  by (intro exI, unfold Let_def header_blocks_contiguous) (simp add: opens_def Has_def All_less_Suc numeral_3_eq_3)

end
