(* ===== verification/Frame_Safety.thy ===== *)
theory Frame_Safety
  imports Frame_Roundtrip
begin

unbundle bit_operations_syntax

text \<open>
  What \<open>ReadFrame\<close> guarantees when it merges header blocks: the fields of a \<open>MetaHeadersFrame\<close> are
  what its comment promises, and reading never panics and always returns.
\<close>

section \<open>The fields of a header block\<close>

lemma PseudoFields_takeWhile: "PseudoFields fs = takeWhile IsPseudo fs"
  by (induction fs) simp_all

lemma RegularFields_dropWhile: "RegularFields fs = dropWhile IsPseudo fs"
  by (induction fs) simp_all

definition request_pseudos :: "string list" where
  "request_pseudos = ['':method'', '':path'', '':scheme'', '':authority'', '':protocol'']"

text \<open>Known pseudo header fields, each at most once, and not of requests and responses both.\<close>

definition pseudos_ok :: "HeaderField list \<Rightarrow> bool" where
  "pseudos_ok pf \<longleftrightarrow> distinct (map hf_Name pf)
     \<and> hf_Name ` set pf \<subseteq> insert '':status'' (set request_pseudos)
     \<and> \<not> ('':status'' \<in> hf_Name ` set pf \<and> hf_Name ` set pf \<inter> set request_pseudos \<noteq> {})"

lemma checkPseudos_loop_None:
  "checkPseudos_loop prev rq rs pf = None \<longleftrightarrow>
     distinct (map hf_Name pf) \<and> hf_Name ` set pf \<inter> hf_Name ` set prev = {}
     \<and> hf_Name ` set pf \<subseteq> insert '':status'' (set request_pseudos)
     \<and> \<not> ((rq \<or> hf_Name ` set pf \<inter> set request_pseudos \<noteq> {}) \<and> (rs \<or> '':status'' \<in> hf_Name ` set pf))"
proof (induction pf arbitrary: prev rq rs)
  case (Cons f pf)
  define R where "R = set request_pseudos"
  define s where "s = '':status''"
  define n where "n = hf_Name f"
  define A where "A = hf_Name ` set pf"
  define B where "B = hf_Name ` set prev"
  have st: "s \<notin> R" by (simp add: request_pseudos_def R_def s_def)
  have step: "checkPseudos_loop prev rq rs (f # pf) =
      (if n \<in> R then if n \<in> B then Some (duplicatePseudoHeaderError n)
         else checkPseudos_loop (prev @ [f]) True rs pf
       else if n = s then if n \<in> B then Some (duplicatePseudoHeaderError n)
         else checkPseudos_loop (prev @ [f]) rq True pf
       else Some (pseudoHeaderError n))"
    by (simp only: checkPseudos_loop.simps request_pseudos_def image_iff R_def s_def n_def B_def)
  have IH: "checkPseudos_loop (prev @ [f]) rq' rs' pf = None \<longleftrightarrow>
      distinct (map hf_Name pf) \<and> A \<inter> insert n B = {} \<and> A \<subseteq> insert s R
      \<and> \<not> ((rq' \<or> A \<inter> R \<noteq> {}) \<and> (rs' \<or> s \<in> A))" for rq' rs'
    unfolding Cons.IH by (simp only: A_def B_def R_def s_def n_def) simp
  have goal: "hf_Name ` set (f # pf) = insert n A" "distinct (map hf_Name (f # pf)) \<longleftrightarrow> n \<notin> A \<and> distinct (map hf_Name pf)"
    by (simp_all add: A_def n_def)
  show ?case
    unfolding goal step R_def [symmetric] s_def [symmetric] B_def [symmetric]
    using st IH by (cases "n \<in> R"; cases "n \<in> B"; cases "n = s"; simp; blast)
qed simp

lemma checkPseudos_None: "checkPseudos fs = None \<longleftrightarrow> pseudos_ok (takeWhile IsPseudo fs)"
  by (auto simp: checkPseudos_def checkPseudos_loop_None pseudos_ok_def PseudoFields_takeWhile)

definition wire_size :: "HeaderField list \<Rightarrow> nat" where
  "wire_size fs = sum_list (map (\<lambda>f. unat (HeaderField_Size f)) fs)"

definition fields_ok :: "(string \<Rightarrow> bool) \<Rightarrow> (char \<Rightarrow> bool) \<Rightarrow> HeaderField list \<Rightarrow> bool" where
  "fields_ok vv tok fs \<longleftrightarrow> (\<forall>f \<in> set fs. vv (hf_Value f))
     \<and> (\<forall>f \<in> set (dropWhile IsPseudo fs). \<not> IsPseudo f \<and> validWireHeaderFieldName tok (hf_Name f))"

text \<open>The invariant of the variables the emit closure captures.\<close>

definition meta_inv :: "(string \<Rightarrow> bool) \<Rightarrow> (char \<Rightarrow> bool) \<Rightarrow> nat \<Rightarrow> meta_env \<times> bool \<Rightarrow> bool" where
  "meta_inv vv tok m = (\<lambda>(env, en).
     fields_ok vv tok (me_Fields env) \<and> (\<not> me_sawRegular env \<longrightarrow> (\<forall>f \<in> set (me_Fields env). IsPseudo f))
     \<and> (en \<longrightarrow> me_invalid env = None) \<and> wire_size (me_Fields env) + unat (me_remainSize env) \<le> m)"

lemma fields_ok_snoc:
  assumes "fields_ok vv tok fs" and "vv (hf_Value f)"
    and "if IsPseudo f then \<forall>g \<in> set fs. IsPseudo g else validWireHeaderFieldName tok (hf_Name f)"
  shows "fields_ok vv tok (fs @ [f])"
proof (cases "\<forall>g \<in> set fs. IsPseudo g")
  case True
  then have "dropWhile IsPseudo fs = []" by simp
  with True assms show ?thesis by (simp add: fields_ok_def dropWhile_append)
next
  case False
  then obtain g where "g \<in> set fs" "\<not> IsPseudo g" by blast
  then have "dropWhile IsPseudo (fs @ [f]) = dropWhile IsPseudo fs @ [f]" by (rule dropWhile_append1)
  moreover have "\<not> IsPseudo f" "validWireHeaderFieldName tok (hf_Name f)" using False assms(3) by (simp_all split: if_splits)
  ultimately show ?thesis using assms(1,2) by (simp add: fields_ok_def)
qed

lemma emit_meta_keeps: "emit_keeps (meta_inv vv tok m) (emit_meta vv tok)"
proof -
  have "meta_inv vv tok m (emit_meta vv tok f (env, True))" if inv: "meta_inv vv tok m (env, True)" for f env
  proof (cases "vv (hf_Value f) \<and> (if IsPseudo f then \<not> me_sawRegular env else validWireHeaderFieldName tok (hf_Name f))")
    case True
    let ?env = "if IsPseudo f then env else env\<lparr>me_sawRegular := True\<rparr>"
    have e: "emit_meta vv tok f (env, True) =
        (if HeaderField_Size f > me_remainSize env then (?env\<lparr>me_Truncated := True, me_remainSize := 0\<rparr>, False)
         else (?env\<lparr>me_remainSize := me_remainSize env - HeaderField_Size f, me_Fields := me_Fields env @ [f]\<rparr>, True))"
      using True inv by (auto simp: emit_meta_def Let_def meta_inv_def)
    have "fields_ok vv tok (me_Fields env @ [f])"
      using True inv by (intro fields_ok_snoc) (auto simp: meta_inv_def)
    moreover have "unat (me_remainSize env - HeaderField_Size f) = unat (me_remainSize env) - unat (HeaderField_Size f)"
      if "HeaderField_Size f \<le> me_remainSize env" using that by (rule unat_sub)
    ultimately show ?thesis
      using True inv unfolding e by (auto simp: meta_inv_def wire_size_def word_le_nat_alt not_less)
  next
    case False
    then have "snd (emit_meta vv tok f (env, True)) = False \<and> me_Fields (fst (emit_meta vv tok f (env, True))) = me_Fields env
        \<and> me_remainSize (fst (emit_meta vv tok f (env, True))) = me_remainSize env
        \<and> (\<not> me_sawRegular (fst (emit_meta vv tok f (env, True))) \<longrightarrow> \<not> me_sawRegular env)"
      by (auto simp: emit_meta_def Let_def split: if_splits)
    with inv show ?thesis by (cases "emit_meta vv tok f (env, True)") (auto simp: meta_inv_def)
  qed
  then show ?thesis by (simp add: emit_keeps_def)
qed

definition meta_frame_ok :: "(string \<Rightarrow> bool) \<Rightarrow> (char \<Rightarrow> bool) \<Rightarrow> nat \<Rightarrow> HeaderField list \<Rightarrow> bool" where
  "meta_frame_ok vv tok m fs \<longleftrightarrow> fields_ok vv tok fs \<and> pseudos_ok (takeWhile IsPseudo fs) \<and> wire_size fs \<le> m"

lemma meta_end_ok:
  assumes "meta_end h prio hc hdec fr = (Some (MetaHeadersFrame h' p' b' fs trunc), None, fr')"
    and "meta_inv vv tok m (d_env hdec, d_emitEnabled hdec)"
  shows "meta_frame_ok vv tok m fs"
  using assms
  by (auto simp: meta_end_def Let_def mh_of_def dec_Close_def checkPseudos_None meta_inv_def meta_frame_ok_def
      split: if_splits option.splits)

section \<open>Reading the parts of a frame\<close>

lemma ReadFull_length:
  assumes "ReadFull r n = (res, r')"
  shows "length (rd_data r') \<le> length (rd_data r)"
    and "res = Inr b \<Longrightarrow> length b = n \<and> length (rd_data r') + n = length (rd_data r)"
  using assms by (auto simp: ReadFull_def split: if_splits)

lemma header_of_length: "unat (fh_Length (header_of buf)) < 2 ^ 24"
  using unat_byte_less [of "buf ! 0"] unat_byte_less [of "buf ! 1"] unat_byte_less [of "buf ! 2"]
  by (simp add: header_of_def unat_length24 be24_eq)

text \<open>The fields of the framer that reading a frame does not touch.\<close>

definition same_config :: "Framer \<Rightarrow> Framer \<Rightarrow> bool" where
  "same_config fr fr' \<longleftrightarrow> ReadMetaHeaders fr' = ReadMetaHeaders fr \<and> AllowIllegalReads fr' = AllowIllegalReads fr
     \<and> MaxHeaderListSize fr' = MaxHeaderListSize fr \<and> length (rd_data (fr_r fr')) \<le> length (rd_data (fr_r fr))"

lemma checkFrameOrder_open:
  assumes "checkFrameOrder fr fh = (None, fr')" and "\<not> AllowIllegalReads fr"
  shows "(lastHeaderStream fr \<noteq> 0 \<longrightarrow> fh_Type fh = FrameContinuation)
    \<and> (fh_Type fh \<in> {FrameHeaders, FrameContinuation} \<and> \<not> Has (fh_Flags fh) 4 \<longrightarrow> lastHeaderStream fr' = fh_StreamID fh)"
  using assms by (auto simp: checkFrameOrder_def Let_def fr_connError_def split: if_splits)

lemma ReadFrameHeader_spec:
  assumes "ReadFrameHeader fr = ((fh, err), fr')"
  shows "same_config fr fr'"
    and "err = None \<Longrightarrow> length (rd_data (fr_r fr')) + 9 = length (rd_data (fr_r fr)) \<and> fh_valid fh \<and> unat (fh_Length fh) < 2 ^ 24"
    and "err = None \<Longrightarrow> \<not> AllowIllegalReads fr \<Longrightarrow> (lastHeaderStream fr \<noteq> 0 \<longrightarrow> fh_Type fh = FrameContinuation)
      \<and> (fh_Type fh \<in> {FrameHeaders, FrameContinuation} \<and> \<not> Has (fh_Flags fh) 4 \<longrightarrow> lastHeaderStream fr' = fh_StreamID fh)"
proof -
  obtain res r where r: "ReadFull (fr_r fr) 9 = (res, r)" by force
  note len = ReadFull_length [OF r]
  define fr1 where "fr1 = fr\<lparr>fr_errDetail := None, fr_r := r\<rparr>"
  have *: "same_config fr fr'
      \<and> (err = None \<longrightarrow> (\<exists>buf. res = Inr buf \<and> fh = header_of buf \<and> fr_r fr' = r \<and> checkFrameOrder fr1 fh = (None, fr')))"
  proof (cases res)
    case (Inl e)
    with assms r len(1) show ?thesis by (auto simp: ReadFrameHeader_def readFrameHeader_def same_config_def)
  next
    case (Inr buf)
    obtain e fr2 where o: "checkFrameOrder fr1 (header_of buf) = (e, fr2)" by force
    from checkFrameOrder_frame [OF o] Inr assms r len(1) o show ?thesis
      by (auto simp: ReadFrameHeader_def readFrameHeader_def same_config_def Let_def fr1_def split: if_splits)
  qed
  then show "same_config fr fr'" by simp
  show "length (rd_data (fr_r fr')) + 9 = length (rd_data (fr_r fr)) \<and> fh_valid fh \<and> unat (fh_Length fh) < 2 ^ 24" if "err = None"
    using * that len(2) header_of_length by (auto simp: header_of_def [of "_ :: bytes", THEN arg_cong, of fh_valid])
  show "(lastHeaderStream fr \<noteq> 0 \<longrightarrow> fh_Type fh = FrameContinuation)
      \<and> (fh_Type fh \<in> {FrameHeaders, FrameContinuation} \<and> \<not> Has (fh_Flags fh) 4 \<longrightarrow> lastHeaderStream fr' = fh_StreamID fh)"
    if "err = None" "\<not> AllowIllegalReads fr"
    using * that checkFrameOrder_open [of fr1 fh fr'] by (auto simp: fr1_def)
qed

lemma byte_lt_10: "unat (t :: byte) < 10 \<Longrightarrow> t \<in> {0, 1, 2, 3, 4, 5, 6, 7, 8, 9}"
proof -
  assume "unat t < 10"
  then have "unat t \<in> {0, 1, 2, 3, 4, 5, 6, 7, 8, 9}" by auto
  then have "of_nat (unat t) \<in> {0 :: byte, 1, 2, 3, 4, 5, 6, 7, 8, 9}" by fastforce
  then show ?thesis by simp
qed

lemma parser_total: "fh_valid fh \<Longrightarrow> \<exists>r. typeFrameParser t fh p = Some r"
proof (cases "unat t < 10")
  case True
  assume "fh_valid fh"
  with byte_lt_10 [OF True] show ?thesis
    by (auto simp: typeFrameParser_def frameParsers_def parseDataFrame_def parseHeadersFrame_def parsePriorityFrame_def
        parseRSTStreamFrame_def parseSettingsFrame_def parsePushPromise_def parsePingFrame_def parseGoAwayFrame_def
        parseWindowUpdateFrame_def parseContinuationFrame_def Settings_Value_find split: option.split)
qed (simp add: typeFrameParser_def frameParsers_def parseUnknownFrame_def)

definition header_frame :: "FrameHeader \<Rightarrow> bytes \<Rightarrow> Frame \<Rightarrow> bool" where
  "header_frame fh p f \<longleftrightarrow> fh_StreamID fh \<noteq> 0 \<and> (fh_Type fh = FrameContinuation \<and> f = ContinuationFrame fh p
     \<or> fh_Type fh = FrameHeaders \<and> (\<exists>prio b. f = HeadersFrame fh prio b \<and> length b \<le> length p))"

fun plain_frame :: "Frame \<Rightarrow> bool" where
  "plain_frame (HeadersFrame _ _ _) = False"
| "plain_frame (MetaHeadersFrame _ _ _ _ _) = False"
| "plain_frame _ = True"

lemma headers_priority_length: "headers_priority fh p = Inr (q, prio) \<Longrightarrow> length q \<le> length p"
  by (auto simp: headers_priority_def counted_def readUint32_def readByte_def Let_def
      dest!: arg_cong [where f = length and y = "_ # _"] split: if_splits sum.splits list.splits)

lemma parseHeadersFrame_frame:
  assumes "parseHeadersFrame fh p = Some (Inr f)"
  shows "fh_StreamID fh \<noteq> 0 \<and> (\<exists>prio b. f = HeadersFrame fh prio b \<and> length b \<le> length p)"
  using assms
  by (auto simp: parseHeadersFrame_def counted_def readByte_def dest!: headers_priority_length
      split: if_splits sum.splits list.splits)

lemma parser_frame:
  assumes "typeFrameParser (fh_Type fh) fh p = Some (Inr f)"
  shows "header_frame fh p f \<or> (fh_Type fh \<noteq> FrameContinuation \<and> plain_frame f)"
proof (cases "unat (fh_Type fh) < 10")
  case True
  consider "fh_Type fh = 1" | "fh_Type fh = 9" | "fh_Type fh \<notin> {1, 9}" by blast
  then show ?thesis
  proof cases
    case 1
    with assms parseHeadersFrame_frame [of fh p f] show ?thesis
      by (simp add: typeFrameParser_def frameParsers_def header_frame_def)
  next
    case 2
    with assms show ?thesis
      by (simp add: typeFrameParser_def frameParsers_def header_frame_def parseContinuationFrame_def split: if_splits)
  next
    case 3
    with byte_lt_10 [OF True] assms show ?thesis
      by (auto simp: typeFrameParser_def frameParsers_def parseDataFrame_def parsePriorityFrame_def
          parseRSTStreamFrame_def parseSettingsFrame_def parsePushPromise_def parsePingFrame_def parseGoAwayFrame_def
          parseWindowUpdateFrame_def Let_def split: option.splits if_splits)
  qed
next
  case False
  with assms show ?thesis by (auto simp: typeFrameParser_def frameParsers_def parseUnknownFrame_def)
qed

lemma read_payload_spec:
  assumes "fh_valid fh"
  shows "\<exists>f e fr'. read_payload fr fh = Some (f, e, fr') \<and> same_config fr fr' \<and> lastHeaderStream fr' = lastHeaderStream fr
    \<and> (case f of None \<Rightarrow> e \<noteq> None
        | Some g \<Rightarrow> e = None \<and> (\<exists>p. length p = unat (fh_Length fh) \<and>
            (header_frame fh p g \<or> (fh_Type fh \<noteq> FrameContinuation \<and> plain_frame g))))"
proof -
  obtain res r where r: "ReadFull (fr_r fr) (unat (fh_Length fh)) = (res, r)" by force
  note len = ReadFull_length [OF r]
  show ?thesis
  proof (cases res)
    case (Inl e)
    with r len(1) show ?thesis by (simp add: read_payload_def Let_def same_config_def)
  next
    case (Inr p)
    obtain parsed where parsed: "typeFrameParser (fh_Type fh) fh p = Some parsed"
      using parser_total [OF assms] by blast
    show ?thesis
    proof (cases parsed)
      case (Inl te)
      then obtain token err where "parsed = Inl (token, err)" by (cases te) auto
      with Inr r len(1) parsed show ?thesis
        by (cases err) (simp_all add: read_payload_def Let_def same_config_def fr_connError_def)
    next
      case f: (Inr f)
      with Inr r len parsed parser_frame [of fh p f] show ?thesis
        by (auto simp: read_payload_def Let_def same_config_def)
    qed
  qed
qed

section \<open>Reading always returns\<close>

abbreviation unread :: "Framer \<Rightarrow> nat" where
  "unread fr \<equiv> length (rd_data (fr_r fr))"

text \<open>
  The header list limit is at most the default of 16 MB, and the decoder's table is well-formed with
  counters that cannot wrap while the unread bytes are decoded: every header block fragment costs at
  most \<open>2 ^ 27\<close> table operations and needs a frame header of nine bytes.
\<close>

definition dec_ready :: "'s Decoder \<Rightarrow> Framer \<Rightarrow> nat \<Rightarrow> bool" where
  "dec_ready d fr k \<longleftrightarrow> dec_safe d (2 ^ 27 * k) \<and> length (d_saveBuf d) \<le> 2 * (unat (maxHeaderListSize fr) + 8)"

definition framer_safe :: "Framer \<Rightarrow> bool" where
  "framer_safe fr \<longleftrightarrow> unat (maxHeaderListSize fr) \<le> 2 ^ 24
     \<and> (\<forall>d. ReadMetaHeaders fr = Some d \<longrightarrow> dec_ready d fr (unread fr))"

lemma dec_safe_less: "dec_safe d k \<Longrightarrow> j \<le> k \<Longrightarrow> dec_safe d j"
  by (simp add: dec_safe_def)

lemma dec_ready_less:
  "dec_ready d fr k \<Longrightarrow> j \<le> k \<Longrightarrow> MaxHeaderListSize fr' = MaxHeaderListSize fr \<Longrightarrow> dec_ready d fr' j"
  by (auto simp: dec_ready_def maxHeaderListSize_def elim: dec_safe_less)

lemma dec_ready_SetEmitFunc [simp]: "dec_ready (SetEmitFunc d e env) fr k = dec_ready d fr k"
  by (simp add: dec_ready_def dec_safe_def SetEmitFunc_def)

lemma framer_safe_config:
  "framer_safe fr \<Longrightarrow> same_config fr fr' \<Longrightarrow> framer_safe fr'"
  by (auto simp: framer_safe_def same_config_def maxHeaderListSize_def dest: dec_ready_less [where fr' = fr'])

lemma framer_safe_release:
  assumes "dec_ready hdec fr (unread fr)" and "unat (maxHeaderListSize fr) \<le> 2 ^ 24"
  shows "framer_safe (release hdec fr)"
  using assms dec_ready_less [of hdec fr "unread fr" "unread fr" "release hdec fr"]
  by (auto simp: framer_safe_def release_def maxHeaderListSize_def split: if_splits)

lemma framer_safe_irrelevant [simp]:
  "framer_safe (fr\<lparr>fr_errDetail := e\<rparr>) = framer_safe fr" "framer_safe (fr\<lparr>fr_lastFrame := l\<rparr>) = framer_safe fr"
  by (simp_all add: framer_safe_def dec_ready_def maxHeaderListSize_def)

lemma release_lastFrame: "release hdec (fr\<lparr>fr_lastFrame := l\<rparr>) = (release hdec fr)\<lparr>fr_lastFrame := l\<rparr>"
  by (simp add: release_def)

lemma meta_end_safe:
  assumes "dec_ready hdec fr (unread fr)" and "unat (maxHeaderListSize fr) \<le> 2 ^ 24"
    and "meta_end h prio hc hdec fr = (f, e, fr')"
  shows "framer_safe fr' \<and> (e = None \<longrightarrow> (\<exists>h p b fs t. f = Some (MetaHeadersFrame h p b fs t)))"
proof -
  have "dec_ready (snd (dec_Close hdec)) fr (unread fr)"
    using assms(1) by (simp add: dec_Close_def dec_ready_def dec_safe_def)
  from framer_safe_release [OF this assms(2)] assms(3) show ?thesis
    by (auto simp: meta_end_def Let_def mh_of_def release_lastFrame split: Frame.splits prod.splits option.splits)
qed

definition loop_ok :: "Frame \<Rightarrow> meta_env Decoder \<Rightarrow> Framer \<Rightarrow> bool" where
  "loop_ok hc hdec fr \<longleftrightarrow> \<not> AllowIllegalReads fr \<and> unat (maxHeaderListSize fr) \<le> 2 ^ 24
     \<and> d_maxStrLen hdec = unat (maxHeaderListSize fr) \<and> dec_ready hdec fr (unread fr + 1)
     \<and> (\<exists>frag. HeaderBlockFragment hc = Some frag \<and> length frag < 2 ^ 24)
     \<and> (\<not> HeadersEnded hc \<longrightarrow> lastHeaderStream fr \<noteq> 0)"

lemma maxHeaderListSize_pos: "0 < unat (maxHeaderListSize fr)"
  by (simp add: maxHeaderListSize_def unat_gt_0)

lemma dec_Write_ready:
  assumes "loop_ok hc hdec fr" and "HeaderBlockFragment hc = Some frag"
    and "emit_keeps P (d_emit hdec)" and "P (d_env hdec, d_emitEnabled hdec)"
  shows "\<exists>k err hdec'. dec_Write hdec frag = Some (k, err, hdec') \<and> dec_ready hdec' fr (unread fr)
    \<and> d_maxStrLen hdec' = d_maxStrLen hdec \<and> d_emit hdec' = d_emit hdec \<and> P (d_env hdec', d_emitEnabled hdec')"
proof -
  let ?n = "length (d_saveBuf hdec @ frag)"
  have max: "unat (maxHeaderListSize fr) \<le> 2 ^ 24" and len: "length frag < 2 ^ 24"
    and sb: "length (d_saveBuf hdec) \<le> 2 * (unat (maxHeaderListSize fr) + 8)"
    and ds: "dec_safe hdec (2 ^ 27 * (unread fr + 1))"
    using assms(1,2) by (auto simp: loop_ok_def dec_ready_def)
  have n: "?n < 2 ^ 27" using max len sb by simp
  then have "?n + 2 ^ 27 * unread fr \<le> 2 ^ 27 * (unread fr + 1)" by simp
  from dec_safe_less [OF ds this] n obtain k err hdec'
    where w: "dec_Write hdec frag = Some (k, err, hdec')" "dec_safe hdec' (2 ^ 27 * unread fr)"
    using dec_Write_safe [of hdec frag "2 ^ 27 * unread fr"] by fastforce
  from dec_Write_env [where P = P, OF w(1) assms(4,3)] assms(1) maxHeaderListSize_pos [of fr] sb w show ?thesis
    by (auto simp: loop_ok_def dec_ready_def)
qed

definition meta_result :: "(string \<Rightarrow> bool) \<Rightarrow> (char \<Rightarrow> bool) \<Rightarrow> nat \<Rightarrow> read_result \<Rightarrow> bool" where
  "meta_result vv tok m res \<longleftrightarrow> (\<exists>f e fr'. res = Some (f, e, fr') \<and> framer_safe fr'
     \<and> (e = None \<longrightarrow> (\<exists>h p b fs t. f = Some (MetaHeadersFrame h p b fs t) \<and> meta_frame_ok vv tok m fs)))"

lemma next_fragment:
  assumes "framer_safe fr0" and "\<not> AllowIllegalReads fr0" and "lastHeaderStream fr0 \<noteq> 0"
  shows "\<exists>fh err fr1. ReadFrameHeader fr0 = ((fh, err), fr1) \<and> framer_safe fr1
    \<and> (err = None \<longrightarrow> (\<exists>f e fr2. read_payload fr1 fh = Some (f, e, fr2) \<and> framer_safe fr2
        \<and> \<not> AllowIllegalReads fr2 \<and> MaxHeaderListSize fr2 = MaxHeaderListSize fr0 \<and> unread fr2 + 9 \<le> unread fr0
        \<and> (case f of None \<Rightarrow> e \<noteq> None
            | Some g \<Rightarrow> e = None \<and> (\<exists>p. g = ContinuationFrame fh p \<and> fh_valid fh \<and> length p < 2 ^ 24)
                \<and> (\<not> HeadersEnded g \<longrightarrow> lastHeaderStream fr2 \<noteq> 0))))"
proof -
  obtain fh err fr1 where h: "ReadFrameHeader fr0 = ((fh, err), fr1)" by (metis prod.exhaust)
  note spec = ReadFrameHeader_spec [OF h]
  have safe1: "framer_safe fr1" using framer_safe_config [OF assms(1) spec(1)] .
  show ?thesis
  proof (cases err)
    case (Some e)
    with h safe1 show ?thesis by auto
  next
    case None
    from spec(2) [OF None] have valid: "fh_valid fh" and len: "unat (fh_Length fh) < 2 ^ 24"
      and data: "unread fr1 + 9 = unread fr0" by simp_all
    from spec(3) [OF None assms(2)] assms(3) have t: "fh_Type fh = FrameContinuation"
      and open_: "\<not> Has (fh_Flags fh) 4 \<longrightarrow> lastHeaderStream fr1 = fh_StreamID fh" by simp_all
    obtain f e fr2 where p: "read_payload fr1 fh = Some (f, e, fr2)" and config: "same_config fr1 fr2"
      and last: "lastHeaderStream fr2 = lastHeaderStream fr1"
      and res: "case f of None \<Rightarrow> e \<noteq> None
        | Some g \<Rightarrow> e = None \<and> (\<exists>p. length p = unat (fh_Length fh) \<and>
            (header_frame fh p g \<or> (fh_Type fh \<noteq> FrameContinuation \<and> plain_frame g)))"
      using read_payload_spec [OF valid, of fr1] by blast
    have safe2: "framer_safe fr2" using framer_safe_config [OF safe1 config] .
    from h p safe1 safe2 config spec(1) assms(2) data res t valid len open_ last None show ?thesis
      by (auto simp: same_config_def header_frame_def split: option.splits)
  qed
qed

lemma meta_loop_result:
  assumes "loop_ok hc hdec fr" and "d_emit hdec = emit_meta vv tok"
    and "meta_inv vv tok m (d_env hdec, d_emitEnabled hdec)"
  shows "meta_result vv tok m (meta_loop vv tok h prio frag0 hc hdec fr)"
  using assms
proof (induction "unread fr" arbitrary: h hc hdec fr rule: less_induct)
  case less
  obtain frag where frag: "HeaderBlockFragment hc = Some frag" using less.prems(1) by (auto simp: loop_ok_def)
  have max: "unat (maxHeaderListSize fr) \<le> 2 ^ 24" and legal: "\<not> AllowIllegalReads fr"
    using less.prems(1) by (simp_all add: loop_ok_def)
  have ready: "dec_ready hdec fr (unread fr)"
    using less.prems(1) dec_ready_less [of hdec fr "unread fr + 1" "unread fr" fr] by (simp add: loop_ok_def)
  obtain k err hdec1 where w: "dec_Write hdec frag = Some (k, err, hdec1)" and ready1: "dec_ready hdec1 fr (unread fr)"
    and keep: "d_maxStrLen hdec1 = d_maxStrLen hdec" "d_emit hdec1 = emit_meta vv tok"
      "meta_inv vv tok m (d_env hdec1, d_emitEnabled hdec1)"
    using dec_Write_ready [OF less.prems(1) frag, of "meta_inv vv tok m"] less.prems(2,3) emit_meta_keeps by fastforce
  note safe = framer_safe_release [OF ready max] framer_safe_release [OF ready1 max]
  show ?case
  proof (cases "length frag > unat (2 * me_remainSize (d_env hdec)) \<or> me_invalid (d_env hdec) \<noteq> None \<or> err \<noteq> None")
    case True
    with frag w safe show ?thesis
      by (subst meta_loop.simps) (auto simp: meta_result_def)
  next
    case ok: False
    show ?thesis
    proof (cases "HeadersEnded hc")
      case True
      obtain f e fr' where "meta_end h prio hc hdec1 fr = (f, e, fr')" by (metis prod.exhaust)
      with meta_end_safe [OF ready1 max this] meta_end_ok [OF _ keep(3)] True ok frag w show ?thesis
        by (subst meta_loop.simps) (auto simp: meta_result_def)
    next
      case False
      let ?fr = "release hdec1 fr"
      have "lastHeaderStream ?fr \<noteq> 0" "\<not> AllowIllegalReads ?fr" "unread ?fr = unread fr"
        using less.prems(1) False by (simp_all add: loop_ok_def release_def)
      from next_fragment [OF safe(2) this(2,1)] obtain fh err1 fr1
        where h1: "ReadFrameHeader ?fr = ((fh, err1), fr1)" "framer_safe fr1"
          and nxt: "err1 = None \<longrightarrow> (\<exists>f e fr2. read_payload fr1 fh = Some (f, e, fr2) \<and> framer_safe fr2
            \<and> \<not> AllowIllegalReads fr2 \<and> MaxHeaderListSize fr2 = MaxHeaderListSize ?fr \<and> unread fr2 + 9 \<le> unread ?fr
            \<and> (case f of None \<Rightarrow> e \<noteq> None
                | Some g \<Rightarrow> e = None \<and> (\<exists>p. g = ContinuationFrame fh p \<and> fh_valid fh \<and> length p < 2 ^ 24)
                    \<and> (\<not> HeadersEnded g \<longrightarrow> lastHeaderStream fr2 \<noteq> 0)))" by blast
      show ?thesis
      proof (cases err1)
        case (Some e)
        with h1 False ok frag w show ?thesis by (subst meta_loop.simps) (auto simp: meta_result_def)
      next
        case None
        with nxt obtain f e fr2 where p: "read_payload fr1 fh = Some (f, e, fr2)" "framer_safe fr2"
          and fr2: "\<not> AllowIllegalReads fr2" "MaxHeaderListSize fr2 = MaxHeaderListSize fr" "unread fr2 + 9 \<le> unread fr"
          and f: "case f of None \<Rightarrow> e \<noteq> None
            | Some g \<Rightarrow> e = None \<and> (\<exists>p. g = ContinuationFrame fh p \<and> fh_valid fh \<and> length p < 2 ^ 24)
                \<and> (\<not> HeadersEnded g \<longrightarrow> lastHeaderStream fr2 \<noteq> 0)"
          by (auto simp: release_def)
        show ?thesis
        proof (cases f)
          case None
          with f p h1 \<open>err1 = None\<close> False ok frag w show ?thesis
            by (subst meta_loop.simps) (auto simp: meta_result_def)
        next
          case (Some g)
          with f obtain p where g: "e = None" "g = ContinuationFrame fh p" "fh_valid fh" "length p < 2 ^ 24"
            "\<not> HeadersEnded g \<longrightarrow> lastHeaderStream fr2 \<noteq> 0" by auto
          have ml: "maxHeaderListSize fr2 = maxHeaderListSize fr" using fr2(2) by (simp add: maxHeaderListSize_def)
          have "loop_ok g hdec1 fr2"
            using g fr2 max keep(1) less.prems(1) dec_ready_less [OF ready1, of "unread fr2 + 1" fr2]
            by (auto simp: loop_ok_def ml checkValid_def)
          from less.hyps [OF _ this keep(2,3)] fr2(3)
          have "meta_result vv tok m (meta_loop vv tok (h\<lparr>fh_valid := False\<rparr>) prio frag0 g hdec1 fr2)" by simp
          with Some g p h1 \<open>err1 = None\<close> False ok frag w show ?thesis
            by (subst meta_loop.simps) simp
        qed
      qed
    qed
  qed
qed

lemma readMetaFrame_result:
  assumes "framer_safe fr" and "ReadMetaHeaders fr = Some d" and "\<not> AllowIllegalReads fr"
    and "dec_ready d fr (unread fr + 1)" and "fh_valid h" and "length b < 2 ^ 24"
    and "\<not> Has (fh_Flags h) 4 \<longrightarrow> lastHeaderStream fr \<noteq> 0"
  shows "meta_result vv tok (unat (maxHeaderListSize fr)) (readMetaFrame vv tok fr d h prio b)"
proof -
  let ?d = "meta_init vv tok fr d"
  have "dec_ready ?d fr (unread fr + 1)"
    using assms(4) by (simp add: meta_init_def dec_ready_def dec_safe_def SetEmitFunc_def SetMaxStringLength_def SetEmitEnabled_def)
  then have "loop_ok (HeadersFrame h prio b) ?d fr"
    using assms by (simp add: loop_ok_def framer_safe_def checkValid_def)
      (simp add: meta_init_def maxHeaderStringLen_def SetEmitFunc_def SetMaxStringLength_def)
  moreover have "d_emit ?d = emit_meta vv tok"
    "meta_inv vv tok (unat (maxHeaderListSize fr)) (d_env ?d, d_emitEnabled ?d)"
    by (simp_all add: meta_init_def SetEmitFunc_def SetMaxStringLength_def SetEmitEnabled_def meta_inv_def fields_ok_def wire_size_def)
  ultimately show ?thesis using assms(3) by (simp add: readMetaFrame_def meta_loop_result)
qed

lemma ReadFrame_result:
  assumes "framer_safe fr"
  shows "\<exists>f e fr'. ReadFrame vv tok fr = Some (f, e, fr') \<and> framer_safe fr'
    \<and> (\<forall>h p b fs t. f = Some (MetaHeadersFrame h p b fs t) \<and> e = None \<longrightarrow>
         meta_frame_ok vv tok (unat (maxHeaderListSize fr)) fs)"
proof -
  obtain fh err fr1 where h: "ReadFrameHeader fr = ((fh, err), fr1)" by (metis prod.exhaust)
  note spec = ReadFrameHeader_spec [OF h]
  have safe1: "framer_safe fr1" using framer_safe_config [OF assms spec(1)] .
  show ?thesis
  proof (cases err)
    case (Some e)
    with h safe1 show ?thesis by (simp add: ReadFrame_def)
  next
    case None
    note s2 = spec(2) [OF None]
    obtain f e fr2 where p: "read_payload fr1 fh = Some (f, e, fr2)" and config: "same_config fr1 fr2"
      and last: "lastHeaderStream fr2 = lastHeaderStream fr1"
      and res: "case f of None \<Rightarrow> e \<noteq> None
        | Some g \<Rightarrow> e = None \<and> (\<exists>p. length p = unat (fh_Length fh) \<and>
            (header_frame fh p g \<or> (fh_Type fh \<noteq> FrameContinuation \<and> plain_frame g)))"
      using read_payload_spec [of fh fr1] s2 by blast
    have safe2: "framer_safe fr2" using framer_safe_config [OF safe1 config] .
    have R: "ReadFrame vv tok fr = ReadFrameForHeader vv tok fr1 fh" using h None by (simp add: ReadFrame_def)
    show ?thesis
    proof (cases "\<exists>prio b d. f = Some (HeadersFrame fh prio b) \<and> ReadMetaHeaders fr2 = Some d \<and> \<not> AllowIllegalReads fr2")
      case True
      then obtain prio b d where g: "f = Some (HeadersFrame fh prio b)" and d: "ReadMetaHeaders fr2 = Some d"
        and legal: "\<not> AllowIllegalReads fr2" by blast
      from g res have e: "e = None" and hf: "fh_Type fh = FrameHeaders" "fh_StreamID fh \<noteq> 0" "length b < 2 ^ 24"
        using s2 by (auto simp: header_frame_def)
      have open_: "\<not> Has (fh_Flags fh) 4 \<longrightarrow> lastHeaderStream fr2 \<noteq> 0"
        using spec(3) [OF None] hf last legal config spec(1) by (auto simp: same_config_def)
      have cfg: "MaxHeaderListSize fr2 = MaxHeaderListSize fr" "ReadMetaHeaders fr = Some d" "unread fr2 + 1 \<le> unread fr"
        using config spec(1) d s2 by (auto simp: same_config_def)
      have "dec_ready d fr2 (unread fr2 + 1)"
        using assms cfg dec_ready_less [of d fr "unread fr" "unread fr2 + 1" fr2] by (simp add: framer_safe_def)
      from readMetaFrame_result [OF safe2 d legal this _ hf(3) open_, of vv tok prio] s2
      have "meta_result vv tok (unat (maxHeaderListSize fr2)) (readMetaFrame vv tok fr2 d fh prio b)" by simp
      moreover have "ReadFrame vv tok fr = readMetaFrame vv tok fr2 d fh prio b"
        using R p g d e by (simp add: ReadFrameForHeader_def)
      moreover have "maxHeaderListSize fr2 = maxHeaderListSize fr" using cfg(1) by (simp add: maxHeaderListSize_def)
      ultimately show ?thesis by (auto simp: meta_result_def)
    next
      case False
      have "\<exists>e'. ReadFrame vv tok fr = Some (f, e, fr2) \<or> ReadFrame vv tok fr = Some (None, e', fr2)"
        using R p res False
        by (auto simp: ReadFrameForHeader_def readMetaFrame_def header_frame_def split: option.splits Frame.splits)
      moreover have "f \<noteq> Some (MetaHeadersFrame h p b fs t)" for h p b fs t
        using res by (auto simp: header_frame_def split: option.splits)
      ultimately show ?thesis using safe2 by blast
    qed
  qed
qed

text \<open>C10: reading always returns. From a framer whose header list limit is at most 16 MB and whose
  decoder table is well-formed, \<open>ReadFrame\<close> does not panic and does not loop, whatever bytes the peer
  has sent, with or without merging of header blocks; and the framer it leaves satisfies the same
  condition, so that every later call returns too.\<close>

theorem ReadFrame_returns:
  assumes "framer_safe fr"
  shows "\<exists>f e fr'. ReadFrame vv tok fr = Some (f, e, fr') \<and> framer_safe fr'"
  using ReadFrame_result [OF assms, of vv tok] by blast

definition meta_framer :: "bytes \<Rightarrow> Framer" where
  "meta_framer bs = (example_framer bs)\<lparr>ReadMetaHeaders := Some (SetEmitFunc decoder0 (\<lambda>_ s. s) ()), MaxHeaderListSize := 200\<rparr>"

lemma framer_safe_meta_framer:
  assumes "length bs < 2 ^ 30"
  shows "framer_safe (meta_framer bs)"
proof -
  have "2 ^ 27 * length bs < (2 :: nat) ^ 64" using assms by simp
  then have "dec_safe decoder0 (2 ^ 27 * length bs)" by (rule dec_safe_decoder0)
  moreover have "d_saveBuf decoder0 = []" by (simp add: decoder0_def)
  ultimately show ?thesis
    by (simp add: framer_safe_def meta_framer_def example_framer_def NewFramer_def SetMaxReadFrameSize_def
        dec_ready_def maxHeaderListSize_def dec_safe_def SetEmitFunc_def)
qed

theorem ReadFrame_returns_witness:
  "\<exists>f e fr'. ReadFrame (\<lambda>_. True) (\<lambda>_. True) (meta_framer [0, 0, 1, 1, 0, 0, 0, 0, 5, 0x82, 0, 0]) = Some (f, e, fr') \<and> framer_safe fr'"
  by (rule ReadFrame_returns, rule framer_safe_meta_framer) simp

text \<open>C12: a \<open>MetaHeadersFrame\<close> that \<open>ReadFrame\<close> returns without an error has only valid fields: pseudo
  header fields come first, are known, occur once and do not mix requests and responses; regular
  fields have valid lower-case names; every value is valid; and the fields together do not exceed the
  header list limit.\<close>

theorem meta_headers_valid:
  assumes "framer_safe fr" and "ReadFrame vv tok fr = Some (Some (MetaHeadersFrame h p b fs t), None, fr')"
  shows "pseudos_ok (takeWhile IsPseudo fs) \<and> PseudoFields fs @ RegularFields fs = fs
    \<and> (\<forall>f \<in> set (RegularFields fs). \<not> IsPseudo f \<and> validWireHeaderFieldName tok (hf_Name f))
    \<and> (\<forall>f \<in> set fs. vv (hf_Value f)) \<and> wire_size fs \<le> unat (maxHeaderListSize fr)"
  using ReadFrame_result [OF assms(1), of vv tok] assms(2)
  by (auto simp: meta_frame_ok_def fields_ok_def PseudoFields_takeWhile RegularFields_dropWhile)

fun meta_fields :: "Frame option \<Rightarrow> HeaderField list option" where
  "meta_fields (Some (MetaHeadersFrame h p b fs t)) = Some fs"
| "meta_fields _ = None"

lemma meta_fields_Some: "meta_fields f = Some fs \<longleftrightarrow> (\<exists>h p b t. f = Some (MetaHeadersFrame h p b fs t))"
  by (cases f rule: meta_fields.cases) auto

lemma meta_framer_get:
  "map_option (\<lambda>(f, e, fr). (meta_fields f, e))
     (ReadFrame (\<lambda>_. True) (\<lambda>_. True) (meta_framer [0, 0, 2, 1, 4, 0, 0, 0, 5, 0x82, 0x84]))
   = Some (Some [hf '':method'' ''GET'', hf '':path'' ''/''], None)"
  by code_simp

theorem meta_headers_valid_witness:
  "\<exists>fs. fs = [hf '':method'' ''GET'', hf '':path'' ''/''] \<and> pseudos_ok (takeWhile IsPseudo fs)
     \<and> wire_size fs \<le> unat (maxHeaderListSize (meta_framer [0, 0, 2, 1, 4, 0, 0, 0, 5, 0x82, 0x84]))"
proof -
  have "framer_safe (meta_framer [0, 0, 2, 1, 4, 0, 0, 0, 5, 0x82, 0x84])" by (rule framer_safe_meta_framer) simp
  moreover obtain h p b t fr' where "ReadFrame (\<lambda>_. True) (\<lambda>_. True) (meta_framer [0, 0, 2, 1, 4, 0, 0, 0, 5, 0x82, 0x84])
      = Some (Some (MetaHeadersFrame h p b [hf '':method'' ''GET'', hf '':path'' ''/''] t), None, fr')"
    using meta_framer_get by (auto simp: meta_fields_Some)
  ultimately have "pseudos_ok (takeWhile IsPseudo [hf '':method'' ''GET'', hf '':path'' ''/''])
      \<and> wire_size [hf '':method'' ''GET'', hf '':path'' ''/''] \<le> unat (maxHeaderListSize (meta_framer [0, 0, 2, 1, 4, 0, 0, 0, 5, 0x82, 0x84]))"
    using meta_headers_valid by blast
  then show ?thesis by blast
qed

text \<open>With \<open>MaxHeaderListSize\<close> set to \<open>2 ^ 31\<close>, the test for too large fragments doubles the limit
  in 32-bit arithmetic, which gives 0: every header block with a non-empty first fragment is refused
  as a connection error.\<close>

theorem header_list_limit_wraps:
  assumes "MaxHeaderListSize fr = 0x80000000" and "\<not> AllowIllegalReads fr" and "fh_valid h" and "frag \<noteq> []"
  shows "\<exists>mh fr'. readMetaFrame vv tok fr d h prio frag = Some (Some mh, Some (ConnectionError ErrCodeProtocol), fr')"
  using assms
  by (simp add: readMetaFrame_def, subst meta_loop.simps)
    (simp add: checkValid_def meta_init_def SetEmitFunc_def SetMaxStringLength_def SetEmitEnabled_def maxHeaderListSize_def)

theorem header_list_limit_wraps_witness:
  "\<exists>mh fr'. readMetaFrame (\<lambda>_. True) (\<lambda>_. True) ((meta_framer [])\<lparr>MaxHeaderListSize := 0x80000000\<rparr>)
     (SetEmitFunc decoder0 (\<lambda>_ s. s) ()) (wire_header 1 4 5 [0x82]) zeroPriority [0x82]
     = Some (Some mh, Some (ConnectionError ErrCodeProtocol), fr')"
  by (rule header_list_limit_wraps) (simp_all add: meta_framer_def wire_header_def)

end
