(* ===== verification/Utls.thy ===== *)
theory Utls
  imports Ja3 Preset
begin

unbundle bit_operations_syntax

text \<open>
  The package \<open>utls\<close> (\<open>adapter.go\<close> and the address handling of \<open>dial.go\<close>): the conversion of a profile
  to a \<open>ClientHelloSpec\<close> of uTLS. The structs of uTLS are third-party; \<open>TLSExtension\<close> has one
  constructor for each of them that the adapter creates, with the fields it sets. The constant
  \<open>utls.GREASE_PLACEHOLDER\<close> is the argument \<open>gp\<close>. The random source is a sequence of one-byte reads
  (\<open>None\<close> is a failed read) and the number of reads so far is threaded through. A nil slice is
  distinguished from an empty one where the code does (\<open>ALPN\<close>, \<open>Keyshares\<close>).
\<close>

section \<open>Options and extensions\<close>

record Options =
  o_ALPN :: "string list option"
  o_GREASE :: bool
  o_Keyshares :: "u16 list option"
  o_NextProtos :: "string list"
  o_IncludeSessionExtensions :: bool

definition zeroOptions :: Options where
  "zeroOptions = \<lparr>o_ALPN = None, o_GREASE = False, o_Keyshares = None, o_NextProtos = [], o_IncludeSessionExtensions = False\<rparr>"

datatype TLSExtension =
    SNIExtension
  | StatusRequestExtension
  | SupportedCurvesExtension "u16 list"
  | SupportedPointsExtension bytes
  | SignatureAlgorithmsExtension "u16 list"
  | SignatureAlgorithmsCertExtension "u16 list"
  | ALPNExtension "string list"
  | SCTExtension
  | UtlsPaddingExtension
  | ExtendedMasterSecretExtension
  | UtlsCompressCertExtension "u16 list"
  | FakeRecordSizeLimitExtension u16
  | FakeDelegatedCredentialsExtension "u16 list"
  | SessionTicketExtension
  | SupportedVersionsExtension "u16 list"
  | PSKKeyExchangeModesExtension bytes
  | KeyShareExtension "u16 list"
  | ApplicationSettingsExtension "string list"
  | ApplicationSettingsExtensionNew "string list"
  | BoringGREASEECH
  | RenegotiationInfoExtension
  | GenericExtension u16 bytes
  | UtlsGREASEExtension bytes

record ClientHelloSpec =
  cs_CipherSuites :: "u16 list"
  cs_CompressionMethods :: bytes
  cs_Extensions :: "TLSExtension list"
  cs_TLSVersMin :: u16
  cs_TLSVersMax :: u16

definition NewOptions :: "Profile option \<Rightarrow> Options" where
  "NewOptions p =
     (let o' = (case p of Some q \<Rightarrow> if \<not> p_DisableGrease (TLS q) then zeroOptions\<lparr>o_GREASE := True\<rparr> else zeroOptions
                       | None \<Rightarrow> zeroOptions)
      in case p of
          Some q \<Rightarrow> if HTTP2 q = None then o'\<lparr>o_ALPN := Some [''http/1.1'']\<rparr> else o'\<lparr>o_ALPN := Some [''h2'', ''http/1.1'']\<rparr>
        | None \<Rightarrow> o'\<lparr>o_ALPN := Some [''h2'', ''http/1.1'']\<rparr>)"

section \<open>Building blocks\<close>

definition alpsProtocols :: "Options \<Rightarrow> string list" where
  "alpsProtocols opts = (if length (o_NextProtos opts) > 0 then o_NextProtos opts else [''h2''])"

fun versionRange_loop :: "u16 \<Rightarrow> u16 \<Rightarrow> u16 list \<Rightarrow> u16 \<times> u16" where
  "versionRange_loop minV maxV [] = (minV, maxV)"
| "versionRange_loop minV maxV (v # vs) =
     (if IsGrease v \<or> v < VersionTLS10 \<or> v > VersionTLS13 then versionRange_loop minV maxV vs
      else versionRange_loop (if v < minV then v else minV) (if v > maxV then v else maxV) vs)"

definition versionRange :: "TLSProfile \<Rightarrow> u16 \<times> u16" where
  "versionRange p =
     (if length (p_SupportedVersions p) = 0 then (VersionTLS10, VersionTLS12)
      else
        let (minV, maxV) = versionRange_loop VersionTLS13 VersionTLS10 (p_SupportedVersions p)
        in if maxV < minV then (VersionTLS10, VersionTLS12) else (minV, maxV))"

text \<open>\<open>nextGrease\<close>: one read of the random source.\<close>

definition nextGrease :: "(nat \<Rightarrow> byte option) \<Rightarrow> nat \<Rightarrow> u16 \<times> nat" where
  "nextGrease rnd k = (case NextGrease (rnd k) of Some g \<Rightarrow> (g, k + 1) | None \<Rightarrow> (GreaseMarker, k + 1))"

fun toCurves :: "(nat \<Rightarrow> byte option) \<Rightarrow> nat \<Rightarrow> u16 list \<Rightarrow> u16 list \<times> nat" where
  "toCurves rnd k [] = ([], k)"
| "toCurves rnd k (g # gs) =
     (if g = GreaseMarker
      then let (c, k) = nextGrease rnd k; (cs, k) = toCurves rnd k gs in (c # cs, k)
      else let (cs, k) = toCurves rnd k gs in (g # cs, k))"

fun randomizeGrease :: "(nat \<Rightarrow> byte option) \<Rightarrow> nat \<Rightarrow> u16 list \<Rightarrow> u16 list \<times> nat" where
  "randomizeGrease rnd k [] = ([], k)"
| "randomizeGrease rnd k (v # vs) =
     (if v = GreaseMarker
      then let (g, k) = nextGrease rnd k; (ws, k) = randomizeGrease rnd k vs in (g # ws, k)
      else let (ws, k) = randomizeGrease rnd k vs in (v # ws, k))"

definition keyshareCapable :: "u16 \<Rightarrow> bool" where
  "keyshareCapable g = (g \<in> {29, 4588, 23, 24, 25, 30, 0x11eb})"

fun choose_groups :: "u16 list \<Rightarrow> u16 list \<Rightarrow> u16 list" where
  "choose_groups chosen [] = chosen"
| "choose_groups chosen (g # gs) =
     (if IsGrease g then choose_groups chosen gs
      else if \<not> keyshareCapable g then choose_groups chosen gs
      else
        let chosen = chosen @ [g] in
        if length chosen = 2 then chosen else choose_groups chosen gs)"

definition keysharesFromGroups :: "u16 list \<Rightarrow> Options \<Rightarrow> u16 list" where
  "keysharesFromGroups groups opts =
     (case o_Keyshares opts of Some chosen \<Rightarrow> chosen | None \<Rightarrow> choose_groups [] groups)"

text \<open>\<open>buildExtension\<close>; its error is always nil, and a nil extension is \<open>None\<close>.\<close>

definition buildExtension :: "(nat \<Rightarrow> byte option) \<Rightarrow> nat \<Rightarrow> u16 \<Rightarrow> TLSProfile \<Rightarrow> Options \<Rightarrow> string list
    \<Rightarrow> TLSExtension option \<times> nat" where
  "buildExtension rnd k typ p opts alpn =
     (if typ = ExtServerName then (Some SNIExtension, k)
      else if typ = ExtStatusRequest then (Some StatusRequestExtension, k)
      else if typ = ExtSupportedGroups then
        (let (cs, k) = toCurves rnd k (p_SupportedGroups p) in (Some (SupportedCurvesExtension cs), k))
      else if typ = ExtECPointFormats then
        (Some (SupportedPointsExtension (if length (p_ECFormats p) = 0 then [0] else p_ECFormats p)), k)
      else if typ = ExtSignatureAlgorithms then
        (let (as, k) = randomizeGrease rnd k (p_SignatureAlgorithms p) in (Some (SignatureAlgorithmsExtension as), k))
      else if typ = ExtSignatureAlgorithmsCert then
        (let (as, k) = randomizeGrease rnd k (p_SignatureAlgorithmsCert p) in (Some (SignatureAlgorithmsCertExtension as), k))
      else if typ = ExtALPN then (Some (ALPNExtension alpn), k)
      else if typ = ExtSignedCertificateTimestamp then (Some SCTExtension, k)
      else if typ = ExtPadding then (Some UtlsPaddingExtension, k)
      else if typ = ExtExtendedMasterSecret then (Some ExtendedMasterSecretExtension, k)
      else if typ = ExtCompressCertificate then (Some (UtlsCompressCertExtension (p_CertCompression p)), k)
      else if typ = ExtRecordSizeLimit then (Some (FakeRecordSizeLimitExtension (p_RecordSizeLimit p)), k)
      else if typ = ExtDelegatedCredentials then
        (let (as, k) = randomizeGrease rnd k (p_DelegatedCredentials p) in (Some (FakeDelegatedCredentialsExtension as), k))
      else if typ = ExtSessionTicket then (Some SessionTicketExtension, k)
      else if typ = ExtSupportedVersions then
        (let (vs, k) = randomizeGrease rnd k (p_SupportedVersions p) in (Some (SupportedVersionsExtension vs), k))
      else if typ = ExtPSKKeyExchangeModes then
        (Some (PSKKeyExchangeModesExtension (if length (p_PSKKeyExchangeModes p) = 0 then [1] else p_PSKKeyExchangeModes p)), k)
      else if typ = ExtKeyShare then (Some (KeyShareExtension (keysharesFromGroups (p_SupportedGroups p) opts)), k)
      else if typ = ExtApplicationSettings then (Some (ApplicationSettingsExtension (alpsProtocols opts)), k)
      else if typ = 17613 then (Some (ApplicationSettingsExtensionNew (alpsProtocols opts)), k)
      else if typ = ExtEncryptedClientHello then (Some BoringGREASEECH, k)
      else if typ = ExtRenegotiationInfo then (Some RenegotiationInfoExtension, k)
      else (case map_of (p_ExtraExtensions p) typ of
              Some d \<Rightarrow> if length d > 0 then (Some (GenericExtension typ d), k)
                        else if typ = 49 then (Some (GenericExtension typ []), k) else (None, k)
            | None \<Rightarrow> if typ = 49 then (Some (GenericExtension typ []), k) else (None, k)))"

section \<open>The conversion\<close>

fun ext_loop :: "(nat \<Rightarrow> byte option) \<Rightarrow> TLSProfile \<Rightarrow> Options \<Rightarrow> string list \<Rightarrow> u16 list
    \<Rightarrow> int \<Rightarrow> TLSExtension list \<Rightarrow> nat \<Rightarrow> int \<times> TLSExtension list \<times> nat" where
  "ext_loop rnd p opts alpn [] padIdx exts k = (padIdx, exts, k)"
| "ext_loop rnd p opts alpn (typ # typs) padIdx exts k =
     (if IsGrease typ then ext_loop rnd p opts alpn typs padIdx (exts @ [UtlsGREASEExtension []]) k
      else if \<not> o_IncludeSessionExtensions opts \<and> (typ = ExtPreSharedKey \<or> typ = ExtEarlyData)
      then ext_loop rnd p opts alpn typs padIdx exts k
      else
        let padIdx = (if typ = ExtPadding then int (length exts) else padIdx);
            (ext, k) = buildExtension rnd k typ p opts alpn
        in case ext of
            None \<Rightarrow> ext_loop rnd p opts alpn typs padIdx exts k
          | Some e \<Rightarrow> ext_loop rnd p opts alpn typs padIdx (exts @ [e]) k)"

definition fillKeyShares :: "TLSExtension list \<Rightarrow> TLSProfile \<Rightarrow> Options \<Rightarrow> TLSExtension list" where
  "fillKeyShares exts p opts =
     map (\<lambda>e. case e of
              KeyShareExtension ks \<Rightarrow>
                KeyShareExtension (if length ks = 0 then keysharesFromGroups (p_SupportedGroups p) opts else ks)
            | _ \<Rightarrow> e) exts"

definition FromProfile :: "u16 \<Rightarrow> (nat \<Rightarrow> byte option) \<Rightarrow> TLSProfile option \<Rightarrow> Options option \<Rightarrow> string + ClientHelloSpec" where
  "FromProfile gp rnd po optso =
     (case po of
        None \<Rightarrow> Inl ''utls: nil profile''
      | Some p \<Rightarrow>
          let opts = (case optso of None \<Rightarrow> zeroOptions | Some o' \<Rightarrow> o');
              (minV, maxV) = versionRange p;
              ciphers = (if o_GREASE opts then gp # p_CipherSuites p else p_CipherSuites p);
              alpn = (case o_ALPN opts of None \<Rightarrow> [''h2'', ''http/1.1''] | Some a \<Rightarrow> a);
              (padIdx, exts, k) = ext_loop rnd p opts alpn (p_Extensions p) (- 1) [] 0;
              exts = (if o_GREASE opts
                      then
                        let exts = UtlsGREASEExtension [] # exts in
                        if padIdx \<ge> 0
                        then let at = nat (padIdx + 1) in take at exts @ [UtlsGREASEExtension [0]] @ drop at exts
                        else exts
                      else exts)
          in Inr \<lparr>cs_CipherSuites = ciphers, cs_CompressionMethods = [0], cs_Extensions = fillKeyShares exts p opts,
                  cs_TLSVersMin = minV, cs_TLSVersMax = maxV\<rparr>)"

definition FromPreset :: "u16 \<Rightarrow> (nat \<Rightarrow> byte option) \<Rightarrow> Preset option \<Rightarrow> string + ClientHelloSpec" where
  "FromPreset gp rnd po =
     (case po of
        None \<Rightarrow> Inl ''utls: nil preset''
      | Some p \<Rightarrow> FromProfile gp rnd (Some (TLS (pr_Profile p))) (Some (NewOptions (Some (pr_Profile p)))))"

section \<open>Addresses\<close>

text \<open>\<open>net.SplitHostPort\<close>: host and port, or the text of the error; \<open>AddrError.Error\<close> quotes the address.\<close>

definition contains :: "string \<Rightarrow> string \<Rightarrow> bool" where
  "contains s sub = list_ex (\<lambda>i. take (length sub) (drop i s) = sub) [0..<length s + 1]"

definition addr_error :: "string \<Rightarrow> string \<Rightarrow> string + 'a" where
  "addr_error hostport why = Inl (''address '' @ hostport @ '': '' @ why)"

definition IndexByte :: "string \<Rightarrow> char \<Rightarrow> nat option" where
  "IndexByte s c = (if c \<in> set s then Some (length (takeWhile (\<lambda>x. x \<noteq> c) s)) else None)"

definition LastIndexByte :: "string \<Rightarrow> char \<Rightarrow> nat option" where
  "LastIndexByte s c = map_option (\<lambda>i. length s - Suc i) (IndexByte (rev s) c)"

definition SplitHostPort :: "string \<Rightarrow> string + string \<times> string" where
  "SplitHostPort hostport =
     (case LastIndexByte hostport (CHR '':'') of
        None \<Rightarrow> addr_error hostport ''missing port in address''
      | Some i \<Rightarrow>
          let rest = (\<lambda>host j k.
                if CHR ''['' \<in> set (drop j hostport) then addr_error hostport ''unexpected '[' in address''
                else if CHR '']'' \<in> set (drop k hostport) then addr_error hostport ''unexpected ']' in address''
                else Inr (host, drop (i + 1) hostport))
          in if hd hostport = CHR ''['' then
               (case IndexByte hostport (CHR '']'') of
                  None \<Rightarrow> addr_error hostport ''missing ']' in address''
                | Some e \<Rightarrow>
                    if e + 1 = length hostport then addr_error hostport ''missing port in address''
                    else if e + 1 = i then rest (take (e - 1) (drop 1 hostport)) 1 (e + 1)
                    else if hostport ! (e + 1) = CHR '':'' then addr_error hostport ''too many colons in address''
                    else addr_error hostport ''missing port in address'')
             else
               let host = take i hostport in
               if CHR '':'' \<in> set host then addr_error hostport ''too many colons in address'' else rest host 0 0)"

definition Trim :: "string \<Rightarrow> char set \<Rightarrow> string" where
  "Trim s cs = rev (dropWhile (\<lambda>c. c \<in> cs) (rev (dropWhile (\<lambda>c. c \<in> cs) s)))"

definition dialHost :: "string \<Rightarrow> string option" where
  "dialHost address =
     (case SplitHostPort address of
        Inr (host, port) \<Rightarrow> Some (Trim host {CHR ''['', CHR '']''})
      | Inl err \<Rightarrow> if contains err ''missing port'' then Some (Trim address {CHR ''['', CHR '']''}) else None)"

section \<open>GREASE values in lists\<close>

lemma nextGrease_IsGrease: "nextGrease rnd k = (g, k') \<Longrightarrow> IsGrease g"
proof -
  have "IsGrease GreaseMarker" by code_simp
  then show "nextGrease rnd k = (g, k') \<Longrightarrow> IsGrease g"
    by (auto simp: nextGrease_def dest: NextGrease_IsGrease split: option.splits)
qed

lemma toCurves_randomizeGrease: "toCurves rnd k gs = randomizeGrease rnd k gs"
  by (induction rnd k gs rule: toCurves.induct) (simp_all split: prod.splits)

lemma randomizeGrease_not_grease: "not_grease (fst (randomizeGrease rnd k gs)) = not_grease gs"
proof (induction rnd k gs rule: randomizeGrease.induct)
  case (2 rnd k v vs)
  have "IsGrease GreaseMarker" by code_simp
  with 2 show ?case by (auto dest: nextGrease_IsGrease split: prod.splits)
qed simp

lemma length_randomizeGrease: "length (fst (randomizeGrease rnd k gs)) = length gs"
  by (induction rnd k gs rule: randomizeGrease.induct) (auto split: prod.splits)

section \<open>What the extension loop builds\<close>

text \<open>The extension type that uTLS writes for an instance; \<open>g\<close> is a GREASE value.\<close>

fun ext_id :: "u16 \<Rightarrow> TLSExtension \<Rightarrow> u16" where
  "ext_id g SNIExtension = 0"
| "ext_id g StatusRequestExtension = 5"
| "ext_id g (SupportedCurvesExtension _) = 10"
| "ext_id g (SupportedPointsExtension _) = 11"
| "ext_id g (SignatureAlgorithmsExtension _) = 13"
| "ext_id g (SignatureAlgorithmsCertExtension _) = 50"
| "ext_id g (ALPNExtension _) = 16"
| "ext_id g SCTExtension = 18"
| "ext_id g UtlsPaddingExtension = 21"
| "ext_id g ExtendedMasterSecretExtension = 23"
| "ext_id g (UtlsCompressCertExtension _) = 27"
| "ext_id g (FakeRecordSizeLimitExtension _) = 28"
| "ext_id g (FakeDelegatedCredentialsExtension _) = 34"
| "ext_id g SessionTicketExtension = 35"
| "ext_id g (SupportedVersionsExtension _) = 43"
| "ext_id g (PSKKeyExchangeModesExtension _) = 45"
| "ext_id g (KeyShareExtension _) = 51"
| "ext_id g (ApplicationSettingsExtension _) = 17513"
| "ext_id g (ApplicationSettingsExtensionNew _) = 17613"
| "ext_id g BoringGREASEECH = 65037"
| "ext_id g RenegotiationInfoExtension = 65281"
| "ext_id g (GenericExtension t _) = t"
| "ext_id g (UtlsGREASEExtension _) = g"

text \<open>The extension types with an instance, and the types of a profile that reach the message.\<close>

definition known_ext :: "u16 set" where
  "known_ext = {0, 5, 10, 11, 13, 50, 16, 18, 21, 23, 27, 28, 34, 35, 43, 45, 51, 17513, 17613, 65037, 65281, 49}"

definition sent :: "TLSProfile \<Rightarrow> Options \<Rightarrow> u16 \<Rightarrow> bool" where
  "sent p opts t \<longleftrightarrow> (o_IncludeSessionExtensions opts \<or> t \<notin> {ExtPreSharedKey, ExtEarlyData})
     \<and> (t \<in> known_ext \<or> (\<exists>d. map_of (p_ExtraExtensions p) t = Some d \<and> d \<noteq> []))"

text \<open>The payloads of the instances.\<close>

fun payload_ok :: "TLSProfile \<Rightarrow> Options \<Rightarrow> TLSExtension \<Rightarrow> bool" where
  "payload_ok p opts (SupportedCurvesExtension cs) \<longleftrightarrow> not_grease cs = not_grease (p_SupportedGroups p)"
| "payload_ok p opts (SupportedPointsExtension fs) \<longleftrightarrow> fs = (if p_ECFormats p = [] then [0] else p_ECFormats p)"
| "payload_ok p opts (KeyShareExtension ks) \<longleftrightarrow> ks = keysharesFromGroups (p_SupportedGroups p) opts"
| "payload_ok p opts (SignatureAlgorithmsExtension as) \<longleftrightarrow> not_grease as = not_grease (p_SignatureAlgorithms p)"
| "payload_ok p opts (SupportedVersionsExtension vs) \<longleftrightarrow> not_grease vs = not_grease (p_SupportedVersions p)"
| "payload_ok p opts _ \<longleftrightarrow> True"

lemma buildExtension_None:
  "fst (buildExtension rnd k t p opts alpn) = None \<longleftrightarrow>
     \<not> (t \<in> known_ext \<or> (\<exists>d. map_of (p_ExtraExtensions p) t = Some d \<and> d \<noteq> []))"
  by (auto simp: buildExtension_def known_ext_def split_def Let_def split: option.splits)

lemma buildExtension_Some:
  assumes "buildExtension rnd k t p opts alpn = (Some e, k')"
  shows "ext_id g e = t \<and> payload_ok p opts e \<and> (\<forall>b. e \<noteq> UtlsGREASEExtension b) \<and> (t = 21 \<longleftrightarrow> e = UtlsPaddingExtension)
    \<and> (t = 10 \<longleftrightarrow> (\<exists>cs. e = SupportedCurvesExtension cs)) \<and> (t = 11 \<longleftrightarrow> (\<exists>fs. e = SupportedPointsExtension fs))"
  using assms unfolding buildExtension_def toCurves_randomizeGrease
  by (auto simp: split_def Let_def randomizeGrease_not_grease split: if_splits option.splits)

text \<open>
  The loop appends one instance for every GREASE type and for every type that is sent, in the order of
  the profile, and the index it remembers is that of the last padding extension.
\<close>

definition adapted :: "u16 \<Rightarrow> TLSProfile \<Rightarrow> Options \<Rightarrow> u16 \<Rightarrow> TLSExtension \<Rightarrow> bool" where
  "adapted g p opts t e \<longleftrightarrow>
     (if IsGrease t then e = UtlsGREASEExtension []
      else ext_id g e = t \<and> payload_ok p opts e \<and> (\<forall>b. e \<noteq> UtlsGREASEExtension b)
         \<and> (t = 21 \<longleftrightarrow> e = UtlsPaddingExtension) \<and> (t = 10 \<longleftrightarrow> (\<exists>cs. e = SupportedCurvesExtension cs))
         \<and> (t = 11 \<longleftrightarrow> (\<exists>fs. e = SupportedPointsExtension fs)))"

definition passes :: "TLSProfile \<Rightarrow> Options \<Rightarrow> u16 \<Rightarrow> bool" where
  "passes p opts t \<longleftrightarrow> IsGrease t \<or> sent p opts t"

definition pad_at :: "TLSExtension list \<Rightarrow> int \<Rightarrow> bool" where
  "pad_at exts i \<longleftrightarrow>
     (if UtlsPaddingExtension \<in> set exts
      then 0 \<le> i \<and> (\<exists>xs ys. exts = xs @ UtlsPaddingExtension # ys \<and> int (length xs) = i \<and> UtlsPaddingExtension \<notin> set ys)
      else i = - 1)"

lemma pad_at_snoc_pad: "pad_at (exts @ [UtlsPaddingExtension]) (int (length exts))"
  unfolding pad_at_def by (simp, intro exI[of _ exts] exI[of _ "[]"], simp)

lemma pad_at_snoc:
  assumes "pad_at exts i" and "e \<noteq> UtlsPaddingExtension"
  shows "pad_at (exts @ [e]) i"
proof (cases "UtlsPaddingExtension \<in> set exts")
  case True
  with assms(1) obtain xs ys where "exts = xs @ UtlsPaddingExtension # ys" "int (length xs) = i" "UtlsPaddingExtension \<notin> set ys" "0 \<le> i"
    by (auto simp: pad_at_def)
  with assms(2) show ?thesis unfolding pad_at_def by (simp, intro exI[of _ xs] exI[of _ "ys @ [e]"], simp)
qed (use assms in \<open>simp add: pad_at_def\<close>)

lemma IsGrease_not_padding: "\<not> IsGrease 21"
  by code_simp

lemma padding_sent: "sent p opts 21"
  by (simp add: sent_def known_ext_def)

lemma list_all2_snoc: "list_all2 P xs ys \<Longrightarrow> P x y \<Longrightarrow> list_all2 P (xs @ [x]) (ys @ [y])"
  by (simp add: list_all2_appendI)

lemma ext_loop_adapts:
  assumes "ext_loop rnd p opts alpn typs padIdx exts k = (padIdx', exts', k')"
    and "list_all2 (adapted g p opts) ts exts" and "pad_at exts padIdx"
  shows "list_all2 (adapted g p opts) (ts @ filter (passes p opts) typs) exts' \<and> pad_at exts' padIdx'"
  using assms
proof (induction rnd p opts alpn typs padIdx exts k arbitrary: ts rule: ext_loop.induct)
  case (2 rnd p opts alpn ty typs padIdx exts k)
  obtain eo k1 where b: "buildExtension rnd k ty p opts alpn = (eo, k1)" by (cases "buildExtension rnd k ty p opts alpn")
  consider (grease) "IsGrease ty" | (resumption) "\<not> IsGrease ty" "\<not> o_IncludeSessionExtensions opts \<and> (ty = ExtPreSharedKey \<or> ty = ExtEarlyData)"
    | (skip) "\<not> IsGrease ty" "\<not> (\<not> o_IncludeSessionExtensions opts \<and> (ty = ExtPreSharedKey \<or> ty = ExtEarlyData))" "eo = None"
    | (out) e where "\<not> IsGrease ty" "\<not> (\<not> o_IncludeSessionExtensions opts \<and> (ty = ExtPreSharedKey \<or> ty = ExtEarlyData))" "eo = Some e"
    by fastforce
  then show ?case
  proof cases
    case grease
    have "list_all2 (adapted g p opts) (ts @ [ty]) (exts @ [UtlsGREASEExtension []])"
      using grease by (intro list_all2_snoc[OF "2.prems"(2)]) (simp add: adapted_def)
    from "2.IH"(1)[OF grease _ this pad_at_snoc[OF "2.prems"(3)]] show ?thesis
      using "2.prems"(1) grease by (simp add: passes_def)
  next
    case resumption
    then have "\<not> passes p opts ty" by (auto simp: passes_def sent_def)
    with "2.IH"(2)[OF resumption _ "2.prems"(2,3)] "2.prems"(1) resumption show ?thesis by simp
  next
    case skip
    have n: "\<not> passes p opts ty" "ty \<noteq> 21"
      using buildExtension_None[of rnd k ty p opts alpn] b skip padding_sent[of p opts] by (auto simp: passes_def sent_def)
    with "2.IH"(3)[OF skip(1,2) refl refl b[symmetric] skip(3), of ts] "2.prems" skip b show ?thesis by simp
  next
    case out
    note e = buildExtension_Some[OF b[unfolded out(3)], of g]
    have s: "passes p opts ty"
      using buildExtension_None[of rnd k ty p opts alpn] b out by (auto simp: passes_def sent_def)
    have l: "list_all2 (adapted g p opts) (ts @ [ty]) (exts @ [e])"
      using e out(1) by (intro list_all2_snoc[OF "2.prems"(2)]) (simp add: adapted_def)
    have a: "pad_at (exts @ [e]) (if ty = 21 then int (length exts) else padIdx)"
      using e "2.prems"(3) pad_at_snoc_pad pad_at_snoc by auto
    show ?thesis
      using "2.IH"(4)[OF out(1,2) refl refl b[symmetric] out(3) _ l a] "2.prems"(1) out b s by simp
  qed
qed simp

section \<open>The whole specification\<close>

text \<open>\<open>fillKeyShares\<close> finds nothing to fill: the extension was built with the same list.\<close>

lemma fillKeyShares_idle: "\<forall>e \<in> set exts. payload_ok p opts e \<Longrightarrow> fillKeyShares exts p opts = exts"
  unfolding fillKeyShares_def by (rule map_idI) (auto split: TLSExtension.split)

lemma adapted_payload_ok: "adapted g p opts t e \<Longrightarrow> payload_ok p opts e"
  by (auto simp: adapted_def split: if_splits)

lemma adapted_payloads: "list_all2 (adapted g p opts) ts exts \<Longrightarrow> e \<in> set exts \<Longrightarrow> payload_ok p opts e"
  by (metis list_all2_conv_all_nth in_set_conv_nth adapted_payload_ok)

definition the_options :: "Options option \<Rightarrow> Options" where
  "the_options optso = (case optso of None \<Rightarrow> zeroOptions | Some o' \<Rightarrow> o')"

definition grease_around :: "TLSExtension list \<Rightarrow> TLSExtension list \<Rightarrow> bool" where
  "grease_around body exts \<longleftrightarrow>
     (if UtlsPaddingExtension \<in> set body
      then \<exists>xs ys. body = xs @ UtlsPaddingExtension # ys \<and> UtlsPaddingExtension \<notin> set ys
             \<and> exts = [UtlsGREASEExtension []] @ xs @ [UtlsGREASEExtension [0], UtlsPaddingExtension] @ ys
      else exts = UtlsGREASEExtension [] # body)"

lemma FromProfile_shape:
  assumes "FromProfile gp rnd (Some p) optso = Inr s"
  obtains body where "list_all2 (adapted g p (the_options optso)) (filter (passes p (the_options optso)) (p_Extensions p)) body"
    and "if o_GREASE (the_options optso) then grease_around body (cs_Extensions s) else cs_Extensions s = body"
    and "cs_CipherSuites s = (if o_GREASE (the_options optso) then gp # p_CipherSuites p else p_CipherSuites p)"
    and "(cs_TLSVersMin s, cs_TLSVersMax s) = versionRange p"
proof -
  let ?o = "the_options optso"
  let ?alpn = "case o_ALPN ?o of None \<Rightarrow> [''h2'', ''http/1.1''] | Some a \<Rightarrow> a"
  obtain pad body k where l: "ext_loop rnd p ?o ?alpn (p_Extensions p) (- 1) [] 0 = (pad, body, k)"
    by (cases "ext_loop rnd p ?o ?alpn (p_Extensions p) (- 1) [] 0") auto
  from ext_loop_adapts[OF l, of g "[]"] have b: "list_all2 (adapted g p ?o) (filter (passes p ?o) (p_Extensions p)) body"
    and pad: "pad_at body pad" by (auto simp: pad_at_def)
  define exts where "exts = (if o_GREASE ?o then if pad \<ge> 0 then take (nat (pad + 1)) (UtlsGREASEExtension [] # body) @ [UtlsGREASEExtension [0]]
      @ drop (nat (pad + 1)) (UtlsGREASEExtension [] # body) else UtlsGREASEExtension [] # body else body)"
  have g: "if o_GREASE ?o then grease_around body exts else exts = body"
  proof (cases "UtlsPaddingExtension \<in> set body")
    case True
    with pad obtain xs ys where xs: "body = xs @ UtlsPaddingExtension # ys" "pad = int (length xs)" "UtlsPaddingExtension \<notin> set ys"
      by (auto simp: pad_at_def)
    have "o_GREASE ?o \<Longrightarrow> exts = [UtlsGREASEExtension []] @ xs @ [UtlsGREASEExtension [0], UtlsPaddingExtension] @ ys"
      by (simp add: exts_def xs nat_add_distrib)
    with True xs show ?thesis
      unfolding grease_around_def by (cases "o_GREASE ?o") (auto simp: exts_def)
  qed (use pad in \<open>simp add: pad_at_def grease_around_def exts_def\<close>)
  have sub: "set exts \<subseteq> set body \<union> {UtlsGREASEExtension [], UtlsGREASEExtension [0]}"
    unfolding exts_def by (auto dest: in_set_takeD in_set_dropD)
  have "\<forall>e \<in> set exts. payload_ok p ?o e"
    using sub adapted_payloads[OF b] by fastforce
  from fillKeyShares_idle[OF this] have
    "s = \<lparr>cs_CipherSuites = if o_GREASE ?o then gp # p_CipherSuites p else p_CipherSuites p, cs_CompressionMethods = [0],
       cs_Extensions = exts, cs_TLSVersMin = fst (versionRange p), cs_TLSVersMax = snd (versionRange p)\<rparr>"
    using assms l by (auto simp: FromProfile_def the_options_def[symmetric] exts_def Let_def split_def)
  with that[OF b] g show ?thesis by simp
qed

lemma adapted_not_grease:
  assumes "list_all2 (adapted g p opts) ts exts" and "IsGrease g"
  shows "not_grease (map (ext_id g) exts) = not_grease ts"
  using assms by (induction rule: list_all2_induct) (auto simp: adapted_def)

text \<open>The fields of the message that the fingerprint reads.\<close>

fun curves_of :: "TLSExtension list \<Rightarrow> u16 list" where
  "curves_of [] = []"
| "curves_of (SupportedCurvesExtension cs # es) = cs"
| "curves_of (_ # es) = curves_of es"

fun points_of :: "TLSExtension list \<Rightarrow> bytes" where
  "points_of [] = []"
| "points_of (SupportedPointsExtension fs # es) = fs"
| "points_of (_ # es) = points_of es"

lemma curves_of_adapted:
  assumes "\<forall>e \<in> set exts. payload_ok p opts e"
  shows "not_grease (curves_of exts) = (if \<exists>cs. SupportedCurvesExtension cs \<in> set exts then not_grease (p_SupportedGroups p) else [])"
  using assms by (induction exts rule: curves_of.induct) auto

lemma points_of_adapted:
  assumes "\<forall>e \<in> set exts. payload_ok p opts e"
  shows "points_of exts = (if \<exists>fs. SupportedPointsExtension fs \<in> set exts then if p_ECFormats p = [] then [0] else p_ECFormats p else [])"
  using assms by (induction exts rule: points_of.induct) auto

lemma adapted_members:
  assumes "list_all2 (adapted g p opts) ts exts"
  shows "(\<exists>cs. SupportedCurvesExtension cs \<in> set exts) \<longleftrightarrow> 10 \<in> set ts"
    and "(\<exists>fs. SupportedPointsExtension fs \<in> set exts) \<longleftrightarrow> 11 \<in> set ts"
proof -
  have g: "\<not> IsGrease 10" "\<not> IsGrease 11" by code_simp+
  show "(\<exists>cs. SupportedCurvesExtension cs \<in> set exts) \<longleftrightarrow> 10 \<in> set ts"
    and "(\<exists>fs. SupportedPointsExtension fs \<in> set exts) \<longleftrightarrow> 11 \<in> set ts"
    using assms g by (induction rule: list_all2_induct) (auto simp: adapted_def split: if_splits)
qed

lemma grease_around_keeps:
  assumes "grease_around body exts"
  shows "not_grease (map (ext_id g) exts) = (if IsGrease g then not_grease (map (ext_id g) body) else not_grease (map (ext_id g) exts))"
    and "(SupportedCurvesExtension cs \<in> set exts) = (SupportedCurvesExtension cs \<in> set body)"
    and "(SupportedPointsExtension fs \<in> set exts) = (SupportedPointsExtension fs \<in> set body)"
    and "(\<forall>e \<in> set exts. payload_ok p opts e) = (\<forall>e \<in> set body. payload_ok p opts e)"
  using assms by (auto simp: grease_around_def split: if_splits)

section \<open>Properties\<close>

definition spec_ja3 :: "u16 \<Rightarrow> u16 \<Rightarrow> ClientHelloSpec \<Rightarrow> string" where
  "spec_ja3 g ver s = ja3_Format ver (cs_CipherSuites s) (map (ext_id g) (cs_Extensions s))
     (curves_of (cs_Extensions s)) (points_of (cs_Extensions s))"

lemma ja3_Format_cong:
  "not_grease cs = not_grease cs' \<Longrightarrow> not_grease es = not_grease es' \<Longrightarrow> not_grease gs = not_grease gs' \<Longrightarrow>
   ja3_Format v cs es gs fs = ja3_Format v cs' es' gs' fs"
  by (simp add: ja3_Format_def joinHexFiltered_eq)

lemma spec_ja3_of:
  assumes "FromProfile gp rnd (Some p) optso = Inr s" and "IsGrease gp" and "IsGrease g"
  shows "spec_ja3 g ver s = ja3_Format ver (p_CipherSuites p) (filter (sent p (the_options optso)) (p_Extensions p))
     (if 10 \<in> set (p_Extensions p) then p_SupportedGroups p else [])
     (if 11 \<in> set (p_Extensions p) then if p_ECFormats p = [] then [0] else p_ECFormats p else [])"
proof -
  let ?o = "the_options optso"
  obtain body where b: "list_all2 (adapted g p ?o) (filter (passes p ?o) (p_Extensions p)) body"
    and e: "if o_GREASE ?o then grease_around body (cs_Extensions s) else cs_Extensions s = body"
    and c: "cs_CipherSuites s = (if o_GREASE ?o then gp # p_CipherSuites p else p_CipherSuites p)"
    using FromProfile_shape[OF assms(1), of g] by metis
  have pay: "\<forall>e \<in> set (cs_Extensions s). payload_ok p ?o e"
    using adapted_payloads[OF b] e grease_around_keeps(4) by (auto split: if_splits)
  have ids: "not_grease (map (ext_id g) (cs_Extensions s)) = not_grease (filter (sent p ?o) (p_Extensions p))"
  proof -
    have "not_grease (map (ext_id g) (cs_Extensions s)) = not_grease (map (ext_id g) body)"
      using e grease_around_keeps(1)[of body "cs_Extensions s" g] assms(3) by (auto split: if_splits)
    also have "\<dots> = not_grease (filter (passes p ?o) (p_Extensions p))" using adapted_not_grease[OF b assms(3)] .
    also have "\<dots> = not_grease (filter (sent p ?o) (p_Extensions p))" by (auto simp: passes_def intro!: filter_cong)
    finally show ?thesis .
  qed
  have s: "sent p ?o 10" "sent p ?o 11" by (simp_all add: sent_def known_ext_def)
  have mem: "(\<exists>cs. SupportedCurvesExtension cs \<in> set (cs_Extensions s)) \<longleftrightarrow> 10 \<in> set (p_Extensions p)"
    "(\<exists>fs. SupportedPointsExtension fs \<in> set (cs_Extensions s)) \<longleftrightarrow> 11 \<in> set (p_Extensions p)"
    using adapted_members[OF b] e grease_around_keeps(2,3) s by (auto simp: passes_def split: if_splits)
  show ?thesis
    unfolding spec_ja3_def points_of_adapted[OF pay] mem
    by (rule ja3_Format_cong) (simp_all add: c assms(2) ids curves_of_adapted[OF pay] mem)
qed

lemma FromProfile_total: "\<exists>s. FromProfile gp rnd (Some p) optso = Inr s"
  by (auto simp: FromProfile_def Let_def split_def)


definition small_profile :: TLSProfile where
  "small_profile = empty_TLSProfile\<lparr>p_LegacyVersion := 771, p_CipherSuites := [4865, 4866], p_Extensions := [0, 0x1a1a, 10, 11, 51, 21],
     p_SupportedGroups := [GreaseMarker, 4588, 29, 23], p_ECFormats := [0], p_SupportedVersions := [GreaseMarker, 772, 771]\<rparr>"

definition small_options :: Options where
  "small_options = zeroOptions\<lparr>o_GREASE := True\<rparr>"



definition shareable :: "u16 \<Rightarrow> bool" where
  "shareable g \<longleftrightarrow> \<not> IsGrease g \<and> keyshareCapable g"

lemma choose_groups_eq: "length chosen < 2 \<Longrightarrow> choose_groups chosen gs = chosen @ take (2 - length chosen) (filter shareable gs)"
proof (induction chosen gs rule: choose_groups.induct)
  case (2 chosen g gs)
  then consider "chosen = []" | x where "chosen = [x]"
    by (cases chosen; cases "tl chosen") auto
  then show ?case using 2 by cases (auto simp: Let_def shareable_def)
qed simp

definition usable_version :: "u16 \<Rightarrow> bool" where
  "usable_version v \<longleftrightarrow> \<not> IsGrease v \<and> VersionTLS10 \<le> v \<and> v \<le> VersionTLS13"

lemma versionRange_loop_eq:
  "versionRange_loop minV maxV vs = (foldl min minV (filter usable_version vs), foldl max maxV (filter usable_version vs))"
proof (induction minV maxV vs rule: versionRange_loop.induct)
  case (2 minV maxV v vs)
  have m: "(if v < minV then v else minV) = min minV v" "(if v > maxV then v else maxV) = max maxV v"
    by (auto simp: min_def max_def)
  have u: "(IsGrease v \<or> v < VersionTLS10 \<or> v > VersionTLS13) = (\<not> usable_version v)"
    by (auto simp: usable_version_def)
  show ?case
    using 2 unfolding versionRange_loop.simps m u by (cases "usable_version v") simp_all
qed simp

lemma foldl_min_eq: "foldl min (m :: u16) vs = Min (insert m (set vs))"
proof (induction vs arbitrary: m)
  case (Cons v vs)
  show ?case by (simp add: Cons Min_insert2 min.assoc) (cases "vs = []", auto simp: min.assoc)
qed simp

lemma foldl_max_eq: "foldl max (m :: u16) vs = Max (insert m (set vs))"
proof (induction vs arbitrary: m)
  case (Cons v vs)
  show ?case by (simp add: Cons) (cases "vs = []", auto simp: max.assoc)
qed simp

text \<open>The version range of the specification is that of the profile's usable versions (not GREASE, TLS 1.0 to TLS 1.3),
  or TLS 1.0 to TLS 1.2 without one; it is never empty and never leaves TLS 1.0 to TLS 1.3. The key shares are the
  override of the options, or the first two groups that are capable of one, in the profile's order.\<close>

theorem FromProfile_ranges:
  "(let us = filter usable_version (p_SupportedVersions p); (minV, maxV) = versionRange p in
      (minV, maxV) = (if us = [] then (VersionTLS10, VersionTLS12) else (Min (set us), Max (set us)))
      \<and> VersionTLS10 \<le> minV \<and> minV \<le> maxV \<and> maxV \<le> VersionTLS13)
   \<and> keysharesFromGroups gs opts = (case o_Keyshares opts of Some ks \<Rightarrow> ks | None \<Rightarrow> take 2 (filter shareable gs))"
proof -
  define us where "us = filter usable_version (p_SupportedVersions p)"
  have b: "VersionTLS10 \<le> v \<and> v \<le> VersionTLS13" if "v \<in> set us" for v
    using that by (auto simp: us_def usable_version_def)
  have r: "versionRange p = (if us = [] then (VersionTLS10, VersionTLS12) else (Min (set us), Max (set us)))"
  proof (cases "us = []")
    case True
    then show ?thesis unfolding versionRange_def versionRange_loop_eq us_def[symmetric] by (simp add: Let_def)
  next
    case False
    then have ne: "set us \<noteq> {}" "length (p_SupportedVersions p) \<noteq> 0" by (auto simp: us_def filter_empty_conv)
    have mm: "Min (insert VersionTLS13 (set us)) = Min (set us)" "Max (insert VersionTLS10 (set us)) = Max (set us)"
      using ne b[OF Min_in[of "set us"]] b[OF Max_in[of "set us"]]
      by (simp_all add: Min_insert Max_insert min_absorb2 max_absorb2)
    have le: "(Max (set us) < Min (set us)) = False" using ne by (meson Max_in Min_le List.finite_set leD)
    show ?thesis
      unfolding versionRange_def versionRange_loop_eq us_def[symmetric] foldl_min_eq foldl_max_eq mm Let_def prod.case le
      using ne by simp
  qed
  have "us \<noteq> [] \<Longrightarrow> Min (set us) \<in> set us \<and> Max (set us) \<in> set us \<and> Min (set us) \<le> Max (set us)"
    by (simp add: Min_in Max_in)
  with b r show ?thesis
    by (auto simp: us_def[symmetric] Let_def keysharesFromGroups_def choose_groups_eq split: option.split)
qed

section \<open>The host of a dial address\<close>

text \<open>An address of a host without colons or brackets, with a port or without, gives the host; a bare IPv6 address is
  refused, and one in brackets loses them.\<close>

lemma dialHost_plain:
  assumes "set h \<inter> {CHR '':'', CHR ''['', CHR '']''} = {}" and "set p \<inter> {CHR '':'', CHR ''['', CHR '']''} = {}"
  shows "dialHost (h @ '':'' @ p) = Some h"
proof -
  have l: "LastIndexByte (h @ '':'' @ p) (CHR '':'') = Some (length h)"
  proof -
    have "takeWhile (\<lambda>x. x \<noteq> CHR '':'') (rev p @ CHR '':'' # rev h) = rev p"
      using assms(2) by (subst takeWhile_append2) auto
    then show ?thesis by (simp add: LastIndexByte_def IndexByte_def)
  qed
  have hd: "hd (h @ '':'' @ p) \<noteq> CHR ''[''" using assms by (cases h) auto
  have "dropWhile (\<lambda>c. c \<in> {CHR ''['', CHR '']''}) xs = xs" if "set xs \<inter> {CHR '':'', CHR ''['', CHR '']''} = {}" for xs
    using that by (cases xs) auto
  from this[of h] this[of "rev h"] assms l hd show ?thesis
    by (auto simp: dialHost_def SplitHostPort_def Let_def Trim_def)
qed

lemma dialHost_bare_IPv6: "dialHost ''::1'' = None" "dialHost ''[::1]'' = Some ''::1''" "dialHost ''example.com'' = Some ''example.com''"
  by code_simp+

end
