(* ===== verification/Http_Header.thy ===== *)
theory Http_Header
  imports Go_Strings "HOL-Library.AList"
begin

text \<open>
  \<open>http.Header\<close> of the standard library, with the canonicalization of \<open>net/textproto\<close>, as the client and the
  HTTP/2 implementation use it.
\<close>

section \<open>\<open>http.Header\<close>\<close>

text \<open>
  \<open>http.Header\<close> is a Go map, an association list with distinct keys; a range over it visits the entries in
  the order of the list. Its methods canonicalize the key: \<open>textproto.CanonicalMIMEHeaderKey\<close> leaves a name with a
  byte that is not a token character as it is.
\<close>

type_synonym header_map = "(string \<times> string list) list"

definition is_upper_char :: "char \<Rightarrow> bool" where
  "is_upper_char c = (let n = char_code c in 65 \<le> n \<and> n \<le> 90)"

definition is_lower_char :: "char \<Rightarrow> bool" where
  "is_lower_char c = (let n = char_code c in 97 \<le> n \<and> n \<le> 122)"

definition is_digit_char :: "char \<Rightarrow> bool" where
  "is_digit_char c = (let n = char_code c in 48 \<le> n \<and> n \<le> 57)"

definition validHeaderFieldByte :: "char \<Rightarrow> bool" where
  "validHeaderFieldByte c \<longleftrightarrow> is_digit_char c \<or> is_lower_char c \<or> is_upper_char c
     \<or> c \<in> set [CHR ''!'', CHR ''#'', CHR ''$'', CHR ''%'', CHR ''&'', CHR 0x27, CHR ''*'', CHR ''+'', CHR ''-'', CHR ''.'',
                CHR ''^'', CHR ''_'', CHR 0x60, CHR ''|'', CHR ''~'']"

fun canon_case :: "bool \<Rightarrow> string \<Rightarrow> string" where
  "canon_case upper [] = []"
| "canon_case upper (c # s) =
     (let c = (if upper then upper_char c else lower_char c) in c # canon_case (c = CHR ''-'') s)"

definition CanonicalMIMEHeaderKey :: "string \<Rightarrow> string" where
  "CanonicalMIMEHeaderKey s = (if list_all validHeaderFieldByte s then canon_case True s else s)"

definition hdr_Set :: "header_map \<Rightarrow> string \<Rightarrow> string \<Rightarrow> header_map" where
  "hdr_Set h k v = AList.update (CanonicalMIMEHeaderKey k) [v] h"

definition hdr_Add :: "header_map \<Rightarrow> string \<Rightarrow> string \<Rightarrow> header_map" where
  "hdr_Add h k v =
     (let k = CanonicalMIMEHeaderKey k in
      AList.update k ((case map_of h k of None \<Rightarrow> [] | Some vs \<Rightarrow> vs) @ [v]) h)"

definition hdr_Values :: "header_map \<Rightarrow> string \<Rightarrow> string list" where
  "hdr_Values h k = (case map_of h (CanonicalMIMEHeaderKey k) of None \<Rightarrow> [] | Some vs \<Rightarrow> vs)"

definition hdr_Get :: "header_map \<Rightarrow> string \<Rightarrow> string" where
  "hdr_Get h k = (case hdr_Values h k of [] \<Rightarrow> [] | v # _ \<Rightarrow> v)"

section \<open>Canonical names\<close>

lemma char_case_facts [simp]:
  "upper_char c = CHR ''-'' \<longleftrightarrow> c = CHR ''-''" "lower_char c = CHR ''-'' \<longleftrightarrow> c = CHR ''-''"
  "upper_char (lower_char c) = upper_char c" "upper_char (upper_char c) = upper_char c"
  "validHeaderFieldByte (upper_char c) = validHeaderFieldByte c" "validHeaderFieldByte (lower_char c) = validHeaderFieldByte c"
proof -
  have "\<forall>c. (upper_char c = CHR ''-'' \<longleftrightarrow> c = CHR ''-'') \<and> (lower_char c = CHR ''-'' \<longleftrightarrow> c = CHR ''-'')
    \<and> upper_char (lower_char c) = upper_char c \<and> upper_char (upper_char c) = upper_char c
    \<and> validHeaderFieldByte (upper_char c) = validHeaderFieldByte c \<and> validHeaderFieldByte (lower_char c) = validHeaderFieldByte c"
    by code_simp
  then show
    "upper_char c = CHR ''-'' \<longleftrightarrow> c = CHR ''-''" "lower_char c = CHR ''-'' \<longleftrightarrow> c = CHR ''-''"
    "upper_char (lower_char c) = upper_char c" "upper_char (upper_char c) = upper_char c"
    "validHeaderFieldByte (upper_char c) = validHeaderFieldByte c" "validHeaderFieldByte (lower_char c) = validHeaderFieldByte c"
    by blast+
qed

lemma case_hyphen [simp]: "upper_char (CHR ''-'') = CHR ''-''" "lower_char (CHR ''-'') = CHR ''-''"
  by simp_all

lemma canon_case_idem: "canon_case b (canon_case b s) = canon_case b s"
  by (induction s arbitrary: b) (auto simp: Let_def)

lemma canon_case_valid: "list_all validHeaderFieldByte (canon_case b s) = list_all validHeaderFieldByte s"
  by (induction b s rule: canon_case.induct) (auto simp: Let_def)

lemma CanonicalMIMEHeaderKey_idem [simp]: "CanonicalMIMEHeaderKey (CanonicalMIMEHeaderKey s) = CanonicalMIMEHeaderKey s"
  by (simp add: CanonicalMIMEHeaderKey_def canon_case_valid canon_case_idem)

lemma map_of_hdr_Set: "map_of (hdr_Set h k v) = (map_of h)(CanonicalMIMEHeaderKey k \<mapsto> [v])"
  by (simp add: hdr_Set_def update_conv')

lemma hdr_Add_values: "hdr_Values (hdr_Add h k v) k = hdr_Values h k @ [v]"
  by (simp add: hdr_Values_def hdr_Add_def Let_def update_conv')

end
