(* ===== verification/Client.thy ===== *)
theory Client
  imports Utls Frame_Types Http_Header
begin

text \<open>
  The state of \<open>client/client.go\<close> and of the round tripper of \<open>client/transport.go\<close>: the settings of a
  client, its default headers, its \<open>http.Client\<close>, and the cached transports, which capture the settings
  they were built with. The built-in registry (\<open>preset.Builtin\<close>) is the argument \<open>reg\<close>, an error or a
  registry. A certificate pool is a handle. A transport is represented by what its closures capture;
  closing idle connections releases operating-system resources only and leaves no trace in the state.
  The methods hold the mutex of the client for their whole body, so each is one atomic step.
\<close>

section \<open>The state\<close>

record URL =
  u_Scheme :: string
  u_Host :: string
  u_User :: "(string \<times> string) option"

record dialSnapshot =
  ds_preset :: "Preset option"
  ds_insecure :: bool
  ds_rootCAs :: "nat option"
  ds_proxy :: "URL option"
  ds_forceH1 :: bool
  ds_forceH2 :: bool
  ds_h2Capable :: bool

record StreamPriority =
  sp_StreamDep :: u32
  sp_Exclusive :: bool
  sp_Weight :: byte

record StreamPriorityFrame =
  spf_StreamID :: u32
  spf_Priority :: StreamPriority

record Fingerprint =
  fp_Settings :: "Setting list"
  fp_WindowUpdate :: u32
  fp_PseudoHeaderOrder :: "string list"
  fp_HeaderOrder :: "string list"
  fp_HeaderPriority :: "StreamPriority option"
  fp_PriorityFrames :: "StreamPriorityFrame list"

text \<open>\<open>roundTripper\<close>: a cached HTTP/1.1 transport captures the snapshot it was built with, the HTTP/2 transport
  also carries the fingerprint. \<open>noH2\<close> is the set of hosts that map to true.\<close>

record roundTripper =
  rt_h1 :: "dialSnapshot option"
  rt_h2 :: "(dialSnapshot \<times> Fingerprint option) option"
  rt_noH2 :: "string set"

datatype redirect_policy = DefaultPolicy | UseLastResponse | StopAfter int

record http_Client =
  hc_Timeout :: int
  hc_CheckRedirect :: redirect_policy
  hc_Jar :: "nat option"

record Client =
  c_preset :: "Preset option"
  c_timeout :: int
  c_baseURL :: string
  c_proxyURL :: "URL option"
  c_insecure :: bool
  c_rootCAs :: "nat option"
  c_forceProto :: string
  c_noRedirect :: bool
  c_redirectMax :: int
  c_withJar :: bool
  c_defaultHeaders :: header_map
  c_explicitHeaders :: "string set"
  c_httpClient :: http_Client
  c_rt :: roundTripper
  c_jars :: nat

text \<open>\<open>c_jars\<close> counts the cookie jars created so far; a jar is named by its number.\<close>

datatype client_error = ClientError string | ClientPanic

section \<open>Internals\<close>

text \<open>\<open>canonicalHeaderKey\<close>: the title-casing of the parts between hyphens.\<close>

definition canonicalHeaderKey :: "string \<Rightarrow> string" where
  "canonicalHeaderKey name =
     join ''-'' (map (\<lambda>p. if p = [] then p else ToUpper (take 1 p) @ drop 1 p) (split_on (CHR ''-'') (ToLower name)))"

definition apply_value :: "Client \<Rightarrow> string \<times> string \<Rightarrow> Client" where
  "apply_value c nv =
     (if snd nv = [] then c
      else
        let key = canonicalHeaderKey (fst nv) in
        if key \<in> c_explicitHeaders c then c
        else c\<lparr>c_defaultHeaders := hdr_Set (c_defaultHeaders c) key (snd nv)\<rparr>)"

definition applyPresetDefaultsLocked :: "Client \<Rightarrow> Client" where
  "applyPresetDefaultsLocked c =
     (case c_preset c of
        None \<Rightarrow> c
      | Some p \<Rightarrow> (case Headers (pr_Profile p) of
          None \<Rightarrow> c
        | Some hp \<Rightarrow> foldl apply_value c (hd_Values hp)))"

definition rebuildHTTPClientLocked :: "Client \<Rightarrow> Client" where
  "rebuildHTTPClientLocked c =
     c\<lparr>c_httpClient :=
         \<lparr>hc_Timeout = c_timeout c,
          hc_CheckRedirect = (if c_noRedirect c then UseLastResponse
                              else if c_redirectMax c > 0 then StopAfter (c_redirectMax c) else DefaultPolicy),
          hc_Jar = (if c_withJar c then Some (c_jars c) else None)\<rparr>,
       c_jars := (if c_withJar c then c_jars c + 1 else c_jars c)\<rparr>"

text \<open>The decision of \<open>http.Client\<close> before it follows a redirect after the requests \<open>via\<close>: go on, stop and
  return the last response, or fail. \<open>net/http\<close> stops after 10 when no policy is set.\<close>

datatype redirect_verdict = Follow | LastResponse | RedirectError

definition checkRedirect :: "redirect_policy \<Rightarrow> int \<Rightarrow> redirect_verdict" where
  "checkRedirect pol via =
     (case pol of
        UseLastResponse \<Rightarrow> LastResponse
      | StopAfter n \<Rightarrow> if via \<ge> n then RedirectError else Follow
      | DefaultPolicy \<Rightarrow> if via \<ge> 10 then RedirectError else Follow)"

definition rt_invalidate :: "roundTripper \<Rightarrow> roundTripper" where
  "rt_invalidate rt = rt\<lparr>rt_h1 := None, rt_h2 := None, rt_noH2 := {}\<rparr>"

definition invalidated :: "Client \<Rightarrow> Client" where
  "invalidated c = c\<lparr>c_rt := rt_invalidate (c_rt c)\<rparr>"

section \<open>Settings\<close>

definition SetBrowser_preset :: "Client \<Rightarrow> Preset option \<Rightarrow> (client_error option) \<times> Client" where
  "SetBrowser_preset c v =
     (case v of
        None \<Rightarrow> (Some (ClientError ''client: nil preset''), c)
      | Some p \<Rightarrow> (None, invalidated (applyPresetDefaultsLocked (c\<lparr>c_preset := Some p\<rparr>))))"

definition SetBrowser_name :: "(preset_error + Registry) \<Rightarrow> Client \<Rightarrow> string \<Rightarrow> (client_error option) \<times> Client" where
  "SetBrowser_name reg c v =
     (case reg of
        Inl _ \<Rightarrow> (Some ClientPanic, c)
      | Inr r \<Rightarrow> (case Lookup r v of
          None \<Rightarrow> (Some (ClientError ''client: unknown preset''), c)
        | Some p \<Rightarrow> (None, invalidated (applyPresetDefaultsLocked (c\<lparr>c_preset := Some p\<rparr>)))))"

text \<open>\<open>SetRandomBrowser\<close>; \<open>pick n\<close> is \<open>rand.Intn(n)\<close>.\<close>

definition SetRandomBrowser :: "(preset_error + Registry) \<Rightarrow> (nat \<Rightarrow> nat) \<Rightarrow> Client \<Rightarrow> string \<Rightarrow> (client_error option) \<times> Client" where
  "SetRandomBrowser reg pick c product =
     (case reg of
        Inl _ \<Rightarrow> (Some ClientPanic, c)
      | Inr r \<Rightarrow>
          let candidates = filter (\<lambda>p. product = [] \<or> product = ''*'' \<or> pr_Product p = product) (Registry_List r) in
          if length candidates = 0 then (Some (ClientError ''client: no presets for product''), c)
          else if pick (length candidates) < length candidates
          then SetBrowser_preset c (Some (candidates ! pick (length candidates)))
          else (Some ClientPanic, c))"

definition ForceHTTP1 :: "Client \<Rightarrow> Client" where
  "ForceHTTP1 c = invalidated (c\<lparr>c_forceProto := ''h1''\<rparr>)"

definition UseHTTP2 :: "Client \<Rightarrow> Client" where
  "UseHTTP2 c = invalidated (c\<lparr>c_forceProto := ''h2''\<rparr>)"

definition UseAutoProtocol :: "Client \<Rightarrow> Client" where
  "UseAutoProtocol c = invalidated (c\<lparr>c_forceProto := []\<rparr>)"

definition SetTimeout :: "Client \<Rightarrow> int \<Rightarrow> Client" where
  "SetTimeout c d = rebuildHTTPClientLocked (c\<lparr>c_timeout := d\<rparr>)"

text \<open>\<open>SetProxy\<close>; \<open>parse\<close> is \<open>url.Parse\<close>, \<open>None\<close> on an error.\<close>

definition SetProxy :: "(string \<Rightarrow> URL option) \<Rightarrow> Client \<Rightarrow> string \<Rightarrow> Client" where
  "SetProxy parse c rawURL =
     invalidated
       (if rawURL = [] then c\<lparr>c_proxyURL := None\<rparr>
        else case parse rawURL of Some u \<Rightarrow> c\<lparr>c_proxyURL := Some u\<rparr> | None \<Rightarrow> c)"

definition SetInsecureSkipVerify :: "Client \<Rightarrow> bool \<Rightarrow> Client" where
  "SetInsecureSkipVerify c skip = invalidated (c\<lparr>c_insecure := skip\<rparr>)"

definition SetRootCAs :: "Client \<Rightarrow> nat option \<Rightarrow> Client" where
  "SetRootCAs c pool = invalidated (c\<lparr>c_rootCAs := pool\<rparr>)"

definition SetBaseURL :: "Client \<Rightarrow> string \<Rightarrow> Client" where
  "SetBaseURL c u = c\<lparr>c_baseURL := u\<rparr>"

definition SetRedirects :: "Client \<Rightarrow> int \<Rightarrow> Client" where
  "SetRedirects c max' =
     rebuildHTTPClientLocked
       (if max' = 0 then c\<lparr>c_noRedirect := True\<rparr>
        else if max' < 0 then c\<lparr>c_noRedirect := False, c_redirectMax := 0\<rparr>
        else c\<lparr>c_noRedirect := False, c_redirectMax := max'\<rparr>)"

definition SetHeader :: "Client \<Rightarrow> string \<Rightarrow> string \<Rightarrow> Client" where
  "SetHeader c key value =
     c\<lparr>c_explicitHeaders := insert (canonicalHeaderKey key) (c_explicitHeaders c),
       c_defaultHeaders := hdr_Set (c_defaultHeaders c) key value\<rparr>"

definition SetHeaders :: "Client \<Rightarrow> (string \<times> string) list \<Rightarrow> Client" where
  "SetHeaders c headers = foldl (\<lambda>c (k, v). SetHeader c k v) c headers"

definition EnableCookieJar :: "Client \<Rightarrow> Client" where
  "EnableCookieJar c = rebuildHTTPClientLocked (c\<lparr>c_withJar := True\<rparr>)"

definition DisableCookieJar :: "Client \<Rightarrow> Client" where
  "DisableCookieJar c = rebuildHTTPClientLocked (c\<lparr>c_withJar := False\<rparr>)"

section \<open>Construction\<close>

definition WithTimeout :: "int \<Rightarrow> Client \<Rightarrow> Client" where
  "WithTimeout d c = SetTimeout c d"

definition WithProxy :: "(string \<Rightarrow> URL option) \<Rightarrow> string \<Rightarrow> Client \<Rightarrow> Client" where
  "WithProxy parse rawURL c = SetProxy parse c rawURL"

definition WithInsecureSkipVerify :: "bool \<Rightarrow> Client \<Rightarrow> Client" where
  "WithInsecureSkipVerify b c = c\<lparr>c_insecure := b\<rparr>"

definition WithRootCAs :: "nat option \<Rightarrow> Client \<Rightarrow> Client" where
  "WithRootCAs pool c = c\<lparr>c_rootCAs := pool\<rparr>"

definition WithPreset :: "Preset option \<Rightarrow> Client \<Rightarrow> Client" where
  "WithPreset p c = c\<lparr>c_preset := p\<rparr>"

text \<open>\<open>Impersonate\<close> with a preset and with a name; an unknown name is ignored. The name is looked up in the
  registry of \<open>MustBuiltin\<close>.\<close>

definition Impersonate_preset :: "Preset option \<Rightarrow> Client \<Rightarrow> Client" where
  "Impersonate_preset v c = (case v of None \<Rightarrow> c | Some p \<Rightarrow> c\<lparr>c_preset := Some p\<rparr>)"

definition Impersonate_name :: "Registry \<Rightarrow> string \<Rightarrow> Client \<Rightarrow> Client" where
  "Impersonate_name r v c = (case Lookup r v of None \<Rightarrow> c | Some p \<Rightarrow> c\<lparr>c_preset := Some p\<rparr>)"

definition blank_Client :: Client where
  "blank_Client =
     \<lparr>c_preset = None, c_timeout = 30000000000, c_baseURL = [], c_proxyURL = None, c_insecure = False, c_rootCAs = None,
      c_forceProto = [], c_noRedirect = False, c_redirectMax = 0, c_withJar = False, c_defaultHeaders = [],
      c_explicitHeaders = {}, c_httpClient = \<lparr>hc_Timeout = 0, hc_CheckRedirect = DefaultPolicy, hc_Jar = None\<rparr>,
      c_rt = \<lparr>rt_h1 = None, rt_h2 = None, rt_noH2 = {}\<rparr>, c_jars = 0\<rparr>"

definition NewClient :: "(preset_error + Registry) \<Rightarrow> (Client \<Rightarrow> Client) list \<Rightarrow> Client" where
  "NewClient reg opts =
     (let c = foldl (\<lambda>c o'. o' c) blank_Client opts;
          c = (if c_preset c = None
               then case reg of Inr r \<Rightarrow> c\<lparr>c_preset := Lookup r ''chrome''\<rparr> | Inl _ \<Rightarrow> c
               else c)
      in rebuildHTTPClientLocked (applyPresetDefaultsLocked c))"

section \<open>The round tripper\<close>

definition snapshot :: "Client \<Rightarrow> dialSnapshot" where
  "snapshot c =
     \<lparr>ds_preset = c_preset c, ds_insecure = c_insecure c, ds_rootCAs = c_rootCAs c, ds_proxy = c_proxyURL c,
      ds_forceH1 = (c_forceProto c = ''h1''), ds_forceH2 = (c_forceProto c = ''h2''),
      ds_h2Capable = (case c_preset c of None \<Rightarrow> False | Some p \<Rightarrow> HTTP2 (pr_Profile p) \<noteq> None)\<rparr>"

definition stream_priority :: "H2Priority \<Rightarrow> StreamPriority" where
  "stream_priority p = \<lparr>sp_StreamDep = Profile.StreamDep p, sp_Exclusive = Profile.Exclusive p, sp_Weight = Profile.Weight p\<rparr>"

definition buildFingerprint :: "dialSnapshot \<Rightarrow> Fingerprint option" where
  "buildFingerprint snap =
     (case ds_preset snap of
        None \<Rightarrow> None
      | Some p \<Rightarrow> (case HTTP2 (pr_Profile p) of
          None \<Rightarrow> None
        | Some h \<Rightarrow> Some
            \<lparr>fp_Settings = map (\<lambda>s. \<lparr>s_ID = Profile.s_ID s, s_Val = s_Value s\<rparr>) (h_Settings h),
             fp_WindowUpdate = h_WindowUpdate h,
             fp_PseudoHeaderOrder = h_PseudoHeaderOrder h,
             fp_HeaderOrder = (case Headers (pr_Profile p) of None \<Rightarrow> [] | Some hp \<Rightarrow> hd_Order hp),
             fp_HeaderPriority = map_option stream_priority (h_HeaderPriority h),
             fp_PriorityFrames = map (\<lambda>f. \<lparr>spf_StreamID = f_StreamID f, spf_Priority = stream_priority (f_Priority f)\<rparr>) (h_PriorityFrames h)\<rparr>))"

definition h1Transport :: "roundTripper \<Rightarrow> dialSnapshot \<Rightarrow> dialSnapshot \<times> roundTripper" where
  "h1Transport rt snap =
     (case rt_h1 rt of
        Some t \<Rightarrow> (t, rt)
      | None \<Rightarrow> (snap, rt\<lparr>rt_h1 := Some snap\<rparr>))"

definition h2Transport :: "roundTripper \<Rightarrow> dialSnapshot \<Rightarrow> (dialSnapshot \<times> Fingerprint option) \<times> roundTripper" where
  "h2Transport rt snap =
     (case rt_h2 rt of
        Some t \<Rightarrow> (t, rt)
      | None \<Rightarrow> let t = (snap, buildFingerprint snap) in (t, rt\<lparr>rt_h2 := Some t\<rparr>))"

definition hostNoH2 :: "roundTripper \<Rightarrow> string \<Rightarrow> bool" where
  "hostNoH2 rt host = (host \<in> rt_noH2 rt)"

definition rememberNoH2 :: "roundTripper \<Rightarrow> string \<Rightarrow> roundTripper" where
  "rememberNoH2 rt host = rt\<lparr>rt_noH2 := insert host (rt_noH2 rt)\<rparr>"

definition isIdempotent :: "string \<Rightarrow> bool" where
  "isIdempotent method = (method \<in> set [''GET'', ''HEAD'', ''OPTIONS'', ''TRACE'', ''PUT'', ''DELETE''])"

text \<open>A request as the round tripper sees it. \<open>q_body\<close> is what is left to read of the body; \<open>None\<close> is a nil
  body.\<close>

record http_Request =
  q_method :: string
  q_scheme :: string
  q_hostname :: string
  q_body :: "bytes option"
  q_hasGetBody :: bool

datatype rt_error = NoPreset | FallbackError | OtherError

text \<open>
  \<open>RoundTrip\<close>. The two transports are arguments: a round trip on the transport that captured \<open>t\<close>
  returns its result and the request, whose body it may have read. The list of transports tried
  is returned as well.
\<close>

datatype attempt = TriedH1 dialSnapshot http_Request | TriedH2 dialSnapshot "Fingerprint option" http_Request

type_synonym 'r h1_net = "dialSnapshot \<Rightarrow> http_Request \<Rightarrow> rt_error + 'r"
type_synonym 'r h2_net = "dialSnapshot \<times> Fingerprint option \<Rightarrow> http_Request \<Rightarrow> (rt_error + 'r) \<times> http_Request"

definition try_h1 :: "'r h1_net \<Rightarrow> roundTripper \<Rightarrow> dialSnapshot \<Rightarrow> http_Request \<Rightarrow> (rt_error + 'r) \<times> attempt list \<times> roundTripper" where
  "try_h1 net1 rt snap req = (let (t, rt) = h1Transport rt snap in (net1 t req, [TriedH1 t req], rt))"

definition RoundTrip :: "'r h1_net \<Rightarrow> 'r h2_net \<Rightarrow> Client \<Rightarrow> http_Request \<Rightarrow> (rt_error + 'r) \<times> attempt list \<times> Client" where
  "RoundTrip net1 net2 c req =
     (let snap = snapshot c; rt = c_rt c; host = q_hostname req;
          via1 = (\<lambda>rt req. let (r, tried, rt) = try_h1 net1 rt snap req in (r, tried, c\<lparr>c_rt := rt\<rparr>))
      in if ds_preset snap = None then (Inl NoPreset, [], c)
         else if q_scheme req = ''http'' then via1 rt req
         else if ds_forceH1 snap \<or> \<not> ds_h2Capable snap \<or> hostNoH2 rt host then via1 rt req
         else
           let (t, rt) = h2Transport rt snap; (r, req') = net2 t req; tried = TriedH2 (fst t) (snd t) req in
           if ds_forceH2 snap then (r, [tried], c\<lparr>c_rt := rt\<rparr>)
           else case r of
               Inr resp \<Rightarrow> (Inr resp, [tried], c\<lparr>c_rt := rt\<rparr>)
             | Inl e \<Rightarrow>
                 if e = FallbackError \<or> isIdempotent (q_method req) \<and> (q_body req = None \<or> q_hasGetBody req)
                 then let (r, more, c) = via1 (rememberNoH2 rt host) req' in (r, tried # more, c)
                 else (Inl e, [tried], c\<lparr>c_rt := rt\<rparr>))"

section \<open>Header names\<close>

definition title_part :: "string \<Rightarrow> string" where
  "title_part p = (if p = [] then p else ToUpper (take 1 p) @ drop 1 p)"

lemma title_split_canon:
  "join ''-'' ((if b then title_part (hd (split_on (CHR ''-'') (ToLower s))) else hd (split_on (CHR ''-'') (ToLower s)))
     # map title_part (tl (split_on (CHR ''-'') (ToLower s)))) = canon_case b s"
proof (induction s arbitrary: b)
  case (Cons c s)
  obtain p ps where sp: "split_on (CHR ''-'') (ToLower s) = p # ps" by (cases "split_on (CHR ''-'') (ToLower s)") auto
  have low: "ToLower (c # s) = lower_char c # ToLower s" by (simp add: ToLower_def)
  from Cons[of "c = CHR ''-''"] sp show ?case
    unfolding low by (cases ps; cases b) (auto simp: title_part_def ToUpper_def Let_def)
qed (simp add: title_part_def ToLower_def)

lemma canonicalHeaderKey_canon: "canonicalHeaderKey s = canon_case True s"
proof -
  have "split_on (CHR ''-'') (ToLower s) = hd (split_on (CHR ''-'') (ToLower s)) # tl (split_on (CHR ''-'') (ToLower s))"
    by simp
  then show ?thesis
    using title_split_canon[of True s] unfolding canonicalHeaderKey_def title_part_def[symmetric] by (metis list.simps(9))
qed

lemma CanonicalMIMEHeaderKey_token:
  "list_all validHeaderFieldByte s \<Longrightarrow> canonicalHeaderKey s = CanonicalMIMEHeaderKey s"
  by (simp add: CanonicalMIMEHeaderKey_def canonicalHeaderKey_canon)

section \<open>Sequences of calls\<close>

text \<open>The methods of a client, and the effect of a sequence of calls. \<open>OpRequest\<close> is a round trip.\<close>

datatype client_op =
    OpSetBrowser "Preset option"
  | OpSetBrowserName string
  | OpSetRandomBrowser string
  | OpForceHTTP1
  | OpUseHTTP2
  | OpUseAutoProtocol
  | OpSetTimeout int
  | OpSetProxy string
  | OpSetInsecureSkipVerify bool
  | OpSetRootCAs "nat option"
  | OpSetBaseURL string
  | OpSetRedirects int
  | OpSetHeader string string
  | OpSetHeaders "(string \<times> string) list"
  | OpEnableCookieJar
  | OpDisableCookieJar
  | OpRequest http_Request

record 'r client_env =
  e_reg :: "preset_error + Registry"
  e_pick :: "nat \<Rightarrow> nat"
  e_parse :: "string \<Rightarrow> URL option"
  e_net1 :: "'r h1_net"
  e_net2 :: "'r h2_net"

fun exec :: "'r client_env \<Rightarrow> client_op \<Rightarrow> Client \<Rightarrow> Client" where
  "exec e (OpSetBrowser p) c = snd (SetBrowser_preset c p)"
| "exec e (OpSetBrowserName n) c = snd (SetBrowser_name (e_reg e) c n)"
| "exec e (OpSetRandomBrowser p) c = snd (SetRandomBrowser (e_reg e) (e_pick e) c p)"
| "exec e OpForceHTTP1 c = ForceHTTP1 c"
| "exec e OpUseHTTP2 c = UseHTTP2 c"
| "exec e OpUseAutoProtocol c = UseAutoProtocol c"
| "exec e (OpSetTimeout d) c = SetTimeout c d"
| "exec e (OpSetProxy u) c = SetProxy (e_parse e) c u"
| "exec e (OpSetInsecureSkipVerify b) c = SetInsecureSkipVerify c b"
| "exec e (OpSetRootCAs p) c = SetRootCAs c p"
| "exec e (OpSetBaseURL u) c = SetBaseURL c u"
| "exec e (OpSetRedirects n) c = SetRedirects c n"
| "exec e (OpSetHeader k v) c = SetHeader c k v"
| "exec e (OpSetHeaders kvs) c = SetHeaders c kvs"
| "exec e OpEnableCookieJar c = EnableCookieJar c"
| "exec e OpDisableCookieJar c = DisableCookieJar c"
| "exec e (OpRequest req) c = snd (snd (RoundTrip (e_net1 e) (e_net2 e) c req))"

definition execs :: "'r client_env \<Rightarrow> client_op list \<Rightarrow> Client \<Rightarrow> Client" where
  "execs e ops c = foldl (\<lambda>c op. exec e op c) c ops"

text \<open>The settings that a transport captures are unchanged by what the methods do beside setting one of them.\<close>

lemma apply_value_keeps:
  "snapshot (apply_value c nv) = snapshot c" "c_rt (apply_value c nv) = c_rt c"
  "c_explicitHeaders (apply_value c nv) = c_explicitHeaders c" "c_preset (apply_value c nv) = c_preset c"
  by (simp_all add: apply_value_def snapshot_def Let_def)

lemma foldl_apply_value_keeps:
  "snapshot (foldl apply_value c nvs) = snapshot c" "c_rt (foldl apply_value c nvs) = c_rt c"
  "c_explicitHeaders (foldl apply_value c nvs) = c_explicitHeaders c" "c_preset (foldl apply_value c nvs) = c_preset c"
  by (induction nvs arbitrary: c) (simp_all add: apply_value_keeps)

lemma applyPresetDefaults_keeps [simp]:
  "snapshot (applyPresetDefaultsLocked c) = snapshot c" "c_rt (applyPresetDefaultsLocked c) = c_rt c"
  "c_explicitHeaders (applyPresetDefaultsLocked c) = c_explicitHeaders c" "c_preset (applyPresetDefaultsLocked c) = c_preset c"
  by (simp_all add: applyPresetDefaultsLocked_def foldl_apply_value_keeps split: option.split)

lemma rebuild_keeps [simp]:
  "snapshot (rebuildHTTPClientLocked c) = snapshot c" "c_rt (rebuildHTTPClientLocked c) = c_rt c"
  "c_explicitHeaders (rebuildHTTPClientLocked c) = c_explicitHeaders c"
  "c_defaultHeaders (rebuildHTTPClientLocked c) = c_defaultHeaders c"
  by (simp_all add: rebuildHTTPClientLocked_def snapshot_def)

lemma SetHeader_keeps:
  "snapshot (SetHeader c k v) = snapshot c" "c_rt (SetHeader c k v) = c_rt c"
  by (simp_all add: SetHeader_def snapshot_def)

lemma SetHeaders_keeps:
  "snapshot (SetHeaders c kvs) = snapshot c \<and> c_rt (SetHeaders c kvs) = c_rt c"
  unfolding SetHeaders_def
  by (induction kvs arbitrary: c) (simp_all add: SetHeader_keeps split_beta)

text \<open>A client is coherent when its cached transports were built with its present settings.\<close>

definition coherent :: "Client \<Rightarrow> bool" where
  "coherent c \<longleftrightarrow> (\<forall>t. rt_h1 (c_rt c) = Some t \<longrightarrow> t = snapshot c)
     \<and> (\<forall>t. rt_h2 (c_rt c) = Some t \<longrightarrow> t = (snapshot c, buildFingerprint (snapshot c)))"

lemma coherent_invalidated [simp]: "coherent (invalidated c)"
  by (simp add: coherent_def invalidated_def rt_invalidate_def)

lemma coherent_cong: "snapshot c' = snapshot c \<Longrightarrow> c_rt c' = c_rt c \<Longrightarrow> coherent c' = coherent c"
  by (simp add: coherent_def)

lemma snapshot_unrelated [simp]:
  "snapshot (c\<lparr>c_timeout := d\<rparr>) = snapshot c" "snapshot (c\<lparr>c_noRedirect := b\<rparr>) = snapshot c"
  "snapshot (c\<lparr>c_redirectMax := n\<rparr>) = snapshot c" "snapshot (c\<lparr>c_withJar := b\<rparr>) = snapshot c"
  "snapshot (c\<lparr>c_baseURL := u\<rparr>) = snapshot c"
  by (simp_all add: snapshot_def)

lemma coherent_unrelated [simp]:
  "coherent (rebuildHTTPClientLocked c) = coherent c" "coherent (SetHeaders c kvs) = coherent c" "coherent (SetHeader c k v) = coherent c"
  "coherent (c\<lparr>c_timeout := d\<rparr>) = coherent c" "coherent (c\<lparr>c_noRedirect := b\<rparr>) = coherent c"
  "coherent (c\<lparr>c_redirectMax := n\<rparr>) = coherent c" "coherent (c\<lparr>c_withJar := b\<rparr>) = coherent c"
  "coherent (c\<lparr>c_baseURL := u\<rparr>) = coherent c"
  by (rule coherent_cong; simp add: SetHeaders_keeps SetHeader_keeps)+

lemma snapshot_rt [simp]: "snapshot (c\<lparr>c_rt := rt\<rparr>) = snapshot c"
  by (simp add: snapshot_def)

fun attempt_current :: "Client \<Rightarrow> attempt \<Rightarrow> bool" where
  "attempt_current c (TriedH1 t req) \<longleftrightarrow> t = snapshot c"
| "attempt_current c (TriedH2 t fp req) \<longleftrightarrow> t = snapshot c \<and> fp = buildFingerprint (snapshot c)"

lemma RoundTrip_coherent:
  assumes "coherent c" and "RoundTrip net1 net2 c req = (r, tried, c')"
  shows "coherent c' \<and> snapshot c' = snapshot c \<and> (\<forall>a \<in> set tried. attempt_current c a)"
  using assms
  by (auto simp: RoundTrip_def try_h1_def h1Transport_def h2Transport_def rememberNoH2_def Let_def split_def coherent_def
      split: if_splits option.splits sum.splits)

lemma exec_coherent: "coherent c \<Longrightarrow> coherent (exec e op c)"
proof (cases op)
  case (OpRequest req)
  assume "coherent c"
  then show ?thesis
    using OpRequest RoundTrip_coherent[of c "e_net1 e" "e_net2 e" req] by (cases "RoundTrip (e_net1 e) (e_net2 e) c req") auto
qed (auto simp: SetBrowser_preset_def SetBrowser_name_def SetRandomBrowser_def ForceHTTP1_def UseHTTP2_def UseAutoProtocol_def
    SetTimeout_def SetProxy_def SetInsecureSkipVerify_def SetRootCAs_def SetBaseURL_def SetRedirects_def
    EnableCookieJar_def DisableCookieJar_def Let_def split: option.splits sum.splits)

lemma execs_coherent: "coherent c \<Longrightarrow> coherent (execs e ops c)"
  unfolding execs_def by (induction ops arbitrary: c) (simp_all add: exec_coherent)

text \<open>The options of \<open>NewClient\<close> leave the fresh round tripper without a cached transport.\<close>

inductive client_option :: "(Client \<Rightarrow> Client) \<Rightarrow> bool" where
  "client_option (WithTimeout d)"
| "client_option (WithProxy parse u)"
| "client_option (WithInsecureSkipVerify b)"
| "client_option (WithRootCAs pool)"
| "client_option (WithPreset p)"
| "client_option (Impersonate_preset p)"
| "client_option (Impersonate_name r n)"

definition no_transport :: "Client \<Rightarrow> bool" where
  "no_transport c \<longleftrightarrow> rt_h1 (c_rt c) = None \<and> rt_h2 (c_rt c) = None"

lemma option_no_transport: "client_option o' \<Longrightarrow> no_transport c \<Longrightarrow> no_transport (o' c)"
  by (induction rule: client_option.induct)
    (auto simp: no_transport_def WithTimeout_def WithProxy_def WithInsecureSkipVerify_def WithRootCAs_def WithPreset_def
      Impersonate_preset_def Impersonate_name_def SetTimeout_def SetProxy_def invalidated_def rt_invalidate_def split: option.splits)

lemma NewClient_no_transport: "list_all client_option opts \<Longrightarrow> no_transport (NewClient reg opts)"
proof -
  have f: "list_all client_option opts \<Longrightarrow> no_transport c \<Longrightarrow> no_transport (foldl (\<lambda>c o'. o' c) c opts)" for c
    by (induction opts arbitrary: c) (simp_all add: option_no_transport)
  have "no_transport blank_Client" by (simp add: no_transport_def blank_Client_def)
  from f[OF _ this] show "list_all client_option opts \<Longrightarrow> no_transport (NewClient reg opts)"
    by (simp add: NewClient_def Let_def no_transport_def split: sum.split)
qed

lemma no_transport_coherent: "no_transport c \<Longrightarrow> coherent c"
  by (simp add: no_transport_def coherent_def)


definition demo_preset :: "string \<Rightarrow> (string \<times> string) list \<Rightarrow> Preset" where
  "demo_preset key vals =
     \<lparr>pr_Key = key, pr_ID = key, pr_Product = key, pr_Platform = [], pr_Version = ''1'', pr_Description = [],
      pr_Profile = \<lparr>TLS = empty_TLSProfile,
        HTTP2 = Some \<lparr>h_Settings = [HTTP2Setting.make 4 6291456], h_SettingsAck = False, h_WindowUpdate = 15663105,
          h_HeadersStreamID = 1, h_PseudoHeaderOrder = [''m'', ''a'', ''s'', ''p''], h_HeaderPriority = None, h_PriorityFrames = []\<rparr>,
        Headers = Some \<lparr>hd_Order = map fst vals, hd_Values = vals\<rparr>\<rparr>\<rparr>"

definition demo_env :: "nat client_env" where
  "demo_env = \<lparr>e_reg = Inl DecodeError, e_pick = (\<lambda>_. 0), e_parse = (\<lambda>_. None), e_net1 = (\<lambda>t q. Inr 1), e_net2 = (\<lambda>t q. (Inl FallbackError, q))\<rparr>"

definition demo_request :: http_Request where
  "demo_request = \<lparr>q_method = ''GET'', q_scheme = ''https'', q_hostname = ''h'', q_body = None, q_hasGetBody = False\<rparr>"


section \<open>Concurrent requests\<close>

text \<open>
  A request takes its snapshot under the client's mutex and asks for a transport later, under the mutex of the
  round tripper; other goroutines may run in between. The state is the client with the snapshots
  of the requests in flight.
\<close>

inductive conc_step :: "'r client_env \<Rightarrow> Client \<times> dialSnapshot list \<Rightarrow> Client \<times> dialSnapshot list \<Rightarrow> bool" for e where
  call: "conc_step e (c, flying) (exec e op c, flying)" if "\<forall>req. op \<noteq> OpRequest req"
| take: "conc_step e (c, flying) (c, snapshot c # flying)"
| use_h1: "conc_step e (c, flying) (c\<lparr>c_rt := snd (h1Transport (c_rt c) snap)\<rparr>, flying)" if "snap \<in> set flying"
| use_h2: "conc_step e (c, flying) (c\<lparr>c_rt := snd (h2Transport (c_rt c) snap)\<rparr>, flying)" if "snap \<in> set flying"

text \<open>C39: without the restriction to one call at a time, the cache can become outdated: when \<open>SetBrowser\<close> runs between
  the snapshot of a request and its use, the transport with the old preset is cached after the
  invalidation, and later requests are sent with the old preset's fingerprint although the
  client reports the new one.\<close>

theorem stale_transport_race:
  "\<exists>c flying. (conc_step demo_env)\<^sup>*\<^sup>* (NewClient (Inl DecodeError) [WithPreset (Some (demo_preset ''a'' []))], []) (c, flying)
    \<and> c_preset c = Some (demo_preset ''b'' [])
    \<and> (\<exists>t fp more. fst (snd (RoundTrip (e_net1 demo_env) (e_net2 demo_env) c demo_request)) = TriedH2 t fp demo_request # more
         \<and> ds_preset t = Some (demo_preset ''a'' []))"
proof -
  let ?c0 = "NewClient (Inl DecodeError) [WithPreset (Some (demo_preset ''a'' []))]"
  let ?s = "snapshot ?c0"
  let ?c1 = "exec demo_env (OpSetBrowser (Some (demo_preset ''b'' []))) ?c0"
  let ?c2 = "?c1\<lparr>c_rt := snd (h2Transport (c_rt ?c1) ?s)\<rparr>"
  have "conc_step demo_env (?c0, []) (?c0, [?s])" by (rule take)
  moreover have "conc_step demo_env (?c0, [?s]) (?c1, [?s])" by (rule call) simp
  moreover have "conc_step demo_env (?c1, [?s]) (?c2, [?s])" by (rule use_h2) simp
  ultimately have r: "(conc_step demo_env)\<^sup>*\<^sup>* (?c0, []) (?c2, [?s])"
    by (meson converse_rtranclp_into_rtranclp r_into_rtranclp)
  have p: "c_preset ?c2 = Some (demo_preset ''b'' [])" by code_simp
  have t: "map (\<lambda>a. case a of TriedH2 t fp q \<Rightarrow> map_option pr_Key (ds_preset t) = Some ''a'' \<and> ds_preset t = Some (demo_preset ''a'' []) \<and> q = demo_request | _ \<Rightarrow> False)
      (take 1 (fst (snd (RoundTrip (e_net1 demo_env) (e_net2 demo_env) ?c2 demo_request)))) = [True]"
    by code_simp
  then obtain t fp more where "fst (snd (RoundTrip (e_net1 demo_env) (e_net2 demo_env) ?c2 demo_request)) = TriedH2 t fp demo_request # more"
    "ds_preset t = Some (demo_preset ''a'' [])"
    by (cases "fst (snd (RoundTrip (e_net1 demo_env) (e_net2 demo_env) ?c2 demo_request))") (auto split: attempt.splits)
  with r p show ?thesis by blast
qed

section \<open>Protocol selection\<close>



text \<open>The retry over HTTP/1.1 sends what the failed HTTP/2 attempt has left of the body. When that attempt has read the
  whole body of an idempotent request before it failed, the second attempt is made with an empty
  body, although the body is replayable: \<open>GetBody\<close> is never called.\<close>

theorem retry_sends_the_rest:
  assumes "RoundTrip net1 net2 c req = (r, tried, c')" and "length tried = 2"
    and "\<forall>t. net2 t req = (Inl OtherError, req\<lparr>q_body := Some []\<rparr>)"
  shows "\<exists>t a. tried = [a, TriedH1 t (req\<lparr>q_body := Some []\<rparr>)] \<and> r = net1 t (req\<lparr>q_body := Some []\<rparr>)"
  using assms
  by (auto simp: RoundTrip_def try_h1_def h1Transport_def h2Transport_def Let_def split_def split: if_splits option.splits sum.splits)

definition put_request :: http_Request where
  "put_request = \<lparr>q_method = ''PUT'', q_scheme = ''https'', q_hostname = ''h'', q_body = Some [1, 2, 3], q_hasGetBody = True\<rparr>"

theorem retry_sends_the_rest_witness:
  "let c = NewClient (Inl DecodeError) [WithPreset (Some (demo_preset ''a'' []))] in
   \<exists>tried c' t a. RoundTrip (\<lambda>t q. Inr (q_body q)) (\<lambda>t q. (Inl OtherError, q\<lparr>q_body := Some []\<rparr>)) c put_request = (Inr (Some []), tried, c')
     \<and> tried = [a, TriedH1 t (put_request\<lparr>q_body := Some []\<rparr>)]"
proof -
  define c where "c = NewClient (Inl DecodeError) [WithPreset (Some (demo_preset ''a'' []))]"
  let ?r = "RoundTrip (\<lambda>t q. Inr (q_body q)) (\<lambda>t q. (Inl OtherError, q\<lparr>q_body := Some []\<rparr>)) c put_request"
  obtain r tried c' where t: "?r = (r, tried, c')" by (metis prod_cases3)
  have "length (fst (snd ?r)) = 2" unfolding c_def by code_simp
  then have "length tried = 2" by (simp add: t)
  from retry_sends_the_rest[OF t this] t show ?thesis unfolding c_def[symmetric] by (auto simp: Let_def)
qed

section \<open>Default headers\<close>

text \<open>The value that a list of header values gives to a canonical key.\<close>

definition preset_value :: "(string \<times> string) list \<Rightarrow> string \<Rightarrow> string option" where
  "preset_value vals K =
     (case rev (filter (\<lambda>nv. snd nv \<noteq> [] \<and> canonicalHeaderKey (fst nv) = K) vals) of [] \<Rightarrow> None | nv # _ \<Rightarrow> Some (snd nv))"

lemma CanonicalMIMEHeaderKey_canonicalHeaderKey [simp]: "CanonicalMIMEHeaderKey (canonicalHeaderKey n) = canonicalHeaderKey n"
  by (simp add: CanonicalMIMEHeaderKey_def canonicalHeaderKey_canon canon_case_idem)

lemma map_of_apply_value:
  "map_of (c_defaultHeaders (apply_value c nv)) K =
     (if snd nv \<noteq> [] \<and> canonicalHeaderKey (fst nv) = K \<and> K \<notin> c_explicitHeaders c then Some [snd nv]
      else map_of (c_defaultHeaders c) K)"
  by (auto simp: apply_value_def Let_def map_of_hdr_Set)

lemma map_of_apply_values:
  "map_of (c_defaultHeaders (foldl apply_value c vals)) K =
     (if K \<in> c_explicitHeaders c then map_of (c_defaultHeaders c) K
      else case preset_value vals K of Some v \<Rightarrow> Some [v] | None \<Rightarrow> map_of (c_defaultHeaders c) K)"
proof (induction vals rule: rev_induct)
  case (snoc nv vals)
  then show ?case
    by (simp add: map_of_apply_value foldl_apply_value_keeps preset_value_def)
qed (simp add: preset_value_def)

text \<open>What \<open>SetBrowser\<close> does to the default headers. Names the user has set keep the user's value; every other name
  gets the last non-empty value the preset has for it; and a name without a value in the
  new preset keeps whatever it had before, also a value of the preset that was selected before.\<close>

theorem SetBrowser_headers:
  "map_of (c_defaultHeaders (snd (SetBrowser_preset c (Some p)))) K =
     (if K \<in> c_explicitHeaders c then map_of (c_defaultHeaders c) K
      else case Headers (pr_Profile p) of
          None \<Rightarrow> map_of (c_defaultHeaders c) K
        | Some hp \<Rightarrow> (case preset_value (hd_Values hp) K of Some v \<Rightarrow> Some [v] | None \<Rightarrow> map_of (c_defaultHeaders c) K))"
  by (simp add: SetBrowser_preset_def invalidated_def applyPresetDefaultsLocked_def map_of_apply_values split: option.split)

text \<open>The canonical names that a call sets explicitly.\<close>

fun sets_header :: "client_op \<Rightarrow> string set" where
  "sets_header (OpSetHeader k v) = {CanonicalMIMEHeaderKey k}"
| "sets_header (OpSetHeaders kvs) = (\<lambda>kv. CanonicalMIMEHeaderKey (fst kv)) ` set kvs"
| "sets_header _ = {}"

definition pinned :: "string \<Rightarrow> string \<Rightarrow> Client \<Rightarrow> bool" where
  "pinned K v c \<longleftrightarrow> K \<in> c_explicitHeaders c \<and> map_of (c_defaultHeaders c) K = Some [v]"

lemma pinned_cong:
  "c_explicitHeaders c' = c_explicitHeaders c \<Longrightarrow> c_defaultHeaders c' = c_defaultHeaders c \<Longrightarrow> pinned K v c' = pinned K v c"
  by (simp add: pinned_def)

lemma pinned_unrelated [simp]:
  "pinned K v (rebuildHTTPClientLocked c) = pinned K v c" "pinned K v (invalidated c) = pinned K v c"
  "pinned K v (c\<lparr>c_rt := rt\<rparr>) = pinned K v c" "pinned K v (c\<lparr>c_preset := p\<rparr>) = pinned K v c"
  "pinned K v (c\<lparr>c_forceProto := f\<rparr>) = pinned K v c" "pinned K v (c\<lparr>c_timeout := d\<rparr>) = pinned K v c"
  "pinned K v (c\<lparr>c_proxyURL := u\<rparr>) = pinned K v c" "pinned K v (c\<lparr>c_insecure := b\<rparr>) = pinned K v c"
  "pinned K v (c\<lparr>c_rootCAs := r\<rparr>) = pinned K v c" "pinned K v (c\<lparr>c_baseURL := s\<rparr>) = pinned K v c"
  "pinned K v (c\<lparr>c_noRedirect := b\<rparr>) = pinned K v c" "pinned K v (c\<lparr>c_redirectMax := m\<rparr>) = pinned K v c"
  "pinned K v (c\<lparr>c_withJar := b\<rparr>) = pinned K v c"
  by (rule pinned_cong; simp add: invalidated_def)+

lemma pinned_presets: "pinned K v c \<Longrightarrow> pinned K v (applyPresetDefaultsLocked c)"
  by (auto simp: pinned_def applyPresetDefaultsLocked_def map_of_apply_values foldl_apply_value_keeps split: option.split)

lemma pinned_SetHeader: "pinned K v c \<Longrightarrow> K \<noteq> CanonicalMIMEHeaderKey k \<Longrightarrow> pinned K v (SetHeader c k w)"
  by (simp add: pinned_def SetHeader_def map_of_hdr_Set)

lemma pinned_SetHeaders: "pinned K v c \<Longrightarrow> K \<notin> (\<lambda>kv. CanonicalMIMEHeaderKey (fst kv)) ` set kvs \<Longrightarrow> pinned K v (SetHeaders c kvs)"
  unfolding SetHeaders_def by (induction kvs arbitrary: c) (auto simp: split_beta intro: pinned_SetHeader)

lemma RoundTrip_pinned: "pinned K v (snd (snd (RoundTrip net1 net2 c req))) = pinned K v c"
  by (auto simp: RoundTrip_def try_h1_def Let_def split_def split: sum.split)

lemma exec_pinned: "pinned K v c \<Longrightarrow> K \<notin> sets_header op \<Longrightarrow> pinned K v (exec e op c)"
  by (cases op)
    (auto simp: SetBrowser_preset_def SetBrowser_name_def SetRandomBrowser_def ForceHTTP1_def UseHTTP2_def UseAutoProtocol_def
    SetTimeout_def SetProxy_def SetInsecureSkipVerify_def SetRootCAs_def SetBaseURL_def SetRedirects_def
    EnableCookieJar_def DisableCookieJar_def Let_def RoundTrip_pinned
    intro: pinned_SetHeader pinned_SetHeaders pinned_presets split: option.splits sum.splits)

text \<open>A header the user sets wins for good. After \<open>SetHeader\<close> with a valid header name, no sequence of other calls,
  presets and requests included, changes its value, unless a call sets the same header again;
  the spelling of the name does not matter.\<close>

theorem explicit_header_kept:
  assumes "list_all validHeaderFieldByte k" and "list_all (\<lambda>op. CanonicalMIMEHeaderKey k \<notin> sets_header op) ops"
  shows "hdr_Values (c_defaultHeaders (execs e ops (SetHeader c k v))) k = [v]"
proof -
  have "pinned (CanonicalMIMEHeaderKey k) v (SetHeader c k v)"
    by (simp add: pinned_def SetHeader_def map_of_hdr_Set CanonicalMIMEHeaderKey_token[OF assms(1)])
  then have "pinned (CanonicalMIMEHeaderKey k) v (execs e ops (SetHeader c k v))"
    using assms(2) unfolding execs_def by (induction ops arbitrary: c rule: rev_induct) (auto intro: exec_pinned)
  then show ?thesis by (simp add: pinned_def hdr_Values_def)
qed

theorem explicit_header_kept_witness:
  "hdr_Values (c_defaultHeaders (execs demo_env [OpSetBrowser (Some (demo_preset ''b'' [(''user-agent'', ''B'')])), OpRequest demo_request]
      (SetHeader (NewClient (Inl DecodeError) [WithPreset (Some (demo_preset ''a'' []))]) ''USER-agent'' ''mine''))) ''USER-agent'' = [''mine'']"
proof (rule explicit_header_kept)
  show "list_all validHeaderFieldByte ''USER-agent''" by code_simp
qed simp

text \<open>\<open>canonicalHeaderKey\<close> agrees with the canonicalization of \<open>net/http\<close> on every valid header name, so the names
  recorded as explicit are the names under which the values are stored, and it is idempotent on all names.\<close>

theorem canonicalHeaderKey_agrees:
  "(list_all validHeaderFieldByte s \<longrightarrow> canonicalHeaderKey s = CanonicalMIMEHeaderKey s)
   \<and> canonicalHeaderKey (canonicalHeaderKey s) = canonicalHeaderKey s"
  by (simp add: CanonicalMIMEHeaderKey_token) (simp add: canonicalHeaderKey_canon canon_case_idem)

theorem canonicalHeaderKey_agrees_witness: "canonicalHeaderKey ''x-API-key'' = CanonicalMIMEHeaderKey ''x-API-key''"
proof -
  have "list_all validHeaderFieldByte ''x-API-key''" by code_simp
  then show ?thesis using canonicalHeaderKey_agrees[of "''x-API-key''"] by blast
qed

end
