(* ===== verification/Client_Request.thy ===== *)
theory Client_Request
  imports Client
begin

unbundle bit_operations_syntax

text \<open>
  Requests and responses of the client (\<open>client/request.go\<close>, \<open>options.go\<close>, \<open>response.go\<close>, \<open>http.go\<close>). What lies in
  the standard library's networking, JSON, URL parsing and decompression code is an argument:
  \<open>url.Parse\<close>, \<open>URL.Query\<close>, \<open>URL.String\<close>, \<open>json.Marshal\<close>/\<open>Unmarshal\<close>, the round trip of \<open>http.Client.Do\<close>, the random
  boundary of \<open>mime/multipart\<close> and the decompressors. Escaping, \<open>base64\<close>, the form encoding and the header map
  are defined here. A range over a Go map visits the entries in the order of the association list.
\<close>

section \<open>Encodings of the standard library\<close>

text \<open>\<open>strings.ReplaceAll\<close> with a non-empty \<open>old\<close>.\<close>

function replace_all :: "string \<Rightarrow> string \<Rightarrow> string \<Rightarrow> string" where
  "replace_all old new s =
     (if old = [] \<or> s = [] then s
      else if take (length old) s = old then new @ replace_all old new (drop (length old) s)
      else hd s # replace_all old new (tl s))"
  by pat_completeness auto
termination by (relation "measure (\<lambda>(old, new, s). length s)") auto

declare replace_all.simps [simp del]

definition unreserved :: "char \<Rightarrow> bool" where
  "unreserved c \<longleftrightarrow> is_digit_char c \<or> is_lower_char c \<or> is_upper_char c \<or> c \<in> set [CHR ''-'', CHR ''_'', CHR ''.'', CHR ''~'']"

definition upper_hex :: "int \<Rightarrow> char" where
  "upper_hex d = upper_char (digit_char d)"

definition percent :: "char \<Rightarrow> string" where
  "percent c = [CHR ''%'', upper_hex (char_code c div 16), upper_hex (char_code c mod 16)]"

text \<open>\<open>url.QueryEscape\<close> and \<open>url.PathEscape\<close>.\<close>

definition QueryEscape :: "string \<Rightarrow> string" where
  "QueryEscape s = concat (map (\<lambda>c. if unreserved c then [c] else if c = CHR '' '' then ''+'' else percent c) s)"

definition PathEscape :: "string \<Rightarrow> string" where
  "PathEscape s = concat (map (\<lambda>c. if unreserved c \<or> c \<in> set [CHR ''$'', CHR ''&'', CHR ''+'', CHR ''='', CHR '':'', CHR ''@''] then [c] else percent c) s)"

type_synonym url_values = "(string \<times> string list) list"

definition values_Set :: "url_values \<Rightarrow> string \<Rightarrow> string \<Rightarrow> url_values" where
  "values_Set v k x = AList.update k [x] v"

definition values_Add :: "url_values \<Rightarrow> string \<Rightarrow> string \<Rightarrow> url_values" where
  "values_Add v k x = AList.update k ((case map_of v k of None \<Rightarrow> [] | Some xs \<Rightarrow> xs) @ [x]) v"

definition values_Encode :: "url_values \<Rightarrow> string" where
  "values_Encode v =
     join ''&'' (concat (map (\<lambda>k. map (\<lambda>x. QueryEscape k @ ''='' @ QueryEscape x) (case map_of v k of None \<Rightarrow> [] | Some xs \<Rightarrow> xs))
       (sort_Strings (map fst v))))"

definition base64_char :: "byte \<Rightarrow> char" where
  "base64_char b = ''ABCDEFGHIJKLMNOPQRSTUVWXYZabcdefghijklmnopqrstuvwxyz0123456789+/'' ! unat (b AND 63)"

text \<open>\<open>base64.StdEncoding.EncodeToString\<close>.\<close>

fun base64_Encode :: "bytes \<Rightarrow> string" where
  "base64_Encode [] = []"
| "base64_Encode [a] = [base64_char (drop_bit 2 a), base64_char (push_bit 4 a), CHR ''='', CHR ''='']"
| "base64_Encode [a, b] =
     [base64_char (drop_bit 2 a), base64_char (push_bit 4 a OR drop_bit 4 b), base64_char (push_bit 2 b), CHR ''='']"
| "base64_Encode (a # b # c # rest) =
     [base64_char (drop_bit 2 a), base64_char (push_bit 4 a OR drop_bit 4 b), base64_char (push_bit 2 b OR drop_bit 6 c), base64_char c]
     @ base64_Encode rest"

section \<open>The request builder\<close>

datatype ctx = Background | CallerContext nat | TimeoutContext ctx int

datatype body =
    NilBody
  | BytesBody bytes
  | StringBody string
  | ReaderBody "bytes option"
  | ValuesBody url_values
  | MapBody "(string \<times> string) list"
  | JSONBody "bytes option"

text \<open>\<open>ReaderBody\<close> carries what the reader yields, \<open>JSONBody\<close> what \<open>json.Marshal\<close> returns for the value; \<open>None\<close> is an error.\<close>

text \<open>\<open>BytesBody\<close> and \<open>StringBody\<close> are sent as they are.\<close>

record Request =
  r_ctx :: ctx
  r_headers :: header_map
  r_query :: url_values
  r_pathParams :: "(string \<times> string) list"
  r_body :: body
  r_result :: bool
  r_cancel :: bool
  r_baseURL :: string

definition newRequest :: "Client \<Rightarrow> Request" where
  "newRequest c =
     \<lparr>r_ctx = Background,
      r_headers = foldl (\<lambda>h (k, vs). foldl (\<lambda>h v. hdr_Add h k v) h vs) [] (c_defaultHeaders c),
      r_query = [], r_pathParams = [], r_body = NilBody, r_result = False, r_cancel = False, r_baseURL = []\<rparr>"

definition req_SetHeader :: "Request \<Rightarrow> string \<Rightarrow> string \<Rightarrow> Request" where
  "req_SetHeader r key value = r\<lparr>r_headers := hdr_Set (r_headers r) key value\<rparr>"

definition req_SetHeaders :: "Request \<Rightarrow> (string \<times> string) list \<Rightarrow> Request" where
  "req_SetHeaders r headers = foldl (\<lambda>r (k, v). req_SetHeader r k v) r headers"

definition req_SetBasicAuth :: "Request \<Rightarrow> string \<Rightarrow> string \<Rightarrow> Request" where
  "req_SetBasicAuth r username password =
     (let tok = base64_Encode (string_to_bytes (username @ '':'' @ password)) in
      req_SetHeader r ''Authorization'' (''Basic '' @ tok))"

definition req_SetAuthToken :: "Request \<Rightarrow> string \<Rightarrow> Request" where
  "req_SetAuthToken r token = req_SetHeader r ''Authorization'' (''Bearer '' @ token)"

definition req_SetCookie :: "Request \<Rightarrow> string \<Rightarrow> string \<Rightarrow> Request" where
  "req_SetCookie r name value = r\<lparr>r_headers := hdr_Add (r_headers r) ''Cookie'' (name @ ''='' @ value)\<rparr>"

definition req_SetQueryParam :: "Request \<Rightarrow> string \<Rightarrow> string \<Rightarrow> Request" where
  "req_SetQueryParam r key value = r\<lparr>r_query := values_Set (r_query r) key value\<rparr>"

definition req_SetQueryParams :: "Request \<Rightarrow> (string \<times> string) list \<Rightarrow> Request" where
  "req_SetQueryParams r params = foldl (\<lambda>r (k, v). req_SetQueryParam r k v) r params"

definition req_SetPathParam :: "Request \<Rightarrow> string \<Rightarrow> string \<Rightarrow> Request" where
  "req_SetPathParam r key value = r\<lparr>r_pathParams := AList.update key value (r_pathParams r)\<rparr>"

definition req_SetPathParams :: "Request \<Rightarrow> (string \<times> string) list \<Rightarrow> Request" where
  "req_SetPathParams r params = foldl (\<lambda>r (k, v). req_SetPathParam r k v) r params"

definition req_SetBody :: "Request \<Rightarrow> body \<Rightarrow> Request" where
  "req_SetBody r b = r\<lparr>r_body := b\<rparr>"

definition form_values :: "(string \<times> string) list \<Rightarrow> url_values" where
  "form_values data = foldl (\<lambda>v (k, x). values_Set v k x) [] data"

definition req_SetFormData :: "Request \<Rightarrow> (string \<times> string) list \<Rightarrow> Request" where
  "req_SetFormData r data = r\<lparr>r_body := ValuesBody (form_values data)\<rparr>"

definition escapeQuotes :: "string \<Rightarrow> string" where
  "escapeQuotes s = concat (map (\<lambda>c. if c = CHR 0x5c then [CHR 0x5c, CHR 0x5c] else if c = CHR 0x22 then [CHR 0x5c, CHR 0x22] else [c]) s)"

text \<open>\<open>SetMultipartFormData\<close>. \<open>boundary\<close> is the writer's random boundary; the first part is not preceded by a line break.\<close>

definition crlf :: string where
  "crlf = [CHR 0x0d, CHR 0x0a]"

definition multipart_part :: "string \<Rightarrow> bool \<Rightarrow> string \<times> string \<Rightarrow> string" where
  "multipart_part boundary first kv =
     (if first then [] else crlf) @ ''--'' @ boundary @ crlf
     @ ''Content-Disposition: form-data; name='' @ [CHR 0x22] @ escapeQuotes (fst kv) @ [CHR 0x22] @ crlf @ crlf @ snd kv"

definition multipart_body :: "string \<Rightarrow> (string \<times> string) list \<Rightarrow> string" where
  "multipart_body boundary data =
     (case data of [] \<Rightarrow> [] | kv # kvs \<Rightarrow> multipart_part boundary True kv @ concat (map (multipart_part boundary False) kvs))
     @ crlf @ ''--'' @ boundary @ ''--'' @ crlf"

definition req_SetMultipartFormData :: "string \<Rightarrow> Request \<Rightarrow> (string \<times> string) list \<Rightarrow> Request" where
  "req_SetMultipartFormData boundary r data =
     (req_SetHeader r ''Content-Type'' (''multipart/form-data; boundary='' @ boundary))\<lparr>r_body := BytesBody (string_to_bytes (multipart_body boundary data))\<rparr>"

definition req_SetResult :: "Request \<Rightarrow> bool \<Rightarrow> Request" where
  "req_SetResult r v = r\<lparr>r_result := v\<rparr>"

definition req_SetContext :: "Request \<Rightarrow> ctx \<Rightarrow> Request" where
  "req_SetContext r c = r\<lparr>r_ctx := c\<rparr>"

definition req_SetTimeout :: "Request \<Rightarrow> int \<Rightarrow> Request" where
  "req_SetTimeout r d = r\<lparr>r_ctx := TimeoutContext (r_ctx r) d, r_cancel := True\<rparr>"

section \<open>Execution\<close>

text \<open>The parts of a parsed URL that \<open>resolveURL\<close> touches; \<open>pu_rest\<close> stands for the others.\<close>

record parsed_URL =
  pu_Path :: string
  pu_RawPath :: string
  pu_RawQuery :: string
  pu_rest :: string

record url_lib =
  ul_Parse :: "string \<Rightarrow> parsed_URL option"
  ul_Query :: "parsed_URL \<Rightarrow> url_values"
  ul_String :: "parsed_URL \<Rightarrow> string"

definition TrimSuffix :: "string \<Rightarrow> string \<Rightarrow> string" where
  "TrimSuffix s suf = (if length suf \<le> length s \<and> drop (length s - length suf) s = suf then take (length s - length suf) s else s)"

definition TrimPrefix :: "string \<Rightarrow> string \<Rightarrow> string" where
  "TrimPrefix s pre = (if take (length pre) s = pre then drop (length pre) s else s)"

definition subst_param :: "parsed_URL \<Rightarrow> string \<times> string \<Rightarrow> parsed_URL" where
  "subst_param p kv =
     (let p = p\<lparr>pu_Path := replace_all (''{'' @ fst kv @ ''}'') (snd kv) (pu_Path p)\<rparr>;
          p = p\<lparr>pu_Path := replace_all ('':'' @ fst kv) (snd kv) (pu_Path p)\<rparr>
      in p\<lparr>pu_RawPath := replace_all (''{'' @ fst kv @ ''}'') (PathEscape (snd kv)) (pu_RawPath p)\<rparr>)"

datatype req_error = URLParseError | BodyReadError | JSONEncodeError | NewRequestError | TransportError rt_error | ReadBodyError | ResultDecodeError

definition resolveURL :: "url_lib \<Rightarrow> Request \<Rightarrow> string \<Rightarrow> req_error + string" where
  "resolveURL lib r rawURL =
     (let u = (if r_baseURL r \<noteq> [] \<and> \<not> contains rawURL ''://''
               then TrimSuffix (r_baseURL r) ''/'' @ ''/'' @ TrimPrefix rawURL ''/'' else rawURL)
      in case ul_Parse lib u of
          None \<Rightarrow> Inl URLParseError
        | Some p \<Rightarrow>
            let p = foldl subst_param p (r_pathParams r);
                p = (if length (r_query r) > 0
                     then p\<lparr>pu_RawQuery := values_Encode
                            (foldl (\<lambda>q (k, vs). foldl (\<lambda>q v. values_Add q k v) q vs) (ul_Query lib p) (r_query r))\<rparr>
                     else p)
            in Inr (ul_String lib p))"

text \<open>\<open>encodeBody\<close>: the body (\<open>None\<close> is a nil slice) and the default content type.\<close>

definition encodeBody :: "Request \<Rightarrow> req_error + bytes option \<times> string" where
  "encodeBody r =
     (case r_body r of
        NilBody \<Rightarrow> Inr (None, [])
      | BytesBody b \<Rightarrow> Inr (Some b, [])
      | StringBody s \<Rightarrow> Inr (Some (string_to_bytes s), [])
      | ReaderBody d \<Rightarrow> (case d of None \<Rightarrow> Inl BodyReadError | Some b \<Rightarrow> Inr (Some b, []))
      | ValuesBody v \<Rightarrow> Inr (Some (string_to_bytes (values_Encode v)), ''application/x-www-form-urlencoded'')
      | MapBody m \<Rightarrow> Inr (Some (string_to_bytes (values_Encode (form_values m))), ''application/x-www-form-urlencoded'')
      | JSONBody j \<Rightarrow> (case j of None \<Rightarrow> Inl JSONEncodeError | Some b \<Rightarrow> Inr (Some b, ''application/json'')))"

text \<open>The decompressors: \<open>gzip\<close>, \<open>zlib\<close>, \<open>brotli\<close>, \<open>zstd\<close>, \<open>None\<close> on an error.\<close>

record codecs =
  gunzip :: "bytes \<Rightarrow> bytes option"
  inflate :: "bytes \<Rightarrow> bytes option"
  unbrotli :: "bytes \<Rightarrow> bytes option"
  unzstd :: "bytes \<Rightarrow> bytes option"

definition decoder :: "codecs \<Rightarrow> string \<Rightarrow> (bytes \<Rightarrow> bytes option) option" where
  "decoder d enc =
     (if enc = ''gzip'' then Some (gunzip d) else if enc = ''deflate'' then Some (inflate d)
      else if enc = ''br'' then Some (unbrotli d) else if enc = ''zstd'' then Some (unzstd d) else None)"

fun decode_loop :: "codecs \<Rightarrow> bytes \<Rightarrow> string list \<Rightarrow> bytes \<Rightarrow> bytes" where
  "decode_loop d raw [] out = out"
| "decode_loop d raw (tok # toks) out =
     (let enc = ToLower (TrimSpace tok) in
      case decoder d enc of
        None \<Rightarrow> raw
      | Some f \<Rightarrow> (case f out of None \<Rightarrow> raw | Some decoded \<Rightarrow> decode_loop d raw toks decoded))"

definition decodeBody :: "codecs \<Rightarrow> string \<Rightarrow> bytes \<Rightarrow> bytes" where
  "decodeBody d contentEncoding raw =
     (if contentEncoding = [] \<or> ToLower contentEncoding = ''identity'' then raw
      else decode_loop d raw (rev (split_on (CHR '','') contentEncoding)) raw)"

record Response =
  rs_statusCode :: int
  rs_header :: header_map
  rs_rawBody :: bytes
  rs_body :: bytes

definition IsSuccess :: "Response \<Rightarrow> bool" where
  "IsSuccess r = (rs_statusCode r \<ge> 200 \<and> rs_statusCode r < 300)"

definition IsError :: "Response \<Rightarrow> bool" where
  "IsError r = (rs_statusCode r \<ge> 400 \<and> rs_statusCode r < 600)"

text \<open>
  \<open>Execute\<close>. \<open>new_ok\<close> is the check of \<open>http.NewRequestWithContext\<close> on method and URL; \<open>doer\<close> is \<open>http.Client.Do\<close> on the
  method, URL, header and body: status, header and the body stream (\<open>None\<close> when reading it fails). \<open>unmarshal\<close> tells
  whether \<open>json.Unmarshal\<close> into the result target succeeds. The result is the response, if there is one, with the error.
\<close>

type_synonym transport_reply = "rt_error + int \<times> header_map \<times> bytes option"

definition request_header :: "Request \<Rightarrow> string \<Rightarrow> header_map" where
  "request_header r contentType =
     (let h = foldl (\<lambda>h (k, vs). foldl (\<lambda>h v. hdr_Add h k v) h vs) [] (r_headers r) in
      if contentType \<noteq> [] \<and> hdr_Get h ''Content-Type'' = [] then hdr_Set h ''Content-Type'' contentType else h)"

definition Execute :: "url_lib \<Rightarrow> codecs \<Rightarrow> (string \<Rightarrow> string \<Rightarrow> bool) \<Rightarrow> (string \<Rightarrow> string \<Rightarrow> header_map \<Rightarrow> bytes option \<Rightarrow> transport_reply)
    \<Rightarrow> (bytes \<Rightarrow> bool) \<Rightarrow> Request \<Rightarrow> string \<Rightarrow> string \<Rightarrow> (string \<times> string) list list \<Rightarrow> Response option \<times> req_error option" where
  "Execute lib d new_ok doer unmarshal r method rawURL headers =
     (let r = foldl req_SetHeaders r headers in
      case resolveURL lib r rawURL of
        Inl err \<Rightarrow> (None, Some err)
      | Inr finalURL \<Rightarrow>
          (case encodeBody r of
             Inl err \<Rightarrow> (None, Some err)
           | Inr (b, contentType) \<Rightarrow>
               if \<not> new_ok method finalURL then (None, Some NewRequestError)
               else
                 (case doer method finalURL (request_header r contentType) b of
                    Inl err \<Rightarrow> (None, Some (TransportError err))
                  | Inr (status, header, stream) \<Rightarrow>
                      let out = \<lparr>rs_statusCode = status, rs_header = header, rs_rawBody = [], rs_body = []\<rparr> in
                      (case stream of
                         None \<Rightarrow> (Some out, Some ReadBodyError)
                       | Some raw \<Rightarrow>
                           let out = out\<lparr>rs_rawBody := raw, rs_body := decodeBody d (hdr_Get header ''Content-Encoding'') raw\<rparr> in
                           if r_result r \<and> status \<ge> 200 \<and> status < 300 \<and> \<not> unmarshal raw
                           then (Some out, Some ResultDecodeError)
                           else (Some out, None)))))"

section \<open>Convenience calls\<close>

datatype call_option = ClientOption "Client \<Rightarrow> Client" | RequestOption "Request \<Rightarrow> Request" | OtherOption

text \<open>\<open>call\<close> up to \<open>Execute\<close>: the fresh client and the request it builds. \<open>client_reqs\<close> is the loop over the options.\<close>

fun client_reqs :: "call_option list \<Rightarrow> Client \<Rightarrow> Client \<times> (Request \<Rightarrow> Request) list" where
  "client_reqs [] c = (c, [])"
| "client_reqs (ClientOption v # opts) c = client_reqs opts (v c)"
| "client_reqs (RequestOption v # opts) c = (let (c, reqs) = client_reqs opts c in (c, v # reqs))"
| "client_reqs (OtherOption # opts) c = client_reqs opts c"

definition call_setup :: "(preset_error + Registry) \<Rightarrow> call_option list \<Rightarrow> Client \<times> Request" where
  "call_setup reg opts =
     (let (c, reqs) = client_reqs opts (NewClient reg []); r = newRequest c in
      (c, foldl (\<lambda>r ro. ro r) r reqs))"

definition doVerb_request :: "Client \<Rightarrow> (Request \<Rightarrow> Request) list \<Rightarrow> Request" where
  "doVerb_request c reqs = foldl (\<lambda>r ro. ro r) (newRequest c) reqs"

text \<open>The functional options of \<open>options.go\<close> that do not just call a builder method.\<close>

definition opt_Header :: "string \<Rightarrow> string \<Rightarrow> Request \<Rightarrow> Request" where
  "opt_Header key value r = r\<lparr>r_headers := hdr_Set (r_headers r) key value\<rparr>"

definition opt_Headers :: "(string \<times> string) list \<Rightarrow> Request \<Rightarrow> Request" where
  "opt_Headers headers r = foldl (\<lambda>r (k, v). r\<lparr>r_headers := hdr_Set (r_headers r) k v\<rparr>) r headers"

definition opt_Query :: "string \<Rightarrow> string \<Rightarrow> Request \<Rightarrow> Request" where
  "opt_Query key value r = r\<lparr>r_query := values_Set (r_query r) key value\<rparr>"

definition opt_Queries :: "(string \<times> string) list \<Rightarrow> Request \<Rightarrow> Request" where
  "opt_Queries params r = foldl (\<lambda>r (k, v). r\<lparr>r_query := values_Set (r_query r) k v\<rparr>) r params"

definition opt_CookieHeader :: "string \<Rightarrow> Request \<Rightarrow> Request" where
  "opt_CookieHeader s r = r\<lparr>r_headers := hdr_Set (r_headers r) ''Cookie'' s\<rparr>"

definition opt_Body :: "body \<Rightarrow> Request \<Rightarrow> Request" where
  "opt_Body b r = r\<lparr>r_body := b\<rparr>"

definition opt_Result :: "bool \<Rightarrow> Request \<Rightarrow> Request" where
  "opt_Result v r = r\<lparr>r_result := v\<rparr>"

section \<open>Headers of a request\<close>

definition copy_headers :: "header_map \<Rightarrow> header_map \<Rightarrow> header_map" where
  "copy_headers h src = foldl (\<lambda>h (k, vs). foldl (\<lambda>h v. hdr_Add h k v) h vs) h src"

definition wf_header_map :: "header_map \<Rightarrow> bool" where
  "wf_header_map h \<longleftrightarrow> distinct (map fst h) \<and> (\<forall>k \<in> fst ` set h. CanonicalMIMEHeaderKey k = k)"

lemma wf_header_map_Set: "wf_header_map h \<Longrightarrow> wf_header_map (hdr_Set h k v)"
  by (auto simp: wf_header_map_def hdr_Set_def distinct_update dom_update)

lemma wf_header_map_Nil [simp]: "wf_header_map []"
  by (simp add: wf_header_map_def)

lemma hdr_Values_foldl_Add:
  "hdr_Values (foldl (\<lambda>h v. hdr_Add h k v) h vs) K =
     (if CanonicalMIMEHeaderKey k = CanonicalMIMEHeaderKey K then hdr_Values h K @ vs else hdr_Values h K)"
  by (induction vs arbitrary: h) (auto simp: hdr_Values_def hdr_Add_def Let_def update_conv' split: option.splits)

lemma hdr_Values_copy:
  assumes "wf_header_map src"
  shows "hdr_Values (copy_headers h src) K = hdr_Values h K @ hdr_Values src K"
  using assms
proof (induction src arbitrary: h)
  case (Cons kv src)
  obtain k vs where kv: "kv = (k, vs)" by (cases kv)
  have w: "wf_header_map src" and k: "CanonicalMIMEHeaderKey k = k" "k \<notin> fst ` set src"
    using Cons.prems by (auto simp: wf_header_map_def kv)
  have n: "CanonicalMIMEHeaderKey K = k \<Longrightarrow> hdr_Values src K = []"
    using k(2) by (auto simp: hdr_Values_def map_of_eq_None_iff split: option.splits dest: map_of_SomeD intro: rev_image_eqI)
  have c: "hdr_Values (kv # src) K = (if CanonicalMIMEHeaderKey K = k then vs else hdr_Values src K)"
    by (simp add: kv hdr_Values_def)
  have "copy_headers h (kv # src) = copy_headers (foldl (\<lambda>h v. hdr_Add h k v) h vs) src"
    by (simp add: copy_headers_def kv)
  then show ?case
    using Cons.IH[OF w, of "foldl (\<lambda>h v. hdr_Add h k v) h vs"] k n unfolding c by (auto simp: hdr_Values_foldl_Add)
qed (simp add: copy_headers_def hdr_Values_def)

text \<open>The default headers of a client stay well-formed.\<close>

abbreviation wf_defaults :: "Client \<Rightarrow> bool" where
  "wf_defaults c \<equiv> wf_header_map (c_defaultHeaders c)"

lemma wf_apply_values: "wf_defaults c \<Longrightarrow> wf_defaults (foldl apply_value c vals)"
  by (induction vals arbitrary: c) (auto simp: apply_value_def Let_def wf_header_map_Set)

lemma wf_applyPresetDefaults: "wf_defaults c \<Longrightarrow> wf_defaults (applyPresetDefaultsLocked c)"
  by (auto simp: applyPresetDefaultsLocked_def wf_apply_values split: option.split)

lemma wf_SetHeader: "wf_defaults c \<Longrightarrow> wf_defaults (SetHeader c k v)"
  by (simp add: SetHeader_def wf_header_map_Set)

lemma wf_SetHeaders: "wf_defaults c \<Longrightarrow> wf_defaults (SetHeaders c kvs)"
  unfolding SetHeaders_def by (induction kvs arbitrary: c) (auto simp: split_beta intro: wf_SetHeader)

lemma RoundTrip_defaults: "c_defaultHeaders (snd (snd (RoundTrip net1 net2 c req))) = c_defaultHeaders c"
  by (auto simp: RoundTrip_def try_h1_def Let_def split_def split: sum.split)

lemma exec_wf_defaults: "wf_defaults c \<Longrightarrow> wf_defaults (exec e op c)"
  by (cases op)
    (auto simp: SetBrowser_preset_def SetBrowser_name_def SetRandomBrowser_def ForceHTTP1_def UseHTTP2_def UseAutoProtocol_def
    SetTimeout_def SetProxy_def SetInsecureSkipVerify_def SetRootCAs_def SetBaseURL_def SetRedirects_def invalidated_def
    EnableCookieJar_def DisableCookieJar_def Let_def RoundTrip_defaults
    intro: wf_SetHeader wf_SetHeaders wf_applyPresetDefaults split: option.splits sum.splits)

lemma execs_wf_defaults: "wf_defaults c \<Longrightarrow> wf_defaults (execs e ops c)"
  unfolding execs_def by (induction ops arbitrary: c) (simp_all add: exec_wf_defaults)

lemma option_defaults: "client_option o' \<Longrightarrow> c_defaultHeaders (o' c) = c_defaultHeaders c"
  by (induction rule: client_option.induct)
    (auto simp: WithTimeout_def WithProxy_def WithInsecureSkipVerify_def WithRootCAs_def WithPreset_def
      Impersonate_preset_def Impersonate_name_def SetTimeout_def SetProxy_def invalidated_def split: option.splits)

lemma NewClient_wf_defaults:
  assumes "list_all client_option opts"
  shows "wf_defaults (NewClient reg opts)"
proof -
  have "list_all client_option opts \<Longrightarrow> c_defaultHeaders (foldl (\<lambda>c o'. o' c) c opts) = c_defaultHeaders c" for c
    by (induction opts arbitrary: c) (simp_all add: option_defaults)
  from this[OF assms, of blank_Client] show ?thesis
    by (auto simp: NewClient_def Let_def blank_Client_def intro!: wf_applyPresetDefaults split: sum.split)
qed

lemma wf_header_map_Add: "wf_header_map h \<Longrightarrow> wf_header_map (hdr_Add h k v)"
  by (auto simp: wf_header_map_def hdr_Add_def Let_def distinct_update dom_update)

lemma wf_copy_Add: "wf_header_map h \<Longrightarrow> wf_header_map (foldl (\<lambda>h v. hdr_Add h k v) h vs)"
  by (induction vs arbitrary: h) (simp_all add: wf_header_map_Add)

lemma wf_copy: "wf_header_map h \<Longrightarrow> wf_header_map (copy_headers h src)"
  unfolding copy_headers_def by (induction src arbitrary: h) (auto simp: split_beta intro: wf_copy_Add)

lemma hdr_Values_newRequest: "wf_defaults c \<Longrightarrow> hdr_Values (r_headers (newRequest c)) k = hdr_Values (c_defaultHeaders c) k"
  using hdr_Values_copy[of "c_defaultHeaders c" "[]" k] by (simp add: newRequest_def copy_headers_def hdr_Values_def)

lemma wf_newRequest: "wf_header_map (r_headers (newRequest c))"
  using wf_copy[of "[]" "c_defaultHeaders c"] by (simp add: newRequest_def copy_headers_def)

lemma hdr_Values_request_header:
  assumes "wf_header_map (r_headers r)" and "CanonicalMIMEHeaderKey k \<noteq> ''Content-Type''"
  shows "hdr_Values (request_header r ct) k = hdr_Values (r_headers r) k"
proof -
  have ct: "CanonicalMIMEHeaderKey ''Content-Type'' = ''Content-Type''" by code_simp
  have "hdr_Values (copy_headers [] (r_headers r)) k = hdr_Values (r_headers r) k"
    using hdr_Values_copy[OF assms(1), of "[]" k] by (simp add: hdr_Values_def)
  then show ?thesis
    using assms(2) by (simp add: request_header_def copy_headers_def[symmetric] Let_def hdr_Values_def map_of_hdr_Set ct)
qed

text \<open>C36: the header of a request is what the client and the request set. After any sequence of calls on a new client, a
  request built from it and executed carries, under every name but \<open>Content-Type\<close>, exactly the
  client's default values; a header set on the request replaces the default, for every spelling of its name.\<close>

theorem request_headers_from_client:
  assumes "list_all client_option opts" and "c = execs e ops (NewClient reg opts)" and "CanonicalMIMEHeaderKey k \<noteq> ''Content-Type''"
  shows "hdr_Values (request_header (newRequest c) ct) k = hdr_Values (c_defaultHeaders c) k
    \<and> hdr_Values (request_header (req_SetHeader (newRequest c) k' v) ct) k =
        (if CanonicalMIMEHeaderKey k = CanonicalMIMEHeaderKey k' then [v] else hdr_Values (c_defaultHeaders c) k)"
proof -
  have w: "wf_defaults c" unfolding assms(2) by (intro execs_wf_defaults NewClient_wf_defaults assms(1))
  have s: "wf_header_map (r_headers (req_SetHeader (newRequest c) k' v))"
    by (simp add: req_SetHeader_def wf_header_map_Set wf_newRequest)
  show ?thesis
    unfolding hdr_Values_request_header[OF wf_newRequest assms(3)] hdr_Values_request_header[OF s assms(3)]
    using hdr_Values_newRequest[OF w] by (simp add: req_SetHeader_def hdr_Values_def map_of_hdr_Set)
qed

theorem request_headers_from_client_witness:
  "hdr_Values (request_header (newRequest (execs demo_env [OpSetBrowser (Some (demo_preset ''b'' [(''user-agent'', ''B'')]))]
      (NewClient (Inl DecodeError) [WithPreset (Some (demo_preset ''a'' []))]))) ''application/json'') ''USER-AGENT'' = [''B'']"
proof -
  let ?c = "execs demo_env [OpSetBrowser (Some (demo_preset ''b'' [(''user-agent'', ''B'')]))] (NewClient (Inl DecodeError) [WithPreset (Some (demo_preset ''a'' []))])"
  have o': "list_all client_option [WithPreset (Some (demo_preset ''a'' []))]" by (simp add: client_option.intros)
  have n: "CanonicalMIMEHeaderKey ''USER-AGENT'' \<noteq> ''Content-Type''" by code_simp
  have "hdr_Values (c_defaultHeaders ?c) ''USER-AGENT'' = [''B'']" by code_simp
  then show ?thesis
    using request_headers_from_client[OF o' refl n, of demo_env "[OpSetBrowser (Some (demo_preset ''b'' [(''user-agent'', ''B'')]))]" "Inl DecodeError" "''application/json''"]
    by simp
qed

section \<open>Impersonation in the convenience calls\<close>

text \<open>A request does not depend on the preset, only on the default headers.\<close>

lemma client_reqs_presets:
  "client_reqs (ClientOption (Impersonate_preset (Some p)) # map RequestOption ros) c = (c\<lparr>c_preset := Some p\<rparr>, ros)"
  by (induction ros) (simp_all add: Impersonate_preset_def)

text \<open>\<open>client.Get(url, Impersonate(p))\<close> and the other convenience calls apply the option to a finished client: the
  connection uses the preset \<open>p\<close>, but the request is the one of a client with the default preset, so its
  headers, the user agent among them, are those of the default preset and not those of \<open>p\<close>.\<close>

theorem impersonation_keeps_default_headers:
  "(let (c, r) = call_setup reg (ClientOption (Impersonate_preset (Some p)) # map RequestOption ros) in
      ds_preset (snapshot c) = Some p \<and> r = doVerb_request (NewClient reg []) ros)
   \<and> (\<exists>reg p. let (c, r) = call_setup reg [ClientOption (Impersonate_preset (Some p))] in
        hdr_Get (r_headers r) ''User-Agent'' = ''chrome ua'' \<and> Preset_UserAgent (ds_preset (snapshot c)) = ''other ua'')"
proof (intro conjI)
  show "let (c, r) = call_setup reg (ClientOption (Impersonate_preset (Some p)) # map RequestOption ros) in
      ds_preset (snapshot c) = Some p \<and> r = doVerb_request (NewClient reg []) ros"
    unfolding call_setup_def client_reqs_presets by (simp add: Let_def snapshot_def doVerb_request_def newRequest_def)
  let ?p = "demo_preset ''other'' [(''user-agent'', ''other ua'')]"
  let ?r = "Inr \<lparr>r_presets = [], byKey = (\<lambda>k. if k = ''chrome'' then Some (demo_preset ''chrome'' [(''user-agent'', ''chrome ua'')]) else None),
       byName = (\<lambda>_. None), byAlias = (\<lambda>_. None)\<rparr> :: preset_error + Registry"
  have "let (c, r) = call_setup ?r [ClientOption (Impersonate_preset (Some ?p))] in
        hdr_Get (r_headers r) ''User-Agent'' = ''chrome ua'' \<and> Preset_UserAgent (ds_preset (snapshot c)) = ''other ua''"
    by code_simp
  then show "\<exists>reg p. let (c, r) = call_setup reg [ClientOption (Impersonate_preset (Some p))] in
        hdr_Get (r_headers r) ''User-Agent'' = ''chrome ua'' \<and> Preset_UserAgent (ds_preset (snapshot c)) = ''other ua''"
    by blast
qed

section \<open>Responses\<close>

text \<open>A body with the given encodings applied in order; \<open>encf\<close> is a family of compressors.\<close>

definition encoded :: "(string \<Rightarrow> bytes \<Rightarrow> bytes) \<Rightarrow> string list \<Rightarrow> bytes \<Rightarrow> bytes" where
  "encoded encf encs b = foldl (\<lambda>b e. encf e b) b encs"

definition inverts :: "codecs \<Rightarrow> (string \<Rightarrow> bytes \<Rightarrow> bytes) \<Rightarrow> string \<Rightarrow> bool" where
  "inverts d encf e \<longleftrightarrow> (\<exists>f. decoder d e = Some f \<and> (\<forall>b. f (encf e b) = Some b))"

definition coding :: "string \<Rightarrow> string" where
  "coding tok = ToLower (TrimSpace tok)"

lemma decode_loop_encoded:
  "list_all (\<lambda>t. inverts d encf (coding t)) toks \<Longrightarrow> decode_loop d raw (rev toks) (encoded encf (map coding toks) b) = b"
proof (induction toks arbitrary: b rule: rev_induct)
  case (snoc t toks)
  then obtain f where f: "decoder d (coding t) = Some f" "\<And>b. f (encf (coding t) b) = Some b"
    by (auto simp: inverts_def)
  have "list_all (\<lambda>t. inverts d encf (coding t)) toks" using snoc.prems by simp
  from snoc.IH[OF this] f show ?case by (simp add: coding_def encoded_def)
qed (simp add: encoded_def)

lemma decode_loop_unknown:
  "list_ex (\<lambda>t. decoder d (coding t) = None) toks \<Longrightarrow> decode_loop d raw toks out = raw"
  by (induction d raw toks out rule: decode_loop.induct) (auto simp: coding_def Let_def split: option.splits)

text \<open>\<open>decodeBody\<close> undoes a list of content encodings. When the server applied the encodings of the header in order and
  the decompressors invert the compressors, the result is the original body, for any spacing
  and case of the names; if one of the names is unknown, the bytes come back as received.\<close>

theorem decodeBody_inverts:
  assumes "toks \<noteq> []" and "\<forall>t \<in> set toks. CHR '','' \<notin> set t" and "join '','' toks \<noteq> []"
  shows "(list_all (\<lambda>t. inverts d encf (coding t)) toks \<longrightarrow> decodeBody d (join '','' toks) (encoded encf (map coding toks) b) = b)
    \<and> (list_ex (\<lambda>t. decoder d (coding t) = None) toks \<longrightarrow> decodeBody d (join '','' toks) raw = raw)"
proof -
  have s: "split_on (CHR '','') (join '','' toks) = toks" using assms by (intro split_on_join) auto
  have i: "\<not> inverts d encf ''identity''" by (simp add: inverts_def decoder_def)
  have c: "list_all (\<lambda>t. inverts d encf (coding t)) toks \<Longrightarrow> ToLower (join '','' toks) \<noteq> ''identity''"
  proof
    assume a: "list_all (\<lambda>t. inverts d encf (coding t)) toks" and l: "ToLower (join '','' toks) = ''identity''"
    have "CHR '','' \<notin> set (join '','' toks)"
    proof
      assume "CHR '','' \<in> set (join '','' toks)"
      then have "lower_char (CHR '','') \<in> set (ToLower (join '','' toks))" by (simp add: ToLower_def)
      moreover have "lower_char (CHR '','') = CHR '',''" by code_simp
      ultimately show False using l by simp
    qed
    then have "toks = [join '','' toks]" using s by (simp add: split_on_no_sep)
    then obtain t where t: "toks = [t]" by blast
    have "coding t = ToLower (TrimSpace t)" by (simp add: coding_def)
    also have "\<dots> = TrimSpace ''identity''" using l t by (simp add: TrimSpace_ToLower[symmetric])
    also have "\<dots> = ''identity''" by code_simp
    finally show False using a i by (simp add: t)
  qed
  show ?thesis
    using c assms(3) decode_loop_encoded[of d encf toks] decode_loop_unknown[of d "rev toks" raw raw]
    by (auto simp: decodeBody_def s)
qed

theorem decodeBody_inverts_witness:
  "\<exists>d. decodeBody d (join '','' [''gzip'', '' BR'']) (encoded (\<lambda>e b. (if e = ''gzip'' then 1 else 2) # b) [''gzip'', ''br''] [7, 8]) = [7, 8]"
proof -
  let ?d = "\<lparr>gunzip = (\<lambda>b. case b of [] \<Rightarrow> None | x # xs \<Rightarrow> if x = 1 then Some xs else None), inflate = (\<lambda>b. None),
     unbrotli = (\<lambda>b. case b of [] \<Rightarrow> None | x # xs \<Rightarrow> if x = 2 then Some xs else None), unzstd = (\<lambda>b. None)\<rparr>"
  let ?e = "\<lambda>e b. (if e = ''gzip'' then 1 else 2) # b :: bytes"
  have m: "map coding [''gzip'', '' BR''] = [''gzip'', ''br'']" by code_simp
  have "inverts ?d ?e ''gzip''" "inverts ?d ?e ''br''" by (simp_all add: inverts_def decoder_def)
  then have "list_all (\<lambda>t. inverts ?d ?e (coding t)) [''gzip'', '' BR'']" using m by simp
  then have "decodeBody ?d (join '','' [''gzip'', '' BR'']) (encoded ?e (map coding [''gzip'', '' BR'']) [7, 8]) = [7, 8]"
    using decodeBody_inverts[of "[''gzip'', '' BR'']" ?d ?e "[7, 8]"] m by simp
  then show ?thesis unfolding m by blast
qed

text \<open>How a call of \<open>Execute\<close> ends. A response comes back whenever the server answered. The registered
  result is decoded for a 2xx response only, and from the bytes as received: for a compressed response that is not
  the body the response object shows, and the call fails unless the compressed bytes are themselves the
  JSON text.\<close>

theorem Execute_result_from_raw:
  assumes "Execute lib d new_ok doer unmarshal r method rawURL hs = (resp, err)"
  shows "(resp = None \<longleftrightarrow> (\<exists>e'. err = Some e' \<and> e' \<noteq> ReadBodyError \<and> e' \<noteq> ResultDecodeError))
    \<and> (\<forall>out. resp = Some out \<and> err \<noteq> Some ReadBodyError \<longrightarrow>
         rs_body out = decodeBody d (hdr_Get (rs_header out) ''Content-Encoding'') (rs_rawBody out)
         \<and> (err = Some ResultDecodeError \<longleftrightarrow> r_result (foldl req_SetHeaders r hs) \<and> IsSuccess out \<and> \<not> unmarshal (rs_rawBody out)))"
proof -
  have u: "resolveURL lib (foldl req_SetHeaders r hs) rawURL = Inl e' \<Longrightarrow> e' = URLParseError" for e'
    by (auto simp: resolveURL_def Let_def split: option.splits)
  have b: "encodeBody (foldl req_SetHeaders r hs) = Inl e' \<Longrightarrow> e' = BodyReadError \<or> e' = JSONEncodeError" for e'
    by (auto simp: encodeBody_def split: body.splits option.splits)
  show ?thesis
    using assms u b
    by (auto simp: Execute_def Let_def IsSuccess_def split: sum.splits option.splits if_splits prod.splits)
qed

definition plain_lib :: url_lib where
  "plain_lib = \<lparr>ul_Parse = (\<lambda>s. Some \<lparr>pu_Path = s, pu_RawPath = [], pu_RawQuery = [], pu_rest = []\<rparr>), ul_Query = (\<lambda>_. []), ul_String = pu_Path\<rparr>"

theorem Execute_result_from_raw_witness:
  "\<exists>out. Execute plain_lib \<lparr>gunzip = (\<lambda>b. Some [1]), inflate = (\<lambda>b. None), unbrotli = (\<lambda>b. None), unzstd = (\<lambda>b. None)\<rparr> (\<lambda>m u. True)
      (\<lambda>m u h b. Inr (200, [(''Content-Encoding'', [''gzip''])], Some [9])) (\<lambda>b. b = [1])
      (req_SetResult (newRequest blank_Client) True) ''GET'' ''/x'' [] = (Some out, Some ResultDecodeError) \<and> rs_body out = [1]"
proof -
  let ?d = "\<lparr>gunzip = (\<lambda>b. Some [1]), inflate = (\<lambda>b. None), unbrotli = (\<lambda>b. None), unzstd = (\<lambda>b. None)\<rparr>"
  let ?x = "Execute plain_lib ?d (\<lambda>m u. True) (\<lambda>m u h b. Inr (200, [(''Content-Encoding'', [''gzip''])], Some [9])) (\<lambda>b. b = [1])
      (req_SetResult (newRequest blank_Client) True) ''GET'' ''/x'' []"
  obtain resp err where x: "?x = (resp, err)" by (cases ?x)
  have "snd ?x = Some ResultDecodeError" "map_option rs_body (fst ?x) = Some [1]" by code_simp+
  with x Execute_result_from_raw[OF x] show ?thesis by auto
qed

text \<open>The base URL of the client never reaches a request.\<close>

lemma SetBaseURL_ignored: "doVerb_request (SetBaseURL c u) reqs = doVerb_request c reqs"
  by (simp add: doVerb_request_def newRequest_def SetBaseURL_def)

end
