(* ===== verification/H2_Config.thy ===== *)
theory H2_Config
  imports Flow Client
begin

unbundle bit_operations_syntax

text \<open>
  The configuration of an HTTP/2 client (\<open>http2/config.go\<close> and the fields of \<open>Transport\<close> in
  \<open>http2/transport.go\<close>): the values a user sets, those of the wrapped \<open>net/http\<close> transport, and the
  defaults for the rest. Durations are nanoseconds, an \<open>int32\<close> is an \<open>int\<close> as in \<open>Flow\<close>.
\<close>

section \<open>Configuration\<close>

record http2Config =
  cf_MaxConcurrentStreams :: u32
  cf_StrictMaxConcurrentRequests :: bool
  cf_MaxDecoderHeaderTableSize :: u32
  cf_MaxEncoderHeaderTableSize :: u32
  cf_MaxReadFrameSize :: u32
  cf_MaxUploadBufferPerConnection :: int
  cf_MaxUploadBufferPerStream :: int
  cf_SendPingTimeout :: int
  cf_PingTimeout :: int
  cf_WriteByteTimeout :: int
  cf_PermitProhibitedCipherSuites :: bool

text \<open>\<open>http.HTTP2Config\<close> of \<open>net/http\<close>.\<close>

record net_HTTP2Config =
  nc_MaxConcurrentStreams :: int
  nc_StrictMaxConcurrentRequests :: bool
  nc_MaxDecoderHeaderTableSize :: int
  nc_MaxEncoderHeaderTableSize :: int
  nc_MaxReadFrameSize :: int
  nc_MaxReceiveBufferPerConnection :: int
  nc_MaxReceiveBufferPerStream :: int
  nc_SendPingTimeout :: int
  nc_PingTimeout :: int
  nc_WriteByteTimeout :: int
  nc_PermitProhibitedCipherSuites :: bool

record h1_Transport =
  t1_MaxResponseHeaderBytes :: int
  t1_DisableKeepAlives :: bool
  t1_HTTP2 :: "net_HTTP2Config option"

record Transport =
  t_MaxHeaderListSize :: u32
  t_MaxReadFrameSize :: u32
  t_MaxDecoderHeaderTableSize :: u32
  t_MaxEncoderHeaderTableSize :: u32
  t_StrictMaxConcurrentStreams :: bool
  t_ReadIdleTimeout :: int
  t_PingTimeout :: int
  t_WriteByteTimeout :: int
  t_Fingerprint :: "Fingerprint option"
  t_t1 :: "h1_Transport option"

definition setDefault :: "'a::linorder \<Rightarrow> 'a \<Rightarrow> 'a \<Rightarrow> 'a \<Rightarrow> 'a" where
  "setDefault v minval maxval defval = (if v < minval \<or> v > maxval then defval else v)"

definition setConfigDefaults :: "http2Config \<Rightarrow> bool \<Rightarrow> http2Config" where
  "setConfigDefaults conf server =
     conf\<lparr>cf_MaxConcurrentStreams := setDefault (cf_MaxConcurrentStreams conf) 1 (NOT 0) 250,
          cf_MaxEncoderHeaderTableSize := setDefault (cf_MaxEncoderHeaderTableSize conf) 1 (NOT 0) 4096,
          cf_MaxDecoderHeaderTableSize := setDefault (cf_MaxDecoderHeaderTableSize conf) 1 (NOT 0) 4096,
          cf_MaxUploadBufferPerConnection := setDefault (cf_MaxUploadBufferPerConnection conf) 65535 2147483647 (if server then 1048576 else 1073741824),
          cf_MaxUploadBufferPerStream := setDefault (cf_MaxUploadBufferPerStream conf) 1 2147483647 (if server then 1048576 else 4194304),
          cf_MaxReadFrameSize := setDefault (cf_MaxReadFrameSize conf) 16384 16777215 1048576,
          cf_PingTimeout := setDefault (cf_PingTimeout conf) 1 9223372036854775807 15000000000\<rparr>"

definition fillNetHTTPConfig :: "http2Config \<Rightarrow> net_HTTP2Config option \<Rightarrow> http2Config" where
  "fillNetHTTPConfig conf h2 =
     (case h2 of
        None \<Rightarrow> conf
      | Some n \<Rightarrow>
          conf\<lparr>cf_MaxConcurrentStreams := if nc_MaxConcurrentStreams n \<noteq> 0 then of_int (nc_MaxConcurrentStreams n) else cf_MaxConcurrentStreams conf,
               cf_StrictMaxConcurrentRequests := nc_StrictMaxConcurrentRequests n \<or> cf_StrictMaxConcurrentRequests conf,
               cf_MaxEncoderHeaderTableSize := if nc_MaxEncoderHeaderTableSize n \<noteq> 0 then of_int (nc_MaxEncoderHeaderTableSize n) else cf_MaxEncoderHeaderTableSize conf,
               cf_MaxDecoderHeaderTableSize := if nc_MaxDecoderHeaderTableSize n \<noteq> 0 then of_int (nc_MaxDecoderHeaderTableSize n) else cf_MaxDecoderHeaderTableSize conf,
               cf_MaxReadFrameSize := if nc_MaxReadFrameSize n \<noteq> 0 then of_int (nc_MaxReadFrameSize n) else cf_MaxReadFrameSize conf,
               cf_MaxUploadBufferPerConnection := if nc_MaxReceiveBufferPerConnection n \<noteq> 0 then int32 (nc_MaxReceiveBufferPerConnection n) else cf_MaxUploadBufferPerConnection conf,
               cf_MaxUploadBufferPerStream := if nc_MaxReceiveBufferPerStream n \<noteq> 0 then int32 (nc_MaxReceiveBufferPerStream n) else cf_MaxUploadBufferPerStream conf,
               cf_SendPingTimeout := if nc_SendPingTimeout n \<noteq> 0 then nc_SendPingTimeout n else cf_SendPingTimeout conf,
               cf_PingTimeout := if nc_PingTimeout n \<noteq> 0 then nc_PingTimeout n else cf_PingTimeout conf,
               cf_WriteByteTimeout := if nc_WriteByteTimeout n \<noteq> 0 then nc_WriteByteTimeout n else cf_WriteByteTimeout conf,
               cf_PermitProhibitedCipherSuites := nc_PermitProhibitedCipherSuites n \<or> cf_PermitProhibitedCipherSuites conf\<rparr>)"

definition configFromTransport :: "Transport \<Rightarrow> http2Config" where
  "configFromTransport h2 =
     (let conf = \<lparr>cf_MaxConcurrentStreams = 0, cf_StrictMaxConcurrentRequests = t_StrictMaxConcurrentStreams h2,
                  cf_MaxDecoderHeaderTableSize = t_MaxDecoderHeaderTableSize h2, cf_MaxEncoderHeaderTableSize = t_MaxEncoderHeaderTableSize h2,
                  cf_MaxReadFrameSize = t_MaxReadFrameSize h2, cf_MaxUploadBufferPerConnection = 0, cf_MaxUploadBufferPerStream = 0,
                  cf_SendPingTimeout = t_ReadIdleTimeout h2, cf_PingTimeout = t_PingTimeout h2, cf_WriteByteTimeout = t_WriteByteTimeout h2,
                  cf_PermitProhibitedCipherSuites = False\<rparr>;
          conf = (if cf_MaxReadFrameSize conf < 16384 then conf\<lparr>cf_MaxReadFrameSize := 16384\<rparr>
                  else if cf_MaxReadFrameSize conf > 16777215 then conf\<lparr>cf_MaxReadFrameSize := 16777215\<rparr>
                  else conf);
          conf = (case t_t1 h2 of None \<Rightarrow> conf | Some t1 \<Rightarrow> fillNetHTTPConfig conf (t1_HTTP2 t1))
      in setConfigDefaults conf False)"

definition adjustHTTP1MaxHeaderSize :: "int \<Rightarrow> int" where
  "adjustHTTP1MaxHeaderSize n = (n + 10 * 32 + 2 ^ 63) mod 2 ^ 64 - 2 ^ 63"

definition Transport_maxHeaderListSize :: "Transport \<Rightarrow> u32" where
  "Transport_maxHeaderListSize t =
     (let n = (case t_t1 t of
                 Some t1 \<Rightarrow> if t1_MaxResponseHeaderBytes t1 \<noteq> 0
                           then if t1_MaxResponseHeaderBytes t1 > 0 then adjustHTTP1MaxHeaderSize (t1_MaxResponseHeaderBytes t1)
                                else t1_MaxResponseHeaderBytes t1
                           else uint (t_MaxHeaderListSize t)
               | None \<Rightarrow> uint (t_MaxHeaderListSize t))
      in if n \<le> 0 then 10485760 else if n \<ge> 4294967295 then 0 else of_int n)"

end
