(* ===== verification/Request_Encoding.thy ===== *)
theory Request_Encoding
  imports Http_Header Profile Frame_Meta
begin

text \<open>
  The request encoder of \<open>http2/internal/httpcommon\<close> (\<open>ascii.go\<close>, \<open>headermap.go\<close>, \<open>request.go\<close>): the list of
  header fields of an HTTP/2 request, in the order of a fingerprint. The checks of \<open>httpguts\<close>
  (\<open>golang.org/x/net\<close>) are the argument \<open>guts\<close>. The function \<open>headerf\<close> that receives the fields only
  collects them, so the result carries the list. A range over the header map that has no defined order takes the
  order of the keys as an argument, and the two passes of \<open>EncodeHeaders\<close> take one each. The client trace, which
  observes the fields, is left out.
\<close>

section \<open>ASCII\<close>

definition lower_byte :: "char \<Rightarrow> char" where
  "lower_byte b = (if 65 \<le> char_code b \<and> char_code b \<le> 90 then char_of (char_code b + 32) else b)"

fun equal_fold_loop :: "string \<Rightarrow> string \<Rightarrow> bool" where
  "equal_fold_loop (a # s) (b # t) = (if lower_byte a \<noteq> lower_byte b then False else equal_fold_loop s t)"
| "equal_fold_loop _ _ = True"

definition asciiEqualFold :: "string \<Rightarrow> string \<Rightarrow> bool" where
  "asciiEqualFold s t = (if length s \<noteq> length t then False else equal_fold_loop s t)"

definition isASCIIPrint :: "string \<Rightarrow> bool" where
  "isASCIIPrint s = list_all (\<lambda>c. \<not> (char_code c < 32 \<or> char_code c > 126)) s"

text \<open>\<open>asciiToLower\<close>; \<open>None\<close> is the result with \<open>ok\<close> false.\<close>

definition asciiToLower :: "string \<Rightarrow> string option" where
  "asciiToLower s = (if \<not> isASCIIPrint s then None else Some (ToLower s))"

section \<open>Header names\<close>

definition common_headers :: "string list" where
  "common_headers =
    [''accept'', ''accept-charset'', ''accept-encoding'', ''accept-language'', ''accept-ranges'', ''age'',
     ''access-control-allow-credentials'', ''access-control-allow-headers'', ''access-control-allow-methods'',
     ''access-control-allow-origin'', ''access-control-expose-headers'', ''access-control-max-age'',
     ''access-control-request-headers'', ''access-control-request-method'', ''allow'', ''authorization'',
     ''cache-control'', ''content-disposition'', ''content-encoding'', ''content-language'', ''content-length'',
     ''content-location'', ''content-range'', ''content-type'', ''cookie'', ''date'', ''etag'', ''expect'', ''expires'',
     ''from'', ''host'', ''if-match'', ''if-modified-since'', ''if-none-match'', ''if-unmodified-since'',
     ''last-modified'', ''link'', ''location'', ''max-forwards'', ''origin'', ''proxy-authenticate'',
     ''proxy-authorization'', ''range'', ''referer'', ''refresh'', ''retry-after'', ''server'', ''set-cookie'',
     ''strict-transport-security'', ''trailer'', ''transfer-encoding'', ''user-agent'', ''vary'', ''via'',
     ''www-authenticate'', ''x-forwarded-for'', ''x-forwarded-proto'']"

definition commonLowerHeader :: "(string \<times> string) list" where
  "commonLowerHeader = map (\<lambda>v. (CanonicalMIMEHeaderKey v, v)) common_headers"

definition commonCanonHeader :: "(string \<times> string) list" where
  "commonCanonHeader = map (\<lambda>v. (v, CanonicalMIMEHeaderKey v)) common_headers"

definition LowerHeader :: "string \<Rightarrow> string option" where
  "LowerHeader v = (case map_of commonLowerHeader v of Some s \<Rightarrow> Some s | None \<Rightarrow> asciiToLower v)"

definition CanonicalHeader :: "string \<Rightarrow> string" where
  "CanonicalHeader v = (case map_of commonCanonHeader v of Some s \<Rightarrow> s | None \<Rightarrow> CanonicalMIMEHeaderKey v)"

definition CachedCanonicalHeader :: "string \<Rightarrow> string option" where
  "CachedCanonicalHeader v = map_of commonCanonHeader v"

section \<open>Requests\<close>

record req_URL =
  ru_Scheme :: string
  ru_Host :: string
  ru_Opaque :: string
  ru_RequestURI :: string

record h2_Request =
  hq_URL :: "req_URL option"
  hq_Method :: string
  hq_Host :: string
  hq_Header :: header_map
  hq_Trailer :: header_map
  hq_ActualContentLength :: int

record EncodeHeadersParam =
  ep_Request :: h2_Request
  ep_AddGzipHeader :: bool
  ep_PeerMaxHeaderListSize :: u64
  ep_DefaultUserAgent :: string
  ep_PseudoHeaderOrder :: "string list"
  ep_HeaderOrder :: "string list"

record httpguts =
  PunycodeHostPort :: "string \<Rightarrow> string option"
  ValidHostHeader :: "string \<Rightarrow> bool"
  ValidHeaderFieldName :: "string \<Rightarrow> bool"
  ValidHeaderFieldValue :: "string \<Rightarrow> bool"

datatype enc_error =
    InvalidUpgrade | InvalidTransferEncoding | InvalidConnection
  | NilURL | PunycodeError | InvalidHost | InvalidProtocol | InvalidPath
  | InvalidHeader | InvalidTrailer | InvalidTrailerKey string | ErrRequestHeaderListSize

definition header_values :: "header_map \<Rightarrow> string \<Rightarrow> string list" where
  "header_values h k = (case map_of h k of None \<Rightarrow> [] | Some vs \<Rightarrow> vs)"

definition checkConnHeaders :: "header_map \<Rightarrow> enc_error option" where
  "checkConnHeaders h =
     (let up = header_values h ''Upgrade''; te = header_values h ''Transfer-Encoding''; cn = header_values h ''Connection'' in
      if length up > 0 \<and> (up ! 0 \<noteq> [] \<and> up ! 0 \<noteq> ''chunked'') then Some InvalidUpgrade
      else if length te > 0 \<and> (length te > 1 \<or> te ! 0 \<noteq> [] \<and> te ! 0 \<noteq> ''chunked'') then Some InvalidTransferEncoding
      else if length cn > 0 \<and> (length cn > 1 \<or> cn ! 0 \<noteq> [] \<and> \<not> asciiEqualFold (cn ! 0) ''close'' \<and> \<not> asciiEqualFold (cn ! 0) ''keep-alive'')
      then Some InvalidConnection
      else None)"

fun trailer_keys :: "string list \<Rightarrow> enc_error + string list" where
  "trailer_keys [] = Inr []"
| "trailer_keys (k # ks) =
     (let k = CanonicalHeader k in
      if k \<in> set [''Transfer-Encoding'', ''Trailer'', ''Content-Length''] then Inl (InvalidTrailerKey k)
      else map_res (\<lambda>ks. k # ks) (trailer_keys ks))"

definition commaSeparatedTrailers :: "header_map \<Rightarrow> enc_error + string" where
  "commaSeparatedTrailers trailer =
     map_res (\<lambda>keys. if length keys > 0 then join '','' (sort_Strings keys) else []) (trailer_keys (map fst trailer))"

definition validPseudoPath :: "string \<Rightarrow> bool" where
  "validPseudoPath v \<longleftrightarrow> length v > 0 \<and> v ! 0 = CHR ''/'' \<or> v = ''*''"

definition validateHeaders :: "httpguts \<Rightarrow> header_map \<Rightarrow> bool" where
  "validateHeaders guts hdrs =
     list_all (\<lambda>(k, vv). (ValidHeaderFieldName guts k \<or> k = '':protocol'') \<and> list_all (ValidHeaderFieldValue guts) vv) hdrs"

definition shouldSendReqContentLength :: "string \<Rightarrow> int \<Rightarrow> bool" where
  "shouldSendReqContentLength method contentLength =
     (if contentLength > 0 then True else if contentLength < 0 then False
      else method \<in> set [''POST'', ''PUT'', ''PATCH''])"

definition IsRequestGzip :: "string \<Rightarrow> header_map \<Rightarrow> bool \<Rightarrow> bool" where
  "IsRequestGzip method header disableCompression \<longleftrightarrow>
     \<not> disableCompression \<and> length (header_values header ''Accept-Encoding'') = 0
     \<and> length (header_values header ''Range'') = 0 \<and> method \<noteq> ''HEAD''"

section \<open>Enumeration of the fields\<close>

text \<open>The values of \<open>EncodeHeaders\<close> that the closure \<open>enumerateHeaders\<close> captures.\<close>

record enum_env =
  en_host :: string
  en_path :: string
  en_protocol :: string
  en_trailers :: string
  en_normalConnect :: bool
  en_scheme :: string

definition pseudo_codes :: "(string \<times> string) list" where
  "pseudo_codes = [(''m'', '':method''), (''a'', '':authority''), (''s'', '':scheme''), (''p'', '':path'')]"

definition pseudo_field :: "enum_env \<Rightarrow> string \<Rightarrow> string \<Rightarrow> (string \<times> string) list" where
  "pseudo_field env m tok =
     (let name = (case map_of pseudo_codes (ToLower tok) of Some full \<Rightarrow> full | None \<Rightarrow> tok) in
      if name = '':authority'' then [('':authority'', en_host env)]
      else if name = '':method'' then [('':method'', m)]
      else if name = '':scheme'' then [('':scheme'', en_scheme env)]
      else if name = '':path'' then [('':path'', en_path env)]
      else [])"

definition pseudo_fields :: "enum_env \<Rightarrow> h2_Request \<Rightarrow> string list \<Rightarrow> (string \<times> string) list" where
  "pseudo_fields env req order =
     (let m = (if hq_Method req = [] then ''GET'' else hq_Method req) in
      if length order > 0 \<and> \<not> en_normalConnect env
      then concat (map (pseudo_field env m) order)
      else [('':authority'', en_host env), ('':method'', m)]
           @ (if \<not> en_normalConnect env then [('':path'', en_path env), ('':scheme'', en_scheme env)] else []))"

text \<open>The keys in the order of the fingerprint; \<open>keys\<close> is the order of the range over the map.\<close>

fun order_keys :: "header_map \<Rightarrow> string list \<Rightarrow> string list \<Rightarrow> string list" where
  "order_keys h seen [] = []"
| "order_keys h seen (name # names) =
     (let c = CanonicalMIMEHeaderKey name in
      if map_of h c = None \<or> c \<in> set seen then order_keys h seen names
      else c # order_keys h (seen @ [c]) names)"

definition header_keys :: "header_map \<Rightarrow> string list \<Rightarrow> string list \<Rightarrow> string list" where
  "header_keys h order keys =
     (if length order > 0
      then let listed = order_keys h [] order in listed @ filter (\<lambda>k. k \<notin> set listed) keys
      else sort_Strings keys)"

text \<open>The loop over one cookie header value.\<close>

function cookie_split :: "string \<Rightarrow> string list" where
  "cookie_split v =
     (if CHR '';'' \<in> set v
      then let p = length (takeWhile (\<lambda>c. c \<noteq> CHR '';'') v)
           in take p v # cookie_split (dropWhile (\<lambda>c. c = CHR '' '') (drop (p + 1) v))
      else if length v > 0 then [v] else [])"
  by pat_completeness auto
termination
  by (relation "measure length")
    (auto intro!: le_less_trans [OF length_dropWhile_le] diff_less length_pos_if_in_set)

declare cookie_split.simps [simp del]

definition dropped_header :: "string \<Rightarrow> bool" where
  "dropped_header k \<longleftrightarrow> asciiEqualFold k ''host'' \<or> asciiEqualFold k ''content-length''
     \<or> asciiEqualFold k ''connection'' \<or> asciiEqualFold k ''proxy-connection'' \<or> asciiEqualFold k ''transfer-encoding''
     \<or> asciiEqualFold k ''upgrade'' \<or> asciiEqualFold k ''keep-alive''"

definition key_fields :: "string \<Rightarrow> string list \<Rightarrow> (string \<times> string) list" where
  "key_fields k vv =
     (if dropped_header k then []
      else if asciiEqualFold k ''user-agent'' then
        (if length vv < 1 then [] else if vv ! 0 = [] then [] else [(k, vv ! 0)])
      else if asciiEqualFold k ''cookie'' then map (\<lambda>c. (''cookie'', c)) (concat (map cookie_split vv))
      else if k = '':protocol'' then []
      else map (\<lambda>v. (k, v)) vv)"

definition enumerateHeaders :: "EncodeHeadersParam \<Rightarrow> enum_env \<Rightarrow> string list \<Rightarrow> (string \<times> string) list" where
  "enumerateHeaders param env keys =
     (let req = ep_Request param; hkeys = header_keys (hq_Header req) (ep_HeaderOrder param) keys in
      pseudo_fields env req (ep_PseudoHeaderOrder param)
      @ (if en_protocol env \<noteq> [] then [('':protocol'', en_protocol env)] else [])
      @ (if en_trailers env \<noteq> [] then [(''trailer'', en_trailers env)] else [])
      @ concat (map (\<lambda>k. key_fields k (header_values (hq_Header req) k)) hkeys)
      @ (if shouldSendReqContentLength (hq_Method req) (hq_ActualContentLength req)
         then [(''content-length'', Itoa (hq_ActualContentLength req))] else [])
      @ (if ep_AddGzipHeader param then [(''accept-encoding'', ''gzip'')] else [])
      @ (if list_ex (\<lambda>k. \<not> dropped_header k \<and> asciiEqualFold k ''user-agent'') hkeys then []
         else [(''user-agent'', ep_DefaultUserAgent param)]))"

definition list_size :: "(string \<times> string) list \<Rightarrow> u64" where
  "list_size fs = foldl (\<lambda>n (k, v). n + ucast (HeaderField_Size \<lparr>hf_Name = k, hf_Value = v, hf_Sensitive = False\<rparr>)) 0 fs"

definition written_fields :: "(string \<times> string) list \<Rightarrow> (string \<times> string) list" where
  "written_fields fs = concat (map (\<lambda>(k, v). case LowerHeader k of None \<Rightarrow> [] | Some low \<Rightarrow> [(low, v)]) fs)"

record EncodeHeadersResult =
  er_fields :: "(string \<times> string) list"
  er_HasBody :: bool
  er_HasTrailers :: bool

definition TrimPrefixString :: "string \<Rightarrow> string \<Rightarrow> string" where
  "TrimPrefixString s pre = (if take (length pre) s = pre then drop (length pre) s else s)"

text \<open>The validation part, up to the enumeration.\<close>

definition enum_prepare :: "httpguts \<Rightarrow> h2_Request \<Rightarrow> enc_error + enum_env" where
  "enum_prepare guts req =
     (case checkConnHeaders (hq_Header req) of
        Some e \<Rightarrow> Inl e
      | None \<Rightarrow>
     (case hq_URL req of
        None \<Rightarrow> Inl NilURL
      | Some url \<Rightarrow>
     (case PunycodeHostPort guts (if hq_Host req = [] then ru_Host url else hq_Host req) of
        None \<Rightarrow> Inl PunycodeError
      | Some host \<Rightarrow>
        if \<not> ValidHostHeader guts host then Inl InvalidHost
        else
          let protocol = (case header_values (hq_Header req) '':protocol'' of [] \<Rightarrow> [] | v # _ \<Rightarrow> v);
              isNormalConnect = (hq_Method req = ''CONNECT'' \<and> protocol = [])
          in if \<not> isNormalConnect \<and> protocol \<noteq> [] \<and> hq_Method req \<noteq> ''CONNECT'' then Inl InvalidProtocol
             else
               let path = (if isNormalConnect then []
                           else if validPseudoPath (ru_RequestURI url) then ru_RequestURI url
                           else TrimPrefixString (ru_RequestURI url) (ru_Scheme url @ ''://'' @ host))
               in if \<not> isNormalConnect \<and> \<not> validPseudoPath path then Inl InvalidPath
                  else if \<not> validateHeaders guts (hq_Header req) then Inl InvalidHeader
                  else if \<not> validateHeaders guts (hq_Trailer req) then Inl InvalidTrailer
                  else map_res (\<lambda>trailers.
                         \<lparr>en_host = host, en_path = path, en_protocol = protocol, en_trailers = trailers,
                          en_normalConnect = isNormalConnect, en_scheme = ru_Scheme url\<rparr>)
                       (commaSeparatedTrailers (hq_Trailer req)))))"

definition EncodeHeaders :: "httpguts \<Rightarrow> EncodeHeadersParam \<Rightarrow> string list \<Rightarrow> string list \<Rightarrow> enc_error + EncodeHeadersResult" where
  "EncodeHeaders guts param keys1 keys2 =
     bind_res (enum_prepare guts (ep_Request param)) (\<lambda>env.
       if ep_PeerMaxHeaderListSize param > 0 \<and> list_size (enumerateHeaders param env keys1) > ep_PeerMaxHeaderListSize param
       then Inl ErrRequestHeaderListSize
       else Inr \<lparr>er_fields = written_fields (enumerateHeaders param env keys2),
                 er_HasBody = (hq_ActualContentLength (ep_Request param) \<noteq> 0),
                 er_HasTrailers = (en_trailers env \<noteq> [])\<rparr>)"

section \<open>Requests on the server side\<close>

text \<open>\<open>NewServerRequest\<close>; \<open>contains_token\<close> is \<open>httpguts.HeaderValuesContainsToken\<close>, \<open>parse\<close> is \<open>url.ParseRequestURI\<close>. The header map it
  changes in place is part of the result.\<close>

record ServerRequestParam =
  sr_Method :: string
  sr_Scheme :: string
  sr_Authority :: string
  sr_Path :: string
  sr_Protocol :: string
  sr_Header :: header_map

datatype 'u server_url = HostURL string | ParsedURL 'u

record 'u ServerRequestResult =
  sq_URL :: "'u server_url"
  sq_RequestURI :: string
  sq_Trailer :: "string list option"
  sq_NeedsContinue :: bool
  sq_Header :: header_map

definition textproto_TrimString :: "string \<Rightarrow> string" where
  "textproto_TrimString s =
     (let sp = (\<lambda>c. char_code c \<in> {32, 9, 10, 13}) in rev (dropWhile sp (rev (dropWhile sp s))))"

fun trailer_names :: "string list option \<Rightarrow> string list \<Rightarrow> string list option" where
  "trailer_names t [] = t"
| "trailer_names t (key # keys) =
     (let key = CanonicalMIMEHeaderKey (textproto_TrimString key) in
      if key \<in> set [''Transfer-Encoding'', ''Trailer'', ''Content-Length''] then trailer_names t keys
      else
        let ks = (case t of None \<Rightarrow> [] | Some ks \<Rightarrow> ks) in
        trailer_names (Some (if key \<in> set ks then ks else ks @ [key])) keys)"

definition NewServerRequest :: "(string list \<Rightarrow> string \<Rightarrow> bool) \<Rightarrow> (string \<Rightarrow> 'u option) \<Rightarrow> ServerRequestParam
    \<Rightarrow> string + 'u ServerRequestResult" where
  "NewServerRequest contains_token parse rp =
     (let needsContinue = contains_token (header_values (sr_Header rp) ''Expect'') ''100-continue'';
          h = (if needsContinue then AList.delete ''Expect'' (sr_Header rp) else sr_Header rp);
          cookies = header_values h ''Cookie'';
          h = (if length cookies > 1 then AList.update ''Cookie'' [join ''; '' cookies] h else h);
          trailer = trailer_names None (concat (map (split_on (CHR '','')) (header_values h ''Trailer'')));
          h = AList.delete ''Trailer'' h
      in if CHR ''@'' \<in> set (sr_Authority rp) \<and> (sr_Scheme rp = ''http'' \<or> sr_Scheme rp = ''https'') then Inl ''userinfo_in_authority''
         else if sr_Method rp = ''CONNECT'' \<and> sr_Protocol rp = []
         then Inr \<lparr>sq_URL = HostURL (sr_Authority rp), sq_RequestURI = sr_Authority rp, sq_Trailer = trailer,
                   sq_NeedsContinue = needsContinue, sq_Header = h\<rparr>
         else (case parse (sr_Path rp) of
                 None \<Rightarrow> Inl ''bad_path''
               | Some u \<Rightarrow> Inr \<lparr>sq_URL = ParsedURL u, sq_RequestURI = sr_Path rp, sq_Trailer = trailer,
                                sq_NeedsContinue = needsContinue, sq_Header = h\<rparr>))"

section \<open>Names\<close>

lemma lower_byte_eq: "lower_byte = lower_char"
  by (simp add: fun_eq_iff lower_byte_def lower_char_def Let_def)

lemma asciiEqualFold_iff: "asciiEqualFold s t \<longleftrightarrow> ToLower s = ToLower t"
proof -
  have "length s = length t \<Longrightarrow> equal_fold_loop s t \<longleftrightarrow> map lower_char s = map lower_char t"
    by (induction s t rule: list_induct2) (simp_all add: lower_byte_eq)
  then show ?thesis by (auto simp: asciiEqualFold_def ToLower_def dest: map_eq_imp_length_eq)
qed

lemma common_lower: "list_all (\<lambda>v. ToLower v = v \<and> isASCIIPrint v \<and> ToLower (CanonicalMIMEHeaderKey v) = v \<and> isASCIIPrint (CanonicalMIMEHeaderKey v)) common_headers"
  by code_simp

text \<open>The table of well-known names only saves work.\<close>

lemma LowerHeader_eq: "LowerHeader v = asciiToLower v"
proof (cases "map_of commonLowerHeader v")
  case (Some s)
  then have "(v, s) \<in> set commonLowerHeader" by (rule map_of_SomeD)
  then have "s \<in> set common_headers" "v = CanonicalMIMEHeaderKey s" by (auto simp: commonLowerHeader_def)
  then show ?thesis using common_lower Some by (auto simp: LowerHeader_def asciiToLower_def list_all_iff)
qed (simp add: LowerHeader_def)

lemma CanonicalHeader_eq: "CanonicalHeader v = CanonicalMIMEHeaderKey v"
  by (auto simp: CanonicalHeader_def commonCanonHeader_def dest: map_of_SomeD split: option.split)

section \<open>Order\<close>

lemma set_order_keys: "set (order_keys h seen names) = {c \<in> CanonicalMIMEHeaderKey ` set names. map_of h c \<noteq> None} - set seen"
  by (induction h seen names rule: order_keys.induct) (auto simp: Let_def)

lemma distinct_order_keys: "distinct (order_keys h seen names)"
  by (induction h seen names rule: order_keys.induct) (auto simp: Let_def set_order_keys)

text \<open>Whatever the order, every key of the map is visited exactly once.\<close>

lemma header_keys_perm:
  assumes "distinct keys" and "set keys = fst ` set h"
  shows "mset (header_keys h order keys) = mset keys"
proof -
  have sub: "set (order_keys h [] order) \<subseteq> set keys"
    using assms(2) by (auto simp: set_order_keys dest!: map_of_SomeD intro: rev_image_eqI)
  have "distinct (header_keys h order keys) \<and> set (header_keys h order keys) = set keys" if "order \<noteq> []"
    using that assms(1) sub distinct_order_keys by (auto simp: header_keys_def Let_def)
  then show ?thesis
    using assms(1) by (cases "order = []") (simp_all add: header_keys_def sort_Strings_def set_eq_iff_mset_eq_distinct[symmetric])
qed

lemma order_keys_filter:
  "distinct (map CanonicalMIMEHeaderKey names) \<Longrightarrow> CanonicalMIMEHeaderKey ` set names \<inter> set seen = {} \<Longrightarrow>
   order_keys h seen names = filter (\<lambda>c. map_of h c \<noteq> None) (map CanonicalMIMEHeaderKey names)"
  by (induction h seen names rule: order_keys.induct) (auto simp: Let_def)

definition expand_pseudo :: "string \<Rightarrow> string" where
  "expand_pseudo tok = (case map_of pseudo_codes (ToLower tok) of Some full \<Rightarrow> full | None \<Rightarrow> tok)"

text \<open>An order that names each of the four pseudo-headers once.\<close>

definition full_order :: "string list \<Rightarrow> bool" where
  "full_order order \<longleftrightarrow> mset (map expand_pseudo order) = mset standard_pseudo"

definition pseudo_value :: "enum_env \<Rightarrow> h2_Request \<Rightarrow> string \<Rightarrow> string" where
  "pseudo_value env req name =
     (if name = '':authority'' then en_host env
      else if name = '':method'' then (if hq_Method req = [] then ''GET'' else hq_Method req)
      else if name = '':scheme'' then en_scheme env else en_path env)"

lemma pseudo_field_eq:
  "expand_pseudo tok \<in> set standard_pseudo \<Longrightarrow>
   pseudo_field env (if hq_Method req = [] then ''GET'' else hq_Method req) tok = [(expand_pseudo tok, pseudo_value env req (expand_pseudo tok))]"
  by (auto simp: pseudo_field_def expand_pseudo_def pseudo_value_def standard_pseudo_def Let_def split: option.splits)

lemma full_order_set: "full_order order \<Longrightarrow> expand_pseudo ` set order = set standard_pseudo"
  by (metis full_order_def image_set mset_eq_setD)

lemma full_order_ne: "full_order order \<Longrightarrow> order \<noteq> []"
  by (auto simp: full_order_def standard_pseudo_def)

lemma pseudo_fields_full:
  assumes "full_order order" and "\<not> en_normalConnect env"
  shows "pseudo_fields env req order = map (\<lambda>n. (n, pseudo_value env req n)) (map expand_pseudo order)"
proof -
  have "\<forall>tok \<in> set order. expand_pseudo tok \<in> set standard_pseudo" using full_order_set[OF assms(1)] by blast
  then have "concat (map (pseudo_field env (if hq_Method req = [] then ''GET'' else hq_Method req)) order)
      = map (\<lambda>n. (n, pseudo_value env req n)) (map expand_pseudo order)"
    by (induction order) (auto simp: pseudo_field_eq)
  then show ?thesis using full_order_ne[OF assms(1)] assms(2) by (simp add: pseudo_fields_def Let_def)
qed

lemma pseudo_fields_mset:
  assumes "full_order order"
  shows "mset (pseudo_fields env req order) = mset (pseudo_fields env req [])"
proof (cases "en_normalConnect env")
  case False
  have "mset (pseudo_fields env req order) = image_mset (\<lambda>n. (n, pseudo_value env req n)) (mset standard_pseudo)"
    unfolding pseudo_fields_full[OF assms False] using assms by (simp only: mset_map full_order_def)
  also have "\<dots> = mset (pseudo_fields env req [])"
    using False by (simp add: pseudo_fields_def standard_pseudo_def pseudo_value_def Let_def)
  finally show ?thesis .
qed (simp add: pseudo_fields_def)

lemma mset_concat_map_mset: "mset xs = mset ys \<Longrightarrow> mset (concat (map f xs)) = mset (concat (map f ys))"
proof -
  have "mset (concat (map f zs)) = (\<Sum>z \<in># mset zs. mset (f z))" for zs
    by (induction zs) simp_all
  then show "mset xs = mset ys \<Longrightarrow> mset (concat (map f xs)) = mset (concat (map f ys))" by simp
qed

lemma enumerate_mset:
  assumes "full_order (ep_PseudoHeaderOrder param) \<or> ep_PseudoHeaderOrder param = []"
    and "distinct keys" and "set keys = fst ` set (hq_Header (ep_Request param))"
    and "distinct keys'" and "set keys' = fst ` set (hq_Header (ep_Request param))"
  shows "mset (enumerateHeaders param env keys) =
    mset (enumerateHeaders (param\<lparr>ep_PseudoHeaderOrder := [], ep_HeaderOrder := []\<rparr>) env keys')"
proof -
  let ?h = "hq_Header (ep_Request param)"
  have k: "mset (header_keys ?h (ep_HeaderOrder param) keys) = mset (header_keys ?h [] keys')"
    using header_keys_perm[OF assms(2,3)] header_keys_perm[OF assms(4,5)] assms(2-5)
    by (metis set_eq_iff_mset_eq_distinct)
  have p: "mset (pseudo_fields env (ep_Request param) (ep_PseudoHeaderOrder param)) = mset (pseudo_fields env (ep_Request param) [])"
    using assms(1) pseudo_fields_mset by fastforce
  have u: "list_ex P (header_keys ?h (ep_HeaderOrder param) keys) = list_ex P (header_keys ?h [] keys')" for P
    using k by (metis list_ex_iff mset_eq_setD)
  show ?thesis
    unfolding enumerateHeaders_def Let_def
    by (simp add: p u mset_concat_map_mset[OF k])
qed

lemma list_size_mset:
  assumes "mset fs = mset gs"
  shows "list_size fs = list_size gs"
proof -
  have "foldl (\<lambda>n (k, v). n + ucast (HeaderField_Size \<lparr>hf_Name = k, hf_Value = v, hf_Sensitive = False\<rparr>)) a fs
      = a + (\<Sum>kv \<in># mset fs. ucast (HeaderField_Size \<lparr>hf_Name = fst kv, hf_Value = snd kv, hf_Sensitive = False\<rparr>))" for a :: u64 and fs
    by (induction fs arbitrary: a) (auto simp: add.assoc)
  then show ?thesis using assms by (simp add: list_size_def)
qed


definition ascii_guts :: httpguts where
  "ascii_guts = \<lparr>PunycodeHostPort = Some, ValidHostHeader = (\<lambda>h. h \<noteq> []),
     ValidHeaderFieldName = (\<lambda>k. k \<noteq> [] \<and> list_all validHeaderFieldByte k), ValidHeaderFieldValue = (\<lambda>v. True)\<rparr>"

definition demo_param :: "string list \<Rightarrow> string list \<Rightarrow> EncodeHeadersParam" where
  "demo_param po ho =
     \<lparr>ep_Request = \<lparr>hq_URL = Some \<lparr>ru_Scheme = ''https'', ru_Host = ''h'', ru_Opaque = [], ru_RequestURI = ''/x''\<rparr>, hq_Method = ''GET'', hq_Host = [],
        hq_Header = [(''Accept'', [''a'']), (''User-Agent'', [''u'']), (''Cookie'', [''p=1; q=2''])], hq_Trailer = [], hq_ActualContentLength = 0\<rparr>,
      ep_AddGzipHeader = False, ep_PeerMaxHeaderListSize = 0, ep_DefaultUserAgent = ''d'', ep_PseudoHeaderOrder = po, ep_HeaderOrder = ho\<rparr>"


section \<open>The order on the wire\<close>

lemma written_append: "written_fields (xs @ ys) = written_fields xs @ written_fields ys"
  by (simp add: written_fields_def)

lemma LowerHeader_pseudo: "n \<in> set standard_pseudo \<Longrightarrow> LowerHeader n = Some n"
proof -
  have "list_all (\<lambda>n. asciiToLower n = Some n) standard_pseudo" by code_simp
  then show "n \<in> set standard_pseudo \<Longrightarrow> LowerHeader n = Some n" by (simp add: LowerHeader_eq list_all_iff)
qed

lemma written_pseudo: "set ns \<subseteq> set standard_pseudo \<Longrightarrow> written_fields (map (\<lambda>n. (n, f n)) ns) = map (\<lambda>n. (n, f n)) ns"
  by (induction ns) (auto simp: written_fields_def LowerHeader_pseudo)

lemma enum_prepare_plain:
  "enum_prepare guts req = Inr env \<Longrightarrow> hq_Method req \<noteq> ''CONNECT'' \<Longrightarrow> \<not> en_normalConnect env \<and> en_protocol env = []"
  by (auto simp: enum_prepare_def Let_def split: option.splits if_splits list.splits)

text \<open>The fields that the encoder adds itself, after the header.\<close>

definition automatic_fields :: "EncodeHeadersParam \<Rightarrow> string list \<Rightarrow> (string \<times> string) list" where
  "automatic_fields param hkeys =
     (let req = ep_Request param in
      (if shouldSendReqContentLength (hq_Method req) (hq_ActualContentLength req)
         then [(''content-length'', Itoa (hq_ActualContentLength req))] else [])
      @ (if ep_AddGzipHeader param then [(''accept-encoding'', ''gzip'')] else [])
      @ (if list_ex (\<lambda>k. \<not> dropped_header k \<and> asciiEqualFold k ''user-agent'') hkeys then []
         else [(''user-agent'', ep_DefaultUserAgent param)]))"

text \<open>C5: the request on the wire has the order of the fingerprint. For a request that is not CONNECT, with a complete
  pseudo-header order and a header order without repetitions, the fields are the pseudo-headers in
  the given order, the trailer announcement, then the headers that the order lists and the
  request has, in the listed order, then the other headers, and the automatic fields last.\<close>

theorem fingerprint_order_on_wire:
  assumes "EncodeHeaders guts param keys1 keys2 = Inr r" and "full_order (ep_PseudoHeaderOrder param)"
    and "hq_Method (ep_Request param) \<noteq> ''CONNECT''"
    and "ep_HeaderOrder param \<noteq> []" and "distinct (map CanonicalMIMEHeaderKey (ep_HeaderOrder param))"
  shows "\<exists>env. enum_prepare guts (ep_Request param) = Inr env \<and>
    (let h = hq_Header (ep_Request param);
         listed = filter (\<lambda>k. map_of h k \<noteq> None) (map CanonicalMIMEHeaderKey (ep_HeaderOrder param));
         others = filter (\<lambda>k. k \<notin> set listed) keys2;
         fields_of = (\<lambda>ks. written_fields (concat (map (\<lambda>k. key_fields k (header_values h k)) ks)))
     in er_fields r =
        map (\<lambda>n. (n, pseudo_value env (ep_Request param) n)) (map expand_pseudo (ep_PseudoHeaderOrder param))
        @ written_fields (if en_trailers env \<noteq> [] then [(''trailer'', en_trailers env)] else [])
        @ fields_of listed @ fields_of others @ written_fields (automatic_fields param (listed @ others)))"
proof -
  obtain env where env: "enum_prepare guts (ep_Request param) = Inr env"
    and r: "er_fields r = written_fields (enumerateHeaders param env keys2)"
    using assms(1) by (auto simp: EncodeHeaders_def split: if_splits)
  have n: "\<not> en_normalConnect env" "en_protocol env = []" using enum_prepare_plain[OF env assms(3)] by auto
  have ps: "set (map expand_pseudo (ep_PseudoHeaderOrder param)) \<subseteq> set standard_pseudo"
    using full_order_set[OF assms(2)] by simp
  define listed where "listed = filter (\<lambda>k. map_of (hq_Header (ep_Request param)) k \<noteq> None) (map CanonicalMIMEHeaderKey (ep_HeaderOrder param))"
  define others where "others = filter (\<lambda>k. k \<notin> set listed) keys2"
  have "order_keys (hq_Header (ep_Request param)) [] (ep_HeaderOrder param) = listed"
    unfolding listed_def by (rule order_keys_filter[OF assms(5)]) simp
  then have k: "header_keys (hq_Header (ep_Request param)) (ep_HeaderOrder param) keys2 = listed @ others"
    using assms(4) by (simp add: header_keys_def others_def)
  have "er_fields r =
        map (\<lambda>n. (n, pseudo_value env (ep_Request param) n)) (map expand_pseudo (ep_PseudoHeaderOrder param))
        @ written_fields (if en_trailers env \<noteq> [] then [(''trailer'', en_trailers env)] else [])
        @ written_fields (concat (map (\<lambda>k. key_fields k (header_values (hq_Header (ep_Request param)) k)) listed))
        @ written_fields (concat (map (\<lambda>k. key_fields k (header_values (hq_Header (ep_Request param)) k)) others))
        @ written_fields (automatic_fields param (listed @ others))"
    unfolding r enumerateHeaders_def Let_def k automatic_fields_def pseudo_fields_full[OF assms(2) n(1)] written_append
      written_pseudo[OF ps] map_append concat_append
    by (simp add: n(2) written_fields_def)
  then show ?thesis
    using env unfolding Let_def listed_def[symmetric] others_def[symmetric] by blast
qed

theorem fingerprint_order_on_wire_witness:
  "\<exists>r. EncodeHeaders ascii_guts (demo_param [''m'', ''a'', ''s'', ''p''] [''user-agent'', ''cookie'']) [''Accept'', ''User-Agent'', ''Cookie''] [''Accept'', ''User-Agent'', ''Cookie''] = Inr r
    \<and> er_fields r = [('':method'', ''GET''), ('':authority'', ''h''), ('':scheme'', ''https''), ('':path'', ''/x''),
         (''user-agent'', ''u''), (''cookie'', ''p=1''), (''cookie'', ''q=2''), (''accept'', ''a'')]"
proof -
  let ?p = "demo_param [''m'', ''a'', ''s'', ''p''] [''user-agent'', ''cookie'']" and ?k = "[''Accept'', ''User-Agent'', ''Cookie'']"
  have "map expand_pseudo [''m'', ''a'', ''s'', ''p''] = ['':method'', '':authority'', '':scheme'', '':path'']" by code_simp
  then have o': "full_order (ep_PseudoHeaderOrder ?p)"
    by (simp add: full_order_def demo_param_def standard_pseudo_def del: list.map)
  have c: "hq_Method (ep_Request ?p) \<noteq> ''CONNECT''" "ep_HeaderOrder ?p \<noteq> []" "distinct (map CanonicalMIMEHeaderKey (ep_HeaderOrder ?p))"
    by code_simp+
  have x: "map_res er_fields (EncodeHeaders ascii_guts ?p ?k ?k) = Inr [('':method'', ''GET''), ('':authority'', ''h''), ('':scheme'', ''https''), ('':path'', ''/x''),
         (''user-agent'', ''u''), (''cookie'', ''p=1''), (''cookie'', ''q=2''), (''accept'', ''a'')]" by code_simp
  then obtain r where r: "EncodeHeaders ascii_guts ?p ?k ?k = Inr r" by (cases "EncodeHeaders ascii_guts ?p ?k ?k") simp_all
  from fingerprint_order_on_wire[OF r o' c] x r show ?thesis by simp
qed

section \<open>Well-formed requests\<close>

definition to_field :: "string \<times> string \<Rightarrow> HeaderField" where
  "to_field kv = \<lparr>hf_Name = fst kv, hf_Value = snd kv, hf_Sensitive = False\<rparr>"

definition request_pseudo :: "string list" where
  "request_pseudo = ['':method'', '':path'', '':scheme'', '':authority'', '':protocol'']"

definition token_name :: "string \<Rightarrow> bool" where
  "token_name k \<longleftrightarrow> k \<noteq> [] \<and> list_all validHeaderFieldByte k"

lemma char_token_facts:
  "validHeaderFieldByte c \<Longrightarrow> \<not> (char_code c < 32 \<or> char_code c > 126)"
  "validHeaderFieldByte c \<Longrightarrow> validHeaderFieldByte (lower_char c) \<and> \<not> (65 \<le> char_code (lower_char c) \<and> char_code (lower_char c) \<le> 90)"
  "validHeaderFieldByte c \<Longrightarrow> c \<noteq> CHR '':''"
proof -
  have "\<forall>c. validHeaderFieldByte c \<longrightarrow> \<not> (char_code c < 32 \<or> char_code c > 126) \<and> \<not> (65 \<le> char_code (lower_char c) \<and> char_code (lower_char c) \<le> 90)
      \<and> c \<noteq> CHR '':''"
    by code_simp
  then show "validHeaderFieldByte c \<Longrightarrow> \<not> (char_code c < 32 \<or> char_code c > 126)"
    "validHeaderFieldByte c \<Longrightarrow> validHeaderFieldByte (lower_char c) \<and> \<not> (65 \<le> char_code (lower_char c) \<and> char_code (lower_char c) \<le> 90)"
    "validHeaderFieldByte c \<Longrightarrow> c \<noteq> CHR '':''"
    by simp_all
qed

lemma LowerHeader_token: "token_name k \<Longrightarrow> LowerHeader k = Some (ToLower k) \<and> validWireHeaderFieldName validHeaderFieldByte (ToLower k)"
  by (auto simp: token_name_def LowerHeader_eq asciiToLower_def isASCIIPrint_def validWireHeaderFieldName_def ToLower_def list_all_iff
      dest: char_token_facts)

lemma written_tokens:
  "\<forall>kv \<in> set fs. token_name (fst kv) \<Longrightarrow> list_all (\<lambda>f. validWireHeaderFieldName validHeaderFieldByte (hf_Name f)) (map to_field (written_fields fs))"
  by (auto simp: written_fields_def to_field_def list_all_iff dest!: LowerHeader_token)

lemma not_pseudo_token: "validWireHeaderFieldName validHeaderFieldByte n \<Longrightarrow> \<not> IsPseudo \<lparr>hf_Name = n, hf_Value = v, hf_Sensitive = b\<rparr>"
  by (cases n) (auto simp: validWireHeaderFieldName_def IsPseudo_def dest: char_token_facts)

lemma fixed_tokens: "token_name ''cookie''" "token_name ''trailer''" "token_name ''content-length''" "token_name ''accept-encoding''" "token_name ''user-agent''"
  by code_simp+

lemma key_fields_tokens:
  assumes "token_name k \<or> k = '':protocol''" and "kv \<in> set (key_fields k vv)"
  shows "token_name (fst kv)"
proof -
  have p: "\<not> asciiEqualFold '':protocol'' ''user-agent''" by code_simp
  show ?thesis using assms p fixed_tokens by (auto simp: key_fields_def split: if_splits)
qed

lemma PseudoFields_append: "list_all IsPseudo ps \<Longrightarrow> list_all (\<lambda>f. \<not> IsPseudo f) rs \<Longrightarrow> PseudoFields (ps @ rs) = ps \<and> RegularFields (ps @ rs) = rs"
  by (induction ps) (auto simp: list_all_iff intro: list.exhaust[of rs])

lemma checkPseudos_loop_request:
  "distinct (map hf_Name prev @ map hf_Name fs) \<Longrightarrow> set (map hf_Name fs) \<subseteq> set request_pseudo \<Longrightarrow> checkPseudos_loop prev rq False fs = None"
proof (induction fs arbitrary: prev rq)
  case (Cons f fs)
  have m: "hf_Name f \<in> set ['':method'', '':path'', '':scheme'', '':authority'', '':protocol'']"
    using Cons.prems(2) by (simp add: request_pseudo_def)
  have d: "\<not> (\<exists>f2 \<in> set prev. hf_Name f = hf_Name f2)" using Cons.prems(1) by auto
  have "checkPseudos_loop (prev @ [f]) True False fs = None" using Cons.prems by (intro Cons.IH) auto
  with m d show ?case by simp
qed simp

lemma IsPseudo_request: "n \<in> set request_pseudo \<Longrightarrow> IsPseudo \<lparr>hf_Name = n, hf_Value = v, hf_Sensitive = b\<rparr>"
  by (auto simp: request_pseudo_def IsPseudo_def)

lemma pseudo_names:
  assumes "full_order order \<or> order = []"
  shows "set (map fst (pseudo_fields env req order)) \<subseteq> set standard_pseudo \<and> distinct (map fst (pseudo_fields env req order))"
proof (cases "order = [] \<or> en_normalConnect env")
  case True
  then show ?thesis by (auto simp: pseudo_fields_def standard_pseudo_def Let_def)
next
  case False
  then have o': "full_order order" using assms by simp
  have "distinct (map expand_pseudo order)"
    using o' mset_eq_imp_distinct_iff[of "map expand_pseudo order" standard_pseudo] by (simp add: full_order_def standard_pseudo_def)
  moreover have "map fst (pseudo_fields env req order) = map expand_pseudo order"
    using pseudo_fields_full[OF o'] False by (simp add: comp_def)
  ultimately show ?thesis using full_order_set[OF o'] by simp
qed

definition well_formed_request :: "HeaderField list \<Rightarrow> bool" where
  "well_formed_request fs \<longleftrightarrow> checkPseudos fs = None
     \<and> distinct (map hf_Name (PseudoFields fs)) \<and> fs = PseudoFields fs @ RegularFields fs
     \<and> list_all (\<lambda>f. \<not> IsPseudo f \<and> validWireHeaderFieldName validHeaderFieldByte (hf_Name f)) (RegularFields fs)"

lemma well_formed_parts:
  assumes "set (map hf_Name ps) \<subseteq> set request_pseudo" and "distinct (map hf_Name ps)"
    and "list_all (\<lambda>f. validWireHeaderFieldName validHeaderFieldByte (hf_Name f)) rs"
  shows "well_formed_request (ps @ rs)"
proof -
  have p: "list_all IsPseudo ps"
    using assms(1) IsPseudo_request[where v = "hf_Value f" and b = "hf_Sensitive f" for f]
    by (auto simp: list_all_iff IsPseudo_def image_subset_iff)
  have r: "list_all (\<lambda>f. \<not> IsPseudo f) rs"
    using assms(3) not_pseudo_token[where v = "hf_Value f" and b = "hf_Sensitive f" for f]
    by (auto simp: list_all_iff IsPseudo_def)
  have "checkPseudos_loop [] False False ps = None" using assms(1,2) by (intro checkPseudos_loop_request) auto
  with PseudoFields_append[OF p r] assms r show ?thesis
    by (simp add: well_formed_request_def checkPseudos_def list_all_iff)
qed

lemma enum_prepare_valid: "enum_prepare guts req = Inr env \<Longrightarrow> validateHeaders guts (hq_Header req)"
  by (auto simp: enum_prepare_def Let_def split: option.splits if_splits)

lemma header_keys_set: "mset keys = mset (map fst h) \<Longrightarrow> set (header_keys h order keys) \<subseteq> fst ` set h"
proof -
  assume "mset keys = mset (map fst h)"
  then have "set keys = fst ` set h" using mset_eq_setD[of keys "map fst h"] by simp
  then show ?thesis
    by (auto simp: header_keys_def Let_def sort_Strings_def set_order_keys dest!: map_of_SomeD intro: rev_image_eqI)
qed



definition odd_profile :: "string list \<Rightarrow> Profile" where
  "odd_profile po =
     \<lparr>TLS = empty_TLSProfile, HTTP2 = Some \<lparr>h_Settings = [], h_SettingsAck = False, h_WindowUpdate = 0, h_HeadersStreamID = 0,
        h_PseudoHeaderOrder = po, h_HeaderPriority = None, h_PriorityFrames = []\<rparr>, Headers = None\<rparr>"

text \<open>A validated profile can still make malformed requests. \<open>Profile.Validate\<close> compares the pseudo-header order without regard
  to case, the encoder compares the full names exactly and skips the ones it does not know, so with the order
  \<open>:Method, :authority, :scheme, :path\<close> a request is encoded without error and without a method; an
  incomplete order is accepted as well and drops the other pseudo-headers.\<close>

theorem validated_order_loses_pseudo:
  "(\<exists>po r. Profile_Validate (Some (odd_profile po)) = None \<and> length po = 4
     \<and> EncodeHeaders ascii_guts (demo_param po []) [''Accept'', ''User-Agent'', ''Cookie''] [''Accept'', ''User-Agent'', ''Cookie''] = Inr r
     \<and> '':method'' \<notin> set (map fst (er_fields r)))
   \<and> (\<exists>po r. Profile_Validate (Some (odd_profile po)) = None \<and> set po \<subseteq> set standard_pseudo
     \<and> EncodeHeaders ascii_guts (demo_param po []) [''Accept'', ''User-Agent'', ''Cookie''] [''Accept'', ''User-Agent'', ''Cookie''] = Inr r
     \<and> '':path'' \<notin> set (map fst (er_fields r)))"
proof -
  let ?k = "[''Accept'', ''User-Agent'', ''Cookie'']"
  let ?a = "['':Method'', '':authority'', '':scheme'', '':path'']" and ?b = "['':method'']"
  have a: "Profile_Validate (Some (odd_profile ?a)) = None" "Profile_Validate (Some (odd_profile ?b)) = None" "set ?b \<subseteq> set standard_pseudo"
    by code_simp+
  have "case EncodeHeaders ascii_guts (demo_param ?a []) ?k ?k of Inr r \<Rightarrow> '':method'' \<notin> set (map fst (er_fields r)) | _ \<Rightarrow> False"
    "case EncodeHeaders ascii_guts (demo_param ?b []) ?k ?k of Inr r \<Rightarrow> '':path'' \<notin> set (map fst (er_fields r)) | _ \<Rightarrow> False"
    by code_simp+
  then obtain r r' where "EncodeHeaders ascii_guts (demo_param ?a []) ?k ?k = Inr r" "'':method'' \<notin> set (map fst (er_fields r))"
    "EncodeHeaders ascii_guts (demo_param ?b []) ?k ?k = Inr r'" "'':path'' \<notin> set (map fst (er_fields r'))"
    by (auto split: sum.splits)
  moreover have "length ?a = 4" by simp
  ultimately show ?thesis using a by blast
qed

end
