(* ===== verification/Frame_Stream.thy ===== *)
theory Frame_Stream
  imports Frame_Roundtrip
begin

text \<open>
  Sequences of frames: a sequence of \<open>Write\<close> calls on one framer, whose results the caller ignores, and
  the frames another framer reads from the bytes.
\<close>

section \<open>Writing a sequence\<close>

definition write_all :: "Framer \<Rightarrow> frame_req list \<Rightarrow> Framer" where
  "write_all f qs = foldl (\<lambda>f q. snd (write_req f q)) f qs"

definition req_fits :: "frame_req \<Rightarrow> bool" where
  "req_fits q \<longleftrightarrow> req_legal q \<and> length (req_payload q) < 2 ^ 24"

lemma write_all_written: "list_all req_fits qs \<Longrightarrow> fr_w (write_all f qs) = fr_w f @ map req_bytes qs"
proof (induction qs arbitrary: f)
  case (Cons q qs)
  have "written f (req_bytes q) (write_req f q)" using Cons.prems by (intro write_legal) (simp_all add: req_fits_def)
  with Cons show ?case by (simp add: write_all_def written_def)
qed (simp add: write_all_def)

lemma write_all_append: "write_all f (qs @ rs) = write_all (write_all f qs) rs"
  by (simp add: write_all_def)

lemma write_all_simps [simp]: "write_all f [] = f" "write_all f (q # qs) = write_all (snd (write_req f q)) qs"
  by (simp_all add: write_all_def)

section \<open>Reading a sequence\<close>

fun read_frames :: "(string \<Rightarrow> bool) \<Rightarrow> (char \<Rightarrow> bool) \<Rightarrow> nat \<Rightarrow> Framer \<Rightarrow> (Frame list \<times> Framer) option" where
  "read_frames vv tok 0 fr = Some ([], fr)"
| "read_frames vv tok (Suc n) fr =
     (case ReadFrame vv tok fr of
        Some (Some f, None, fr) \<Rightarrow> map_option (apfst (\<lambda>fs. f # fs)) (read_frames vv tok n fr)
      | _ \<Rightarrow> None)"

fun chain :: "u32 \<Rightarrow> FrameHeader list \<Rightarrow> bool" where
  "chain op [] \<longleftrightarrow> True"
| "chain op (h # hs) \<longleftrightarrow> follows op h \<and> chain (opens h) hs"

text \<open>A framer that reads raw frames and has the given header block open.\<close>

definition reading :: "Framer \<Rightarrow> u32 \<Rightarrow> bool" where
  "reading g op \<longleftrightarrow> \<not> AllowIllegalReads g \<and> ReadMetaHeaders g = None \<and> lastHeaderStream g = op"

lemma follows_order:
  assumes "\<not> AllowIllegalReads g" and "follows (lastHeaderStream g) h"
  shows "order_ok g (fh_Type h) (fh_StreamID h) \<and> lastHeaderStream (snd (checkFrameOrder g h)) = opens h"
  using assms by (auto simp: order_ok_def follows_def opens_def checkFrameOrder_def Let_def split: if_splits)

definition read_size_ok :: "Framer \<Rightarrow> frame_req \<Rightarrow> bool" where
  "read_size_ok g q \<longleftrightarrow> length (req_payload q) \<le> unat (maxReadSize g)"

lemma read_frames_written:
  assumes "list_all (\<lambda>q. req_fits q \<and> req_readable q \<and> read_size_ok g q) qs" and "chain op (map req_header qs)"
    and "reading g op" and "rd_data (fr_r g) = concat (map req_bytes qs) @ rest"
  shows "\<exists>g'. read_frames vv tok (length qs) g = Some (map (\<lambda>q. req_frame (req_header q) q) qs, g') \<and> rd_data (fr_r g') = rest"
  using assms
proof (induction qs arbitrary: g op)
  case (Cons q qs)
  have o': "order_ok g (fh_Type (req_header q)) (fh_StreamID (req_header q))"
    "lastHeaderStream (snd (checkFrameOrder g (req_header q))) = opens (req_header q)"
    using follows_order[of g "req_header q"] Cons.prems(2,3) by (auto simp: reading_def)
  obtain g1 where g1: "ReadFrame vv tok g = Some (Some (req_frame (req_header q) q), None, g1)"
    "rd_data (fr_r g1) = concat (map req_bytes qs) @ rest" "maxReadSize g1 = maxReadSize g" "ReadMetaHeaders g1 = None"
    "AllowIllegalReads g1 = AllowIllegalReads g" "lastHeaderStream g1 = opens (req_header q)"
    using read_written[of q g "concat (map req_bytes qs) @ rest" vv tok] Cons.prems o'
    by (auto simp: req_fits_def read_size_ok_def reading_def)
  have "\<exists>g'. read_frames vv tok (length qs) g1 = Some (map (\<lambda>q. req_frame (req_header q) q) qs, g') \<and> rd_data (fr_r g') = rest"
    using Cons.prems g1 by (intro Cons.IH) (auto simp: reading_def read_size_ok_def list_all_iff)
  with g1 show ?case by auto
qed simp

end
