(* ===== verification/H2_Conn.thy ===== *)
theory H2_Conn
  imports Pipe Hpack_Sync H2_Config Request_Encoding Frame_Stream
begin

unbundle bit_operations_syntax

text \<open>
  The client side of an HTTP/2 connection (\<open>http2/transport.go\<close>): the state of a connection and of
  its streams, and \<open>newClientConn\<close>, which writes the connection preface. A stream is named by its
  identifier, which is unique on a connection, so the objects \<open>*clientStream\<close> are the store
  \<open>cc_cs\<close> and the map \<open>streams\<close> is the list of the identifiers in it. Channels that are only closed are
  booleans. \<open>bufio.Writer\<close> is the reply function of the framer; \<open>cc_werr\<close> is the error the writer
  below it has kept after some writes, \<open>cc_flushErr\<close> the one after a \<open>Flush\<close>. Timers and the
  clock are not part of the state. \<open>None\<close> is a panic.
\<close>

section \<open>Streams\<close>

datatype body_kind = noBody | missingBody | transportResponseBody | gzipReader

record h2_Response =
  rs_StatusCode :: int
  rs_Status :: string
  rs_Header :: header_map
  rs_Trailer :: "header_map option"
  rs_ContentLength :: int
  rs_Body :: body_kind
  rs_Uncompressed :: bool

record clientStream =
  cs_bufPipe :: "(dataBuffer, h2_error) pipe"
  cs_requestedGzip :: bool
  cs_isHead :: bool
  cs_abortErr :: "h2_error option"
  cs_peerClosed :: bool
  cs_on100 :: bool
  cs_res :: "h2_Response option"
  cs_inflow :: inflow
  cs_bytesRemain :: int
  cs_readErr :: "h2_error option"
  cs_reqBody :: bool
  cs_reqBodyContentLength :: int
  cs_reqBodyClosed :: bool
  cs_sentEndStream :: bool
  cs_sentHeaders :: bool
  cs_pastHeaders :: bool
  cs_pastTrailers :: bool
  cs_readClosed :: bool
  cs_readAborted :: bool
  cs_totalHeaderSize :: int
  cs_trailer :: header_map

definition zero_pipe :: "(dataBuffer, h2_error) pipe" where
  "zero_pipe = \<lparr>p_b = None, p_unread = 0, p_err = None, p_breakErr = None, p_donec = None, p_readFn = None\<rparr>"

text \<open>The stream that \<open>roundTrip\<close> creates for a request.\<close>

definition new_stream :: "bool \<Rightarrow> bool \<Rightarrow> bool \<Rightarrow> int \<Rightarrow> clientStream" where
  "new_stream requestedGzip isHead reqBody contentLength =
     \<lparr>cs_bufPipe = zero_pipe, cs_requestedGzip = requestedGzip, cs_isHead = isHead, cs_abortErr = None, cs_peerClosed = False,
      cs_on100 = False, cs_res = None, cs_inflow = \<lparr>avail = 0, unsent = 0\<rparr>, cs_bytesRemain = 0, cs_readErr = None,
      cs_reqBody = reqBody, cs_reqBodyContentLength = contentLength, cs_reqBodyClosed = False, cs_sentEndStream = False,
      cs_sentHeaders = False, cs_pastHeaders = False, cs_pastTrailers = False, cs_readClosed = False, cs_readAborted = False,
      cs_totalHeaderSize = 0, cs_trailer = []\<rparr>"

section \<open>The connection\<close>

record ClientConn =
  cc_t :: Transport
  cc_singleUse :: bool
  cc_mu :: bool
  cc_flows :: flow_store
  cc_inflow :: inflow
  cc_doNotReuse :: bool
  cc_closing :: bool
  cc_closed :: bool
  cc_closedOnIdle :: bool
  cc_seenSettings :: bool
  cc_wantSettingsAck :: bool
  cc_goAway :: "(u32 \<times> ErrCode) option"
  cc_goAwayDebug :: bytes
  cc_cs :: "u32 \<Rightarrow> clientStream"
  cc_streams :: "u32 list"
  cc_streamsReserved :: nat
  cc_nextStreamID :: u32
  cc_pendingRequests :: nat
  cc_pings :: "bytes list"
  cc_maxFrameSize :: u32
  cc_maxConcurrentStreams :: u32
  cc_peerMaxHeaderListSize :: u64
  cc_peerMaxHeaderTableSize :: u32
  cc_initialWindowSize :: u32
  cc_initialStreamRecvWindowSize :: int
  cc_extendedConnectAllowed :: bool
  cc_strictMaxConcurrentStreams :: bool
  cc_rstStreamPingsBlocked :: bool
  cc_pendingResets :: nat
  cc_readBeforeStreamID :: u32
  cc_tconnClosed :: bool
  cc_markedDead :: bool
  cc_preface :: bytes
  cc_fr :: Framer
  cc_henc :: Encoder
  cc_werr :: "bytes list \<Rightarrow> h2_error option"
  cc_flushErr :: "bytes list \<Rightarrow> h2_error option"

text \<open>The address of the connection's own window in the store \<open>cc_flows\<close>; the window of a stream is at
  its identifier.\<close>

abbreviation (input) conn_flow :: nat where "conn_flow \<equiv> 0"

definition clientPreface :: bytes where
  "clientPreface = string_to_bytes (''PRI * HTTP/2.0'' @ [CHR 0x0d, CHR 0x0a, CHR 0x0d, CHR 0x0a] @ ''SM''
     @ [CHR 0x0d, CHR 0x0a, CHR 0x0d, CHR 0x0a])"

definition wire_of_priority :: "StreamPriority \<Rightarrow> PriorityParam" where
  "wire_of_priority p = zeroPriority\<lparr>StreamDep := sp_StreamDep p, Exclusive := sp_Exclusive p, Weight := sp_Weight p\<rparr>"

definition initialSettings :: "Transport \<Rightarrow> http2Config \<Rightarrow> Setting list" where
  "initialSettings t conf =
     [\<lparr>s_ID = SettingEnablePush, s_Val = 0\<rparr>,
      \<lparr>s_ID = SettingInitialWindowSize, s_Val = of_int (cf_MaxUploadBufferPerStream conf)\<rparr>,
      \<lparr>s_ID = SettingMaxFrameSize, s_Val = cf_MaxReadFrameSize conf\<rparr>]
     @ (if Transport_maxHeaderListSize t \<noteq> 0 then [\<lparr>s_ID = SettingMaxHeaderListSize, s_Val = Transport_maxHeaderListSize t\<rparr>] else [])
     @ (if cf_MaxDecoderHeaderTableSize conf \<noteq> 4096 then [\<lparr>s_ID = SettingHeaderTableSize, s_Val = cf_MaxDecoderHeaderTableSize conf\<rparr>] else [])"

text \<open>The frames after the preface.\<close>

definition write_preface :: "Transport \<Rightarrow> http2Config \<Rightarrow> Framer \<Rightarrow> Framer" where
  "write_preface t conf fr =
     (let fr = snd (case t_Fingerprint t of
                      Some fp \<Rightarrow> if length (fp_Settings fp) > 0 then WriteSettings fr (fp_Settings fp) else WriteSettings fr (initialSettings t conf)
                    | None \<Rightarrow> WriteSettings fr (initialSettings t conf));
          fr = snd (case t_Fingerprint t of
                      Some fp \<Rightarrow> if fp_WindowUpdate fp \<noteq> 0 then WriteWindowUpdate fr 0 (fp_WindowUpdate fp)
                                else WriteWindowUpdate fr 0 (of_int (cf_MaxUploadBufferPerConnection conf))
                    | None \<Rightarrow> WriteWindowUpdate fr 0 (of_int (cf_MaxUploadBufferPerConnection conf)))
      in case t_Fingerprint t of
           None \<Rightarrow> fr
         | Some fp \<Rightarrow> foldl (\<lambda>fr pf. snd (WritePriority fr (spf_StreamID pf) (wire_of_priority (spf_Priority pf)))) fr (fp_PriorityFrames fp))"

definition newClientConn :: "(bytes list \<Rightarrow> bytes \<Rightarrow> nat \<times> h2_error option) \<Rightarrow> reader
    \<Rightarrow> (bytes list \<Rightarrow> h2_error option) \<Rightarrow> (bytes list \<Rightarrow> h2_error option) \<Rightarrow> Transport \<Rightarrow> bool \<Rightarrow> (h2_error + ClientConn) option" where
  "newClientConn w r werr flushErr t singleUse =
     (let conf = configFromTransport t in
      Option.bind (NewDecoder (cf_MaxDecoderHeaderTableSize conf) (\<lambda>_ s. s) ()) (\<lambda>dec.
      Option.bind NewEncoder (\<lambda>enc.
      Option.bind (SetMaxDynamicTableSizeLimit enc (cf_MaxEncoderHeaderTableSize conf)) (\<lambda>enc.
        let fr = SetMaxReadFrameSize (NewFramer w r) (cf_MaxReadFrameSize conf);
            fr = fr\<lparr>ReadMetaHeaders := Some dec, MaxHeaderListSize := Transport_maxHeaderListSize t\<rparr>;
            fr = write_preface t conf fr;
            cc = \<lparr>cc_t = t, cc_singleUse = singleUse, cc_mu = False,
                  cc_flows = snd (outflow_add (\<lambda>_. \<lparr>o_n = 0, o_conn = None\<rparr>) conn_flow 65535),
                  cc_inflow = inflow_init \<lparr>avail = 0, unsent = 0\<rparr> (int32 (cf_MaxUploadBufferPerConnection conf + 65535)),
                  cc_doNotReuse = False, cc_closing = False, cc_closed = False, cc_closedOnIdle = False, cc_seenSettings = False,
                  cc_wantSettingsAck = True, cc_goAway = None, cc_goAwayDebug = [], cc_cs = (\<lambda>_. new_stream False False False 0),
                  cc_streams = [], cc_streamsReserved = 0, cc_nextStreamID = 1, cc_pendingRequests = 0, cc_pings = [],
                  cc_maxFrameSize = 16384, cc_maxConcurrentStreams = 100, cc_peerMaxHeaderListSize = NOT 0,
                  cc_peerMaxHeaderTableSize = 4096, cc_initialWindowSize = 65535,
                  cc_initialStreamRecvWindowSize = cf_MaxUploadBufferPerStream conf, cc_extendedConnectAllowed = False,
                  cc_strictMaxConcurrentStreams = cf_StrictMaxConcurrentRequests conf, cc_rstStreamPingsBlocked = False,
                  cc_pendingResets = 0, cc_readBeforeStreamID = 0, cc_tconnClosed = False, cc_markedDead = False,
                  cc_preface = clientPreface, cc_fr = fr, cc_henc = enc, cc_werr = werr, cc_flushErr = flushErr\<rparr>
        in Some (case flushErr (fr_w fr) of None \<Rightarrow> Inr cc | Some e \<Rightarrow> Inl e)))))"

section \<open>The connection preface\<close>

definition preface_reqs :: "Transport \<Rightarrow> http2Config \<Rightarrow> frame_req list" where
  "preface_reqs t conf =
     (let ss = (case t_Fingerprint t of Some fp \<Rightarrow> if fp_Settings fp \<noteq> [] then fp_Settings fp else initialSettings t conf | None \<Rightarrow> initialSettings t conf);
          wu = (case t_Fingerprint t of Some fp \<Rightarrow> if fp_WindowUpdate fp \<noteq> 0 then fp_WindowUpdate fp else of_int (cf_MaxUploadBufferPerConnection conf)
                  | None \<Rightarrow> of_int (cf_MaxUploadBufferPerConnection conf));
          pfs = (case t_Fingerprint t of Some fp \<Rightarrow> fp_PriorityFrames fp | None \<Rightarrow> [])
      in [ReqSettings ss, ReqWindowUpdate 0 wu] @ map (\<lambda>pf. ReqPriority (spf_StreamID pf) (wire_of_priority (spf_Priority pf))) pfs)"

lemma foldl_priority:
  "foldl (\<lambda>fr pf. snd (WritePriority fr (spf_StreamID pf) (wire_of_priority (spf_Priority pf)))) fr pfs
     = write_all fr (map (\<lambda>pf. ReqPriority (spf_StreamID pf) (wire_of_priority (spf_Priority pf))) pfs)"
  by (induction pfs arbitrary: fr) simp_all

lemma write_preface_all: "write_preface t conf fr = write_all fr (preface_reqs t conf)"
  by (simp add: write_preface_def preface_reqs_def foldl_priority Let_def split: option.split)

lemma newClientConn_wire:
  assumes "newClientConn w r werr flushErr t su = Some (Inr cc)" and "list_all req_fits (preface_reqs t (configFromTransport t))"
  shows "cc_preface cc = clientPreface \<and> fr_w (cc_fr cc) = map req_bytes (preface_reqs t (configFromTransport t))"
proof -
  have n: "fr_w (fr\<lparr>ReadMetaHeaders := d, MaxHeaderListSize := m\<rparr>) = fr_w fr" "fr_w (SetMaxReadFrameSize fr v) = fr_w fr" for fr d m v
    by (simp_all add: SetMaxReadFrameSize_def)
  have "fr_w (NewFramer w r) = []" by (simp add: NewFramer_def n)
  with assms show ?thesis
    by (auto simp: newClientConn_def Let_def write_preface_all write_all_written n bind_eq_Some_conv split: option.splits)
qed

lemma setting_frames_chain:
  "list_all (\<lambda>q. fh_Type (req_header q) \<notin> {FrameHeaders, FrameContinuation}) qs \<Longrightarrow> chain 0 (map req_header qs)"
  by (induction qs) (auto simp: follows_def opens_def)

text \<open>What the preset of a snapshot puts on the wire.\<close>

definition preset_settings :: "HTTP2Profile \<Rightarrow> Setting list" where
  "preset_settings h = map (\<lambda>s. \<lparr>s_ID = Profile.s_ID s, s_Val = s_Value s\<rparr>) (h_Settings h)"

definition legal_http2 :: "HTTP2Profile \<Rightarrow> bool" where
  "legal_http2 h \<longleftrightarrow> h_Settings h \<noteq> [] \<and> 6 * length (h_Settings h) \<le> 16384
     \<and> (\<forall>s \<in> set (h_Settings h). Profile.s_ID s = 4 \<longrightarrow> s_Value s \<le> 2147483647)
     \<and> 0 < h_WindowUpdate h \<and> h_WindowUpdate h < 2147483648
     \<and> (\<forall>f \<in> set (h_PriorityFrames h). sid_ok (f_StreamID f) \<and> Profile.StreamDep (f_Priority f) < 2147483648)"

definition preset_priority :: "H2Priority \<Rightarrow> PriorityParam" where
  "preset_priority p = wire_of_priority (stream_priority p)"

definition preset_reqs :: "HTTP2Profile \<Rightarrow> frame_req list" where
  "preset_reqs h = [ReqSettings (preset_settings h), ReqWindowUpdate 0 (h_WindowUpdate h)]
     @ map (\<lambda>f. ReqPriority (f_StreamID f) (preset_priority (f_Priority f))) (h_PriorityFrames h)"

lemma preface_reqs_preset:
  assumes "ds_preset snap = Some p" and "HTTP2 (pr_Profile p) = Some h" and "legal_http2 h" and "t_Fingerprint t = buildFingerprint snap"
  shows "preface_reqs t conf = preset_reqs h"
  using assms
  by (auto simp: preface_reqs_def preset_reqs_def buildFingerprint_def preset_settings_def preset_priority_def legal_http2_def Let_def
      word_neq_0_conv)

lemma preset_reqs_ok:
  assumes "legal_http2 h"
  shows "list_all (\<lambda>q. req_fits q \<and> req_readable q \<and> length (req_payload q) \<le> 16384
    \<and> fh_Type (req_header q) \<notin> {FrameHeaders, FrameContinuation}) (preset_reqs h)"
proof -
  have f: "case find (\<lambda>s. s_ID s = SettingInitialWindowSize) (preset_settings h) of None \<Rightarrow> True | Some s \<Rightarrow> s_Val s \<le> 2147483647"
    using assms by (auto simp: legal_http2_def preset_settings_def find_Some_iff split: option.split)
  have d: "StreamDep (preset_priority p) = Profile.StreamDep p" for p
    by (simp add: preset_priority_def wire_of_priority_def stream_priority_def)
  show ?thesis
    using assms f d by (auto simp: preset_reqs_def req_fits_def req_payload_def req_header_def wire_header_def legal_http2_def
        preset_settings_def prio_bytes_def list_all_iff)
qed

text \<open>C2: a connection shows the HTTP/2 fingerprint of its preset. For a transport built from a client's snapshot, whose
  preset's values are legal, the connection starts with the client preface, and a server that reads the
  frames behind it gets the SETTINGS of the preset in the preset's order, then the preset's
  WINDOW_UPDATE on stream 0, then the preset's PRIORITY frames, and nothing else.\<close>

theorem preface_shows_preset:
  assumes "newClientConn w r werr flushErr t su = Some (Inr cc)" and "t_Fingerprint t = buildFingerprint snap"
    and "ds_preset snap = Some p" and "HTTP2 (pr_Profile p) = Some h" and "legal_http2 h"
    and "rd_data (fr_r g) = concat (fr_w (cc_fr cc))" and "reading g 0" and "16384 \<le> maxReadSize g"
  shows "cc_preface cc = clientPreface
    \<and> (\<exists>g' hs hw hps. read_frames vv tok (2 + length (h_PriorityFrames h)) g =
          Some (SettingsFrame hs (settings_bytes (preset_settings h)) # WindowUpdateFrame hw (h_WindowUpdate h)
                  # map2 (\<lambda>hp f. PriorityFrame hp (preset_priority (f_Priority f))) hps (h_PriorityFrames h), g')
        \<and> rd_data (fr_r g') = [] \<and> fh_StreamID hw = 0
        \<and> map fh_StreamID hps = map f_StreamID (h_PriorityFrames h)
        \<and> settings_of (settings_bytes (preset_settings h)) = preset_settings h)"
proof -
  note ok = preset_reqs_ok[OF assms(5)]
  have q: "preface_reqs t (configFromTransport t) = preset_reqs h"
    using preface_reqs_preset[OF assms(3,4,5,2)] .
  have fits: "list_all req_fits (preset_reqs h)" using ok by (simp add: list_all_iff)
  have w: "cc_preface cc = clientPreface" "fr_w (cc_fr cc) = map req_bytes (preset_reqs h)"
    using newClientConn_wire[OF assms(1)] fits unfolding q by auto
  have sz: "unat (maxReadSize g) \<ge> 16384" using assms(8) by (simp add: word_le_nat_alt)
  have all: "list_all (\<lambda>q. req_fits q \<and> req_readable q \<and> read_size_ok g q) (preset_reqs h)"
    using ok sz by (auto simp: list_all_iff read_size_ok_def)
  have ch: "chain 0 (map req_header (preset_reqs h))"
    by (rule setting_frames_chain) (use ok in \<open>simp add: list_all_iff\<close>)
  obtain g' where g': "read_frames vv tok (length (preset_reqs h)) g = Some (map (\<lambda>q. req_frame (req_header q) q) (preset_reqs h), g')" "rd_data (fr_r g') = []"
    using read_frames_written[OF all ch assms(7), of "[]"] assms(6) w(2) by auto
  let ?hps = "map (\<lambda>f. req_header (ReqPriority (f_StreamID f) (preset_priority (f_Priority f)))) (h_PriorityFrames h)"
  have len: "length (preset_reqs h) = 2 + length (h_PriorityFrames h)" by (simp add: preset_reqs_def)
  have wp: "wire_priority (preset_priority x) = preset_priority x" for x
    by (simp add: wire_priority_def preset_priority_def wire_of_priority_def)
  have fr: "map (\<lambda>q. req_frame (req_header q) q) (preset_reqs h) =
      SettingsFrame (req_header (ReqSettings (preset_settings h))) (settings_bytes (preset_settings h))
      # WindowUpdateFrame (req_header (ReqWindowUpdate 0 (h_WindowUpdate h))) (h_WindowUpdate h)
      # map2 (\<lambda>hp f. PriorityFrame hp (preset_priority (f_Priority f))) ?hps (h_PriorityFrames h)"
    by (simp add: preset_reqs_def wp zip_map1 zip_same_conv_map comp_def split_def)
  have ids: "map fh_StreamID ?hps = map f_StreamID (h_PriorityFrames h)" "fh_StreamID (req_header (ReqWindowUpdate 0 (h_WindowUpdate h))) = 0"
    using assms(5) by (auto simp: req_header_def wire_header_def legal_http2_def sid_ok_mask)
  show ?thesis
    using w(1) g' unfolding len fr using ids settings_of_bytes[of "preset_settings h"] by blast
qed

definition demo_http2 :: HTTP2Profile where
  "demo_http2 = \<lparr>h_Settings = [HTTP2Setting.make 1 65536, HTTP2Setting.make 2 0, HTTP2Setting.make 4 6291456, HTTP2Setting.make 6 262144],
     h_SettingsAck = False, h_WindowUpdate = 15663105, h_HeadersStreamID = 0, h_PseudoHeaderOrder = [''m'', ''a'', ''s'', ''p''],
     h_HeaderPriority = Some (H2Priority.make 0 True 255),
     h_PriorityFrames = [\<lparr>f_StreamID = 3, f_Priority = H2Priority.make 0 False 200\<rparr>]\<rparr>"

definition demo_snapshot :: dialSnapshot where
  "demo_snapshot = \<lparr>ds_preset = Some ((demo_preset ''a'' [])\<lparr>pr_Profile := \<lparr>TLS = empty_TLSProfile, HTTP2 = Some demo_http2, Headers = None\<rparr>\<rparr>),
     ds_insecure = False, ds_rootCAs = None, ds_proxy = None, ds_forceH1 = False, ds_forceH2 = False, ds_h2Capable = True\<rparr>"

text \<open>The transport that the client package builds (\<open>client/transport.go\<close>): only the fingerprint is set.\<close>

definition client_h2 :: "Fingerprint option \<Rightarrow> Transport" where
  "client_h2 fp = \<lparr>t_MaxHeaderListSize = 0, t_MaxReadFrameSize = 0, t_MaxDecoderHeaderTableSize = 0, t_MaxEncoderHeaderTableSize = 0,
     t_StrictMaxConcurrentStreams = False, t_ReadIdleTimeout = 0, t_PingTimeout = 0, t_WriteByteTimeout = 0, t_Fingerprint = fp, t_t1 = None\<rparr>"

lemma newClientConn_client:
  "\<exists>cc. newClientConn w r werr (\<lambda>_. None) (client_h2 fp) su = Some (Inr cc)"
proof -
  have "\<not> Option.is_none (NewDecoder 4096 (\<lambda>_ s. s) ())" by code_simp
  then have d: "\<exists>dec. NewDecoder 4096 (\<lambda>_ s. s) () = Some dec" by (simp add: Option.is_none_def)
  have "\<not> Option.is_none (Option.bind NewEncoder (\<lambda>enc. SetMaxDynamicTableSizeLimit enc 4096))" by code_simp
  then have e: "\<exists>enc. Option.bind NewEncoder (\<lambda>enc. SetMaxDynamicTableSizeLimit enc 4096) = Some enc" by (simp add: Option.is_none_def)
  show ?thesis using d e
    by (auto simp: newClientConn_def client_h2_def configFromTransport_def setConfigDefaults_def setDefault_def Let_def bind_eq_Some_conv)
qed

theorem preface_shows_preset_witness:
  "\<exists>cc. newClientConn sink \<lparr>rd_data = [], rd_err = EOF\<rparr> (\<lambda>_. None) (\<lambda>_. None) (client_h2 (buildFingerprint demo_snapshot)) False = Some (Inr cc)
     \<and> cc_preface cc = clientPreface
     \<and> (\<exists>g' hs hw hps. read_frames (\<lambda>_. True) (\<lambda>_. True) 3 (example_framer (concat (fr_w (cc_fr cc)))) =
          Some (SettingsFrame hs (settings_bytes (preset_settings demo_http2)) # WindowUpdateFrame hw 15663105
                  # map2 (\<lambda>hp f. PriorityFrame hp (preset_priority (f_Priority f))) hps (h_PriorityFrames demo_http2), g')
        \<and> map fh_StreamID hps = [3])"
proof -
  obtain cc where cc: "newClientConn sink \<lparr>rd_data = [], rd_err = EOF\<rparr> (\<lambda>_. None) (\<lambda>_. None) (client_h2 (buildFingerprint demo_snapshot)) False = Some (Inr cc)"
    using newClientConn_client by blast
  let ?g = "example_framer (concat (fr_w (cc_fr cc)))"
  have l: "legal_http2 demo_http2" by code_simp
  have h: "t_Fingerprint (client_h2 fp) = fp" "ds_preset demo_snapshot = Some (the (ds_preset demo_snapshot))"
    "HTTP2 (pr_Profile (the (ds_preset demo_snapshot))) = Some demo_http2" "rd_data (fr_r ?g) = concat (fr_w (cc_fr cc))" "reading ?g 0" "16384 \<le> maxReadSize ?g" for fp
    by (simp_all add: client_h2_def demo_snapshot_def reading_def)
  have n: "2 + length (h_PriorityFrames demo_http2) = 3" "h_WindowUpdate demo_http2 = 15663105" "map f_StreamID (h_PriorityFrames demo_http2) = [3]"
    by (simp_all add: demo_http2_def)
  show ?thesis
    using cc preface_shows_preset[OF cc h(1,2,3) l h(4,5,6), of "\<lambda>_. True" "\<lambda>_. True"] unfolding n by (elim conjE exE, intro exI conjI)
qed

end
