(* ===== verification/H2_Headers.thy ===== *)
theory H2_Headers
  imports H2_Conn
begin

unbundle bit_operations_syntax

text \<open>
  The header block of a request on the wire (\<open>http2/transport.go\<close>): \<open>encodeRequestHeaders\<close>, the HEADERS
  and CONTINUATION frames of \<open>writeHeaders\<close>, and trailers. The loop of \<open>writeHeaders\<close> does not end for
  every frame size, so \<open>None\<close> is that it does not return, or a panic.
\<close>

section \<open>Definitions\<close>

definition actualContentLength :: "bool \<Rightarrow> int \<Rightarrow> int" where
  "actualContentLength bodyless contentLength = (if bodyless then 0 else if contentLength \<noteq> 0 then contentLength else -1)"

definition encodeRequestHeaders :: "httpguts \<Rightarrow> h2_Request \<Rightarrow> bool \<Rightarrow> u64 \<Rightarrow> Fingerprint option \<Rightarrow> string list \<Rightarrow> string list
    \<Rightarrow> enc_error + EncodeHeadersResult" where
  "encodeRequestHeaders guts req addGzipHeader peerMaxHeaderListSize fp keys1 keys2 =
     (let param = \<lparr>ep_Request = req, ep_AddGzipHeader = addGzipHeader, ep_PeerMaxHeaderListSize = peerMaxHeaderListSize,
                   ep_DefaultUserAgent = ''Go-http-client/2.0'', ep_PseudoHeaderOrder = [], ep_HeaderOrder = []\<rparr>;
          param = (case fp of
                     None \<Rightarrow> param
                   | Some f \<Rightarrow> param\<lparr>ep_PseudoHeaderOrder := fp_PseudoHeaderOrder f, ep_HeaderOrder := fp_HeaderOrder f\<rparr>)
      in EncodeHeaders guts param keys1 keys2)"

text \<open>The loop of \<open>writeHeaders\<close>; \<open>werr\<close> is the error that the buffered writer has kept after some writes.\<close>

definition header_priority :: "Fingerprint option \<Rightarrow> PriorityParam" where
  "header_priority fp =
     (case fp of
        Some f \<Rightarrow> (case fp_HeaderPriority f of Some p \<Rightarrow> wire_of_priority p | None \<Rightarrow> zeroPriority)
      | None \<Rightarrow> zeroPriority)"

partial_function (option) writeHeaders_loop :: "(bytes list \<Rightarrow> h2_error option) \<Rightarrow> u32 \<Rightarrow> bool \<Rightarrow> nat \<Rightarrow> Fingerprint option \<Rightarrow> bool \<Rightarrow> bytes
    \<Rightarrow> Framer \<Rightarrow> Framer option" where
  "writeHeaders_loop werr streamID endStream maxFrame fp first hdrs fr =
     (if length hdrs > 0 \<and> werr (fr_w fr) = None
      then
        let chunk = (if length hdrs > maxFrame then take maxFrame hdrs else hdrs);
            hdrs = drop (length chunk) hdrs;
            endHeaders = (length hdrs = 0)
        in if first
           then
             let param = \<lparr>hp_StreamID = streamID, hp_BlockFragment = chunk, hp_EndStream = endStream, hp_EndHeaders = endHeaders,
                          hp_PadLength = 0, hp_Priority = header_priority fp\<rparr>
             in writeHeaders_loop werr streamID endStream maxFrame fp False hdrs (snd (WriteHeaders fr param))
           else writeHeaders_loop werr streamID endStream maxFrame fp False hdrs (snd (WriteContinuation fr streamID endHeaders chunk))
      else Some fr)"

definition writeHeaders :: "ClientConn \<Rightarrow> u32 \<Rightarrow> bool \<Rightarrow> nat \<Rightarrow> bytes \<Rightarrow> Fingerprint option \<Rightarrow> (h2_error option \<times> ClientConn) option" where
  "writeHeaders cc streamID endStream maxFrame hdrs fp =
     map_option (\<lambda>fr. (cc_flushErr cc (fr_w fr), cc\<lparr>cc_fr := fr\<rparr>))
       (writeHeaders_loop (cc_werr cc) streamID endStream maxFrame fp True hdrs (cc_fr cc))"

datatype request_error = Encoding enc_error | Stopped h2_error | Writing h2_error

text \<open>\<open>encodeAndWriteHeaders\<close>; \<open>cancelled\<close> is the error of a request that was cancelled before.\<close>

definition encodeAndWriteHeaders :: "httpguts \<Rightarrow> h2_error option \<Rightarrow> ClientConn \<Rightarrow> u32 \<Rightarrow> h2_Request \<Rightarrow> string list \<Rightarrow> string list
    \<Rightarrow> (request_error option \<times> ClientConn) option" where
  "encodeAndWriteHeaders guts cancelled cc i req keys1 keys2 =
     (let cs = cc_cs cc i in
      case (case cs_abortErr cs of Some e \<Rightarrow> Some e | None \<Rightarrow> cancelled) of
        Some e \<Rightarrow> Some (Some (Stopped e), cc)
      | None \<Rightarrow>
          (case encodeRequestHeaders guts req (cs_requestedGzip cs) (cc_peerMaxHeaderListSize cc) (t_Fingerprint (cc_t cc)) keys1 keys2 of
             Inl e \<Rightarrow> Some (Some (Encoding e), cc)
           | Inr res \<Rightarrow>
               Option.bind (WriteFields (cc_henc cc) (map to_field (er_fields res))) (\<lambda>(hdrs, enc).
                 let endStream = (\<not> er_HasBody res \<and> \<not> er_HasTrailers res);
                     cc = cc\<lparr>cc_henc := enc, cc_cs := (cc_cs cc)(i := cs\<lparr>cs_sentHeaders := True\<rparr>)\<rparr>
                 in map_option (\<lambda>(e, cc). (map_option Writing e, cc))
                      (writeHeaders cc i endStream (unat (cc_maxFrameSize cc)) hdrs (t_Fingerprint (cc_t cc))))))"

text \<open>\<open>encodeTrailers\<close>; the list gives the order in which Go ranges over the map.\<close>

definition encodeTrailers :: "ClientConn \<Rightarrow> header_map \<Rightarrow> (enc_error + (bytes \<times> ClientConn)) option" where
  "encodeTrailers cc trailer =
     (if list_size (concat (map (\<lambda>(k, vv). map (Pair k) vv) trailer)) > cc_peerMaxHeaderListSize cc
      then Some (Inl ErrRequestHeaderListSize)
      else map_option (\<lambda>(hdrs, enc). Inr (hdrs, cc\<lparr>cc_henc := enc\<rparr>))
             (WriteFields (cc_henc cc)
               (concat (map (\<lambda>(k, vv). case LowerHeader k of None \<Rightarrow> [] | Some low \<Rightarrow> map (\<lambda>v. to_field (low, v)) vv) trailer))))"

section \<open>The fragments\<close>

function fragments :: "nat \<Rightarrow> bytes \<Rightarrow> bytes list" where
  "fragments n bs = (if bs = [] \<or> n = 0 then [] else take n bs # fragments n (drop n bs))"
  by pat_completeness auto
termination by (relation "measure (\<lambda>(n, bs). length bs)") auto

declare fragments.simps [simp del]

lemma fragments_nil [simp]: "fragments n [] = []"
  by (simp add: fragments.simps)

lemma fragments_eq_Nil: "0 < n \<Longrightarrow> fragments n bs = [] \<longleftrightarrow> bs = []"
  by (subst fragments.simps) simp

lemma concat_fragments: "0 < n \<Longrightarrow> concat (fragments n bs) = bs"
  by (induction n bs rule: fragments.induct) (subst fragments.simps, auto)

lemma fragments_length: "c \<in> set (fragments n bs) \<Longrightarrow> 0 < length c \<and> length c \<le> n"
proof (induction n bs rule: fragments.induct)
  case (1 n bs)
  then show ?case using fragments.simps[of n bs] by (auto split: if_splits)
qed

fun cont_reqs :: "u32 \<Rightarrow> bytes list \<Rightarrow> frame_req list" where
  "cont_reqs sid [] = []"
| "cont_reqs sid (c # cs) = ReqContinuation sid (cs = []) c # cont_reqs sid cs"

definition headers_param :: "u32 \<Rightarrow> bool \<Rightarrow> Fingerprint option \<Rightarrow> bytes \<Rightarrow> bool \<Rightarrow> HeadersFrameParam" where
  "headers_param sid es fp c eh =
     \<lparr>hp_StreamID = sid, hp_BlockFragment = c, hp_EndStream = es, hp_EndHeaders = eh, hp_PadLength = 0, hp_Priority = header_priority fp\<rparr>"

fun block_reqs :: "u32 \<Rightarrow> bool \<Rightarrow> Fingerprint option \<Rightarrow> bytes list \<Rightarrow> frame_req list" where
  "block_reqs sid es fp [] = []"
| "block_reqs sid es fp (c # cs) = ReqHeaders (headers_param sid es fp c (cs = [])) # cont_reqs sid cs"

lemma writeHeaders_loop_rest:
  assumes "0 < n" and "\<And>ws. werr ws = None"
  shows "writeHeaders_loop werr sid es n fp False hdrs fr = Some (write_all fr (cont_reqs sid (fragments n hdrs)))"
  using assms
proof (induction n hdrs arbitrary: fr rule: fragments.induct)
  case (1 n bs)
  show ?case
  proof (cases "bs = []")
    case True
    then show ?thesis by (subst writeHeaders_loop.simps) simp
  next
    case False
    let ?c = "if length bs > n then take n bs else bs"
    have c: "?c = take n bs" "drop (length ?c) bs = drop n bs" by auto
    have "writeHeaders_loop werr sid es n fp False bs fr
        = writeHeaders_loop werr sid es n fp False (drop n bs) (snd (WriteContinuation fr sid (drop n bs = []) (take n bs)))"
      using False "1.prems"(2) by (subst writeHeaders_loop.simps) (auto simp: Let_def)
    also have "\<dots> = Some (write_all (snd (WriteContinuation fr sid (drop n bs = []) (take n bs))) (cont_reqs sid (fragments n (drop n bs))))"
      by (rule "1.IH") (use False "1.prems" in auto)
    also have "\<dots> = Some (write_all fr (cont_reqs sid (fragments n bs)))"
      using False "1.prems"(1) fragments.simps[of n bs] by (simp add: fragments_eq_Nil)
    finally show ?thesis .
  qed
qed

lemma writeHeaders_loop_all:
  assumes "0 < n" and "\<And>ws. werr ws = None"
  shows "writeHeaders_loop werr sid es n fp True hdrs fr = Some (write_all fr (block_reqs sid es fp (fragments n hdrs)))"
proof (cases "hdrs = []")
  case True
  then show ?thesis by (subst writeHeaders_loop.simps) simp
next
  case False
  have "writeHeaders_loop werr sid es n fp True hdrs fr
      = writeHeaders_loop werr sid es n fp False (drop n hdrs) (snd (WriteHeaders fr (headers_param sid es fp (take n hdrs) (drop n hdrs = []))))"
    using False assms(2) by (subst writeHeaders_loop.simps) (auto simp: Let_def headers_param_def)
  also have "\<dots> = Some (write_all fr (block_reqs sid es fp (fragments n hdrs)))"
    using False assms fragments.simps[of n hdrs] by (simp add: writeHeaders_loop_rest fragments_eq_Nil)
  finally show ?thesis .
qed

section \<open>The header block on the wire\<close>

definition priority_size :: "Fingerprint option \<Rightarrow> nat" where
  "priority_size fp = (if PriorityParam_IsZero (header_priority fp) then 0 else 5)"

lemma wire_header_priority: "wire_priority (header_priority fp) = header_priority fp"
  by (simp add: wire_priority_def header_priority_def wire_of_priority_def zeroPriority_def split: option.split)

lemma cont_header:
  assumes "sid_ok sid"
  shows "fh_Type (req_header (ReqContinuation sid eh c)) = FrameContinuation" "fh_StreamID (req_header (ReqContinuation sid eh c)) = sid"
    "opens (req_header (ReqContinuation sid eh c)) = (if eh then 0 else sid)"
  using assms by (auto simp: req_header_def wire_header_def opens_def bit_if_def Has_def sid_ok_mask)

lemma headers_header:
  assumes "sid_ok sid"
  shows "fh_Type (req_header (ReqHeaders (headers_param sid es fp c eh))) = FrameHeaders"
    "fh_StreamID (req_header (ReqHeaders (headers_param sid es fp c eh))) = sid"
    "opens (req_header (ReqHeaders (headers_param sid es fp c eh))) = (if eh then 0 else sid)"
    "Has (fh_Flags (req_header (ReqHeaders (headers_param sid es fp c eh)))) 1 = es"
  using assms by (auto simp: req_header_def wire_header_def opens_def bit_if_def Has_def sid_ok_mask headers_param_def)

lemma cont_chain: "sid_ok sid \<Longrightarrow> cs \<noteq> [] \<Longrightarrow> chain sid (map req_header (cont_reqs sid cs))"
proof (induction cs)
  case (Cons c cs)
  then show ?case by (cases "cs = []") (simp_all add: follows_def cont_header sid_ok_mask)
qed simp

lemma block_chain:
  assumes "sid_ok sid"
  shows "chain 0 (map req_header (block_reqs sid es fp cs))"
proof (cases cs)
  case (Cons c ds)
  then show ?thesis using assms cont_chain[OF assms, of ds]
    by (cases "ds = []") (simp_all add: follows_def headers_header)
qed simp

lemma cont_reqs_ok:
  "sid_ok sid \<Longrightarrow> \<forall>c \<in> set cs. length c \<le> m \<Longrightarrow> m < 2 ^ 24 \<Longrightarrow>
     list_all (\<lambda>q. req_fits q \<and> req_readable q \<and> length (req_payload q) \<le> m) (cont_reqs sid cs)"
  by (induction cs) (auto simp: req_fits_def req_payload_def)

lemma block_reqs_ok:
  assumes "sid_ok sid" and "StreamDep (header_priority fp) < 2147483648" and "\<forall>c \<in> set cs. length c \<le> n" and "n + priority_size fp < 2 ^ 24"
  shows "list_all (\<lambda>q. req_fits q \<and> req_readable q \<and> length (req_payload q) \<le> n + priority_size fp) (block_reqs sid es fp cs)"
proof (cases cs)
  case (Cons c ds)
  have "list_all (\<lambda>q. req_fits q \<and> req_readable q \<and> length (req_payload q) \<le> n + priority_size fp) (cont_reqs sid ds)"
    by (rule cont_reqs_ok) (use assms Cons in \<open>auto intro: trans_le_add1\<close>)
  with Cons assms show ?thesis
    by (auto simp: req_fits_def req_payload_def headers_param_def padded_def priority_size_def prio_bytes_def put32_def)
qed simp

lemma cont_frames:
  "map (\<lambda>q. req_frame (req_header q) q) (cont_reqs sid cs) = map2 ContinuationFrame (map req_header (cont_reqs sid cs)) cs"
  by (induction cs) simp_all

text \<open>The frames of a header block, as another framer reads them.\<close>

lemma block_read:
  assumes "sid_ok sid" and "StreamDep (header_priority fp) < 2147483648" and "0 < n" and "n + priority_size fp < 2 ^ 24" and "hdrs \<noteq> []"
    and "reading g 0" and "rd_data (fr_r g) = concat (map req_bytes (block_reqs sid es fp (fragments n hdrs))) @ rest"
    and "n + priority_size fp \<le> unat (maxReadSize g)"
  shows "\<exists>h hs c cs g'. read_frames vv tok (Suc (length cs)) g = Some (HeadersFrame h (header_priority fp) c # map2 ContinuationFrame hs cs, g')
    \<and> c @ concat cs = hdrs \<and> rd_data (fr_r g') = rest \<and> fh_StreamID h = sid \<and> (Has (fh_Flags h) 1 \<longleftrightarrow> es)"
proof -
  obtain c cs where f: "fragments n hdrs = c # cs" using assms(3,5) fragments_eq_Nil[of n hdrs] by (cases "fragments n hdrs") auto
  have cat: "c @ concat cs = hdrs" using concat_fragments[OF assms(3), of hdrs] f by simp
  have "list_all (\<lambda>q. req_fits q \<and> req_readable q \<and> length (req_payload q) \<le> n + priority_size fp) (block_reqs sid es fp (fragments n hdrs))"
    by (rule block_reqs_ok) (use assms(1,2,4) fragments_length in blast)+
  then have all: "list_all (\<lambda>q. req_fits q \<and> req_readable q \<and> read_size_ok g q) (block_reqs sid es fp (fragments n hdrs))"
    using assms(8) by (auto simp: list_all_iff read_size_ok_def)
  obtain g' where g': "read_frames vv tok (length (block_reqs sid es fp (fragments n hdrs))) g
      = Some (map (\<lambda>q. req_frame (req_header q) q) (block_reqs sid es fp (fragments n hdrs)), g')" "rd_data (fr_r g') = rest"
    using read_frames_written[OF all block_chain[OF assms(1)] assms(6,7)] by blast
  let ?q = "ReqHeaders (headers_param sid es fp c (cs = []))"
  have len: "length (block_reqs sid es fp (fragments n hdrs)) = Suc (length cs)"
    unfolding f by simp (induction cs, simp_all)
  have fr: "map (\<lambda>q. req_frame (req_header q) q) (block_reqs sid es fp (fragments n hdrs))
      = HeadersFrame (req_header ?q) (header_priority fp) c # map2 ContinuationFrame (map req_header (cont_reqs sid cs)) cs"
    unfolding f by (simp add: cont_frames wire_header_priority headers_param_def)
  show ?thesis
    using g' cat headers_header[OF assms(1), of es fp c "cs = []"] unfolding len fr by blast
qed

lemma DecodeFull_nil: "d_saveBuf d = [] \<Longrightarrow> \<exists>d'. DecodeFull d [] = Some (Inr [], d')"
  by (simp add: DecodeFull_def dec_Write_def dec_Close_def SetEmitFunc_def)


definition demo_headers :: h2_Request where
  "demo_headers = ep_Request (demo_param [] [])"

lemma client_conn_fresh:
  assumes "newClientConn w r werr flushErr (client_h2 fp) su = Some (Inr cc)"
  shows "cc_henc cc = encoder0" "cc_maxFrameSize cc = 16384" "cc_cs cc = (\<lambda>_. new_stream False False False 0)" "cc_werr cc = werr"
    "cc_peerMaxHeaderListSize cc = NOT 0" "cc_t cc = client_h2 fp"
proof -
  have l: "SetMaxDynamicTableSizeLimit encoder0 4096 = Some encoder0"
    by (simp add: SetMaxDynamicTableSizeLimit_def encoder0_def)
  have c: "cf_MaxEncoderHeaderTableSize (configFromTransport (client_h2 fp)) = 4096"
    by (simp add: configFromTransport_def client_h2_def setConfigDefaults_def setDefault_def Let_def)
  show "cc_henc cc = encoder0" "cc_maxFrameSize cc = 16384" "cc_cs cc = (\<lambda>_. new_stream False False False 0)" "cc_werr cc = werr"
    "cc_peerMaxHeaderListSize cc = NOT 0" "cc_t cc = client_h2 fp"
    using assms l c by (auto simp: newClientConn_def Let_def bind_eq_Some_conv NewEncoder_encoder0 split: option.splits)
qed


section \<open>Frame sizes\<close>

text \<open>With a frame size of 0, no fragment is ever taken from the block, and the loop writes empty frames forever.\<close>

lemma writeHeaders_loop_returns:
  "writeHeaders_loop werr sid es n fp first hdrs fr = Some y \<Longrightarrow> n = 0 \<and> (\<forall>ws. werr ws = None) \<longrightarrow> hdrs = []"
proof (rule writeHeaders_loop.raw_induct[where P = "\<lambda>werr sid es n fp first hdrs fr y. n = 0 \<and> (\<forall>ws. werr ws = None) \<longrightarrow> hdrs = []", rotated], assumption)
  fix loop werr sid es n fp first hdrs fr y
  assume 1: "\<And>werr sid es n fp first hdrs fr y. loop werr sid es n fp first hdrs fr = Some y \<Longrightarrow> n = 0 \<and> (\<forall>ws. werr ws = None) \<longrightarrow> hdrs = []"
    "(if length hdrs > 0 \<and> werr (fr_w fr) = None
      then
        let chunk = (if length hdrs > n then take n hdrs else hdrs);
            hdrs = drop (length chunk) hdrs;
            endHeaders = (length hdrs = 0)
        in if first
           then
             let param = \<lparr>hp_StreamID = sid, hp_BlockFragment = chunk, hp_EndStream = es, hp_EndHeaders = endHeaders,
                          hp_PadLength = 0, hp_Priority = header_priority fp\<rparr>
             in loop werr sid es n fp False hdrs (snd (WriteHeaders fr param))
           else loop werr sid es n fp False hdrs (snd (WriteContinuation fr sid endHeaders chunk))
      else Some fr) = Some y"
  show "n = 0 \<and> (\<forall>ws. werr ws = None) \<longrightarrow> hdrs = []"
  proof (intro impI, rule ccontr)
    assume z: "n = 0 \<and> (\<forall>ws. werr ws = None)" and "hdrs \<noteq> []"
    with 1(2) have "\<exists>fr'. loop werr sid es n fp False hdrs fr' = Some y" by (cases first) (auto simp: Let_def)
    with 1(1) z \<open>hdrs \<noteq> []\<close> show False by blast
  qed
qed

lemma writeHeaders_loop_zero:
  "hdrs \<noteq> [] \<Longrightarrow> \<forall>ws. werr ws = None \<Longrightarrow> writeHeaders_loop werr sid es 0 fp first hdrs fr = None"
  using writeHeaders_loop_returns[of werr sid es 0 fp first hdrs fr] by (cases "writeHeaders_loop werr sid es 0 fp first hdrs fr") auto

text \<open>C38: with a priority in the fingerprint, a header block that fills a frame gives a HEADERS frame of five bytes more
  than the peer's maximum frame size, so a peer that enforces its own limit refuses the request: the priority fields are not counted
  when the block is cut into fragments.\<close>

theorem priority_exceeds_frame_size:
  assumes "sid_ok sid" and "StreamDep (header_priority fp) < 2147483648" and "\<not> PriorityParam_IsZero (header_priority fp)"
    and "0 < n" and "n + 5 < 2 ^ 24" and "n \<le> length hdrs" and "\<forall>ws. cc_werr cc ws = None"
  shows "\<exists>e cc' w ws. writeHeaders cc sid es n hdrs fp = Some (e, cc') \<and> fr_w (cc_fr cc') = fr_w (cc_fr cc) @ w # ws \<and> length w = 9 + n + 5
    \<and> (\<forall>g rest. unat (maxReadSize g) = n \<and> rd_data (fr_r g) = w @ rest \<longrightarrow> (\<exists>g'. ReadFrame vv tok g = Some (None, Some ErrFrameTooLarge, g')))"
proof -
  have ne: "hdrs \<noteq> []" using assms(4,6) by auto
  let ?qs = "block_reqs sid es fp (fragments n hdrs)"
  have loop: "writeHeaders_loop (cc_werr cc) sid es n fp True hdrs (cc_fr cc) = Some (write_all (cc_fr cc) ?qs)"
    using assms(4,7) by (intro writeHeaders_loop_all) auto
  have fits: "list_all req_fits ?qs"
    using block_reqs_ok[of sid fp "fragments n hdrs" n es] assms(1,2,3,5) fragments_length[of _ n hdrs]
    by (auto simp: list_all_iff priority_size_def)
  obtain ws where qs: "?qs = ReqHeaders (headers_param sid es fp (take n hdrs) (ws = [])) # cont_reqs sid ws"
    using ne assms(4) fragments.simps[of n hdrs] by auto
  let ?q = "ReqHeaders (headers_param sid es fp (take n hdrs) (ws = []))"
  have w: "fr_w (write_all (cc_fr cc) ?qs) = fr_w (cc_fr cc) @ req_bytes ?q # map req_bytes (cont_reqs sid ws)"
    using write_all_written[OF fits, of "cc_fr cc"] unfolding qs by simp
  have len: "length (req_payload ?q) = n + 5"
    using assms(3,6) by (simp add: req_payload_def headers_param_def padded_def prio_bytes_def put32_def)
  obtain fl where wire: "req_wire ?q = (1, fl, sid, req_payload ?q)" by (simp add: req_payload_def headers_param_def)
  have b: "req_bytes ?q = frame_bytes 1 fl sid (req_payload ?q)" unfolding req_bytes_def wire by simp
  have l: "length (req_bytes ?q) = 9 + n + 5" unfolding b by (simp add: frame_bytes_def put24_def put32_def len)
  have "\<exists>g'. ReadFrame vv tok g = Some (None, Some ErrFrameTooLarge, g')"
    if g: "unat (maxReadSize g) = n" "rd_data (fr_r g) = req_bytes ?q @ rest" for g rest
  proof -
    let ?fh = "wire_header 1 fl sid (req_payload ?q)"
    have "fh_Type invalidHTTP1LookingFrameHeader = 80" by code_simp
    moreover have "fh_Type ?fh = 1" by (simp add: wire_header_def)
    ultimately have ni: "?fh \<noteq> invalidHTTP1LookingFrameHeader" by auto
    have big: "fh_Length ?fh > maxReadSize g"
      using g(1) assms(5)
      by (simp add: wire_header_def word_less_nat_alt len unat_of_nat del: of_nat_add)
    show ?thesis
      using ni big readFrameHeader_frame_bytes[of "fr_r g" 1 fl sid "req_payload ?q" rest] g(2) b len assms(5)
      by (simp add: ReadFrame_def ReadFrameHeader_def Let_def)
  qed
  then show ?thesis using loop w l by (auto simp: writeHeaders_def)
qed

theorem priority_exceeds_frame_size_witness:
  "\<exists>cc e cc' w ws. newClientConn sink \<lparr>rd_data = [], rd_err = EOF\<rparr> (\<lambda>_. None) (\<lambda>_. None) (client_h2 (buildFingerprint demo_snapshot)) False = Some (Inr cc)
    \<and> writeHeaders cc 1 True 16384 (replicate 16384 0) (buildFingerprint demo_snapshot) = Some (e, cc')
    \<and> fr_w (cc_fr cc') = fr_w (cc_fr cc) @ w # ws \<and> length w = 16398"
proof -
  let ?fp = "buildFingerprint demo_snapshot"
  obtain cc where cc: "newClientConn sink \<lparr>rd_data = [], rd_err = EOF\<rparr> (\<lambda>_. None) (\<lambda>_. None) (client_h2 ?fp) False = Some (Inr cc)"
    using newClientConn_client by blast
  have pr: "StreamDep (header_priority ?fp) < 2147483648" "\<not> PriorityParam_IsZero (header_priority ?fp)" by code_simp+
  have "\<exists>e cc' w ws. writeHeaders cc 1 True 16384 (replicate 16384 0) ?fp = Some (e, cc') \<and> fr_w (cc_fr cc') = fr_w (cc_fr cc) @ w # ws
      \<and> length w = 9 + 16384 + 5
      \<and> (\<forall>g rest. unat (maxReadSize g) = 16384 \<and> rd_data (fr_r g) = w @ rest \<longrightarrow>
           (\<exists>g'. ReadFrame (\<lambda>_. True) (\<lambda>_. True) g = Some (None, Some ErrFrameTooLarge, g')))"
    by (rule priority_exceeds_frame_size) (use pr client_conn_fresh(4)[OF cc] in \<open>simp_all add: sid_ok_def\<close>)
  with cc show ?thesis by fastforce
qed

end
