(* ===== verification/H2_Streams.thy ===== *)
theory H2_Streams
  imports H2_Headers
begin

unbundle bit_operations_syntax

text \<open>
  The streams of an HTTP/2 connection (\<open>http2/transport.go\<close>): admission of requests, the life of a
  stream from \<open>addStreamLocked\<close> to \<open>cleanupWriteRequest\<close>, sending under flow control, and closing the
  connection. The mutex \<open>cc.mu\<close> is the flag \<open>cc_mu\<close>: a method that locks it while its own
  goroutine holds it never returns, which is \<open>Deadlock\<close>; a panic is \<open>Panic\<close>. The work of other goroutines
  is not interleaved into a method. A wait on \<open>cc.cond\<close> ends the method with the answer that it waits. Whether the
  connection has been idle for too long is an argument, as the clock is not part of the state.
\<close>

section \<open>Methods that may not return\<close>

datatype stuck = Panic | Deadlock

type_synonym 'a outcome = "stuck + 'a"

definition of_option :: "'a option \<Rightarrow> 'a outcome" where
  "of_option x = (case x of None \<Rightarrow> Inl Panic | Some y \<Rightarrow> Inr y)"

lemma of_option_simps [simp]: "of_option None = Inl Panic" "of_option (Some y) = Inr y"
  by (simp_all add: of_option_def)

lemma of_option_Inr [simp]: "of_option x = Inr y \<longleftrightarrow> x = Some y"
  by (cases x) simp_all

definition lock_mu :: "ClientConn \<Rightarrow> ClientConn outcome" where
  "lock_mu cc = (if cc_mu cc then Inl Deadlock else Inr (cc\<lparr>cc_mu := True\<rparr>))"

definition unlock_mu :: "ClientConn \<Rightarrow> ClientConn" where
  "unlock_mu cc = cc\<lparr>cc_mu := False\<rparr>"

definition upd_cs :: "u32 \<Rightarrow> (clientStream \<Rightarrow> clientStream) \<Rightarrow> ClientConn \<Rightarrow> ClientConn" where
  "upd_cs i f cc = cc\<lparr>cc_cs := (cc_cs cc)(i := f (cc_cs cc i))\<rparr>"

text \<open>\<open>cc.bw.Flush\<close>.\<close>

definition flush :: "ClientConn \<Rightarrow> h2_error option" where
  "flush cc = cc_flushErr cc (fr_w (cc_fr cc))"

definition put_frame :: "(Framer \<Rightarrow> h2_error option \<times> Framer) \<Rightarrow> ClientConn \<Rightarrow> h2_error option \<times> ClientConn" where
  "put_frame wr cc = (case wr (cc_fr cc) of (e, fr) \<Rightarrow> (e, cc\<lparr>cc_fr := fr\<rparr>))"

section \<open>Errors\<close>

definition errClientConnClosed :: h2_error where "errClientConnClosed = errors_New ''http2: client conn is closed''"
definition errClientConnUnusable :: h2_error where "errClientConnUnusable = errors_New ''http2: client conn not usable''"
definition errClientConnNotEstablished :: h2_error where
  "errClientConnNotEstablished = errors_New ''http2: client conn could not be established''"
definition errClientConnGotGoAway :: h2_error where
  "errClientConnGotGoAway = errors_New ''http2: Transport received Server's graceful shutdown GOAWAY''"
definition errClientConnForceClosed :: h2_error where
  "errClientConnForceClosed = errors_New ''http2: client connection force closed via ClientConn.Close''"
definition errFromPeer :: h2_error where "errFromPeer = errors_New ''received from peer''"
definition errStopReqBodyWrite :: h2_error where "errStopReqBodyWrite = errors_New ''http2: aborting request body write''"
definition errRequestCanceled :: h2_error where "errRequestCanceled = errors_New ''net/http: request canceled''"
definition errClosedResponseBody :: h2_error where "errClosedResponseBody = errors_New ''http2: response body closed''"

definition canRetryError :: "h2_error \<Rightarrow> bool" where
  "canRetryError err =
     (if err = errClientConnUnusable \<or> err = errClientConnGotGoAway then True
      else case err of
          StreamError sid code cause \<Rightarrow> if code = ErrCodeProtocol \<and> cause = Some errFromPeer then True else code = ErrCodeRefusedStream
        | _ \<Rightarrow> False)"

text \<open>\<open>shouldRetryRequest\<close>: the request that is sent again, \<open>rewound\<close> when its body comes from \<open>GetBody\<close>.\<close>

datatype retry = NoRetry h2_error | SameRequest | Rewound

definition shouldRetryRequest :: "bool \<Rightarrow> (h2_error option) option \<Rightarrow> h2_error \<Rightarrow> (h2_error \<Rightarrow> h2_error) \<Rightarrow> retry" where
  "shouldRetryRequest hasBody getBody err wrap =
     (if \<not> canRetryError err then NoRetry err
      else if \<not> hasBody then SameRequest
      else case getBody of
          Some (Some e) \<Rightarrow> NoRetry e
        | Some None \<Rightarrow> Rewound
        | None \<Rightarrow> if err = errClientConnUnusable then SameRequest else NoRetry (wrap err))"

section \<open>Aborting a stream\<close>

definition closeReqBodyLocked :: "clientStream \<Rightarrow> clientStream" where
  "closeReqBodyLocked cs = (if cs_reqBodyClosed cs then cs else cs\<lparr>cs_reqBodyClosed := True\<rparr>)"

definition abortStreamLocked :: "h2_error \<Rightarrow> clientStream \<Rightarrow> clientStream" where
  "abortStreamLocked err cs =
     (let cs = (if cs_abortErr cs = None then cs\<lparr>cs_abortErr := Some err\<rparr> else cs)
      in if cs_reqBody cs then closeReqBodyLocked cs else cs)"

definition abortStream :: "u32 \<Rightarrow> h2_error \<Rightarrow> ClientConn \<Rightarrow> ClientConn outcome" where
  "abortStream i err cc = bind_res (lock_mu cc) (\<lambda>cc. Inr (unlock_mu (upd_cs i (abortStreamLocked err) cc)))"

definition abortRequestBodyWrite :: "u32 \<Rightarrow> ClientConn \<Rightarrow> ClientConn outcome" where
  "abortRequestBodyWrite i cc =
     bind_res (lock_mu cc) (\<lambda>cc.
       let cs = cc_cs cc i in
       Inr (unlock_mu (if cs_reqBody cs \<and> \<not> cs_reqBodyClosed cs then upd_cs i closeReqBodyLocked cc else cc)))"

section \<open>Admission of requests\<close>

definition disableKeepAlives :: "Transport \<Rightarrow> bool" where
  "disableKeepAlives t = (case t_t1 t of None \<Rightarrow> False | Some t1 \<Rightarrow> t1_DisableKeepAlives t1)"

definition currentRequestCountLocked :: "ClientConn \<Rightarrow> nat" where
  "currentRequestCountLocked cc = length (cc_streams cc) + cc_streamsReserved cc + cc_pendingResets cc"

definition isUsableLocked :: "bool \<Rightarrow> ClientConn \<Rightarrow> bool" where
  "isUsableLocked tooIdle cc \<longleftrightarrow>
     cc_goAway cc = None \<and> \<not> cc_closed cc \<and> \<not> cc_closing cc \<and> \<not> cc_doNotReuse cc
     \<and> unat (cc_nextStreamID cc) + 2 * cc_pendingRequests cc < 2147483647 \<and> \<not> tooIdle"

definition idleStateLocked :: "bool \<Rightarrow> ClientConn \<Rightarrow> bool" where
  "idleStateLocked tooIdle cc =
     (if cc_singleUse cc \<and> cc_nextStreamID cc > 1 then False
      else
        let maxConcurrentOkay = (if cc_strictMaxConcurrentStreams cc then True
              else currentRequestCountLocked cc < unat (cc_maxConcurrentStreams cc));
            st = (maxConcurrentOkay \<and> isUsableLocked tooIdle cc)
        in if cc_nextStreamID cc = 1 \<and> cc_streamsReserved cc = 0 \<and> cc_closed cc \<and> \<not> cc_closedOnIdle cc then True else st)"

definition canTakeNewRequestLocked :: "bool \<Rightarrow> ClientConn \<Rightarrow> bool" where
  "canTakeNewRequestLocked tooIdle cc = idleStateLocked tooIdle cc"

definition CanTakeNewRequest :: "bool \<Rightarrow> ClientConn \<Rightarrow> bool outcome" where
  "CanTakeNewRequest tooIdle cc = bind_res (lock_mu cc) (\<lambda>cc. Inr (canTakeNewRequestLocked tooIdle cc))"

definition canReserveLocked :: "bool \<Rightarrow> ClientConn \<Rightarrow> bool" where
  "canReserveLocked tooIdle cc =
     (if currentRequestCountLocked cc \<ge> unat (cc_maxConcurrentStreams cc) then False
      else if \<not> isUsableLocked tooIdle cc then False else True)"

definition availableLocked :: "bool \<Rightarrow> ClientConn \<Rightarrow> nat" where
  "availableLocked tooIdle cc =
     (if \<not> canTakeNewRequestLocked tooIdle cc then 0
      else nat (max 0 (int (unat (cc_maxConcurrentStreams cc)) - int (currentRequestCountLocked cc))))"

definition ReserveNewRequest :: "bool \<Rightarrow> ClientConn \<Rightarrow> (bool \<times> ClientConn) outcome" where
  "ReserveNewRequest tooIdle cc =
     bind_res (lock_mu cc) (\<lambda>cc.
       if \<not> idleStateLocked tooIdle cc then Inr (False, unlock_mu cc)
       else Inr (True, unlock_mu (cc\<lparr>cc_streamsReserved := cc_streamsReserved cc + 1\<rparr>)))"

definition decrStreamReservationsLocked :: "ClientConn \<Rightarrow> ClientConn" where
  "decrStreamReservationsLocked cc =
     (if cc_streamsReserved cc > 0 then cc\<lparr>cc_streamsReserved := cc_streamsReserved cc - 1\<rparr> else cc)"

definition decrStreamReservations :: "ClientConn \<Rightarrow> ClientConn outcome" where
  "decrStreamReservations cc = bind_res (lock_mu cc) (\<lambda>cc. Inr (unlock_mu (decrStreamReservationsLocked cc)))"

record ClientConnState =
  st_Closed :: bool
  st_Closing :: bool
  st_StreamsActive :: nat
  st_StreamsReserved :: nat
  st_StreamsPending :: nat
  st_MaxConcurrentStreams :: u32

definition State :: "ClientConn \<Rightarrow> ClientConnState outcome" where
  "State cc =
     (let maxConcurrent = (if \<not> cc_seenSettings cc then 0 else cc_maxConcurrentStreams cc) in
      bind_res (lock_mu cc) (\<lambda>cc.
        Inr \<lparr>st_Closed = cc_closed cc,
             st_Closing = cc_closing cc \<or> cc_singleUse cc \<or> cc_doNotReuse cc \<or> cc_goAway cc \<noteq> None,
             st_StreamsActive = length (cc_streams cc) + cc_pendingResets cc, st_StreamsReserved = cc_streamsReserved cc,
             st_StreamsPending = cc_pendingRequests cc, st_MaxConcurrentStreams = maxConcurrent\<rparr>))"

text \<open>One round of the loop of \<open>awaitOpenSlotForStreamLocked\<close>: an error, a free slot, or another wait.\<close>

datatype slot = NoSlot h2_error | SlotFree | SlotWait

definition awaitOpenSlot_round :: "bool \<Rightarrow> ClientConn \<Rightarrow> slot" where
  "awaitOpenSlot_round tooIdle cc =
     (if cc_closed cc \<and> cc_nextStreamID cc = 1 \<and> cc_streamsReserved cc = 0 then NoSlot errClientConnNotEstablished
      else if cc_closed cc \<or> \<not> canTakeNewRequestLocked tooIdle cc then NoSlot errClientConnUnusable
      else if currentRequestCountLocked cc < unat (cc_maxConcurrentStreams cc) then SlotFree
      else SlotWait)"

text \<open>The rest of the round, after the wait: the error of a request that was aborted meanwhile.\<close>

definition awaitOpenSlot_woken :: "clientStream \<Rightarrow> ClientConn \<Rightarrow> h2_error option \<times> ClientConn" where
  "awaitOpenSlot_woken cs cc = (cs_abortErr cs, cc\<lparr>cc_pendingRequests := cc_pendingRequests cc - 1\<rparr>)"

section \<open>The stream table\<close>

definition addStreamLocked :: "clientStream \<Rightarrow> ClientConn \<Rightarrow> (u32 \<times> ClientConn) outcome" where
  "addStreamLocked cs cc =
     (let i = cc_nextStreamID cc;
          h = (cc_flows cc)(unat i := \<lparr>o_n = 0, o_conn = None\<rparr>);
          h = snd (outflow_add h (unat i) (int32 (uint (cc_initialWindowSize cc))));
          h = setConnFlow h (unat i) (Some conn_flow);
          cs = cs\<lparr>cs_inflow := inflow_init (cs_inflow cs) (cc_initialStreamRecvWindowSize cc)\<rparr>
      in if i = 0 then Inl Panic
         else Inr (i, cc\<lparr>cc_flows := h, cc_cs := (cc_cs cc)(i := cs), cc_nextStreamID := i + 2, cc_streams := List.insert i (cc_streams cc)\<rparr>))"

definition closeConn :: "ClientConn \<Rightarrow> ClientConn" where
  "closeConn cc = cc\<lparr>cc_tconnClosed := True\<rparr>"

definition closesOnIdle :: "ClientConn \<Rightarrow> bool" where
  "closesOnIdle cc \<longleftrightarrow> cc_singleUse cc \<or> cc_doNotReuse cc \<or> disableKeepAlives (cc_t cc) \<or> cc_goAway cc \<noteq> None"

definition forgetStreamID :: "u32 \<Rightarrow> ClientConn \<Rightarrow> ClientConn outcome" where
  "forgetStreamID i cc =
     bind_res (lock_mu cc) (\<lambda>cc.
       if i \<notin> set (cc_streams cc) then Inl Panic
       else
         let cc = cc\<lparr>cc_streams := removeAll i (cc_streams cc)\<rparr> in
         if closesOnIdle cc \<and> cc_streamsReserved cc = 0 \<and> length (cc_streams cc) = 0
         then Inr (closeConn (unlock_mu (cc\<lparr>cc_closed := True\<rparr>)))
         else Inr (unlock_mu cc))"

section \<open>Closing a connection\<close>

definition abort_streams :: "(u32 \<Rightarrow> clientStream \<Rightarrow> clientStream) \<Rightarrow> ClientConn \<Rightarrow> ClientConn" where
  "abort_streams f cc = cc\<lparr>cc_cs := (\<lambda>i. if i \<in> set (cc_streams cc) then f i (cc_cs cc i) else cc_cs cc i)\<rparr>"

definition closeForError :: "h2_error \<Rightarrow> ClientConn \<Rightarrow> ClientConn outcome" where
  "closeForError err cc =
     bind_res (lock_mu cc) (\<lambda>cc.
       Inr (closeConn (unlock_mu (abort_streams (\<lambda>_. abortStreamLocked err) (cc\<lparr>cc_closed := True\<rparr>)))))"

definition Close :: "ClientConn \<Rightarrow> ClientConn outcome" where
  "Close cc = closeForError errClientConnForceClosed cc"

definition closeForLostPing :: "ClientConn \<Rightarrow> ClientConn outcome" where
  "closeForLostPing cc = closeForError (errors_New ''http2: client connection lost'') cc"

definition closeIfIdle :: "ClientConn \<Rightarrow> ClientConn outcome" where
  "closeIfIdle cc =
     bind_res (lock_mu cc) (\<lambda>cc.
       if length (cc_streams cc) > 0 \<or> cc_streamsReserved cc > 0 then Inr (unlock_mu cc)
       else Inr (closeConn (unlock_mu (cc\<lparr>cc_closed := True, cc_closedOnIdle := True\<rparr>))))"

definition isDoNotReuseAndIdle :: "ClientConn \<Rightarrow> bool outcome" where
  "isDoNotReuseAndIdle cc = bind_res (lock_mu cc) (\<lambda>cc. Inr (cc_doNotReuse cc \<and> length (cc_streams cc) = 0))"

definition sendGoAway :: "ClientConn \<Rightarrow> (h2_error option \<times> ClientConn) outcome" where
  "sendGoAway cc =
     bind_res (lock_mu cc) (\<lambda>cc.
       let closing = cc_closing cc;
           maxStreamID = cc_nextStreamID cc;
           cc = unlock_mu (cc\<lparr>cc_closing := True\<rparr>)
       in if closing then Inr (None, cc)
          else case put_frame (\<lambda>fr. WriteGoAway fr maxStreamID ErrCodeNo []) cc of
              (Some e, cc) \<Rightarrow> Inr (Some e, cc)
            | (None, cc) \<Rightarrow> Inr (flush cc, cc))"

definition SetDoNotReuse :: "ClientConn \<Rightarrow> ClientConn outcome" where
  "SetDoNotReuse cc = bind_res (lock_mu cc) (\<lambda>cc. Inr (unlock_mu (cc\<lparr>cc_doNotReuse := True\<rparr>)))"

text \<open>\<open>setGoAway\<close> for the fields of the frame.\<close>

definition goAway_stream :: "u32 \<Rightarrow> ErrCode \<Rightarrow> u32 \<Rightarrow> clientStream \<Rightarrow> clientStream" where
  "goAway_stream lastID code i cs =
     (if i \<le> lastID then cs
      else if i = 1 \<and> code \<noteq> ErrCodeNo
      then abortStreamLocked (errors_New (''http2: Transport received GOAWAY from server ErrCode:'' @ ErrCode_String code)) cs
      else abortStreamLocked errClientConnGotGoAway cs)"

definition setGoAway :: "u32 \<Rightarrow> ErrCode \<Rightarrow> bytes \<Rightarrow> ClientConn \<Rightarrow> ClientConn outcome" where
  "setGoAway lastID errCode debug cc =
     bind_res (lock_mu cc) (\<lambda>cc.
       let code = (case cc_goAway cc of Some (_, old) \<Rightarrow> if old \<noteq> ErrCodeNo then old else errCode | None \<Rightarrow> errCode);
           cc = cc\<lparr>cc_goAway := Some (lastID, code),
                   cc_goAwayDebug := if cc_goAwayDebug cc = [] then debug else cc_goAwayDebug cc\<rparr>
       in Inr (unlock_mu (abort_streams (goAway_stream lastID code) cc)))"

section \<open>Sending\<close>

text \<open>The part of \<open>writeRequest\<close> under \<open>cc.mu\<close>, when a slot is free: the stream gets its identifier.\<close>

definition open_stream :: "bool \<Rightarrow> bool \<Rightarrow> clientStream \<Rightarrow> ClientConn \<Rightarrow> (slot \<times> u32 \<times> ClientConn) outcome" where
  "open_stream tooIdle closeRequest cs cc =
     bind_res (lock_mu cc) (\<lambda>cc.
       let cc = decrStreamReservationsLocked cc in
       case awaitOpenSlot_round tooIdle cc of
         NoSlot e \<Rightarrow> Inr (NoSlot e, 0, unlock_mu cc)
       | SlotWait \<Rightarrow> Inr (SlotWait, 0, unlock_mu (cc\<lparr>cc_pendingRequests := cc_pendingRequests cc + 1\<rparr>))
       | SlotFree \<Rightarrow>
           bind_res (addStreamLocked cs cc) (\<lambda>(i, cc).
             Inr (SlotFree, i, unlock_mu (if closeRequest then cc\<lparr>cc_doNotReuse := True\<rparr> else cc))))"

definition frameScratchBufferLen :: "clientStream \<Rightarrow> int \<Rightarrow> int" where
  "frameScratchBufferLen cs maxFrame =
     (let n = (if maxFrame > 524288 then 524288 else maxFrame);
          cl = cs_reqBodyContentLength cs;
          n = (if cl \<noteq> - 1 \<and> cl + 1 < n then cl + 1 else n)
      in if n < 1 then 1 else n)"

text \<open>\<open>bits.Len\<close> is the number of bits of a value.\<close>

fun log2_loop :: "nat \<Rightarrow> nat" where
  "log2_loop n = (if n < 2 then 0 else Suc (log2_loop (n div 2)))"

declare log2_loop.simps [simp del]

definition bufPoolIndex :: "nat \<Rightarrow> nat" where
  "bufPoolIndex sz =
     (if sz \<le> 16384 then 0
      else
        let bits = (if sz - 1 = 0 then 0 else Suc (log2_loop (sz - 1)));
            index = bits - 14
        in if index \<ge> 7 then 6 else index)"

datatype tokens = Tokens int | NoTokens h2_error | TokenWait

text \<open>One round of the loop of \<open>awaitFlowControl\<close>; \<open>cancelled\<close> is the error of a request whose context is done.\<close>

definition awaitFlowControl :: "h2_error option \<Rightarrow> u32 \<Rightarrow> int \<Rightarrow> ClientConn \<Rightarrow> (tokens \<times> ClientConn) outcome" where
  "awaitFlowControl cancelled i maxBytes cc =
     bind_res (lock_mu cc) (\<lambda>cc.
       let cs = cc_cs cc i in
       if cc_closed cc then Inr (NoTokens errClientConnClosed, unlock_mu cc)
       else if cs_reqBodyClosed cs then Inr (NoTokens errStopReqBodyWrite, unlock_mu cc)
       else case (case cs_abortErr cs of Some e \<Rightarrow> Some e | None \<Rightarrow> cancelled) of
           Some e \<Rightarrow> Inr (NoTokens e, unlock_mu cc)
         | None \<Rightarrow>
             let a = available (cc_flows cc) (unat i) in
             if a > 0 then
               let take = a;
                   take = (if take > maxBytes then int32 maxBytes else take);
                   take = (if take > int32 (uint (cc_maxFrameSize cc)) then int32 (uint (cc_maxFrameSize cc)) else take)
               in bind_res (of_option (outflow_take (cc_flows cc) (unat i) take)) (\<lambda>h.
                    Inr (Tokens take, unlock_mu (cc\<lparr>cc_flows := h\<rparr>)))
             else Inr (TokenWait, unlock_mu cc))"

text \<open>One round of the inner loop of \<open>writeRequestBody\<close>: as much of \<open>remain\<close> as the windows allow is sent. The answer is the error, the rest and whether END_STREAM
  was sent. A slice with a negative bound panics.\<close>

definition write_data_round :: "h2_error option \<Rightarrow> u32 \<Rightarrow> bool \<Rightarrow> bool \<Rightarrow> bytes \<Rightarrow> ClientConn \<Rightarrow> (tokens \<times> h2_error option \<times> bytes \<times> bool \<times> ClientConn) outcome" where
  "write_data_round cancelled i sawEOF hasTrailers remain cc =
     bind_res (awaitFlowControl cancelled i (int (length remain)) cc) (\<lambda>(tk, cc).
       case tk of
         NoTokens e \<Rightarrow> Inr (tk, Some e, remain, False, cc)
       | TokenWait \<Rightarrow> Inr (tk, None, remain, False, cc)
       | Tokens allowed \<Rightarrow>
           if allowed < 0 \<or> nat allowed > length remain then Inl Panic
           else
             let data = take (nat allowed) remain;
                 remain = drop (nat allowed) remain;
                 sentEnd = (sawEOF \<and> length remain = 0 \<and> \<not> hasTrailers)
             in case put_frame (\<lambda>fr. WriteData fr i sentEnd data) cc of
                 (Some e, cc) \<Rightarrow> Inr (tk, Some e, remain, sentEnd, cc)
               | (None, cc) \<Rightarrow> Inr (tk, flush cc, remain, sentEnd, cc))"

definition writeStreamReset :: "u32 \<Rightarrow> ErrCode \<Rightarrow> bytes option \<Rightarrow> ClientConn \<Rightarrow> ClientConn" where
  "writeStreamReset i code ping cc =
     (let cc = snd (put_frame (\<lambda>fr. WriteRSTStream fr i code) cc) in
      case ping of None \<Rightarrow> cc | Some payload \<Rightarrow> snd (put_frame (\<lambda>fr. WritePing fr False payload) cc))"

text \<open>\<open>cleanupWriteRequest\<close> of a stream that has an identifier; \<open>payload\<close> are the random bytes of a PING.\<close>

definition pipe_close :: "u32 \<Rightarrow> h2_error \<Rightarrow> ClientConn \<Rightarrow> ClientConn outcome" where
  "pipe_close i err cc =
     bind_res (of_option (CloseWithError dataBuffer_Len (cs_bufPipe (cc_cs cc i)) (Some err))) (\<lambda>p.
       Inr (upd_cs i (\<lambda>cs. cs\<lparr>cs_bufPipe := p\<rparr>) cc))"

definition cleanup_reset :: "u32 \<Rightarrow> h2_error \<Rightarrow> bytes \<Rightarrow> bool \<Rightarrow> bool \<Rightarrow> ClientConn \<Rightarrow> ClientConn outcome" where
  "cleanup_reset i err payload closeOnIdle readSinceStream cc =
     bind_res (abortStream i err cc) (\<lambda>cc.
       bind_res
         (if \<not> cs_sentHeaders (cc_cs cc i) then Inr cc
          else case err of
              StreamError sid code cause \<Rightarrow> Inr (if cause \<noteq> Some errFromPeer then writeStreamReset i code None cc else cc)
            | _ \<Rightarrow>
                if \<not> closeOnIdle \<and> \<not> readSinceStream
                then bind_res (lock_mu cc) (\<lambda>cc.
                       let ping = (\<not> cc_rstStreamPingsBlocked cc \<and> cc_pendingResets cc = 0);
                           cc = (if \<not> cc_rstStreamPingsBlocked cc then cc\<lparr>cc_pendingResets := cc_pendingResets cc + 1\<rparr> else cc)
                       in Inr (writeStreamReset i ErrCodeCancel (if ping then Some payload else None) (unlock_mu cc)))
                else Inr (writeStreamReset i ErrCodeCancel None cc))
         (pipe_close i err))"

definition cleanupWriteRequest :: "u32 \<Rightarrow> h2_error option \<Rightarrow> bytes \<Rightarrow> ClientConn \<Rightarrow> ClientConn outcome" where
  "cleanupWriteRequest i err payload cc =
     bind_res (lock_mu cc) (\<lambda>cc.
       let cs = cc_cs cc i;
           cc = (if cs_reqBody cs then upd_cs i closeReqBodyLocked cc else cc);
           closeOnIdle = closesOnIdle cc;
           readSinceStream = (cc_readBeforeStreamID cc > i);
           cc = unlock_mu cc;
           err = (if err \<noteq> None \<and> cs_sentEndStream cs \<and> cs_peerClosed cs then None else err)
       in bind_res
            (case err of
               Some e \<Rightarrow> cleanup_reset i e payload closeOnIdle readSinceStream cc
             | None \<Rightarrow>
                 pipe_close i errRequestCanceled
                   (if cs_sentHeaders cs \<and> \<not> cs_sentEndStream cs then writeStreamReset i ErrCodeNo None cc else cc))
            (\<lambda>cc. bind_res (forgetStreamID i cc) (\<lambda>cc.
               if cc_werr cc (fr_w (cc_fr cc)) \<noteq> None then Close cc else Inr cc)))"

end
