(* ===== verification/H2_Read.thy ===== *)
theory H2_Read
  imports H2_Streams
begin

unbundle bit_operations_syntax

text \<open>
  The read loop of an HTTP/2 client connection (\<open>clientConnReadLoop\<close> in \<open>http2/transport.go\<close>): one
  definition per \<open>process\<close> method, their dispatch in \<open>run\<close>, and the response body that a user reads. The
  memory that a chunk of a buffer held before is the argument \<open>stale\<close>, as in \<open>Data_Buffer\<close>; the user's hook for 1xx
  responses is \<open>got1xx\<close>, and the text of a status code \<open>statusText\<close>.
\<close>

section \<open>Streams of the read loop\<close>

definition streamByID :: "u32 \<Rightarrow> bool \<Rightarrow> ClientConn \<Rightarrow> (u32 option \<times> ClientConn) outcome" where
  "streamByID i headerOrData cc =
     bind_res (lock_mu cc) (\<lambda>cc.
       let cc = (if headerOrData then cc\<lparr>cc_rstStreamPingsBlocked := False\<rparr> else cc);
           cc = cc\<lparr>cc_readBeforeStreamID := cc_nextStreamID cc\<rparr>
       in Inr (if i \<in> set (cc_streams cc) \<and> \<not> cs_readAborted (cc_cs cc i) then Some i else None, unlock_mu cc))"

definition endStreamError :: "u32 \<Rightarrow> h2_error \<Rightarrow> ClientConn \<Rightarrow> ClientConn outcome" where
  "endStreamError i err cc = abortStream i err (upd_cs i (\<lambda>cs. cs\<lparr>cs_readAborted := True\<rparr>) cc)"

text \<open>The code that the pipe runs at the end of the body; 0 is \<open>cs.copyTrailers\<close>.\<close>

definition copyTrailers :: "clientStream \<Rightarrow> clientStream option" where
  "copyTrailers cs =
     (if cs_trailer cs = [] then Some cs
      else case cs_res cs of
          None \<Rightarrow> None
        | Some res \<Rightarrow>
            Some (cs\<lparr>cs_res := Some (res\<lparr>rs_Trailer :=
              Some (foldl (\<lambda>t (k, vv). AList.update k vv t) (case rs_Trailer res of None \<Rightarrow> [] | Some t \<Rightarrow> t) (cs_trailer cs))\<rparr>)\<rparr>))"

definition endStream :: "u32 \<Rightarrow> ClientConn \<Rightarrow> ClientConn outcome" where
  "endStream i cc =
     (if cs_readClosed (cc_cs cc i) then Inr cc
      else
        let cc = upd_cs i (\<lambda>cs. cs\<lparr>cs_readClosed := True\<rparr>) cc in
        bind_res (lock_mu cc) (\<lambda>cc.
        bind_res (of_option (closeWithErrorAndCode dataBuffer_Len (cs_bufPipe (cc_cs cc i)) (Some EOF) 0)) (\<lambda>p.
          if cs_peerClosed (cc_cs cc i) then Inl Panic
          else Inr (unlock_mu (upd_cs i (\<lambda>cs. cs\<lparr>cs_bufPipe := p, cs_peerClosed := True\<rparr>) cc)))))"

section \<open>Responses\<close>

definition TrimString :: "string \<Rightarrow> string" where
  "TrimString s = (let sp = (\<lambda>c. c \<in> set [CHR '' '', CHR 0x09, CHR 0x0a, CHR 0x0d]) in rev (dropWhile sp (rev (dropWhile sp s))))"

definition foreachHeaderElement :: "string \<Rightarrow> string list" where
  "foreachHeaderElement v =
     (let v = TrimString v in
      if v = [] then []
      else if CHR '','' \<notin> set v then [v]
      else filter (\<lambda>f. f \<noteq> []) (map TrimString (split_on (CHR '','') v)))"

fun response_fields :: "HeaderField list \<Rightarrow> header_map \<Rightarrow> header_map option \<Rightarrow> header_map \<times> header_map option" where
  "response_fields [] header trailer = (header, trailer)"
| "response_fields (f # fs) header trailer =
     (let key = CanonicalHeader (hf_Name f) in
      if key = ''Trailer''
      then response_fields fs header
             (Some (foldl (\<lambda>t v. AList.update (CanonicalHeader v) [] t) (case trailer of None \<Rightarrow> [] | Some t \<Rightarrow> t) (foreachHeaderElement (hf_Value f))))
      else response_fields fs (AList.update key (header_values header key @ [hf_Value f]) header) trailer)"

text \<open>\<open>handleResponse\<close>: an error, \<open>None\<close> to skip an informational response, or the response, and the stream as it is
  left. \<open>limit\<close> is the bound on the size of all informational headers.\<close>

definition informational_limit :: "Transport \<Rightarrow> int" where
  "informational_limit t =
     (let limit = uint (Transport_maxHeaderListSize t) in
      case t_t1 t of None \<Rightarrow> limit | Some t1 \<Rightarrow> if t1_MaxResponseHeaderBytes t1 > limit then t1_MaxResponseHeaderBytes t1 else limit)"

definition informational :: "(int \<Rightarrow> header_map \<Rightarrow> h2_error option) option \<Rightarrow> Transport \<Rightarrow> int \<Rightarrow> header_map \<Rightarrow> HeaderField list \<Rightarrow> bool
    \<Rightarrow> clientStream \<Rightarrow> (h2_error + h2_Response option) \<times> clientStream" where
  "informational got1xx t statusCode header hfs streamEnded cs =
     (if streamEnded then (Inl (errors_New ''1xx informational response with END_STREAM flag''), cs)
      else
        let (err, cs) =
          (case got1xx of
             Some fn \<Rightarrow> (fn statusCode header, cs)
           | None \<Rightarrow>
               let cs = cs\<lparr>cs_totalHeaderSize := foldl (\<lambda>n h. n + uint (HeaderField_Size h)) (cs_totalHeaderSize cs) hfs\<rparr> in
               (if cs_totalHeaderSize cs > informational_limit t then Some (errors_New ''header list too large'') else None, cs))
        in case err of
             Some e \<Rightarrow> (Inl e, cs)
           | None \<Rightarrow> (Inr None, (if statusCode = 100 then cs\<lparr>cs_on100 := True\<rparr> else cs)\<lparr>cs_pastHeaders := False\<rparr>))"

definition content_length :: "header_map \<Rightarrow> bool \<Rightarrow> bool \<Rightarrow> int" where
  "content_length header streamEnded isHead =
     (case header_values header ''Content-Length'' of
        [cl] \<Rightarrow> (case ParseUint cl 10 63 of Some n \<Rightarrow> n | None \<Rightarrow> - 1)
      | _ # _ # _ \<Rightarrow> - 1
      | [] \<Rightarrow> if streamEnded \<and> \<not> isHead then 0 else - 1)"

definition handleResponse :: "(int \<Rightarrow> string) \<Rightarrow> (int \<Rightarrow> header_map \<Rightarrow> h2_error option) option \<Rightarrow> Transport \<Rightarrow> HeaderField list \<Rightarrow> bool \<Rightarrow> bool
    \<Rightarrow> clientStream \<Rightarrow> (h2_error + h2_Response option) \<times> clientStream" where
  "handleResponse statusText got1xx t hfs truncated streamEnded cs =
     (if truncated then (Inl (errors_New ''http2: response header list larger than advertised limit''), cs)
      else
        let status = PseudoValue hfs ''status'' in
        if status = [] then (Inl (errors_New ''malformed response from server: missing status pseudo header''), cs)
        else case Atoi status of
            None \<Rightarrow> (Inl (errors_New ''malformed response from server: malformed non-numeric status pseudo header''), cs)
          | Some statusCode \<Rightarrow>
              let (header, trailer) = response_fields (RegularFields hfs) [] None in
              if 100 \<le> statusCode \<and> statusCode \<le> 199
              then informational got1xx t statusCode header hfs streamEnded cs
              else
                let cl = content_length header streamEnded (cs_isHead cs);
                    res = \<lparr>rs_StatusCode = statusCode, rs_Status = status @ '' '' @ statusText statusCode, rs_Header = header,
                           rs_Trailer = trailer, rs_ContentLength = cl, rs_Body = noBody, rs_Uncompressed = False\<rparr>
                in if cs_isHead cs then (Inr (Some res), cs)
                   else if streamEnded then (Inr (Some (if cl > 0 then res\<lparr>rs_Body := missingBody\<rparr> else res)), cs)
                   else
                     let cs = cs\<lparr>cs_bufPipe := setBuffer (cs_bufPipe cs) (Some \<lparr>chunks = [], b_r = 0, b_w = 0, b_size = 0, b_expected = cl\<rparr>),
                                 cs_bytesRemain := cl\<rparr>;
                         res = res\<lparr>rs_Body := transportResponseBody\<rparr>
                     in if cs_requestedGzip cs \<and> asciiEqualFold (hdr_Get header ''Content-Encoding'') ''gzip''
                        then (Inr (Some (res\<lparr>rs_Header := AList.delete ''Content-Length'' (AList.delete ''Content-Encoding'' header),
                                             rs_ContentLength := - 1, rs_Body := gzipReader, rs_Uncompressed := True\<rparr>)), cs)
                        else (Inr (Some res), cs))"

definition processTrailers :: "u32 \<Rightarrow> HeaderField list \<Rightarrow> bool \<Rightarrow> ClientConn \<Rightarrow> (h2_error option \<times> ClientConn) outcome" where
  "processTrailers i hfs streamEnded cc =
     (let cs = cc_cs cc i in
      if cs_pastTrailers cs then Inr (Some (ConnectionError ErrCodeProtocol), cc)
      else
        let cc = upd_cs i (\<lambda>cs. cs\<lparr>cs_pastTrailers := True\<rparr>) cc in
        if \<not> streamEnded then Inr (Some (ConnectionError ErrCodeProtocol), cc)
        else if length (PseudoFields hfs) > 0 then Inr (Some (ConnectionError ErrCodeProtocol), cc)
        else
          let trailer = foldl (\<lambda>t f. AList.update (CanonicalHeader (hf_Name f)) (header_values t (CanonicalHeader (hf_Name f)) @ [hf_Value f]) t)
                [] (RegularFields hfs)
          in map_res (Pair None) (endStream i (upd_cs i (\<lambda>cs. cs\<lparr>cs_trailer := trailer\<rparr>) cc)))"

definition processHeaders :: "(int \<Rightarrow> string) \<Rightarrow> (int \<Rightarrow> header_map \<Rightarrow> h2_error option) option \<Rightarrow> u32 \<Rightarrow> HeaderField list \<Rightarrow> bool \<Rightarrow> bool
    \<Rightarrow> ClientConn \<Rightarrow> (h2_error option \<times> ClientConn) outcome" where
  "processHeaders statusText got1xx sid hfs truncated streamEnded cc =
     bind_res (streamByID sid True cc) (\<lambda>(cs, cc).
       case cs of
         None \<Rightarrow> Inr (None, cc)
       | Some i \<Rightarrow>
           if cs_readClosed (cc_cs cc i)
           then map_res (Pair None) (endStreamError i (StreamError sid ErrCodeProtocol (Some (errors_New ''protocol error: headers after END_STREAM''))) cc)
           else if cs_pastHeaders (cc_cs cc i) then processTrailers i hfs streamEnded cc
           else
             let cs = (cc_cs cc i)\<lparr>cs_pastHeaders := True\<rparr>;
                 (r, cs) = handleResponse statusText got1xx (cc_t cc) hfs truncated streamEnded cs;
                 cc = upd_cs i (\<lambda>_. cs) cc
             in case r of
                  Inl (ConnectionError code) \<Rightarrow> Inr (Some (ConnectionError code), cc)
                | Inl err \<Rightarrow> map_res (Pair None) (endStreamError i (StreamError sid ErrCodeProtocol (Some err)) cc)
                | Inr None \<Rightarrow> Inr (None, cc)
                | Inr (Some res) \<Rightarrow>
                    if cs_res cs \<noteq> None then Inl Panic
                    else
                      let cc = upd_cs i (\<lambda>cs. cs\<lparr>cs_res := Some res\<rparr>) cc in
                      if streamEnded then map_res (Pair None) (endStream i cc) else Inr (None, cc))"

section \<open>Data\<close>

definition put_update :: "u32 \<Rightarrow> int \<Rightarrow> ClientConn \<Rightarrow> ClientConn" where
  "put_update i n cc = (if n > 0 then snd (put_frame (\<lambda>fr. WriteWindowUpdate fr i (of_int n)) cc) else cc)"

definition errClosedPipeWrite :: h2_error where "errClosedPipeWrite = errors_New ''write on closed buffer''"
definition errUninitializedPipeWrite :: h2_error where "errUninitializedPipeWrite = errors_New ''write on uninitialized buffer''"

text \<open>DATA of a stream that is not open.\<close>

definition unsolicited_data :: "u32 \<Rightarrow> int \<Rightarrow> ClientConn \<Rightarrow> (h2_error option \<times> ClientConn) outcome" where
  "unsolicited_data sid len cc =
     bind_res (lock_mu cc) (\<lambda>cc.
       let neverSent = cc_nextStreamID cc; cc = unlock_mu cc in
       if sid \<ge> neverSent then Inr (Some (ConnectionError ErrCodeProtocol), cc)
       else if len > 0 then
         bind_res (lock_mu cc) (\<lambda>cc.
           let (ok, fl) = inflow_take (cc_inflow cc) len in
           bind_res (of_option (inflow_add fl len)) (\<lambda>(connAdd, fl).
             let cc = unlock_mu (cc\<lparr>cc_inflow := fl\<rparr>) in
             if \<not> ok then Inr (Some (ConnectionError ErrCodeFlowControl), cc)
             else Inr (None, put_update 0 connAdd cc)))
       else Inr (None, cc))"

text \<open>The answer of \<open>cs.bufPipe.Write\<close>: its error.\<close>

definition pipe_put :: "(dataBuffer \<Rightarrow> nat \<Rightarrow> byte) \<Rightarrow> (dataBuffer, h2_error) pipe \<Rightarrow> bytes \<Rightarrow> (h2_error option \<times> (dataBuffer, h2_error) pipe) outcome" where
  "pipe_put stale p d =
     (if d = [] then Inr (None, p)
      else case pipe_Write (dataBuffer_Write stale) p d of
          (Wrote n, p) \<Rightarrow> Inr (None, p)
        | (ErrClosedPipeWrite, p) \<Rightarrow> Inr (Some errClosedPipeWrite, p)
        | (ErrUninitializedPipeWrite, p) \<Rightarrow> Inr (Some errUninitializedPipeWrite, p)
        | (WritePanics, p) \<Rightarrow> Inl Panic)"

text \<open>The part of \<open>processData\<close> that takes the data of an open stream into its pipe.\<close>

definition receive_data :: "(dataBuffer \<Rightarrow> nat \<Rightarrow> byte) \<Rightarrow> u32 \<Rightarrow> int \<Rightarrow> bytes \<Rightarrow> ClientConn \<Rightarrow> ((h2_error + h2_error option) \<times> ClientConn) outcome" where
  "receive_data stale i len data cc =
     bind_res (lock_mu cc) (\<lambda>cc.
       case takeInflows (cc_inflow cc) (cs_inflow (cc_cs cc i)) len of
         (False, _, _) \<Rightarrow> Inr (Inl (ConnectionError ErrCodeFlowControl), unlock_mu cc)
       | (True, cfl, sfl) \<Rightarrow>
           bind_res (pipe_put stale (cs_bufPipe (cc_cs cc i)) data) (\<lambda>(err, p).
             let pad = len - int (length data);
                 refund = (if pad > 0 then pad else 0) + (if err \<noteq> None then int (length data) else 0)
             in bind_res (of_option (inflow_add cfl refund)) (\<lambda>(sendConn, cfl).
                bind_res (if err = None then of_option (inflow_add sfl refund) else Inr (0, sfl)) (\<lambda>(sendStream, sfl).
                  let cc = unlock_mu (upd_cs i (\<lambda>cs. cs\<lparr>cs_bufPipe := p, cs_inflow := sfl\<rparr>) (cc\<lparr>cc_inflow := cfl\<rparr>))
                  in Inr (Inr err, put_update i sendStream (put_update 0 sendConn cc))))))"

definition processData :: "(dataBuffer \<Rightarrow> nat \<Rightarrow> byte) \<Rightarrow> u32 \<Rightarrow> int \<Rightarrow> bytes \<Rightarrow> bool \<Rightarrow> ClientConn \<Rightarrow> (h2_error option \<times> ClientConn) outcome" where
  "processData stale sid len data streamEnded cc =
     bind_res (streamByID sid True cc) (\<lambda>(cs, cc).
       case cs of
         None \<Rightarrow> unsolicited_data sid len cc
       | Some i \<Rightarrow>
           if cs_readClosed (cc_cs cc i) then map_res (Pair None) (endStreamError i (StreamError sid ErrCodeProtocol None) cc)
           else if \<not> cs_pastHeaders (cc_cs cc i) then map_res (Pair None) (endStreamError i (StreamError sid ErrCodeProtocol None) cc)
           else if len > 0 \<and> cs_isHead (cc_cs cc i) \<and> length data > 0
           then map_res (Pair None) (endStreamError i (StreamError sid ErrCodeProtocol None) cc)
           else
             bind_res (if len > 0 then receive_data stale i len data cc else Inr (Inr None, cc)) (\<lambda>(r, cc).
               case r of
                 Inl connErr \<Rightarrow> Inr (Some connErr, cc)
               | Inr (Some err) \<Rightarrow> map_res (Pair None) (endStreamError i err cc)
               | Inr None \<Rightarrow> if streamEnded then map_res (Pair None) (endStream i cc) else Inr (None, cc)))"

section \<open>Frames that concern the connection\<close>

definition processGoAway :: "u32 \<Rightarrow> ErrCode \<Rightarrow> bytes \<Rightarrow> ClientConn \<Rightarrow> (h2_error option \<times> ClientConn) outcome" where
  "processGoAway lastID code debug cc = map_res (Pair None) (setGoAway lastID code debug (cc\<lparr>cc_markedDead := True\<rparr>))"

text \<open>The function that \<open>processSettingsNoWrite\<close> passes to \<open>ForeachSetting\<close>. The state is whether
  MAX_CONCURRENT_STREAMS was seen, and the connection; \<open>None\<close> after a panic.\<close>

definition shift_windows :: "int \<Rightarrow> u32 list \<Rightarrow> flow_store \<Rightarrow> flow_store" where
  "shift_windows delta ids h = foldl (\<lambda>h i. snd (outflow_add h (unat i) delta)) h ids"

definition apply_setting :: "Setting \<Rightarrow> (bool \<times> ClientConn) option \<Rightarrow> h2_error option \<times> (bool \<times> ClientConn) option" where
  "apply_setting s st =
     (case st of
        None \<Rightarrow> (Some EOF, None)
      | Some (seen, cc) \<Rightarrow>
          if s_ID s = SettingMaxFrameSize then (None, Some (seen, cc\<lparr>cc_maxFrameSize := s_Val s\<rparr>))
          else if s_ID s = SettingMaxConcurrentStreams then (None, Some (True, cc\<lparr>cc_maxConcurrentStreams := s_Val s\<rparr>))
          else if s_ID s = SettingMaxHeaderListSize then (None, Some (seen, cc\<lparr>cc_peerMaxHeaderListSize := ucast (s_Val s)\<rparr>))
          else if s_ID s = SettingInitialWindowSize then
            if s_Val s > 2147483647 then (Some (ConnectionError ErrCodeFlowControl), st)
            else
              let delta = int32 (int32 (uint (s_Val s)) - int32 (uint (cc_initialWindowSize cc))) in
              (None, Some (seen, cc\<lparr>cc_flows := shift_windows delta (cc_streams cc) (cc_flows cc), cc_initialWindowSize := s_Val s\<rparr>))
          else if s_ID s = SettingHeaderTableSize then
            (case SetMaxDynamicTableSize (cc_henc cc) (s_Val s) of
               None \<Rightarrow> (Some EOF, None)
             | Some enc \<Rightarrow> (None, Some (seen, cc\<lparr>cc_henc := enc, cc_peerMaxHeaderTableSize := s_Val s\<rparr>)))
          else if s_ID s = SettingEnableConnectProtocol then
            (case Setting_Valid s of
               Some e \<Rightarrow> (Some e, st)
             | None \<Rightarrow> (None, Some (seen, if \<not> cc_seenSettings cc then cc\<lparr>cc_extendedConnectAllowed := (s_Val s = 1)\<rparr> else cc)))
          else (None, st))"

definition processSettingsNoWrite :: "FrameHeader \<Rightarrow> bytes \<Rightarrow> ClientConn \<Rightarrow> (h2_error option \<times> ClientConn) outcome" where
  "processSettingsNoWrite h p cc =
     bind_res (lock_mu cc) (\<lambda>cc.
       if frame_IsAck (SettingsFrame h p)
       then if cc_wantSettingsAck cc then Inr (None, unlock_mu (cc\<lparr>cc_wantSettingsAck := False\<rparr>))
            else Inr (Some (ConnectionError ErrCodeProtocol), unlock_mu cc)
       else case ForeachSetting h p apply_setting (Some (False, cc)) of
           Some (Some e, Some (_, cc)) \<Rightarrow> Inr (Some e, unlock_mu cc)
         | Some (None, Some (seen, cc)) \<Rightarrow>
             Inr (None, unlock_mu
               (if \<not> cc_seenSettings cc
                then cc\<lparr>cc_maxConcurrentStreams := if seen then cc_maxConcurrentStreams cc else 1000, cc_seenSettings := True\<rparr>
                else cc))
         | _ \<Rightarrow> Inl Panic)"

definition processSettings :: "FrameHeader \<Rightarrow> bytes \<Rightarrow> ClientConn \<Rightarrow> (h2_error option \<times> ClientConn) outcome" where
  "processSettings h p cc =
     bind_res (processSettingsNoWrite h p cc) (\<lambda>(err, cc).
       if err \<noteq> None then Inr (err, cc)
       else Inr (None, if \<not> frame_IsAck (SettingsFrame h p) then snd (put_frame WriteSettingsAck cc) else cc))"

definition processWindowUpdate :: "u32 \<Rightarrow> u32 \<Rightarrow> ClientConn \<Rightarrow> (h2_error option \<times> ClientConn) outcome" where
  "processWindowUpdate sid increment cc =
     bind_res (streamByID sid False cc) (\<lambda>(cs, cc).
       if sid \<noteq> 0 \<and> cs = None then Inr (None, cc)
       else
         bind_res (lock_mu cc) (\<lambda>cc.
           let (ok, h) = outflow_add (cc_flows cc) (case cs of Some i \<Rightarrow> unat i | None \<Rightarrow> conn_flow) (int32 (uint increment)) in
           if \<not> ok
           then (case cs of
                   Some i \<Rightarrow> map_res (\<lambda>cc. (None, unlock_mu cc)) (endStreamError i (StreamError sid ErrCodeFlowControl None) cc)
                 | None \<Rightarrow> Inr (Some (ConnectionError ErrCodeFlowControl), unlock_mu cc))
           else Inr (None, unlock_mu (cc\<lparr>cc_flows := h\<rparr>))))"

definition processResetStream :: "u32 \<Rightarrow> ErrCode \<Rightarrow> ClientConn \<Rightarrow> (h2_error option \<times> ClientConn) outcome" where
  "processResetStream sid code cc =
     bind_res (streamByID sid False cc) (\<lambda>(cs, cc).
       case cs of
         None \<Rightarrow> Inr (None, cc)
       | Some i \<Rightarrow>
           let serr = StreamError i code (Some errFromPeer) in
           bind_res (if code = ErrCodeProtocol then SetDoNotReuse cc else Inr cc) (\<lambda>cc.
           bind_res (abortStream i serr cc) (\<lambda>cc.
             map_res (Pair None) (pipe_close i serr cc))))"

definition processPing :: "FrameHeader \<Rightarrow> bytes \<Rightarrow> ClientConn \<Rightarrow> (h2_error option \<times> ClientConn) outcome" where
  "processPing h d cc =
     (if frame_IsAck (PingFrame h d) then
        bind_res (lock_mu cc) (\<lambda>cc.
          let cc = cc\<lparr>cc_pings := removeAll d (cc_pings cc)\<rparr>;
              cc = (if cc_pendingResets cc > 0 then cc\<lparr>cc_pendingResets := 0, cc_rstStreamPingsBlocked := True\<rparr> else cc)
          in Inr (None, unlock_mu cc))
      else case put_frame (\<lambda>fr. WritePing fr True d) cc of
          (Some e, cc) \<Rightarrow> Inr (Some e, cc)
        | (None, cc) \<Rightarrow> Inr (flush cc, cc))"

section \<open>The loop\<close>

record read_env =
  re_stale :: "dataBuffer \<Rightarrow> nat \<Rightarrow> byte"
  re_statusText :: "int \<Rightarrow> string"
  re_got1xx :: "(int \<Rightarrow> header_map \<Rightarrow> h2_error option) option"
  re_validValue :: "string \<Rightarrow> bool"
  re_token :: "char \<Rightarrow> bool"

fun process_frame :: "read_env \<Rightarrow> Frame \<Rightarrow> ClientConn \<Rightarrow> (h2_error option \<times> ClientConn) outcome" where
  "process_frame env (MetaHeadersFrame h prio b hfs truncated) cc =
     processHeaders (re_statusText env) (re_got1xx env) (fh_StreamID h) hfs truncated (StreamEnded (MetaHeadersFrame h prio b hfs truncated)) cc"
| "process_frame env (DataFrame h d) cc =
     bind_res (of_option (frame_Data (DataFrame h d))) (\<lambda>data.
       processData (re_stale env) (fh_StreamID h) (uint (fh_Length h)) data (StreamEnded (DataFrame h d)) cc)"
| "process_frame env (GoAwayFrame h lastID code d) cc =
     bind_res (of_option (DebugData (GoAwayFrame h lastID code d))) (\<lambda>debug. processGoAway lastID code debug cc)"
| "process_frame env (RSTStreamFrame h code) cc = processResetStream (fh_StreamID h) code cc"
| "process_frame env (SettingsFrame h p) cc = processSettings h p cc"
| "process_frame env (PushPromiseFrame h i b) cc = Inr (Some (ConnectionError ErrCodeProtocol), cc)"
| "process_frame env (WindowUpdateFrame h n) cc = processWindowUpdate (fh_StreamID h) n cc"
| "process_frame env (PingFrame h d) cc = processPing h d cc"
| "process_frame env _ cc = Inr (None, cc)"

datatype round = Continue bool ClientConn | Stop h2_error ClientConn

fun is_settings :: "Frame \<Rightarrow> bool" where
  "is_settings (SettingsFrame _ _) = True"
| "is_settings _ = False"

text \<open>One round of \<open>run\<close>.\<close>

definition run_round :: "read_env \<Rightarrow> bool \<Rightarrow> ClientConn \<Rightarrow> round outcome" where
  "run_round env gotSettings cc =
     (case ReadFrame (re_validValue env) (re_token env) (cc_fr cc) of
        None \<Rightarrow> Inl Panic
      | Some (f, err, fr) \<Rightarrow>
          let cc = cc\<lparr>cc_fr := fr\<rparr> in
          (case err of
             Some (StreamError sid code cause) \<Rightarrow>
               bind_res (streamByID sid False cc) (\<lambda>(cs, cc).
                 case cs of
                   None \<Rightarrow> Inr (Continue gotSettings cc)
                 | Some i \<Rightarrow> map_res (Continue gotSettings)
                     (endStreamError i (StreamError sid code (if cause = None then fr_errDetail fr else cause)) cc))
           | Some e \<Rightarrow> Inr (Stop e cc)
           | None \<Rightarrow>
               (case f of
                  None \<Rightarrow> Inl Panic
                | Some f \<Rightarrow>
                    if \<not> gotSettings \<and> \<not> is_settings f then Inr (Stop (ConnectionError ErrCodeProtocol) cc)
                    else map_res (\<lambda>(e, cc). case e of None \<Rightarrow> Continue True cc | Some e \<Rightarrow> Stop e cc) (process_frame env f cc))))"

text \<open>The end of \<open>readLoop\<close>: GOAWAY for a connection error, and \<open>cleanup\<close>. \<open>netRead\<close> tells the read errors of package
  \<open>net\<close>.\<close>

definition cleanup :: "(h2_error \<Rightarrow> bool) \<Rightarrow> h2_error \<Rightarrow> ClientConn \<Rightarrow> ClientConn outcome" where
  "cleanup netRead readerErr cc =
     bind_res (lock_mu cc) (\<lambda>cc.
       let err = (case cc_goAway cc of
             Some (lastID, code) \<Rightarrow>
               if readerErr = EOF \<or> netRead readerErr then GoAwayError lastID code (bytes_to_string (cc_goAwayDebug cc))
               else if readerErr = EOF then ErrUnexpectedEOF else readerErr
           | None \<Rightarrow> if readerErr = EOF then ErrUnexpectedEOF else readerErr);
           cc = cc\<lparr>cc_closed := True, cc_markedDead := True\<rparr>;
           cc = unlock_mu (abort_streams (\<lambda>_ cs. if cs_peerClosed cs then cs else abortStreamLocked err cs) cc);
           cc = (if \<not> cc_seenSettings cc then cc\<lparr>cc_extendedConnectAllowed := True\<rparr> else cc)
       in Inr (closeConn cc))"

definition readLoop_end :: "(h2_error \<Rightarrow> bool) \<Rightarrow> h2_error \<Rightarrow> ClientConn \<Rightarrow> ClientConn outcome" where
  "readLoop_end netRead readerErr cc =
     cleanup netRead readerErr
       (case readerErr of ConnectionError code \<Rightarrow> snd (put_frame (\<lambda>fr. WriteGoAway fr 0 code []) cc) | _ \<Rightarrow> cc)"

section \<open>The response body\<close>

datatype body_read = BodyWaits | BodyRead bytes "h2_error option"

definition body_Read :: "u32 \<Rightarrow> nat \<Rightarrow> ClientConn \<Rightarrow> (body_read \<times> ClientConn) outcome" where
  "body_Read i k cc =
     (let cs = cc_cs cc i in
      if cs_readErr cs \<noteq> None then Inr (BodyRead [] (cs_readErr cs), cc)
      else
        let (r, code, p) = pipe_Read dataBuffer_Len dataBuffer_Read (cs_bufPipe cs) k in
        if r = ReadWaits then Inr (BodyWaits, cc)
        else if r = ReadPanics then Inl Panic
        else
          bind_res (of_option (if code = None then Some (cs\<lparr>cs_bufPipe := p\<rparr>) else copyTrailers (cs\<lparr>cs_bufPipe := p\<rparr>))) (\<lambda>cs.
            let cc = upd_cs i (\<lambda>_. cs) cc;
                (xs, err) = (case r of ReadData xs \<Rightarrow> (xs, None) | ReadErr e \<Rightarrow> ([], Some e) | _ \<Rightarrow> ([], Some (errors_New ''read from empty dataBuffer'')));
                remain = cs_bytesRemain cs
            in if remain \<noteq> - 1 \<and> int (length xs) > remain
               then
                 let tooMuch = errors_New ''net/http: server replied with more than declared Content-Length; truncated'' in
                 bind_res (if err = None then abortStream i tooMuch cc else Inr cc) (\<lambda>cc.
                   let err = (if err = None then Some tooMuch else err) in
                   Inr (BodyRead (take (nat remain) xs) err, upd_cs i (\<lambda>cs. cs\<lparr>cs_readErr := err\<rparr>) cc))
               else
                 let cc = (if remain \<noteq> - 1 then upd_cs i (\<lambda>cs. cs\<lparr>cs_bytesRemain := remain - int (length xs)\<rparr>) cc else cc) in
                 if remain \<noteq> - 1 \<and> err = Some EOF \<and> remain - int (length xs) > 0
                 then Inr (BodyRead xs (Some ErrUnexpectedEOF), upd_cs i (\<lambda>cs. cs\<lparr>cs_readErr := Some ErrUnexpectedEOF\<rparr>) cc)
                 else if xs = [] then Inr (BodyRead xs err, cc)
                 else
                   bind_res (lock_mu cc) (\<lambda>cc.
                   bind_res (of_option (inflow_add (cc_inflow cc) (int (length xs)))) (\<lambda>(connAdd, cfl).
                   bind_res (if err = None then of_option (inflow_add (cs_inflow (cc_cs cc i)) (int (length xs))) else Inr (0, cs_inflow (cc_cs cc i))) (\<lambda>(streamAdd, sfl).
                     let cc = unlock_mu (upd_cs i (\<lambda>cs. cs\<lparr>cs_inflow := sfl\<rparr>) (cc\<lparr>cc_inflow := cfl\<rparr>))
                     in Inr (BodyRead xs err, put_update i streamAdd (put_update 0 connAdd cc)))))))"

text \<open>\<open>Close\<close> up to the wait for the end of the stream.\<close>

definition body_Close :: "u32 \<Rightarrow> ClientConn \<Rightarrow> ClientConn outcome" where
  "body_Close i cc =
     bind_res (of_option (BreakWithError dataBuffer_Len (cs_bufPipe (cc_cs cc i)) (Some errClosedResponseBody))) (\<lambda>p.
     bind_res (abortStream i errClosedResponseBody (upd_cs i (\<lambda>cs. cs\<lparr>cs_bufPipe := p\<rparr>) cc)) (\<lambda>cc.
       let unread = pipe_Len dataBuffer_Len (cs_bufPipe (cc_cs cc i)) in
       if unread > 0 then
         bind_res (lock_mu cc) (\<lambda>cc.
         bind_res (of_option (inflow_add (cc_inflow cc) (int unread))) (\<lambda>(connAdd, fl).
           Inr (put_update 0 connAdd (unlock_mu (cc\<lparr>cc_inflow := fl\<rparr>)))))
       else Inr cc))"

end
