(* ===== verification/H2_Peer.thy ===== *)
theory H2_Peer
  imports H2_Read
begin

unbundle bit_operations_syntax

text \<open>
  What the peer of an HTTP/2 connection can make the client do (\<open>http2/transport.go\<close>): the effect of
  GOAWAY, SETTINGS and WINDOW_UPDATE on the streams, and inputs that the code does not handle.
\<close>

section \<open>The connection's mutex\<close>

lemma lock_free [simp]: "\<not> cc_mu cc \<Longrightarrow> lock_mu cc = Inr (cc\<lparr>cc_mu := True\<rparr>)"
  by (simp add: lock_mu_def)

lemma lock_held [simp]: "cc_mu cc \<Longrightarrow> lock_mu cc = Inl Deadlock"
  by (simp add: lock_mu_def)

lemma cc_mu_same [simp]: "\<not> cc_mu cc \<Longrightarrow> cc\<lparr>cc_mu := False\<rparr> = cc"
  by simp

lemma in_int32_uint: "w < 2147483648 \<Longrightarrow> in_int32 (uint (w :: u32))"
  by (auto simp: in_int32_def word_less_def intro: order_trans[of _ 0])

lemma abortStream_free:
  "\<not> cc_mu cc \<Longrightarrow> abortStream i err cc = Inr (upd_cs i (abortStreamLocked err) cc)"
  by (simp add: abortStream_def unlock_mu_def upd_cs_def)

lemma abortStreamLocked_abortErr:
  "cs_abortErr (abortStreamLocked e cs) = Some (case cs_abortErr cs of None \<Rightarrow> e | Some x \<Rightarrow> x)"
  by (simp add: abortStreamLocked_def closeReqBodyLocked_def Let_def split: option.split)

lemma unlock_abort: "unlock_mu (abort_streams f cc) = abort_streams f (unlock_mu cc)"
  by (cases cc) (simp add: unlock_mu_def abort_streams_def cong: if_cong)

lemma streamByID_open:
  assumes "\<not> cc_mu cc" and "i \<in> set (cc_streams cc)" and "\<not> cs_readAborted (cc_cs cc i)"
  shows "streamByID i b cc = Inr (Some i, cc\<lparr>cc_rstStreamPingsBlocked := (cc_rstStreamPingsBlocked cc \<and> \<not> b), cc_readBeforeStreamID := cc_nextStreamID cc\<rparr>)"
  using assms by (simp add: streamByID_def unlock_mu_def)

section \<open>WINDOW_UPDATE\<close>

text \<open>C28: A WINDOW_UPDATE that overflows the window of an open stream makes the read loop wait for itself: \<open>processWindowUpdate\<close>
  holds \<open>cc.mu\<close> when it calls \<open>endStreamError\<close>, which locks it again. Any other update of an open stream is added to the
  window.\<close>

theorem window_update_overflow_deadlocks:
  assumes "\<not> cc_mu cc" and "i \<in> set (cc_streams cc)" and "\<not> cs_readAborted (cc_cs cc i)" and "i \<noteq> 0"
    and "in_int32 (o_n (cc_flows cc (unat i)))" and "n < 2147483648"
  shows "processWindowUpdate i n cc =
    (if o_n (cc_flows cc (unat i)) + uint n < 2 ^ 31
     then Inr (None, cc\<lparr>cc_readBeforeStreamID := cc_nextStreamID cc,
                        cc_flows := (cc_flows cc)(unat i := (cc_flows cc (unat i))\<lparr>o_n := o_n (cc_flows cc (unat i)) + uint n\<rparr>)\<rparr>)
     else Inl Deadlock)"
proof -
  have n: "0 \<le> uint n" by simp
  note i = in_int32_uint[OF assms(6)]
  have fits: "in_int32 (o_n (cc_flows cc (unat i)) + uint n) \<longleftrightarrow> o_n (cc_flows cc (unat i)) + uint n < 2 ^ 31"
    using assms(5) n unfolding in_int32_def by linarith
  show ?thesis
    using assms(1-4) outflow_add_exact[of "cc_flows cc" "unat i" "uint n", OF assms(5) i]
    by (simp add: processWindowUpdate_def streamByID_open i fits unlock_mu_def endStreamError_def abortStream_def upd_cs_def)
qed

section \<open>GOAWAY\<close>

text \<open>The error code that stays with the connection: the first one that is not NO_ERROR.\<close>

definition kept_code :: "ClientConn \<Rightarrow> ErrCode \<Rightarrow> ErrCode" where
  "kept_code cc code = (case cc_goAway cc of Some (_, old) \<Rightarrow> if old \<noteq> ErrCodeNo then old else code | None \<Rightarrow> code)"

text \<open>C17: GOAWAY never touches a stream that the server may still process. Every later stream is aborted, and, unless it was aborted before,
  with an error after which the request is tried again; the exception is the first stream of a connection that
  ends with an error. The connection takes no request any more.\<close>

theorem goaway_retries_unprocessed:
  assumes "\<not> cc_mu cc"
  shows "\<exists>cc'. processGoAway lastID code debug cc = Inr (None, cc')
    \<and> cc_goAway cc' = Some (lastID, kept_code cc code) \<and> cc_streams cc' = cc_streams cc
    \<and> (\<forall>i. i \<notin> set (cc_streams cc) \<or> i \<le> lastID \<longrightarrow> cc_cs cc' i = cc_cs cc i)
    \<and> (\<forall>i. i \<in> set (cc_streams cc) \<and> lastID < i \<and> cs_abortErr (cc_cs cc i) = None \<longrightarrow>
         (\<exists>e. cs_abortErr (cc_cs cc' i) = Some e \<and> (canRetryError e \<longleftrightarrow> \<not> (i = 1 \<and> kept_code cc code \<noteq> ErrCodeNo))))
    \<and> \<not> isUsableLocked tooIdle cc' \<and> closesOnIdle cc'"
proof -
  let ?f = "goAway_stream lastID (kept_code cc code)"
  let ?d = "if cc_goAwayDebug cc = [] then debug else cc_goAwayDebug cc"
  let ?g = "cc\<lparr>cc_markedDead := True, cc_goAway := Some (lastID, kept_code cc code), cc_goAwayDebug := ?d\<rparr>"
  have p: "processGoAway lastID code debug cc = Inr (None, abort_streams ?f ?g)"
  proof -
    have k: "(case cc_goAway (cc\<lparr>cc_markedDead := True, cc_mu := True\<rparr>) of Some (_, old) \<Rightarrow> if old \<noteq> ErrCodeNo then old else code | None \<Rightarrow> code)
        = kept_code cc code" "cc_goAwayDebug (cc\<lparr>cc_markedDead := True, cc_mu := True\<rparr>) = cc_goAwayDebug cc"
      by (simp_all add: kept_code_def)
    have u: "unlock_mu (cc\<lparr>cc_markedDead := True, cc_mu := True, cc_goAway := a, cc_goAwayDebug := d\<rparr>)
        = cc\<lparr>cc_markedDead := True, cc_goAway := a, cc_goAwayDebug := d\<rparr>" for a d
      using assms by (cases cc) (simp add: unlock_mu_def)
    have l: "lock_mu (cc\<lparr>cc_markedDead := True\<rparr>) = Inr (cc\<lparr>cc_markedDead := True, cc_mu := True\<rparr>)" using assms by simp
    show ?thesis
      unfolding processGoAway_def setGoAway_def l bind_res_simps k Let_def unlock_abort u by simp
  qed
  have r: "canRetryError errClientConnGotGoAway" "\<not> canRetryError (errors_New (''http2: Transport received GOAWAY from server ErrCode:'' @ s))" for s
    by (simp_all add: canRetryError_def errClientConnGotGoAway_def errClientConnUnusable_def)
  let ?c = "abort_streams ?f ?g"
  have cs: "cc_cs ?c i = (if i \<in> set (cc_streams cc) then ?f i (cc_cs cc i) else cc_cs cc i)" for i
    by (simp add: abort_streams_def)
  have keep: "?f i cs = cs" if "i \<le> lastID" for i cs using that by (simp add: goAway_stream_def)
  have abort: "\<exists>e. cs_abortErr (?f i cs) = Some e \<and> (canRetryError e \<longleftrightarrow> \<not> (i = 1 \<and> kept_code cc code \<noteq> ErrCodeNo))"
    if "lastID < i" "cs_abortErr cs = None" for i cs
    using that r by (simp add: goAway_stream_def abortStreamLocked_abortErr not_le)
  have rest: "cc_goAway ?c = Some (lastID, kept_code cc code)" "cc_streams ?c = cc_streams cc"
    by (simp_all add: abort_streams_def)
  then have "\<not> isUsableLocked tooIdle ?c" "closesOnIdle ?c" by (simp_all add: isUsableLocked_def closesOnIdle_def)
  then show ?thesis unfolding p using rest keep abort by (intro exI[of _ ?c]) (simp add: cs)
qed

section \<open>Opening a stream\<close>

definition stream_ids_ok :: "ClientConn \<Rightarrow> bool" where
  "stream_ids_ok cc \<longleftrightarrow> odd (unat (cc_nextStreamID cc)) \<and> distinct (cc_streams cc)
     \<and> (\<forall>i \<in> set (cc_streams cc). odd (unat i) \<and> i < cc_nextStreamID cc)"

lemma new_window:
  assumes "in_int32 n"
  shows "(setConnFlow (snd (outflow_add (h(f := \<lparr>o_n = 0, o_conn = None\<rparr>)) f n)) f (Some c)) f = \<lparr>o_n = n, o_conn = Some c\<rparr>"
  using outflow_add_exact[of "h(f := \<lparr>o_n = 0, o_conn = None\<rparr>)" f n] assms
  by (simp add: setConnFlow_def in_int32_def)

definition open_requests :: "ClientConn \<Rightarrow> nat" where
  "open_requests cc = length (cc_streams cc) + cc_streamsReserved cc + cc_pendingResets cc"

lemma open_stream_cases:
  assumes "\<not> cc_mu cc" and "stream_ids_ok cc"
  shows "\<exists>sl i cc'. open_stream tooIdle closeReq cs cc = Inr (sl, i, cc') \<and> stream_ids_ok cc' \<and> \<not> cc_mu cc'
    \<and> (sl = SlotFree \<longrightarrow>
         cc_goAway cc = None \<and> \<not> cc_closed cc \<and> \<not> cc_closing cc
         \<and> i = cc_nextStreamID cc \<and> odd (unat i) \<and> unat (cc_nextStreamID cc') = unat i + 2
         \<and> set (cc_streams cc') = insert i (set (cc_streams cc)) \<and> (\<forall>j \<in> set (cc_streams cc). j < i)
         \<and> open_requests cc' \<le> unat (cc_maxConcurrentStreams cc)
         \<and> o_n (cc_flows cc' (unat i)) = int32 (uint (cc_initialWindowSize cc)) \<and> o_conn (cc_flows cc' (unat i)) = Some conn_flow
         \<and> avail (cs_inflow (cc_cs cc' i)) = cc_initialStreamRecvWindowSize cc)
    \<and> (sl \<noteq> SlotFree \<longrightarrow> cc_streams cc' = cc_streams cc \<and> cc_cs cc' = cc_cs cc)"
proof -
  let ?cc = "decrStreamReservationsLocked (cc\<lparr>cc_mu := True\<rparr>)"
  have d: "cc_streams ?cc = cc_streams cc" "cc_cs ?cc = cc_cs cc" "cc_nextStreamID ?cc = cc_nextStreamID cc" "cc_flows ?cc = cc_flows cc"
    "cc_goAway ?cc = cc_goAway cc" "cc_closed ?cc = cc_closed cc" "cc_closing ?cc = cc_closing cc" "cc_initialWindowSize ?cc = cc_initialWindowSize cc"
    "cc_maxConcurrentStreams ?cc = cc_maxConcurrentStreams cc" "cc_initialStreamRecvWindowSize ?cc = cc_initialStreamRecvWindowSize cc" "cc_mu ?cc"
    by (simp_all add: decrStreamReservationsLocked_def)
  show ?thesis
  proof (cases "awaitOpenSlot_round tooIdle ?cc")
    case (NoSlot e)
    then show ?thesis using assms d by (simp add: open_stream_def Let_def unlock_mu_def stream_ids_ok_def)
  next
    case SlotWait
    then show ?thesis using assms d by (simp add: open_stream_def Let_def unlock_mu_def stream_ids_ok_def)
  next
    case SlotFree
    let ?i = "cc_nextStreamID cc"
    have free: "\<not> cc_closed ?cc" "canTakeNewRequestLocked tooIdle ?cc" "currentRequestCountLocked ?cc < unat (cc_maxConcurrentStreams cc)"
      using SlotFree by (auto simp: awaitOpenSlot_round_def d split: if_splits)
    then have use: "isUsableLocked tooIdle ?cc"
      by (auto simp: canTakeNewRequestLocked_def idleStateLocked_def Let_def split: if_splits)
    then have small: "unat ?i < 2147483647" and g: "cc_goAway cc = None" "\<not> cc_closed cc" "\<not> cc_closing cc"
      by (auto simp: isUsableLocked_def d)
    have i0: "?i \<noteq> 0" using assms(2) by (auto simp: stream_ids_ok_def)
    have next_id: "unat (?i + 2) = unat ?i + 2" using small by (simp add: unat_word_ariths)
    have lt: "i < ?i + 2" if "i \<le> ?i" for i :: u32 using that next_id by (simp add: word_less_nat_alt word_le_nat_alt)
    have fresh: "?i \<notin> set (cc_streams cc)" using assms(2) by (auto simp: stream_ids_ok_def)
    obtain cc' where cc': "addStreamLocked cs ?cc = Inr (?i, cc')"
      and f: "cc_streams cc' = ?i # cc_streams cc" "cc_nextStreamID cc' = ?i + 2" "cc_streamsReserved cc' = cc_streamsReserved ?cc"
        "cc_pendingResets cc' = cc_pendingResets ?cc" "o_n (cc_flows cc' (unat ?i)) = int32 (uint (cc_initialWindowSize cc))"
        "o_conn (cc_flows cc' (unat ?i)) = Some conn_flow" "avail (cs_inflow (cc_cs cc' ?i)) = cc_initialStreamRecvWindowSize cc"
      using i0 fresh new_window[where h = "cc_flows cc" and f = "unat ?i" and n = "int32 (uint (cc_initialWindowSize cc))" and c = conn_flow]
      by (simp add: addStreamLocked_def Let_def d inflow_init_def)
    obtain r where r: "open_stream tooIdle closeReq cs cc = Inr (SlotFree, ?i, r)"
      and f': "cc_streams r = cc_streams cc'" "cc_nextStreamID r = cc_nextStreamID cc'" "cc_flows r = cc_flows cc'" "cc_cs r = cc_cs cc'"
        "cc_streamsReserved r = cc_streamsReserved cc'" "cc_pendingResets r = cc_pendingResets cc'" "\<not> cc_mu r"
      using assms(1) SlotFree cc' by (simp add: open_stream_def unlock_mu_def Let_def)
    have ids: "stream_ids_ok r"
      using assms(2) fresh lt next_id by (auto simp: stream_ids_ok_def f f' less_imp_le)
    have count: "open_requests r \<le> unat (cc_maxConcurrentStreams cc)"
      using free(3) by (simp add: open_requests_def f f' currentRequestCountLocked_def d)
    have odd: "odd (unat ?i)" "\<forall>j \<in> set (cc_streams cc). j < ?i" using assms(2) by (auto simp: stream_ids_ok_def)
    show ?thesis unfolding r using ids count odd next_id g f f' by (intro exI[of _ SlotFree] exI[of _ ?i] exI[of _ r]) simp
  qed
qed


section \<open>The first stream of a connection\<close>

lemma fresh_conn:
  assumes "newClientConn w r werr flushErr (client_h2 fp) su = Some (Inr cc)"
  shows "\<not> cc_mu cc" "cc_streams cc = []" "cc_nextStreamID cc = 1" "cc_streamsReserved cc = 0" "cc_pendingResets cc = 0" "cc_pendingRequests cc = 0"
    "cc_goAway cc = None" "\<not> cc_closed cc" "\<not> cc_closing cc" "\<not> cc_doNotReuse cc" "cc_maxFrameSize cc = 16384"
    "cc_maxConcurrentStreams cc = 100" "cc_initialWindowSize cc = 65535" "cc_initialStreamRecvWindowSize cc = 4194304"
    "cc_inflow cc = \<lparr>avail = 1073807359, unsent = 0\<rparr>" "cc_flows cc conn_flow = \<lparr>o_n = 65535, o_conn = None\<rparr>"
    "cc_cs cc = (\<lambda>_. new_stream False False False 0)" "cc_werr cc = werr"
proof -
  have c: "cf_MaxUploadBufferPerConnection (configFromTransport (client_h2 fp)) = 1073741824"
    "cf_MaxUploadBufferPerStream (configFromTransport (client_h2 fp)) = 4194304"
    by (simp_all add: configFromTransport_def client_h2_def setConfigDefaults_def setDefault_def Let_def)
  have f: "snd (outflow_add (\<lambda>_. \<lparr>o_n = 0, o_conn = None\<rparr>) conn_flow 65535) conn_flow = \<lparr>o_n = 65535, o_conn = None\<rparr>"
    by (simp add: outflow_add_def in_int32_def)
  show "\<not> cc_mu cc" "cc_streams cc = []" "cc_nextStreamID cc = 1" "cc_streamsReserved cc = 0" "cc_pendingResets cc = 0" "cc_pendingRequests cc = 0"
    "cc_goAway cc = None" "\<not> cc_closed cc" "\<not> cc_closing cc" "\<not> cc_doNotReuse cc" "cc_maxFrameSize cc = 16384"
    "cc_maxConcurrentStreams cc = 100" "cc_initialWindowSize cc = 65535" "cc_initialStreamRecvWindowSize cc = 4194304"
    "cc_inflow cc = \<lparr>avail = 1073807359, unsent = 0\<rparr>" "cc_flows cc conn_flow = \<lparr>o_n = 65535, o_conn = None\<rparr>"
    "cc_cs cc = (\<lambda>_. new_stream False False False 0)" "cc_werr cc = werr"
    using assms by (auto simp: newClientConn_def Let_def bind_eq_Some_conv c f inflow_init_def in_int32_def split: option.splits)
qed

text \<open>A connection of the client package with one open stream, whose request body is still to be sent.\<close>

definition demo_stream :: clientStream where
  "demo_stream = new_stream False False True 3"

definition demo_open :: "ClientConn \<Rightarrow> ClientConn \<Rightarrow> bool" where
  "demo_open cc cc1 \<longleftrightarrow>
     newClientConn sink \<lparr>rd_data = [], rd_err = EOF\<rparr> (\<lambda>_. None) (\<lambda>_. None) (client_h2 (buildFingerprint demo_snapshot)) False = Some (Inr cc)
     \<and> open_stream False False demo_stream cc = Inr (SlotFree, 1, cc1)"

lemma first_stream:
  assumes "newClientConn w r werr flushErr (client_h2 fp) su = Some (Inr cc)"
  shows "open_stream False False cs cc = Inr (SlotFree, 1,
    cc\<lparr>cc_flows := (cc_flows cc)(1 := \<lparr>o_n = 65535, o_conn = Some conn_flow\<rparr>),
       cc_cs := (cc_cs cc)(1 := cs\<lparr>cs_inflow := inflow_init (cs_inflow cs) 4194304\<rparr>), cc_nextStreamID := 3, cc_streams := [1]\<rparr>)"
proof -
  note f = fresh_conn[OF assms]
  let ?m = "cc\<lparr>cc_mu := True\<rparr>"
  have n: "int32 65535 = 65535" "in_int32 65535" by (simp_all add: in_int32_def)
  have d: "decrStreamReservationsLocked ?m = ?m" by (simp add: decrStreamReservationsLocked_def f)
  have r: "awaitOpenSlot_round False ?m = SlotFree"
    by (simp add: awaitOpenSlot_round_def canTakeNewRequestLocked_def idleStateLocked_def isUsableLocked_def currentRequestCountLocked_def f)
  have a: "addStreamLocked cs ?m = Inr (1, ?m\<lparr>cc_flows := (cc_flows cc)(1 := \<lparr>o_n = 65535, o_conn = Some conn_flow\<rparr>),
      cc_cs := (cc_cs cc)(1 := cs\<lparr>cs_inflow := inflow_init (cs_inflow cs) 4194304\<rparr>), cc_nextStreamID := 3, cc_streams := [1]\<rparr>)"
    using n by (simp add: addStreamLocked_def Let_def f setConnFlow_def outflow_add_def)
  have m: "unlock_mu (?m\<lparr>cc_flows := h, cc_cs := c, cc_nextStreamID := i, cc_streams := l\<rparr>)
      = cc\<lparr>cc_flows := h, cc_cs := c, cc_nextStreamID := i, cc_streams := l\<rparr>" for h c i l
    using f(1) by (cases cc) (simp add: unlock_mu_def)
  show ?thesis using f(1) by (simp add: open_stream_def d r a m)
qed

lemma demo_open_exists: "\<exists>cc cc1. demo_open cc cc1"
  using newClientConn_client first_stream unfolding demo_open_def by meson

lemma demo_open_fields:
  assumes "demo_open cc cc1"
  shows "\<not> cc_mu cc1" "cc_streams cc1 = [1]" "cc_nextStreamID cc1 = 3" "\<not> cc_closed cc1" "cc_maxFrameSize cc1 = 16384"
    "cc_flows cc1 1 = \<lparr>o_n = 65535, o_conn = Some conn_flow\<rparr>" "cc_flows cc1 conn_flow = \<lparr>o_n = 65535, o_conn = None\<rparr>"
    "cc_cs cc1 1 = demo_stream\<lparr>cs_inflow := \<lparr>avail = 4194304, unsent = 0\<rparr>\<rparr>" "cc_werr cc1 = (\<lambda>_. None)"
    "cc_inflow cc1 = \<lparr>avail = 1073807359, unsent = 0\<rparr>" "stream_ids_ok cc1" "cc_goAway cc1 = None"
proof -
  have cc: "newClientConn sink \<lparr>rd_data = [], rd_err = EOF\<rparr> (\<lambda>_. None) (\<lambda>_. None) (client_h2 (buildFingerprint demo_snapshot)) False = Some (Inr cc)"
    and o: "open_stream False False demo_stream cc = Inr (SlotFree, 1, cc1)" using assms by (simp_all add: demo_open_def)
  note f = fresh_conn[OF cc]
  have c: "cc1 = cc\<lparr>cc_flows := (cc_flows cc)(1 := \<lparr>o_n = 65535, o_conn = Some conn_flow\<rparr>),
       cc_cs := (cc_cs cc)(1 := demo_stream\<lparr>cs_inflow := inflow_init (cs_inflow demo_stream) 4194304\<rparr>), cc_nextStreamID := 3, cc_streams := [1]\<rparr>"
    using o first_stream[OF cc, of demo_stream] by simp
  have i: "inflow_init (cs_inflow demo_stream) 4194304 = \<lparr>avail = 4194304, unsent = 0\<rparr>"
    by (simp add: demo_stream_def new_stream_def inflow_init_def)
  show "\<not> cc_mu cc1" "cc_streams cc1 = [1]" "cc_nextStreamID cc1 = 3" "\<not> cc_closed cc1" "cc_maxFrameSize cc1 = 16384"
    "cc_flows cc1 1 = \<lparr>o_n = 65535, o_conn = Some conn_flow\<rparr>" "cc_flows cc1 conn_flow = \<lparr>o_n = 65535, o_conn = None\<rparr>"
    "cc_cs cc1 1 = demo_stream\<lparr>cs_inflow := \<lparr>avail = 4194304, unsent = 0\<rparr>\<rparr>" "cc_werr cc1 = (\<lambda>_. None)"
    "cc_inflow cc1 = \<lparr>avail = 1073807359, unsent = 0\<rparr>" "stream_ids_ok cc1" "cc_goAway cc1 = None"
    unfolding c i using f by (simp_all add: stream_ids_ok_def word_less_nat_alt)
qed

theorem window_update_overflow_deadlocks_witness:
  "\<exists>cc cc1. demo_open cc cc1 \<and> processWindowUpdate 1 2147483647 cc1 = Inl Deadlock"
proof -
  obtain cc cc1 where d: "demo_open cc cc1" using demo_open_exists by blast
  note f = demo_open_fields[OF d]
  have "processWindowUpdate 1 2147483647 cc1 = Inl Deadlock"
    using window_update_overflow_deadlocks[of cc1 1 2147483647] f by (simp add: in_int32_def demo_stream_def new_stream_def)
  with d show ?thesis by blast
qed

theorem goaway_retries_unprocessed_witness:
  "\<exists>cc cc1 cc2. demo_open cc cc1 \<and> processGoAway 0 ErrCodeNo [] cc1 = Inr (None, cc2)
     \<and> (\<exists>e. cs_abortErr (cc_cs cc2 1) = Some e \<and> canRetryError e)"
proof -
  obtain cc cc1 where d: "demo_open cc cc1" using demo_open_exists by blast
  note f = demo_open_fields[OF d]
  have "cs_abortErr (cc_cs cc1 1) = None" "kept_code cc1 ErrCodeNo = ErrCodeNo"
    by (simp_all add: f demo_stream_def new_stream_def kept_code_def)
  then show ?thesis
    using d f goaway_retries_unprocessed[of cc1 0 ErrCodeNo "[]" False] by (auto simp: word_neq_0_conv)
qed


section \<open>Sending under flow control\<close>

text \<open>A stream that may send: neither the connection nor the request body is closed, and nothing was aborted.\<close>

definition may_send :: "ClientConn \<Rightarrow> u32 \<Rightarrow> bool" where
  "may_send cc i \<longleftrightarrow> \<not> cc_mu cc \<and> \<not> cc_closed cc \<and> \<not> cs_reqBodyClosed (cc_cs cc i) \<and> cs_abortErr (cc_cs cc i) = None"

definition send_windows :: "ClientConn \<Rightarrow> u32 \<Rightarrow> bool" where
  "send_windows cc i \<longleftrightarrow> i \<noteq> 0 \<and> o_conn (cc_flows cc (unat i)) = Some conn_flow
     \<and> in_int32 (o_n (cc_flows cc (unat i))) \<and> in_int32 (o_n (cc_flows cc conn_flow))"

definition send_limit :: "ClientConn \<Rightarrow> u32 \<Rightarrow> int" where
  "send_limit cc i = min (o_n (cc_flows cc (unat i))) (o_n (cc_flows cc conn_flow))"

lemma available_limit: "send_windows cc i \<Longrightarrow> available (cc_flows cc) (unat i) = send_limit cc i"
  by (simp add: send_windows_def available_def send_limit_def min_def)

lemma awaitFlowControl_open:
  assumes "may_send cc i" and "send_windows cc i"
  shows "awaitFlowControl None i m cc =
    (if send_limit cc i \<le> 0 then Inr (TokenWait, cc)
     else
       let k = (if send_limit cc i > m then int32 m else send_limit cc i);
           k = (if k > int32 (uint (cc_maxFrameSize cc)) then int32 (uint (cc_maxFrameSize cc)) else k)
       in bind_res (of_option (outflow_take (cc_flows cc) (unat i) k)) (\<lambda>h. Inr (Tokens k, cc\<lparr>cc_flows := h\<rparr>)))"
  using assms available_limit[OF assms(2)]
  by (cases cc) (simp add: awaitFlowControl_def may_send_def unlock_mu_def Let_def cong: if_cong)

lemma outflow_take_within:
  assumes "send_windows cc i" and "k \<le> send_limit cc i" and "0 \<le> k"
  shows "\<exists>h. outflow_take (cc_flows cc) (unat i) k = Some h \<and> o_n (h (unat i)) = o_n (cc_flows cc (unat i)) - k
    \<and> o_n (h conn_flow) = o_n (cc_flows cc conn_flow) - k \<and> (\<forall>g. g \<noteq> unat i \<and> g \<noteq> conn_flow \<longrightarrow> h g = cc_flows cc g)
    \<and> (\<forall>g. o_conn (h g) = o_conn (cc_flows cc g)) \<and> in_int32 (o_n (h (unat i))) \<and> in_int32 (o_n (h conn_flow))"
proof -
  have "in_int32 (o_n (cc_flows cc (unat i)) - k)" "in_int32 (o_n (cc_flows cc conn_flow) - k)"
    using assms by (simp_all add: send_windows_def send_limit_def in_int32_def)
  then show ?thesis
    using assms available_limit[OF assms(1)] unat_eq_0[of i] by (auto simp: outflow_take_def send_windows_def Let_def)
qed

text \<open>C11: The client never sends more than the peer allows. A round of \<open>writeRequestBody\<close> with data to send waits exactly when one of the
  two windows is used up; otherwise it writes one DATA frame with the next bytes of the body, as many as
  the stream's window, the connection's window and the frame size allow, takes them from both windows and from no other, and
  sets END_STREAM exactly on the last bytes of a body without trailers.\<close>

theorem send_within_windows:
  assumes "may_send cc i" and "send_windows cc i" and "0 < cc_maxFrameSize cc" and "cc_maxFrameSize cc < 2147483648"
    and "remain \<noteq> []" and "length remain < 2 ^ 31"
  shows "if send_limit cc i \<le> 0
    then write_data_round None i eof trailers remain cc = Inr (TokenWait, None, remain, False, cc)
    else \<exists>k e cc'. write_data_round None i eof trailers remain cc
            = Inr (Tokens (int k), e, drop k remain, eof \<and> k = length remain \<and> \<not> trailers, cc')
        \<and> int k = min (int (length remain)) (min (send_limit cc i) (uint (cc_maxFrameSize cc)))
        \<and> cc_fr cc' = snd (WriteData (cc_fr cc) i (eof \<and> k = length remain \<and> \<not> trailers) (take k remain))
        \<and> send_limit cc' i = send_limit cc i - int k \<and> send_windows cc' i \<and> may_send cc' i
        \<and> o_n (cc_flows cc' (unat i)) = o_n (cc_flows cc (unat i)) - int k
        \<and> o_n (cc_flows cc' conn_flow) = o_n (cc_flows cc conn_flow) - int k
        \<and> (\<forall>g. g \<noteq> unat i \<and> g \<noteq> conn_flow \<longrightarrow> cc_flows cc' g = cc_flows cc g)"
proof (cases "send_limit cc i \<le> 0")
  case True
  then show ?thesis using assms(1,2) by (simp add: write_data_round_def awaitFlowControl_open)
next
  case False
  have mf: "0 < uint (cc_maxFrameSize cc)" "int32 (uint (cc_maxFrameSize cc)) = uint (cc_maxFrameSize cc)"
    using assms(3) in_int32_uint[OF assms(4)] by (simp_all add: word_less_def)
  define k where "k = min (length remain) (nat (min (send_limit cc i) (uint (cc_maxFrameSize cc))))"
  have k: "int k = min (int (length remain)) (min (send_limit cc i) (uint (cc_maxFrameSize cc)))"
    using False mf(1) by (simp add: k_def)
  have kle: "int k \<le> send_limit cc i" unfolding k by simp
  have len: "int32 (int (length remain)) = int (length remain)" using assms(6) by (intro int32_id) (simp add: in_int32_def)
  obtain h where h: "outflow_take (cc_flows cc) (unat i) (int k) = Some h" "o_n (h (unat i)) = o_n (cc_flows cc (unat i)) - int k"
    "o_n (h conn_flow) = o_n (cc_flows cc conn_flow) - int k" "\<forall>g. g \<noteq> unat i \<and> g \<noteq> conn_flow \<longrightarrow> h g = cc_flows cc g"
    "\<forall>g. o_conn (h g) = o_conn (cc_flows cc g)" "in_int32 (o_n (h (unat i)))" "in_int32 (o_n (h conn_flow))"
    using outflow_take_within[OF assms(2) kle] by auto
  have a: "awaitFlowControl None i (int (length remain)) cc = Inr (Tokens (int k), cc\<lparr>cc_flows := h\<rparr>)"
  proof -
    have "(let k = (if send_limit cc i > int (length remain) then int32 (int (length remain)) else send_limit cc i) in
        if k > int32 (uint (cc_maxFrameSize cc)) then int32 (uint (cc_maxFrameSize cc)) else k) = int k"
      unfolding k len mf(2) Let_def by simp
    then show ?thesis using False h(1) unfolding awaitFlowControl_open[OF assms(1,2)] Let_def by simp
  qed
  have kl: "k \<le> length remain" by (simp add: k_def)
  let ?fin = "eof \<and> k = length remain \<and> \<not> trailers"
  let ?cc = "cc\<lparr>cc_flows := h, cc_fr := snd (WriteData (cc_fr cc) i ?fin (take k remain))\<rparr>"
  have "\<exists>e. write_data_round None i eof trailers remain cc = Inr (Tokens (int k), e, drop k remain, ?fin, ?cc)"
  proof -
    have e: "(eof \<and> length (drop k remain) = 0 \<and> \<not> trailers) = ?fin" using kl by auto
    obtain e0 fr where w: "WriteData (cc_fr cc) i ?fin (take k remain) = (e0, fr)" by fastforce
    show ?thesis
      using kl by (simp add: write_data_round_def a put_frame_def Let_def e w split: option.split del: length_drop length_0_conv)
  qed
  moreover have "send_limit ?cc i = send_limit cc i - int k" using h by (simp add: send_limit_def)
  moreover have "send_windows ?cc i" using assms(2) h(5-7) by (simp add: send_windows_def)
  moreover have "may_send ?cc i" using assms(1) by (simp add: may_send_def)
  moreover have "o_n (cc_flows ?cc (unat i)) = o_n (cc_flows cc (unat i)) - int k" "o_n (cc_flows ?cc conn_flow) = o_n (cc_flows cc conn_flow) - int k"
    "\<forall>g. g \<noteq> unat i \<and> g \<noteq> conn_flow \<longrightarrow> cc_flows ?cc g = cc_flows cc g" "cc_fr ?cc = snd (WriteData (cc_fr cc) i ?fin (take k remain))"
    using h by simp_all
  ultimately show ?thesis unfolding if_not_P[OF False] using k by blast
qed

theorem send_within_windows_witness:
  "\<exists>cc cc1 e cc2. demo_open cc cc1 \<and> write_data_round None 1 True False [1, 2, 3] cc1 = Inr (Tokens 3, e, [], True, cc2)
     \<and> o_n (cc_flows cc2 1) = 65532 \<and> o_n (cc_flows cc2 0) = 65532"
proof -
  obtain cc cc1 where d: "demo_open cc cc1" using demo_open_exists by blast
  note f = demo_open_fields[OF d]
  have m: "may_send cc1 1" "send_windows cc1 1" "send_limit cc1 1 = 65535"
    using f by (simp_all add: may_send_def send_windows_def send_limit_def demo_stream_def new_stream_def in_int32_def)
  show ?thesis
    using d f m send_within_windows[OF m(1,2), of "[1, 2, 3]" True False] by auto
qed

section \<open>Settings that are not checked\<close>

lemma processSettings_max_frame:
  assumes "\<not> cc_mu cc" and "fh_valid h" and "\<not> Has (fh_Flags h) FlagSettingsAck"
  shows "\<exists>cc'. processSettings h (settings_bytes [\<lparr>s_ID = SettingMaxFrameSize, s_Val = v\<rparr>]) cc = Inr (None, cc') \<and> cc_maxFrameSize cc' = v
    \<and> cc_cs cc' = cc_cs cc \<and> cc_flows cc' = cc_flows cc \<and> cc_closed cc' = cc_closed cc \<and> \<not> cc_mu cc' \<and> cc_werr cc' = cc_werr cc"
proof -
  have s: "settings_of (settings_bytes [\<lparr>s_ID = SettingMaxFrameSize, s_Val = v\<rparr>]) = [\<lparr>s_ID = SettingMaxFrameSize, s_Val = v\<rparr>]" by (rule settings_of_bytes)
  show ?thesis
    using assms by (simp add: processSettings_def processSettingsNoWrite_def ForeachSetting_foreach s apply_setting_def unlock_mu_def
        put_frame_def split_def del: settings_bytes_simps)
qed

lemma zero_frame_round:
  assumes "may_send cc i" and "send_windows cc i" and "0 < send_limit cc i" and "cc_maxFrameSize cc = 0"
    and "remain \<noteq> []" and "length remain < 2 ^ 31"
  shows "\<exists>e cc''. write_data_round None i eof trailers remain cc = Inr (Tokens 0, e, remain, False, cc'')
    \<and> cc_fr cc'' = snd (WriteData (cc_fr cc) i False []) \<and> cc_flows cc'' = cc_flows cc"
proof -
  have len: "int32 (int (length remain)) = int (length remain)" using assms(6) by (intro int32_id) (simp add: in_int32_def)
  have z: "int32 0 = 0" by (simp add: in_int32_def)
  have "(cc_flows cc)(f := (cc_flows cc f)\<lparr>o_n := int32 (o_n (cc_flows cc f) - 0)\<rparr>) = cc_flows cc" if "f = unat i \<or> f = conn_flow" for f
    using that assms(2) by (auto simp: send_windows_def)
  then have t: "outflow_take (cc_flows cc) (unat i) 0 = Some (cc_flows cc)"
    using assms(2,3) available_limit[OF assms(2)] by (simp add: outflow_take_def send_windows_def Let_def)
  have a: "awaitFlowControl None i (int (length remain)) cc = Inr (Tokens 0, cc)"
    using assms(3-5) unfolding awaitFlowControl_open[OF assms(1,2)] Let_def by (simp add: len z t)
  show ?thesis
    using assms(5) by (auto simp: write_data_round_def a put_frame_def Let_def split: prod.split option.split)
qed

lemma negative_frame_round:
  assumes "may_send cc i" and "send_windows cc i" and "0 < send_limit cc i" and "2147483648 \<le> cc_maxFrameSize cc"
    and "remain \<noteq> []" and "length remain < 2 ^ 31"
  shows "write_data_round None i eof trailers remain cc = Inl Panic"
proof -
  let ?m = "int32 (uint (cc_maxFrameSize cc))"
  have len: "int32 (int (length remain)) = int (length remain)" using assms(6) by (intro int32_id) (simp add: in_int32_def)
  have "uint (cc_maxFrameSize cc) < 2 ^ 32" "2 ^ 31 \<le> uint (cc_maxFrameSize cc)"
    using assms(4) uint_bounded[of "cc_maxFrameSize cc"] by (simp_all add: word_le_def)
  then have m: "?m < 0" using int32_over[of "uint (cc_maxFrameSize cc)"] by simp
  then obtain h where t: "outflow_take (cc_flows cc) (unat i) ?m = Some h"
    using assms(3) available_limit[OF assms(2)] by (auto simp: outflow_take_def Let_def)
  have k: "(let k = (if send_limit cc i > int (length remain) then int32 (int (length remain)) else send_limit cc i) in
        if k > ?m then ?m else k) = ?m"
    using m assms(3) by (simp add: len Let_def)
  have "awaitFlowControl None i (int (length remain)) cc = Inr (Tokens ?m, cc\<lparr>cc_flows := h\<rparr>)"
    using assms(3) k t unfolding awaitFlowControl_open[OF assms(1,2)] Let_def by simp
  then show ?thesis using m by (simp add: write_data_round_def)
qed

text \<open>C27: \<open>processSettings\<close> takes any SETTINGS_MAX_FRAME_SIZE, although RFC 9113 allows only values from 16384 to 16777215. With 0,
  \<open>writeHeaders\<close> never returns, and \<open>writeRequestBody\<close> sends empty DATA frames without end; with a value from 2147483648 on, which is negative
  as an \<open>int32\<close>, the next DATA frame of any request panics.\<close>

theorem max_frame_size_unvalidated:
  assumes "\<not> cc_mu cc" and "fh_valid h" and "\<not> Has (fh_Flags h) FlagSettingsAck"
  shows "\<exists>cc'. processSettings h (settings_bytes [\<lparr>s_ID = SettingMaxFrameSize, s_Val = v\<rparr>]) cc = Inr (None, cc') \<and> cc_maxFrameSize cc' = v
    \<and> cc_cs cc' = cc_cs cc \<and> cc_flows cc' = cc_flows cc \<and> cc_closed cc' = cc_closed cc \<and> \<not> cc_mu cc' \<and> cc_werr cc' = cc_werr cc
    \<and> (v = 0 \<and> hdrs \<noteq> [] \<and> (\<forall>ws. cc_werr cc ws = None) \<longrightarrow> writeHeaders cc' i es (unat (cc_maxFrameSize cc')) hdrs fp = None)
    \<and> (v = 0 \<and> may_send cc i \<and> send_windows cc i \<and> 0 < send_limit cc i \<and> remain \<noteq> [] \<and> length remain < 2 ^ 31 \<longrightarrow>
         (\<exists>e cc''. write_data_round None i eof trailers remain cc' = Inr (Tokens 0, e, remain, False, cc'')
            \<and> cc_fr cc'' = snd (WriteData (cc_fr cc') i False []) \<and> cc_flows cc'' = cc_flows cc'))
    \<and> (2147483648 \<le> v \<and> may_send cc i \<and> send_windows cc i \<and> 0 < send_limit cc i \<and> remain \<noteq> [] \<and> length remain < 2 ^ 31 \<longrightarrow>
         write_data_round None i eof trailers remain cc' = Inl Panic)"
proof -
  let ?v = "\<lparr>s_ID = SettingMaxFrameSize, s_Val = v\<rparr>"
  obtain cc' where p: "processSettings h (settings_bytes [?v]) cc = Inr (None, cc')" and f: "cc_maxFrameSize cc' = v"
      "cc_cs cc' = cc_cs cc" "cc_flows cc' = cc_flows cc" "cc_closed cc' = cc_closed cc" "\<not> cc_mu cc'" "cc_werr cc' = cc_werr cc"
    using processSettings_max_frame[OF assms] by blast
  have same: "may_send cc' i = may_send cc i" "send_windows cc' i = send_windows cc i" "send_limit cc' i = send_limit cc i"
    using f assms(1) by (simp_all add: may_send_def send_windows_def send_limit_def)
  have "writeHeaders cc' i es (unat (cc_maxFrameSize cc')) hdrs fp = None" if "v = 0" "hdrs \<noteq> []" "\<forall>ws. cc_werr cc ws = None"
    using that by (simp add: writeHeaders_def f writeHeaders_loop_zero)
  then show ?thesis
    using p f zero_frame_round[of cc' i remain eof trailers] negative_frame_round[of cc' i remain eof trailers]
    unfolding same by (intro exI[of _ cc']) blast
qed

theorem max_frame_size_unvalidated_witness:
  "\<exists>cc cc1 cc2. demo_open cc cc1
     \<and> processSettings (wire_header 4 0 0 (settings_bytes [\<lparr>s_ID = SettingMaxFrameSize, s_Val = 2147483648\<rparr>]))
         (settings_bytes [\<lparr>s_ID = SettingMaxFrameSize, s_Val = 2147483648\<rparr>]) cc1 = Inr (None, cc2)
     \<and> write_data_round None 1 True False [1, 2, 3] cc2 = Inl Panic"
proof -
  obtain cc cc1 where d: "demo_open cc cc1" using demo_open_exists by blast
  note f = demo_open_fields[OF d]
  have m: "may_send cc1 1" "send_windows cc1 1" "send_limit cc1 1 = 65535"
    using f by (simp_all add: may_send_def send_windows_def send_limit_def demo_stream_def new_stream_def in_int32_def)
  have h: "fh_valid (wire_header 4 0 0 p)" "\<not> Has (fh_Flags (wire_header 4 0 0 p)) FlagSettingsAck" for p
    by (simp_all add: wire_header_def Has_def)
  show ?thesis
    using d m max_frame_size_unvalidated[OF f(1) h, of "settings_bytes [\<lparr>s_ID = SettingMaxFrameSize, s_Val = 2147483648\<rparr>]",
        where v = 2147483648 and i = 1 and remain = "[1, 2, 3]" and eof = True and trailers = False] by fastforce
qed

end
