(* ===== verification/H2_Windows.thy ===== *)
theory H2_Windows
  imports H2_Peer
begin

unbundle bit_operations_syntax

text \<open>
  Flow control of received data (\<open>http2/transport.go\<close>, \<open>pipe.go\<close>, \<open>flow.go\<close>): whatever the peer sends and the
  users of the connection do, the bytes buffered in all response bodies, with the window that is still open to the peer,
  stay within the window announced for the connection, and likewise for each stream; and DATA frames, reads and the
  first \<open>Close\<close> of a body always return.
\<close>

section \<open>The pipe of a response body\<close>

text \<open>The bytes in a pipe that are still to be given back to the peer's window.\<close>

definition p_owed :: "(dataBuffer, h2_error) pipe \<Rightarrow> nat" where
  "p_owed p = (if p_breakErr p \<noteq> None then 0 else pipe_Len dataBuffer_Len p)"

definition pipe_ok :: "(dataBuffer, h2_error) pipe \<Rightarrow> bool" where
  "pipe_ok p \<longleftrightarrow> (case p_b p of Some b \<Rightarrow> wf_buffer b | None \<Rightarrow> True)
     \<and> (if p_breakErr p = None then p_unread p = 0 else p_b p = None)"

lemma pipe_ok_zero: "pipe_ok zero_pipe" "p_owed zero_pipe = 0"
  by (simp_all add: pipe_ok_def zero_pipe_def p_owed_def pipe_Len_def)

lemma pipe_put_spec:
  assumes "pipe_ok p"
  shows "\<exists>e p'. pipe_put stale p d = Inr (e, p') \<and> pipe_ok p' \<and> p_owed p' = p_owed p + (if e = None then length d else 0)
    \<and> (p_b p = None \<longrightarrow> p_b p' = None)"
proof (cases "d = [] \<or> p_err p \<noteq> None \<or> p_breakErr p \<noteq> None \<or> p_b p = None")
  case True
  then show ?thesis using assms by (auto simp: pipe_put_def pipe_Write_def)
next
  case False
  then obtain b where b: "p_b p = Some b" "wf_buffer b" "p_err p = None" "p_breakErr p = None" "p_unread p = 0" "d \<noteq> []"
    using assms by (auto simp: pipe_ok_def)
  obtain b' where b': "dataBuffer_Write stale b d = Some (length d, b')" "wf_buffer b'" "queue_of b' = queue_of b @ d"
    using data_buffer.Write_appends[OF b(2)] by blast
  have "dataBuffer_Len b' = dataBuffer_Len b + length d"
    using data_buffer.Len_queue[OF b(2)] data_buffer.Len_queue[OF b'(2)] b'(3) by simp
  then show ?thesis using b b'(1,2) by (simp add: pipe_put_def pipe_Write_def pipe_ok_def p_owed_def pipe_Len_def)
qed

lemma pipe_read_spec:
  assumes "pipe_ok p" and "pipe_Read dataBuffer_Len dataBuffer_Read p k = (r, code, p')"
  shows "r \<noteq> ReadPanics \<and> r \<noteq> ReadBufferErr \<and> pipe_ok p' \<and> (p_b p = None \<longrightarrow> p_b p' = None)
    \<and> p_owed p = p_owed p' + (case r of ReadData xs \<Rightarrow> length xs | _ \<Rightarrow> 0) \<and> (r = ReadWaits \<longrightarrow> p' = p)"
proof (cases "p_breakErr p = None \<and> (case p_b p of Some b \<Rightarrow> dataBuffer_Len b > 0 | None \<Rightarrow> False)")
  case True
  then obtain b where b: "p_b p = Some b" "dataBuffer_Len b > 0" "p_breakErr p = None" by (auto split: option.splits)
  then have w: "wf_buffer b" "p_unread p = 0" using assms(1) by (simp_all add: pipe_ok_def)
  have q: "queue_of b \<noteq> []" using b(2) data_buffer.Len_queue[OF w(1)] by auto
  obtain b' where b': "dataBuffer_Read b k = Some (Some (take k (queue_of b)), b')" "wf_buffer b'" "queue_of b' = drop k (queue_of b)"
    using data_buffer.Read_some[OF w(1) q] by blast
  have "dataBuffer_Len b = dataBuffer_Len b' + length (take k (queue_of b))"
    using data_buffer.Len_queue[OF w(1)] data_buffer.Len_queue[OF b'(2)] b'(3) by simp
  then show ?thesis using assms(2) b b'(1,2) w by (auto simp: pipe_Read_def pipe_ok_def p_owed_def pipe_Len_def)
next
  case False
  then show ?thesis
    using assms by (auto simp: pipe_Read_def pipe_ok_def p_owed_def pipe_Len_def split: option.splits if_splits)
qed

lemma pipe_close_spec:
  "\<exists>p'. closeWithError dataBuffer_Len p Err (Some e) fn = Some p' \<and> p_b p' = p_b p \<and> p_unread p' = p_unread p \<and> p_breakErr p' = p_breakErr p"
  by (simp add: closeWithError_def Let_def closeDoneLocked_def split: option.split)

lemma pipe_ok_same:
  "p_b p' = p_b p \<Longrightarrow> p_unread p' = p_unread p \<Longrightarrow> p_breakErr p' = p_breakErr p \<Longrightarrow> pipe_ok p' = pipe_ok p \<and> p_owed p' = p_owed p"
  by (simp add: pipe_ok_def p_owed_def pipe_Len_def cong: option.case_cong if_cong)

lemma pipe_break_spec:
  assumes "pipe_ok p" and "p_breakErr p = None"
  shows "\<exists>p'. BreakWithError dataBuffer_Len p (Some e) = Some p' \<and> pipe_ok p' \<and> p_b p' = None \<and> p_owed p' = 0 \<and> p_breakErr p' = Some e
    \<and> pipe_Len dataBuffer_Len p' = p_owed p"
  using assms by (auto simp: BreakWithError_def closeWithError_def Let_def closeDoneLocked_def pipe_ok_def p_owed_def pipe_Len_def split: option.split)

lemma setBuffer_spec:
  assumes "pipe_ok p" and "p_b p = None"
  shows "pipe_ok (setBuffer p (Some \<lparr>chunks = [], b_r = 0, b_w = 0, b_size = 0, b_expected = n\<rparr>))"
    "p_owed (setBuffer p (Some \<lparr>chunks = [], b_r = 0, b_w = 0, b_size = 0, b_expected = n\<rparr>)) = p_owed p"
  using assms wf_empty by (simp_all add: setBuffer_def pipe_ok_def p_owed_def pipe_Len_def dataBuffer_Len_def)

section \<open>The invariant\<close>

definition owed :: "clientStream \<Rightarrow> nat" where
  "owed cs = p_owed (cs_bufPipe cs)"

definition stream_ok :: "int \<Rightarrow> clientStream \<Rightarrow> bool" where
  "stream_ok ws cs \<longleftrightarrow> wf_inflow (cs_inflow cs) \<and> avail (cs_inflow cs) + unsent (cs_inflow cs) + int (owed cs) \<le> ws
     \<and> pipe_ok (cs_bufPipe cs) \<and> (\<not> cs_pastHeaders cs \<longrightarrow> p_b (cs_bufPipe cs) = None) \<and> (cs_peerClosed cs \<longrightarrow> cs_readClosed cs)"

definition total_owed :: "ClientConn \<Rightarrow> int" where
  "total_owed cc = (\<Sum>i \<in> UNIV. int (owed (cc_cs cc i)))"

definition granted :: "ClientConn \<Rightarrow> int" where
  "granted cc = avail (cc_inflow cc) + unsent (cc_inflow cc) + total_owed cc"

definition winv :: "int \<Rightarrow> ClientConn \<Rightarrow> bool" where
  "winv W cc \<longleftrightarrow> wf_inflow (cc_inflow cc) \<and> granted cc \<le> W
     \<and> cc_initialStreamRecvWindowSize cc = 4194304
     \<and> (\<forall>i. stream_ok 4194304 (cc_cs cc i))"

text \<open>A step that concerns no data leaves the connection's window alone, and no stream owes more than before.\<close>

definition stream_le :: "int \<Rightarrow> clientStream \<Rightarrow> clientStream \<Rightarrow> bool" where
  "stream_le ws cs cs' \<longleftrightarrow> owed cs' \<le> owed cs \<and> (stream_ok ws cs \<longrightarrow> stream_ok ws cs')"

definition quiet :: "ClientConn \<Rightarrow> ClientConn \<Rightarrow> bool" where
  "quiet cc cc' \<longleftrightarrow> cc_inflow cc' = cc_inflow cc \<and> cc_initialStreamRecvWindowSize cc' = cc_initialStreamRecvWindowSize cc
     \<and> (\<forall>i. stream_le (cc_initialStreamRecvWindowSize cc) (cc_cs cc i) (cc_cs cc' i))"

lemma stream_le_refl [simp]: "stream_le ws cs cs"
  by (simp add: stream_le_def)

lemma stream_le_trans: "stream_le ws a b \<Longrightarrow> stream_le ws b c \<Longrightarrow> stream_le ws a c"
  by (simp add: stream_le_def)

lemma quiet_refl [simp]: "quiet cc cc"
  by (simp add: quiet_def)

lemma quiet_trans: "quiet a b \<Longrightarrow> quiet b c \<Longrightarrow> quiet a c"
  unfolding quiet_def by (metis stream_le_trans)

lemma total_owed_mono: "(\<And>i. owed (cc_cs cc' i) \<le> owed (cc_cs cc i)) \<Longrightarrow> total_owed cc' \<le> total_owed cc"
  unfolding total_owed_def by (intro sum_mono) simp

lemma winv_quiet: "winv W cc \<Longrightarrow> quiet cc cc' \<Longrightarrow> winv W cc'"
  using total_owed_mono[of cc' cc] by (auto simp: winv_def quiet_def granted_def stream_le_def)

lemma winv_mono: "winv W cc \<Longrightarrow> W \<le> W' \<Longrightarrow> winv W' cc"
  by (simp add: winv_def)

lemma total_owed_upd:
  assumes "\<And>j. j \<noteq> i \<Longrightarrow> owed (cc_cs cc' j) = owed (cc_cs cc j)"
  shows "total_owed cc' = total_owed cc - int (owed (cc_cs cc i)) + int (owed (cc_cs cc' i))"
proof -
  have "total_owed c = int (owed (cc_cs c i)) + (\<Sum>j \<in> UNIV - {i}. int (owed (cc_cs c j)))" for c
    unfolding total_owed_def by (rule sum.remove) simp_all
  moreover have "(\<Sum>j \<in> UNIV - {i}. int (owed (cc_cs cc' j))) = (\<Sum>j \<in> UNIV - {i}. int (owed (cc_cs cc j)))"
    using assms by (intro sum.cong) auto
  ultimately show ?thesis by simp
qed

lemma total_owed_nonneg: "0 \<le> total_owed cc" "int (owed (cc_cs cc i)) \<le> total_owed cc"
  unfolding total_owed_def by (auto intro!: sum_nonneg member_le_sum)

text \<open>The step of a data operation: one stream and the connection's window change.\<close>

lemma winv_step:
  assumes "winv W cc" and "\<And>j. j \<noteq> i \<Longrightarrow> cc_cs cc' j = cc_cs cc j" and "stream_ok (cc_initialStreamRecvWindowSize cc) (cc_cs cc' i)"
    and "cc_initialStreamRecvWindowSize cc' = cc_initialStreamRecvWindowSize cc" and "wf_inflow (cc_inflow cc')"
    and "avail (cc_inflow cc') + unsent (cc_inflow cc') + int (owed (cc_cs cc' i))
      \<le> avail (cc_inflow cc) + unsent (cc_inflow cc) + int (owed (cc_cs cc i)) + (W' - W)"
  shows "winv W' cc'"
proof -
  have "granted cc' \<le> W'"
    using assms(1,2,6) total_owed_upd[of i cc' cc] by (simp add: winv_def granted_def)
  moreover have "stream_ok (cc_initialStreamRecvWindowSize cc) (cc_cs cc' j)" for j
    using assms(1-3) by (cases "j = i") (simp_all add: winv_def)
  ultimately show ?thesis using assms(1,4,5) by (simp add: winv_def)
qed

section \<open>Operations that concern no data\<close>

lemma lock_mu_Inr [simp]: "lock_mu cc = Inr cc1 \<longleftrightarrow> \<not> cc_mu cc \<and> cc1 = cc\<lparr>cc_mu := True\<rparr>"
  by (auto simp: lock_mu_def)

lemma stream_le_same:
  "cs_inflow cs' = cs_inflow cs \<Longrightarrow> cs_bufPipe cs' = cs_bufPipe cs \<Longrightarrow> cs_pastHeaders cs' = cs_pastHeaders cs
     \<Longrightarrow> cs_peerClosed cs' = cs_peerClosed cs \<Longrightarrow> cs_readClosed cs' = cs_readClosed cs \<Longrightarrow> stream_le ws cs cs'"
  by (simp add: stream_le_def stream_ok_def owed_def)

lemma abort_fields [simp]:
  "cs_inflow (abortStreamLocked e cs) = cs_inflow cs" "cs_bufPipe (abortStreamLocked e cs) = cs_bufPipe cs"
  "cs_pastHeaders (abortStreamLocked e cs) = cs_pastHeaders cs" "cs_peerClosed (abortStreamLocked e cs) = cs_peerClosed cs"
  "cs_readClosed (abortStreamLocked e cs) = cs_readClosed cs" "cs_res (abortStreamLocked e cs) = cs_res cs"
  "cs_inflow (closeReqBodyLocked cs) = cs_inflow cs" "cs_bufPipe (closeReqBodyLocked cs) = cs_bufPipe cs"
  "cs_pastHeaders (closeReqBodyLocked cs) = cs_pastHeaders cs" "cs_peerClosed (closeReqBodyLocked cs) = cs_peerClosed cs"
  "cs_readClosed (closeReqBodyLocked cs) = cs_readClosed cs" "cs_res (closeReqBodyLocked cs) = cs_res cs"
  by (simp_all add: abortStreamLocked_def closeReqBodyLocked_def Let_def)

lemma stream_le_abort [simp]: "stream_le ws cs (abortStreamLocked e cs)" "stream_le ws cs (closeReqBodyLocked cs)" "stream_le ws cs (goAway_stream l c i cs)"
  by (auto intro!: stream_le_same simp: goAway_stream_def)

lemma quiet_upd: "(\<And>ws. stream_le ws (cc_cs cc i) (f (cc_cs cc i))) \<Longrightarrow> quiet cc (upd_cs i f cc)"
  by (simp add: quiet_def upd_cs_def)

lemma quiet_abort_streams: "(\<And>ws i cs. stream_le ws cs (f i cs)) \<Longrightarrow> quiet cc (abort_streams f cc)"
  by (simp add: quiet_def abort_streams_def)

lemma quiet_fields:
  "cc_inflow cc' = cc_inflow cc \<Longrightarrow> cc_initialStreamRecvWindowSize cc' = cc_initialStreamRecvWindowSize cc \<Longrightarrow> cc_cs cc' = cc_cs cc \<Longrightarrow> quiet cc cc'"
  by (simp add: quiet_def)

text \<open>\<open>quietly cc r\<close>: if an operation returns, it has unlocked the mutex and concerned no data.\<close>

definition quietly :: "ClientConn \<Rightarrow> ClientConn outcome \<Rightarrow> bool" where
  "quietly cc r \<longleftrightarrow> (\<forall>cc'. r = Inr cc' \<longrightarrow> quiet cc cc' \<and> \<not> cc_mu cc')"

named_theorems quiet_ops

definition quietly_res :: "ClientConn \<Rightarrow> ('a \<times> ClientConn) outcome \<Rightarrow> bool" where
  "quietly_res cc r \<longleftrightarrow> (\<forall>x cc'. r = Inr (x, cc') \<longrightarrow> quiet cc cc' \<and> \<not> cc_mu cc')"

lemma quietly_simps [simp]:
  "quietly cc (Inl e)" "quietly cc (Inr cc') \<longleftrightarrow> quiet cc cc' \<and> \<not> cc_mu cc'"
  "quietly_res cc (Inl e)" "quietly_res cc (Inr (x, cc')) \<longleftrightarrow> quiet cc cc' \<and> \<not> cc_mu cc'"
  "quietly_res cc (map_res (Pair x) r) \<longleftrightarrow> quietly cc r"
  by (auto simp: quietly_def quietly_res_def)

lemma quietly_after: "quiet cc cc' \<Longrightarrow> quietly cc' r \<Longrightarrow> quietly cc r" "quiet cc cc' \<Longrightarrow> quietly_res cc' q \<Longrightarrow> quietly_res cc q"
  unfolding quietly_def quietly_res_def by (blast intro: quiet_trans)+

lemma quietly_bind:
  "quietly cc r \<Longrightarrow> (\<And>cc'. quiet cc cc' \<Longrightarrow> \<not> cc_mu cc' \<Longrightarrow> quietly cc' (f cc')) \<Longrightarrow> quietly cc (bind_res r f)"
  by (cases r) (auto intro: quietly_after)

lemma quietly_res_bind:
  "quietly cc r \<Longrightarrow> (\<And>cc'. quiet cc cc' \<Longrightarrow> \<not> cc_mu cc' \<Longrightarrow> quietly_res cc' (f cc')) \<Longrightarrow> quietly_res cc (bind_res r f)"
  by (cases r) (auto intro: quietly_after)

lemma quietly_res_bind2:
  "quietly_res cc r \<Longrightarrow> (\<And>x cc'. r = Inr (x, cc') \<Longrightarrow> quiet cc cc' \<Longrightarrow> \<not> cc_mu cc' \<Longrightarrow> quietly_res cc' (f (x, cc'))) \<Longrightarrow> quietly_res cc (bind_res r f)"
  by (cases r) (auto intro: quietly_after)

lemma quiet_upd_inline: "(\<And>ws. stream_le ws (cc_cs cc i) x) \<Longrightarrow> quiet cc (cc\<lparr>cc_cs := (cc_cs cc)(i := x)\<rparr>)"
  by (simp add: quiet_def)

lemmas conn_defs = unlock_mu_def upd_cs_def closeConn_def put_frame_def

lemma put_frame_quiet [simp]: "quiet cc (snd (put_frame w cc))" "cc_mu (snd (put_frame w cc)) = cc_mu cc"
  by (simp_all add: put_frame_def quiet_def split: prod.split)

lemma writeStreamReset_quiet [simp]: "quiet cc (writeStreamReset i c p cc)" "cc_mu (writeStreamReset i c p cc) = cc_mu cc"
  by (auto simp: writeStreamReset_def Let_def intro: quiet_trans[OF put_frame_quiet(1) put_frame_quiet(1)] split: option.split)

lemma abortStream_quietly [quiet_ops]: "quietly cc (abortStream i e cc)"
  by (auto simp: quietly_def abortStream_def quiet_def conn_defs)

lemma endStreamError_quietly [quiet_ops]: "quietly cc (endStreamError i e cc)"
  unfolding endStreamError_def
  by (rule quietly_after(1)[OF quiet_upd abortStream_quietly]) (simp add: stream_le_same)

lemma SetDoNotReuse_quietly [quiet_ops]: "quietly cc (SetDoNotReuse cc)"
  by (auto simp: quietly_def SetDoNotReuse_def quiet_def conn_defs)

lemma setGoAway_quietly [quiet_ops]: "quietly cc (setGoAway l c d cc)"
  by (auto simp: quietly_def setGoAway_def quiet_def conn_defs abort_streams_def Let_def)

lemma closeForError_quietly [quiet_ops]: "quietly cc (closeForError e cc)"
  by (auto simp: quietly_def closeForError_def quiet_def conn_defs abort_streams_def Let_def)

lemma forgetStreamID_quietly [quiet_ops]: "quietly cc (forgetStreamID i cc)"
  by (auto simp: quietly_def forgetStreamID_def quiet_def conn_defs Let_def split: if_splits)

lemma streamByID_quietly [quiet_ops]: "quietly_res cc (streamByID i b cc)"
  by (auto simp: quietly_res_def streamByID_def quiet_def conn_defs Let_def)

lemma stream_le_pipe:
  assumes "p_b p = p_b (cs_bufPipe cs)" and "p_unread p = p_unread (cs_bufPipe cs)" and "p_breakErr p = p_breakErr (cs_bufPipe cs)"
  shows "stream_le ws cs (cs\<lparr>cs_bufPipe := p\<rparr>)"
  using pipe_ok_same[OF assms] assms(1) by (simp add: stream_le_def stream_ok_def owed_def)

lemma pipe_close_quiet: "\<exists>cc'. pipe_close i e cc = Inr cc' \<and> quiet cc cc' \<and> cc_mu cc' = cc_mu cc"
proof -
  obtain p where p: "CloseWithError dataBuffer_Len (cs_bufPipe (cc_cs cc i)) (Some e) = Some p" "p_b p = p_b (cs_bufPipe (cc_cs cc i))"
      "p_unread p = p_unread (cs_bufPipe (cc_cs cc i))" "p_breakErr p = p_breakErr (cs_bufPipe (cc_cs cc i))"
    using pipe_close_spec unfolding CloseWithError_def by metis
  show ?thesis
    using p by (auto simp: pipe_close_def upd_cs_def intro!: quiet_upd_inline stream_le_pipe)
qed

lemma pipe_close_quietly [quiet_ops]: "\<not> cc_mu cc \<Longrightarrow> quietly cc (pipe_close i e cc)"
  using pipe_close_quiet[of i e cc] by auto

lemma endStream_spec:
  assumes "\<not> cc_mu cc" and "cs_peerClosed (cc_cs cc i) \<longrightarrow> cs_readClosed (cc_cs cc i)"
  shows "\<exists>cc'. endStream i cc = Inr cc' \<and> quiet cc cc' \<and> \<not> cc_mu cc'"
proof -
  obtain p where p: "closeWithErrorAndCode dataBuffer_Len (cs_bufPipe (cc_cs cc i)) (Some EOF) 0 = Some p" "p_b p = p_b (cs_bufPipe (cc_cs cc i))"
      "p_unread p = p_unread (cs_bufPipe (cc_cs cc i))" "p_breakErr p = p_breakErr (cs_bufPipe (cc_cs cc i))"
    using pipe_close_spec unfolding closeWithErrorAndCode_def by metis
  have le: "stream_le ws (cc_cs cc i) ((cc_cs cc i)\<lparr>cs_readClosed := True, cs_bufPipe := p, cs_peerClosed := True\<rparr>)" for ws
    using pipe_ok_same[OF p(2-4)] p(2) by (simp add: stream_le_def stream_ok_def owed_def)
  show ?thesis
    using assms p(1) le by (auto simp: endStream_def Let_def conn_defs quiet_def fun_upd_def)
qed

lemma cleanup_reset_quietly [quiet_ops]: "quietly cc (cleanup_reset i e payload b1 b2 cc)"
  unfolding cleanup_reset_def
proof (intro quietly_bind abortStream_quietly pipe_close_quietly)
  fix cc :: ClientConn
  assume mu: "\<not> cc_mu cc"
  then show "quietly cc (if \<not> cs_sentHeaders (cc_cs cc i) then Inr cc
          else case e of
              StreamError sid code cause \<Rightarrow> Inr (if cause \<noteq> Some errFromPeer then writeStreamReset i code None cc else cc)
            | _ \<Rightarrow>
                if \<not> b1 \<and> \<not> b2
                then bind_res (lock_mu cc) (\<lambda>cc.
                       let ping = (\<not> cc_rstStreamPingsBlocked cc \<and> cc_pendingResets cc = 0);
                           cc = (if \<not> cc_rstStreamPingsBlocked cc then cc\<lparr>cc_pendingResets := cc_pendingResets cc + 1\<rparr> else cc)
                       in Inr (writeStreamReset i ErrCodeCancel (if ping then Some payload else None) (unlock_mu cc)))
                else Inr (writeStreamReset i ErrCodeCancel None cc))"
    by (auto simp: Let_def unlock_mu_def intro!: quiet_trans[OF quiet_fields writeStreamReset_quiet(1)] split: h2_error.split)
qed

lemma cleanupWriteRequest_quietly [quiet_ops]: "quietly cc (cleanupWriteRequest i err payload cc)"
proof (cases "cc_mu cc")
  case False
  let ?m = "cc\<lparr>cc_mu := True\<rparr>"
  let ?u = "unlock_mu (if cs_reqBody (cc_cs ?m i) then upd_cs i closeReqBodyLocked ?m else ?m)"
  have u: "quiet cc ?u" "\<not> cc_mu ?u" by (auto simp: quiet_def conn_defs)
  have last: "quietly c (if cc_werr c (fr_w (cc_fr c)) \<noteq> None then Close c else Inr c)" if "\<not> cc_mu c" for c
    using that closeForError_quietly by (simp add: Close_def)
  have reset: "quietly c (pipe_close i e (writeStreamReset i code None c))" if "\<not> cc_mu c" for c e code
    by (rule quietly_after(1)[OF writeStreamReset_quiet(1) pipe_close_quietly]) (simp add: that)
  show ?thesis
    unfolding cleanupWriteRequest_def Let_def lock_free[OF False] bind_res_simps
    by (rule quietly_after(1)[OF u(1)], intro quietly_bind forgetStreamID_quietly last)
       (use u(2) in \<open>auto split: option.split intro: cleanup_reset_quietly pipe_close_quietly reset\<close>)
qed (simp add: cleanupWriteRequest_def)

lemma apply_setting_quiet:
  "apply_setting s (Some (b, cc)) = (e, Some (b', cc')) \<Longrightarrow> quiet cc cc' \<and> cc_mu cc' = cc_mu cc"
  by (auto simp: apply_setting_def Let_def intro!: quiet_fields split: if_splits option.splits)

lemma apply_settings_none: "foreach apply_setting ss None = (e, st) \<Longrightarrow> st = None"
  by (cases ss) (auto simp: apply_setting_def)

lemma apply_settings_quiet:
  "foreach apply_setting ss (Some (b, cc)) = (e, Some (b', cc')) \<Longrightarrow> quiet cc cc' \<and> cc_mu cc' = cc_mu cc"
proof (induction ss arbitrary: b cc)
  case (Cons s ss)
  obtain e1 st where a: "apply_setting s (Some (b, cc)) = (e1, st)" by fastforce
  show ?case
  proof (cases st)
    case None
    then show ?thesis using Cons.prems a by (auto split: option.splits dest: apply_settings_none)
  next
    case (Some y)
    obtain b1 cc1 where y: "y = (b1, cc1)" by fastforce
    have q: "quiet cc cc1" "cc_mu cc1 = cc_mu cc" using apply_setting_quiet a Some y by blast+
    show ?thesis
      using Cons.prems a Some y q Cons.IH[of b1 cc1] by (auto split: option.splits intro: quiet_trans)
  qed
qed simp

lemma processSettings_quietly [quiet_ops]:
  assumes "fh_valid h"
  shows "quietly_res cc (processSettings h p cc)"
proof -
  have "quietly_res cc (processSettingsNoWrite h p cc)"
  proof (cases "cc_mu cc \<or> frame_IsAck (SettingsFrame h p)")
    case True
    then show ?thesis
      by (cases "cc_mu cc") (auto simp: processSettingsNoWrite_def unlock_mu_def intro!: quiet_fields)
  next
    case False
    obtain e st where f: "foreach apply_setting (settings_of p) (Some (False, cc\<lparr>cc_mu := True\<rparr>)) = (e, st)" by fastforce
    show ?thesis
    proof (cases st)
      case None
      then show ?thesis using False f by (auto simp: processSettingsNoWrite_def ForeachSetting_foreach[OF assms] split: option.split)
    next
      case (Some y)
      obtain b c where y: "y = (b, c)" by fastforce
      have "quiet (cc\<lparr>cc_mu := True\<rparr>) c" using apply_settings_quiet f Some y by blast
      then have "quiet cc (c\<lparr>cc_maxConcurrentStreams := m, cc_seenSettings := True, cc_mu := False\<rparr>)" "quiet cc (c\<lparr>cc_mu := False\<rparr>)" for m
        by (simp_all add: quiet_def)
      then show ?thesis
        using False f Some y by (simp add: processSettingsNoWrite_def ForeachSetting_foreach[OF assms] unlock_mu_def split: option.split)
    qed
  qed
  then show ?thesis
    unfolding processSettings_def by (rule quietly_res_bind2) (auto intro!: put_frame_quiet)
qed

lemma processWindowUpdate_quietly [quiet_ops]: "quietly_res cc (processWindowUpdate i n cc)"
  unfolding processWindowUpdate_def
proof (rule quietly_res_bind2[OF streamByID_quietly])
  fix cs cc' assume "\<not> cc_mu (cc' :: ClientConn)"
  then show "quietly_res cc' (case (cs, cc') of (cs, cc) \<Rightarrow>
       if i \<noteq> 0 \<and> cs = None then Inr (None, cc)
       else
         bind_res (lock_mu cc) (\<lambda>cc.
           let (ok, h) = outflow_add (cc_flows cc) (case cs of Some i \<Rightarrow> unat i | None \<Rightarrow> conn_flow) (int32 (uint n)) in
           if \<not> ok
           then (case cs of
                   Some i' \<Rightarrow> map_res (\<lambda>cc. (None, unlock_mu cc)) (endStreamError i' (StreamError i ErrCodeFlowControl None) cc)
                 | None \<Rightarrow> Inr (Some (ConnectionError ErrCodeFlowControl), unlock_mu cc))
           else Inr (None, unlock_mu (cc\<lparr>cc_flows := h\<rparr>))))"
    by (auto simp: unlock_mu_def endStreamError_def abortStream_def upd_cs_def split: prod.split option.split intro!: quiet_fields)
qed

lemma processResetStream_quietly [quiet_ops]: "quietly_res cc (processResetStream i code cc)"
  unfolding processResetStream_def
  by (rule quietly_res_bind2[OF streamByID_quietly])
     (auto simp: Let_def split: option.split intro!: quietly_res_bind SetDoNotReuse_quietly abortStream_quietly pipe_close_quietly)

lemma processPing_quietly [quiet_ops]: "\<not> cc_mu cc \<Longrightarrow> quietly_res cc (processPing h d cc)"
  by (auto simp: processPing_def Let_def conn_defs split: prod.split option.split intro!: quiet_fields)

lemma processGoAway_quietly [quiet_ops]: "quietly_res cc (processGoAway l c d cc)"
  unfolding processGoAway_def quietly_simps by (rule quietly_after(1)[OF quiet_fields setGoAway_quietly]) simp_all

lemma endStream_quietly [quiet_ops]:
  assumes "\<not> cc_mu cc"
  shows "quietly cc (endStream i cc)"
proof (cases "cs_peerClosed (cc_cs cc i) \<longrightarrow> cs_readClosed (cc_cs cc i)")
  case True
  then show ?thesis using endStream_spec[OF assms] by fastforce
next
  case False
  then have "\<not> (\<exists>cc'. endStream i cc = Inr cc')"
    using assms by (auto simp: endStream_def Let_def upd_cs_def)
  then show ?thesis by (auto simp: quietly_def)
qed

lemma processTrailers_quietly [quiet_ops]: "\<not> cc_mu cc \<Longrightarrow> quietly_res cc (processTrailers i hfs es cc)"
  by (auto simp: processTrailers_def Let_def quiet_def upd_cs_def stream_le_same
      intro!: quietly_after(1)[OF _ endStream_quietly])

lemma setBuffer_owed:
  "p_owed (setBuffer p (Some \<lparr>chunks = [], b_r = 0, b_w = 0, b_size = 0, b_expected = n\<rparr>)) \<le> p_owed p"
  by (simp add: setBuffer_def p_owed_def pipe_Len_def dataBuffer_Len_def)

lemma informational_fields:
  "informational g t c h hfs se cs = (r, cs') \<Longrightarrow> cs_inflow cs' = cs_inflow cs \<and> cs_bufPipe cs' = cs_bufPipe cs \<and> cs_peerClosed cs' = cs_peerClosed cs
     \<and> cs_readClosed cs' = cs_readClosed cs \<and> (r = Inl e \<or> (\<exists>x. r = Inr (Some x)) \<longrightarrow> cs_pastHeaders cs' = cs_pastHeaders cs)"
  by (auto simp: informational_def Let_def split: if_splits option.splits prod.splits)

lemma handleResponse_le:
  assumes "handleResponse st g t hfs tr es (cs\<lparr>cs_pastHeaders := True\<rparr>) = (r, cs')" and "\<not> cs_pastHeaders cs"
  shows "stream_le ws cs cs'"
proof -
  have "\<exists>p. cs_inflow cs' = cs_inflow cs \<and> cs_bufPipe cs' = p \<and> cs_peerClosed cs' = cs_peerClosed cs \<and> cs_readClosed cs' = cs_readClosed cs
      \<and> (p = cs_bufPipe cs \<or> cs_pastHeaders cs' \<and> (\<exists>n. p = setBuffer (cs_bufPipe cs) (Some \<lparr>chunks = [], b_r = 0, b_w = 0, b_size = 0, b_expected = n\<rparr>)))"
    using assms(1) by (auto simp: handleResponse_def Let_def split: if_splits option.splits prod.splits dest!: informational_fields)
  then show ?thesis
    using assms(2) setBuffer_owed setBuffer_spec by (auto simp: stream_le_def stream_ok_def owed_def)
qed

lemma processHeaders_quietly [quiet_ops]: "quietly_res cc (processHeaders st g i hfs tr es cc)"
  unfolding processHeaders_def
proof (rule quietly_res_bind2[OF streamByID_quietly])
  fix cs cc' assume mu: "\<not> cc_mu (cc' :: ClientConn)"
  obtain r cs1 where h: "cs = Some j \<Longrightarrow> handleResponse st g (cc_t cc') hfs tr es ((cc_cs cc' j)\<lparr>cs_pastHeaders := True\<rparr>) = (r, cs1)" for j
    by (cases cs) (auto, fastforce)
  show "quietly_res cc' (case (cs, cc') of (cs, cc) \<Rightarrow> (case cs of
         None \<Rightarrow> Inr (None, cc)
       | Some j \<Rightarrow>
           if cs_readClosed (cc_cs cc j)
           then map_res (Pair None) (endStreamError j (StreamError i ErrCodeProtocol (Some (errors_New ''protocol error: headers after END_STREAM''))) cc)
           else if cs_pastHeaders (cc_cs cc j) then processTrailers j hfs es cc
           else
             let cs = (cc_cs cc j)\<lparr>cs_pastHeaders := True\<rparr>;
                 (r, cs) = handleResponse st g (cc_t cc) hfs tr es cs;
                 cc = upd_cs j (\<lambda>_. cs) cc
             in case r of
                  Inl (ConnectionError code) \<Rightarrow> Inr (Some (ConnectionError code), cc)
                | Inl err \<Rightarrow> map_res (Pair None) (endStreamError j (StreamError i ErrCodeProtocol (Some err)) cc)
                | Inr None \<Rightarrow> Inr (None, cc)
                | Inr (Some res) \<Rightarrow>
                    if cs_res cs \<noteq> None then Inl Panic
                    else
                      let cc = upd_cs j (\<lambda>cs. cs\<lparr>cs_res := Some res\<rparr>) cc in
                      if es then map_res (Pair None) (endStream j cc) else Inr (None, cc)))"
  proof (cases "\<exists>j. cs = Some j \<and> \<not> cs_readClosed (cc_cs cc' j) \<and> \<not> cs_pastHeaders (cc_cs cc' j)")
    case False
    then show ?thesis
      using mu by (cases cs) (auto simp: endStreamError_quietly processTrailers_quietly)
  next
    case True
    then obtain j where j: "cs = Some j" "\<not> cs_readClosed (cc_cs cc' j)" "\<not> cs_pastHeaders (cc_cs cc' j)" by blast
    let ?c = "upd_cs j (\<lambda>_. cs1) cc'"
    let ?d = "upd_cs j (\<lambda>cs. cs\<lparr>cs_res := x\<rparr>) ?c"
    have q: "quiet cc' ?c" using handleResponse_le[OF h[OF j(1)] j(3)] by (intro quiet_upd) simp
    have q2: "quiet ?c (upd_cs j (\<lambda>cs. cs\<lparr>cs_res := x\<rparr>) ?c)" for x by (intro quiet_upd stream_le_same) simp_all
    have m: "\<not> cc_mu ?c" "\<not> cc_mu (upd_cs j (\<lambda>cs. cs\<lparr>cs_res := x\<rparr>) ?c)" for x using mu by (simp_all add: upd_cs_def)
    note er = quietly_after(1)[OF q endStreamError_quietly] and es' = quietly_after(1)[OF quiet_trans[OF q q2] endStream_quietly[OF m(2)]]
    show ?thesis
      using j h[OF j(1)] q m er es' quiet_trans[OF q q2]
      by (auto simp: Let_def split: sum.split h2_error.split option.split)
  qed
qed

section \<open>Operations on data\<close>

lemma inflow_add_ok:
  assumes "wf_inflow f" and "0 \<le> n" and "avail f + unsent f + n \<le> maxWindow"
  shows "\<exists>k f'. inflow_add f n = Some (k, f') \<and> wf_inflow f' \<and> avail f' + unsent f' = avail f + unsent f + n"
proof -
  obtain k f' where a: "inflow_add f n = Some (k, f')"
    using inflow_add_panics[OF assms(1), of n] assms(2,3) by (cases "inflow_add f n") auto
  with inflow_add_spec[OF assms(1) a] show ?thesis by blast
qed

lemma takeInflows_spec:
  assumes "wf_inflow f" and "wf_inflow g" and "0 \<le> n" and "n < 2 ^ 32"
  shows "takeInflows f g n = (if n \<le> avail f \<and> n \<le> avail g then (True, f\<lparr>avail := avail f - n\<rparr>, g\<lparr>avail := avail g - n\<rparr>) else (False, f, g))"
  using inflow_take_spec[OF assms(1,3,4)] inflow_take_spec[OF assms(2,3,4)]
  by (auto simp: takeInflows_def inflow_take_def split: if_splits)

lemma wf_inflow_take: "wf_inflow f \<Longrightarrow> 0 \<le> n \<Longrightarrow> n \<le> avail f \<Longrightarrow> wf_inflow (f\<lparr>avail := avail f - n\<rparr>)"
  by (simp add: wf_inflow_def)

lemma put_update_quiet [simp]: "quiet cc (put_update i n cc)" "cc_mu (put_update i n cc) = cc_mu cc"
  by (simp_all add: put_update_def)

lemma winv_conn:
  assumes "winv W cc" and "cc_cs cc' = cc_cs cc" and "cc_initialStreamRecvWindowSize cc' = cc_initialStreamRecvWindowSize cc"
    and "wf_inflow (cc_inflow cc')" and "avail (cc_inflow cc') + unsent (cc_inflow cc') \<le> avail (cc_inflow cc) + unsent (cc_inflow cc) + (W' - W)"
  shows "winv W' cc'"
  by (rule winv_step[OF assms(1)]) (use assms in \<open>auto simp: winv_def\<close>)

lemma winv_window:
  assumes "winv W cc"
  shows "wf_inflow (cc_inflow cc)" "avail (cc_inflow cc) + unsent (cc_inflow cc) + int (owed (cc_cs cc i)) \<le> W"
    "stream_ok (cc_initialStreamRecvWindowSize cc) (cc_cs cc i)" "cc_initialStreamRecvWindowSize cc \<le> maxWindow"
  using assms total_owed_nonneg(2)[of cc i] by (auto simp: winv_def granted_def)

definition slack :: "int \<Rightarrow> bool \<Rightarrow> int" where
  "slack W stopped = (if stopped then W + 2 ^ 24 else W)"

lemma slack_False [simp]: "slack W False = W"
  by (simp add: slack_def)

lemma unsolicited_data_spec:
  assumes "winv W cc" and "\<not> cc_mu cc" and "0 \<le> len" and "len < 2 ^ 24" and "W + 2 ^ 24 \<le> maxWindow"
  shows "\<exists>e cc'. unsolicited_data sid len cc = Inr (e, cc') \<and> \<not> cc_mu cc' \<and> winv (slack W (e \<noteq> None)) cc'"
proof -
  note w = winv_window[OF assms(1)]
  have b: "avail (cc_inflow cc) + unsent (cc_inflow cc) \<le> W" using w(2)[of 0] by linarith
  have m: "cc_mu (unlock_mu c) = False" for c by (simp add: unlock_mu_def)
  have u: "unlock_mu (cc\<lparr>cc_mu := True\<rparr>) = cc" using assms(2) by (simp add: unlock_mu_def)
  have w2: "winv (W + 2 ^ 24) cc" using winv_mono[OF assms(1)] by simp
  show ?thesis
  proof (cases "sid \<ge> cc_nextStreamID cc \<or> len = 0")
    case True
    then show ?thesis using assms(1-3) w2 by (auto simp: unsolicited_data_def u slack_def)
  next
    case False
    show ?thesis
    proof (cases "len \<le> avail (cc_inflow cc)")
      case True
      let ?f = "(cc_inflow cc)\<lparr>avail := avail (cc_inflow cc) - len\<rparr>"
      have t: "inflow_take (cc_inflow cc) len = (True, ?f)"
        using inflow_take_spec[OF w(1), of len] True assms(3,4) by simp
      obtain k f' where a: "inflow_add ?f len = Some (k, f')" "wf_inflow f'" "avail f' + unsent f' = avail (cc_inflow cc) + unsent (cc_inflow cc)"
        using inflow_add_ok[OF wf_inflow_take[OF w(1) assms(3) True] assms(3)] b assms(5) by auto
      have "winv W (unlock_mu (cc\<lparr>cc_mu := True, cc_inflow := f'\<rparr>))"
        using a by (intro winv_conn[OF assms(1)]) (simp_all add: unlock_mu_def)
      then have "winv W (put_update 0 k (unlock_mu (cc\<lparr>cc_mu := True, cc_inflow := f'\<rparr>)))"
        by (rule winv_quiet) simp
      then show ?thesis
        using False assms(2,3) t a(1) by (auto simp: unsolicited_data_def u m slack_def)
    next
      case F: False
      have t: "inflow_take (cc_inflow cc) len = (False, cc_inflow cc)"
        using inflow_take_spec[OF w(1), of len] F assms(3,4) by simp
      obtain k f' where a: "inflow_add (cc_inflow cc) len = Some (k, f')" "wf_inflow f'" "avail f' + unsent f' = avail (cc_inflow cc) + unsent (cc_inflow cc) + len"
        using inflow_add_ok[OF w(1) assms(3)] b assms(4,5) by fastforce
      have "winv (W + 2 ^ 24) (unlock_mu (cc\<lparr>cc_mu := True, cc_inflow := f'\<rparr>))"
        using a assms(4) by (intro winv_conn[OF assms(1)]) (simp_all add: unlock_mu_def)
      then show ?thesis
        using False assms(2,3) t a(1) by (auto simp: unsolicited_data_def u m slack_def)
    qed
  qed
qed

lemma receive_data_spec:
  assumes "winv W cc" and "\<not> cc_mu cc" and "int (length data) \<le> len" and "len < 2 ^ 24" and "W \<le> maxWindow" and "cs_pastHeaders (cc_cs cc i)"
  shows "\<exists>r cc'. receive_data stale i len data cc = Inr (r, cc') \<and> \<not> cc_mu cc' \<and> winv W cc'
    \<and> cs_peerClosed (cc_cs cc' i) = cs_peerClosed (cc_cs cc i) \<and> cs_readClosed (cc_cs cc' i) = cs_readClosed (cc_cs cc i)"
proof -
  let ?cs = "cc_cs cc i" and ?ws = "cc_initialStreamRecvWindowSize cc"
  note w = winv_window[OF assms(1)]
  have b: "avail (cc_inflow cc) + unsent (cc_inflow cc) + int (owed ?cs) \<le> W" by (rule w(2))
  have s: "wf_inflow (cs_inflow ?cs)" "avail (cs_inflow ?cs) + unsent (cs_inflow ?cs) + int (owed ?cs) \<le> ?ws" "pipe_ok (cs_bufPipe ?cs)"
    "cs_peerClosed ?cs \<longrightarrow> cs_readClosed ?cs" using w(3)[of i] by (simp_all add: stream_ok_def)
  have len: "0 \<le> len" "len < 2 ^ 32" using assms(3,4) by simp_all
  note t = takeInflows_spec[OF w(1) s(1) len]
  show ?thesis
  proof (cases "len \<le> avail (cc_inflow cc) \<and> len \<le> avail (cs_inflow ?cs)")
    case False
    then show ?thesis using assms(1,2) t by (auto simp: receive_data_def unlock_mu_def)
  next
    case True
    let ?cf = "(cc_inflow cc)\<lparr>avail := avail (cc_inflow cc) - len\<rparr>" and ?sf = "(cs_inflow ?cs)\<lparr>avail := avail (cs_inflow ?cs) - len\<rparr>"
    obtain e p where p: "pipe_put stale (cs_bufPipe ?cs) data = Inr (e, p)" "pipe_ok p" "p_owed p = owed ?cs + (if e = None then length data else 0)"
      using pipe_put_spec[OF s(3), of stale data] by (auto simp: owed_def)
    let ?pad = "if len - int (length data) > 0 then len - int (length data) else 0"
    let ?r = "?pad + (if e \<noteq> None then int (length data) else 0)"
    have r: "0 \<le> ?r" "?r + (if e = None then int (length data) else 0) = len" using assms(3) by auto
    have cf: "wf_inflow ?cf" "wf_inflow ?sf" using wf_inflow_take w(1) s(1) True len(1) by blast+
    have le: "?r \<le> len" using r(2) by (auto split: if_splits)
    obtain k f where k: "inflow_add ?cf ?r = Some (k, f)" "wf_inflow f" "avail f + unsent f = avail (cc_inflow cc) - len + unsent (cc_inflow cc) + ?r"
      using inflow_add_ok[OF cf(1) r(1)] b assms(5) le by fastforce
    have "\<exists>k2 f2. (if e = None then of_option (inflow_add ?sf ?r) else Inr (0, ?sf)) = Inr (k2, f2) \<and> wf_inflow f2
        \<and> avail f2 + unsent f2 + (if e = None then int (length data) else 0) \<le> avail (cs_inflow ?cs) + unsent (cs_inflow ?cs)"
    proof (cases "e = None")
      case True
      then show ?thesis using inflow_add_ok[OF cf(2) r(1)] s(2) w(4) le r(2) by fastforce
    next
      case False
      then obtain y where "e = Some y" by auto
      then show ?thesis using cf(2) len by simp
    qed
    then obtain k2 f2 where k2: "(if e = None then of_option (inflow_add ?sf ?r) else Inr (0, ?sf)) = Inr (k2, f2)" "wf_inflow f2"
        "avail f2 + unsent f2 + (if e = None then int (length data) else 0) \<le> avail (cs_inflow ?cs) + unsent (cs_inflow ?cs)" by blast
    let ?cc = "unlock_mu (upd_cs i (\<lambda>cs. cs\<lparr>cs_bufPipe := p, cs_inflow := f2\<rparr>) (cc\<lparr>cc_mu := True, cc_inflow := f\<rparr>))"
    have run: "receive_data stale i len data cc = Inr (Inr e, put_update i k2 (put_update 0 k ?cc))"
      using assms(2) t True p(1) k(1) k2(1) by (cases e) (simp_all add: receive_data_def Let_def split del: if_split)
    have "winv W ?cc"
    proof (rule winv_step[OF assms(1), where i = i])
      show "stream_ok ?ws (cc_cs ?cc i)"
        using p k2 s assms(6) by (cases e) (simp_all add: stream_ok_def owed_def unlock_mu_def upd_cs_def)
      show "avail (cc_inflow ?cc) + unsent (cc_inflow ?cc) + int (owed (cc_cs ?cc i))
          \<le> avail (cc_inflow cc) + unsent (cc_inflow cc) + int (owed ?cs) + (W - W)"
        using k(3) p(3) r(2) by (cases e) (simp_all add: owed_def unlock_mu_def upd_cs_def)
    qed (use k(2) in \<open>simp_all add: unlock_mu_def upd_cs_def\<close>)
    then have "winv W (put_update i k2 (put_update 0 k ?cc))" by (meson winv_quiet put_update_quiet(1))
    then show ?thesis
      unfolding run by (auto simp: unlock_mu_def upd_cs_def put_update_def put_frame_def split: prod.split)
  qed
qed

lemma abortStream_returns: "\<not> cc_mu cc \<Longrightarrow> \<exists>cc'. abortStream i e cc = Inr cc' \<and> quiet cc cc' \<and> \<not> cc_mu cc'"
  using abortStream_quietly[of cc i e] by (simp add: abortStream_free)

lemma endStreamError_returns: "\<not> cc_mu cc \<Longrightarrow> \<exists>cc'. endStreamError i e cc = Inr cc' \<and> quiet cc cc' \<and> \<not> cc_mu cc'"
  using endStreamError_quietly[of cc i e] by (simp add: endStreamError_def abortStream_free upd_cs_def)

lemma streamByID_returns:
  assumes "\<not> cc_mu cc"
  shows "\<exists>r cc'. streamByID i b cc = Inr (r, cc') \<and> quiet cc cc' \<and> \<not> cc_mu cc' \<and> cc_cs cc' = cc_cs cc \<and> (r = None \<or> r = Some i)"
proof -
  have "\<exists>r cc'. streamByID i b cc = Inr (r, cc') \<and> cc_cs cc' = cc_cs cc \<and> (r = None \<or> r = Some i)"
    using assms by (simp add: streamByID_def unlock_mu_def)
  then show ?thesis using streamByID_quietly[of cc i b] by (auto simp: quietly_res_def)
qed

lemma processData_spec:
  assumes "winv W cc" and "\<not> cc_mu cc" and "int (length data) \<le> len" and "len < 2 ^ 24" and "W + 2 ^ 24 \<le> maxWindow"
  shows "\<exists>e cc'. processData stale sid len data es cc = Inr (e, cc') \<and> \<not> cc_mu cc' \<and> winv (slack W (e \<noteq> None)) cc'"
proof -
  obtain r cc1 where s: "streamByID sid True cc = Inr (r, cc1)" "quiet cc cc1" "\<not> cc_mu cc1" "r = None \<or> r = Some sid"
    using streamByID_returns[OF assms(2)] by blast
  have w: "winv W cc1" by (rule winv_quiet[OF assms(1) s(2)])
  have weak: "winv (slack W b) c" if "winv W c" for b c using winv_mono[OF that] by (simp add: slack_def)
  have fin: "\<exists>cc'. f = Inr cc' \<and> \<not> cc_mu cc' \<and> winv W cc'" if "\<exists>cc'. f = Inr cc' \<and> quiet c cc' \<and> \<not> cc_mu cc'" "winv W c" for f c
    using that winv_quiet by blast
  have err: "\<exists>cc'. endStreamError i e c = Inr cc' \<and> \<not> cc_mu cc' \<and> winv W cc'" if "winv W c" "\<not> cc_mu c" for i e c
    using fin[OF endStreamError_returns] that by blast
  show ?thesis
  proof (cases r)
    case None
    then show ?thesis
      using unsolicited_data_spec[OF w s(3) _ assms(4,5), of sid] assms(3) by (simp add: processData_def s(1))
  next
    case (Some i)
    let ?c = "cc_cs cc1 i"
    show ?thesis
    proof (cases "cs_readClosed ?c \<or> \<not> cs_pastHeaders ?c \<or> len > 0 \<and> cs_isHead ?c \<and> length data > 0")
      case True
      then have "processData stale sid len data es cc = map_res (Pair None) (endStreamError i (StreamError sid ErrCodeProtocol None) cc1)"
        by (auto simp: processData_def s(1) Some)
      then show ?thesis using err[OF w s(3), of i "StreamError sid ErrCodeProtocol None"] by auto
    next
      case False
      have pc: "\<not> cs_peerClosed ?c" using False winv_window(3)[OF w, of i] by (auto simp: stream_ok_def)
      have ph: "cs_pastHeaders ?c" and Wm: "W \<le> maxWindow" using False assms(5) by simp_all
      have "\<exists>q cc2. (if len > 0 then receive_data stale i len data cc1 else Inr (Inr None, cc1)) = Inr (q, cc2) \<and> \<not> cc_mu cc2 \<and> winv W cc2
          \<and> (cs_peerClosed (cc_cs cc2 i) \<longrightarrow> cs_readClosed (cc_cs cc2 i))"
      proof (cases "len > 0")
        case True
        obtain q cc2 where "receive_data stale i len data cc1 = Inr (q, cc2)" "\<not> cc_mu cc2" "winv W cc2"
          "cs_peerClosed (cc_cs cc2 i) = cs_peerClosed ?c"
          using receive_data_spec[OF w s(3) assms(3,4) Wm ph] by blast
        then show ?thesis using True pc by simp
      next
        case False
        then show ?thesis using w s(3) pc by simp
      qed
      then obtain q cc2 where q: "(if len > 0 then receive_data stale i len data cc1 else Inr (Inr None, cc1)) = Inr (q, cc2)" "\<not> cc_mu cc2" "winv W cc2"
          "cs_peerClosed (cc_cs cc2 i) \<longrightarrow> cs_readClosed (cc_cs cc2 i)" by blast
      have run: "processData stale sid len data es cc = (case q of
                 Inl connErr \<Rightarrow> Inr (Some connErr, cc2)
               | Inr (Some err) \<Rightarrow> map_res (Pair None) (endStreamError i err cc2)
               | Inr None \<Rightarrow> if es then map_res (Pair None) (endStream i cc2) else Inr (None, cc2))"
      proof -
        have f: "cs_readClosed ?c = False" "cs_pastHeaders ?c = True" "(len > 0 \<and> cs_isHead ?c \<and> length data > 0) = False"
          using False by auto
        show ?thesis
          by (simp only: processData_def s(1) Some bind_res_simps prod.case option.case f if_False if_True not_True_eq_False q(1))
      qed
      show ?thesis
      proof (cases q)
        case (Inl x)
        then show ?thesis unfolding run using q(2) weak[OF q(3), of True] by (intro exI[of _ "Some x"] exI[of _ cc2]) simp
      next
        case (Inr y)
        have "\<exists>cc'. (case y of Some x \<Rightarrow> map_res (Pair None) (endStreamError i x cc2)
            | None \<Rightarrow> if es then map_res (Pair None) (endStream i cc2) else Inr (None, cc2)) = Inr (None, cc') \<and> \<not> cc_mu cc' \<and> winv W cc'"
          using q(2,3) err[OF q(3,2)] fin[OF endStream_spec[OF q(2,4)] q(3)] by (auto split: option.split)
        then show ?thesis unfolding run Inr sum.case by (intro exI[of _ None]) (simp add: option.case_eq_if)
      qed
    qed
  qed
qed

text \<open>The bytes that were read go back to the window; those beyond the declared length are dropped.\<close>

lemma read_refund:
  assumes "winv W cc" and "\<not> cc_mu cc" and "W \<le> maxWindow"
    and "stream_ok (cc_initialStreamRecvWindowSize cc) cs" and "n + owed cs \<le> owed (cc_cs cc i)" and "cs_inflow cs = cs_inflow (cc_cs cc i)"
    and "int n + int (owed cs) + avail (cs_inflow cs) + unsent (cs_inflow cs) \<le> cc_initialStreamRecvWindowSize cc"
  shows "\<exists>cc'. bind_res (lock_mu (upd_cs i (\<lambda>_. cs) cc)) (\<lambda>cc.
        bind_res (of_option (inflow_add (cc_inflow cc) (int n))) (\<lambda>(connAdd, cfl).
        bind_res (if err = None then of_option (inflow_add (cs_inflow (cc_cs cc i)) (int n)) else Inr (0, cs_inflow (cc_cs cc i))) (\<lambda>(streamAdd, sfl).
          let cc = unlock_mu (upd_cs i (\<lambda>cs. cs\<lparr>cs_inflow := sfl\<rparr>) (cc\<lparr>cc_inflow := cfl\<rparr>))
          in Inr (x, put_update i streamAdd (put_update 0 connAdd cc))))) = Inr (x, cc') \<and> \<not> cc_mu cc' \<and> winv W cc'"
proof -
  let ?ws = "cc_initialStreamRecvWindowSize cc"
  note w = winv_window[OF assms(1)]
  have sf: "wf_inflow (cs_inflow cs)" using assms(4) by (simp add: stream_ok_def)
  obtain k f where k: "inflow_add (cc_inflow cc) (int n) = Some (k, f)" "wf_inflow f" "avail f + unsent f = avail (cc_inflow cc) + unsent (cc_inflow cc) + int n"
    using inflow_add_ok[OF w(1), of "int n"] w(2)[of i] assms(3,5) by fastforce
  have "\<exists>k2 f2. (if err = None then of_option (inflow_add (cs_inflow cs) (int n)) else Inr (0, cs_inflow cs)) = Inr (k2, f2) \<and> wf_inflow f2
      \<and> avail f2 + unsent f2 + int (owed cs) \<le> ?ws"
  proof (cases "err = None")
    case True
    then show ?thesis using inflow_add_ok[OF sf, of "int n"] assms(7) w(4) by fastforce
  next
    case False
    then obtain y where "err = Some y" by auto
    then show ?thesis using sf assms(7) by simp
  qed
  then obtain k2 f2 where k2: "(if err = None then of_option (inflow_add (cs_inflow cs) (int n)) else Inr (0, cs_inflow cs)) = Inr (k2, f2)"
      "wf_inflow f2" "avail f2 + unsent f2 + int (owed cs) \<le> ?ws" by blast
  let ?cc = "unlock_mu (upd_cs i (\<lambda>cs. cs\<lparr>cs_inflow := f2\<rparr>) ((upd_cs i (\<lambda>_. cs) cc)\<lparr>cc_mu := True, cc_inflow := f\<rparr>))"
  have "winv W ?cc"
  proof (rule winv_step[OF assms(1), where i = i])
    show "stream_ok ?ws (cc_cs ?cc i)"
      using assms(4) k2 by (simp add: stream_ok_def owed_def conn_defs)
    show "avail (cc_inflow ?cc) + unsent (cc_inflow ?cc) + int (owed (cc_cs ?cc i))
        \<le> avail (cc_inflow cc) + unsent (cc_inflow cc) + int (owed (cc_cs cc i)) + (W - W)"
      using k(3) assms(5) by (simp add: owed_def conn_defs)
  qed (use k(2) in \<open>simp_all add: conn_defs\<close>)
  then have "winv W (put_update i k2 (put_update 0 k ?cc))" by (meson winv_quiet put_update_quiet(1))
  moreover have "\<not> cc_mu (put_update i k2 (put_update 0 k ?cc))" by (simp add: unlock_mu_def)
  moreover have "\<not> cc_mu (upd_cs i (\<lambda>_. cs) cc)" "cc_inflow (upd_cs i (\<lambda>_. cs) cc) = cc_inflow cc" "cc_cs (upd_cs i (\<lambda>_. cs) cc) i = cs"
    using assms(2) by (simp_all add: upd_cs_def)
  ultimately show ?thesis using k(1) k2(1) by (cases err) (simp_all add: Let_def)
qed

lemma copyTrailers_some:
  assumes "cs_res cs \<noteq> None"
  shows "\<exists>cs'. copyTrailers cs = Some cs' \<and> cs_inflow cs' = cs_inflow cs \<and> cs_bufPipe cs' = cs_bufPipe cs \<and> cs_pastHeaders cs' = cs_pastHeaders cs
    \<and> cs_peerClosed cs' = cs_peerClosed cs \<and> cs_readClosed cs' = cs_readClosed cs"
  using assms by (auto simp: copyTrailers_def)

lemma upd_cs_twice: "upd_cs i f (upd_cs i (\<lambda>_. x) cc) = upd_cs i (\<lambda>_. f x) cc"
  by (simp add: upd_cs_def)

lemma body_Read_spec:
  assumes "winv W cc" and "\<not> cc_mu cc" and "W \<le> maxWindow" and "cs_res (cc_cs cc i) \<noteq> None"
  shows "\<exists>r cc'. body_Read i k cc = Inr (r, cc') \<and> \<not> cc_mu cc' \<and> winv W cc'"
proof -
  let ?cs = "cc_cs cc i" and ?ws = "cc_initialStreamRecvWindowSize cc"
  note w = winv_window[OF assms(1)]
  obtain r code p where rd: "pipe_Read dataBuffer_Len dataBuffer_Read (cs_bufPipe ?cs) k = (r, code, p)" by (metis prod_cases3)
  have so: "stream_ok ?ws ?cs" by (rule w(3))
  then have pok: "pipe_ok (cs_bufPipe ?cs)" by (simp add: stream_ok_def)
  note sp = pipe_read_spec[OF pok rd]
  show ?thesis
  proof (cases "cs_readErr ?cs \<noteq> None \<or> r = ReadWaits")
    case True
    then show ?thesis using assms(1,2) rd by (auto simp: body_Read_def Let_def)
  next
    case False
    obtain cs' where c: "(if code = None then Some (?cs\<lparr>cs_bufPipe := p\<rparr>) else copyTrailers (?cs\<lparr>cs_bufPipe := p\<rparr>)) = Some cs'"
        "cs_inflow cs' = cs_inflow ?cs" "cs_bufPipe cs' = p" "cs_pastHeaders cs' = cs_pastHeaders ?cs" "cs_peerClosed cs' = cs_peerClosed ?cs"
        "cs_readClosed cs' = cs_readClosed ?cs"
      using copyTrailers_some[of "?cs\<lparr>cs_bufPipe := p\<rparr>"] assms(4) by (cases "code = None") auto
    define xs err where "xs = (case r of ReadData xs \<Rightarrow> xs | _ \<Rightarrow> [])"
      and "err = (case r of ReadData xs \<Rightarrow> None | ReadErr e \<Rightarrow> Some e | _ \<Rightarrow> Some (errors_New ''read from empty dataBuffer''))"
    have xe: "(case r of ReadData xs \<Rightarrow> (xs, None) | ReadErr e \<Rightarrow> ([], Some e) | _ \<Rightarrow> ([], Some (errors_New ''read from empty dataBuffer''))) = (xs, err)"
      by (simp add: xs_def err_def split: read_result.split)
    have ow: "length xs + owed cs' = owed ?cs"
      using sp c(3) by (auto simp: xs_def owed_def split: read_result.splits)
    have ok: "stream_ok ?ws cs'" using so sp c ow by (auto simp: stream_ok_def owed_def)
    let ?ok = "\<lambda>cs. stream_ok ?ws cs \<and> owed cs \<le> owed ?cs"
    have q: "winv W (upd_cs i (\<lambda>_. cs) cc)" if "?ok cs" for cs
      using that by (intro winv_quiet[OF assms(1)] quiet_upd_inline[unfolded upd_cs_def] winv_step[OF assms(1), where i = i])
        (auto simp: upd_cs_def w(1))
    have upd: "?ok (f cs')" if "\<And>cs. cs_inflow (f cs) = cs_inflow cs" "\<And>cs. cs_bufPipe (f cs) = cs_bufPipe cs" "\<And>cs. cs_pastHeaders (f cs) = cs_pastHeaders cs"
      "\<And>cs. cs_peerClosed (f cs) = cs_peerClosed cs" "\<And>cs. cs_readClosed (f cs) = cs_readClosed cs" for f
      using ok ow that by (simp add: stream_ok_def owed_def)
    have mu: "\<not> cc_mu (upd_cs i (\<lambda>_. cs) cc)" for cs using assms(2) by (simp add: upd_cs_def)
    let ?rem = "cs_bytesRemain cs'"
    have start: "body_Read i k cc =
      (let cc = upd_cs i (\<lambda>_. cs') cc in
       if ?rem \<noteq> - 1 \<and> int (length xs) > ?rem
       then
         let tooMuch = errors_New ''net/http: server replied with more than declared Content-Length; truncated'' in
         bind_res (if err = None then abortStream i tooMuch cc else Inr cc) (\<lambda>cc.
           let err = (if err = None then Some tooMuch else err) in
           Inr (BodyRead (take (nat ?rem) xs) err, upd_cs i (\<lambda>cs. cs\<lparr>cs_readErr := err\<rparr>) cc))
       else
         let cc = (if ?rem \<noteq> - 1 then upd_cs i (\<lambda>cs. cs\<lparr>cs_bytesRemain := ?rem - int (length xs)\<rparr>) cc else cc) in
         if ?rem \<noteq> - 1 \<and> err = Some EOF \<and> ?rem - int (length xs) > 0
         then Inr (BodyRead xs (Some ErrUnexpectedEOF), upd_cs i (\<lambda>cs. cs\<lparr>cs_readErr := Some ErrUnexpectedEOF\<rparr>) cc)
         else if xs = [] then Inr (BodyRead xs err, cc)
         else
           bind_res (lock_mu cc) (\<lambda>cc.
           bind_res (of_option (inflow_add (cc_inflow cc) (int (length xs)))) (\<lambda>(connAdd, cfl).
           bind_res (if err = None then of_option (inflow_add (cs_inflow (cc_cs cc i)) (int (length xs))) else Inr (0, cs_inflow (cc_cs cc i))) (\<lambda>(streamAdd, sfl).
             let cc = unlock_mu (upd_cs i (\<lambda>cs. cs\<lparr>cs_inflow := sfl\<rparr>) (cc\<lparr>cc_inflow := cfl\<rparr>))
             in Inr (BodyRead xs err, put_update i streamAdd (put_update 0 connAdd cc))))))"
      using False sp unfolding body_Read_def rd Let_def prod.case c(1) of_option_simps bind_res_simps xe by simp
    let ?f = "\<lambda>cs. if ?rem \<noteq> - 1 then cs\<lparr>cs_bytesRemain := ?rem - int (length xs)\<rparr> else cs"
    have rem: "(if ?rem \<noteq> - 1 then upd_cs i (\<lambda>cs. cs\<lparr>cs_bytesRemain := ?rem - int (length xs)\<rparr>) (upd_cs i (\<lambda>_. cs') cc) else upd_cs i (\<lambda>_. cs') cc)
        = upd_cs i (\<lambda>_. ?f cs') cc"
      by (simp add: upd_cs_twice)
    consider (much) "?rem \<noteq> - 1 \<and> int (length xs) > ?rem" | (short) "\<not> (?rem \<noteq> - 1 \<and> int (length xs) > ?rem)" "?rem \<noteq> - 1 \<and> err = Some EOF \<and> ?rem - int (length xs) > 0"
      | (empty) "\<not> (?rem \<noteq> - 1 \<and> int (length xs) > ?rem)" "\<not> (?rem \<noteq> - 1 \<and> err = Some EOF \<and> ?rem - int (length xs) > 0)" "xs = []"
      | (some) "\<not> (?rem \<noteq> - 1 \<and> int (length xs) > ?rem)" "\<not> (?rem \<noteq> - 1 \<and> err = Some EOF \<and> ?rem - int (length xs) > 0)" "xs \<noteq> []" by blast
    then show ?thesis
    proof cases
      case much
      have a: "winv W (upd_cs i (\<lambda>_. (abortStreamLocked e cs')\<lparr>cs_readErr := x\<rparr>) cc)" "winv W (upd_cs i (\<lambda>_. cs'\<lparr>cs_readErr := x\<rparr>) cc)" for e x
        using q[OF upd[of "\<lambda>cs. (abortStreamLocked e cs)\<lparr>cs_readErr := x\<rparr>"]] q[OF upd[of "\<lambda>cs. cs\<lparr>cs_readErr := x\<rparr>"]] by simp_all
      show ?thesis
        unfolding start Let_def if_P[OF much] using mu a by (cases "err = None") (simp_all add: abortStream_free upd_cs_twice)
    next
      case short
      then show ?thesis
        unfolding start Let_def if_not_P[OF short(1)] rem if_P[OF short(2)]
        using q[OF upd[of "\<lambda>cs. (?f cs)\<lparr>cs_readErr := Some ErrUnexpectedEOF\<rparr>"]] mu by (simp add: upd_cs_twice)
    next
      case empty
      then show ?thesis
        unfolding start Let_def if_not_P[OF empty(1)] rem if_not_P[OF empty(2)] if_P[OF empty(3)]
        using q[OF upd[of ?f]] mu by simp
    next
      case some
      have r: "stream_ok ?ws (?f cs')" "length xs + owed (?f cs') \<le> owed ?cs" "cs_inflow (?f cs') = cs_inflow ?cs"
        "int (length xs) + int (owed (?f cs')) + avail (cs_inflow (?f cs')) + unsent (cs_inflow (?f cs')) \<le> ?ws"
        using ok ow c(2) so by (auto simp: stream_ok_def owed_def)
      show ?thesis
        using read_refund[OF assms(1-3) r(1-4), of err "BodyRead xs err"]
        unfolding start Let_def if_not_P[OF some(1)] rem if_not_P[OF some(2)] if_not_P[OF some(3)] by blast
    qed
  qed
qed

lemma close_run:
  assumes "\<not> cc_mu cc" and "BreakWithError dataBuffer_Len (cs_bufPipe (cc_cs cc i)) (Some errClosedResponseBody) = Some p"
    and "wf_inflow (cc_inflow cc)" and "avail (cc_inflow cc) + unsent (cc_inflow cc) + int (pipe_Len dataBuffer_Len p) \<le> maxWindow"
  shows "\<exists>cc'. body_Close i cc = Inr cc' \<and> \<not> cc_mu cc' \<and> wf_inflow (cc_inflow cc')
    \<and> avail (cc_inflow cc') + unsent (cc_inflow cc') = avail (cc_inflow cc) + unsent (cc_inflow cc) + int (pipe_Len dataBuffer_Len p)
    \<and> cc_cs cc' = (cc_cs cc)(i := abortStreamLocked errClosedResponseBody ((cc_cs cc i)\<lparr>cs_bufPipe := p\<rparr>))
    \<and> cc_initialStreamRecvWindowSize cc' = cc_initialStreamRecvWindowSize cc"
proof -
  let ?n = "pipe_Len dataBuffer_Len p"
  let ?c = "upd_cs i (abortStreamLocked errClosedResponseBody) (upd_cs i (\<lambda>cs. cs\<lparr>cs_bufPipe := p\<rparr>) cc)"
  have a: "abortStream i errClosedResponseBody (upd_cs i (\<lambda>cs. cs\<lparr>cs_bufPipe := p\<rparr>) cc) = Inr ?c"
    using assms(1) by (intro abortStream_free) (simp add: upd_cs_def)
  have c: "cs_bufPipe (cc_cs ?c i) = p" "\<not> cc_mu ?c" "cc_inflow ?c = cc_inflow cc"
    "cc_cs ?c = (cc_cs cc)(i := abortStreamLocked errClosedResponseBody ((cc_cs cc i)\<lparr>cs_bufPipe := p\<rparr>))"
    "cc_initialStreamRecvWindowSize ?c = cc_initialStreamRecvWindowSize cc"
    using assms(1) by (simp_all add: upd_cs_def)
  show ?thesis
  proof (cases "?n = 0")
    case True
    have "body_Close i cc = Inr ?c" using True a unfolding body_Close_def assms(2) by (simp add: c(1))
    then show ?thesis using True c assms(3) by (intro exI[of _ ?c]) simp
  next
    case False
    obtain k f where k: "inflow_add (cc_inflow cc) (int ?n) = Some (k, f)" "wf_inflow f" "avail f + unsent f = avail (cc_inflow cc) + unsent (cc_inflow cc) + int ?n"
      using inflow_add_ok[OF assms(3), of "int ?n"] assms(4) by fastforce
    let ?d = "put_update 0 k (unlock_mu (?c\<lparr>cc_mu := True, cc_inflow := f\<rparr>))"
    have "body_Close i cc = Inr ?d" using False a k(1) c(2,3) unfolding body_Close_def assms(2) by (simp add: c(1))
    moreover have "cc_inflow ?d = f" "cc_cs ?d = cc_cs ?c" "cc_initialStreamRecvWindowSize ?d = cc_initialStreamRecvWindowSize ?c" "\<not> cc_mu ?d"
      by (simp_all add: put_update_def put_frame_def unlock_mu_def split: prod.split)
    ultimately show ?thesis using k(2,3) c(4,5) by (intro exI[of _ ?d]) simp
  qed
qed

lemma body_Close_spec:
  assumes "winv W cc" and "\<not> cc_mu cc" and "W \<le> maxWindow" and "p_breakErr (cs_bufPipe (cc_cs cc i)) = None"
  shows "\<exists>cc'. body_Close i cc = Inr cc' \<and> \<not> cc_mu cc' \<and> winv W cc'"
proof -
  let ?cs = "cc_cs cc i"
  note w = winv_window[OF assms(1)]
  have so: "pipe_ok (cs_bufPipe ?cs)" using w(3)[of i] by (simp add: stream_ok_def)
  obtain p where p: "BreakWithError dataBuffer_Len (cs_bufPipe ?cs) (Some errClosedResponseBody) = Some p" "pipe_ok p" "p_b p = None" "p_owed p = 0"
      "pipe_Len dataBuffer_Len p = owed ?cs"
    using pipe_break_spec[OF so assms(4)] by (auto simp: owed_def)
  obtain cc' where c: "body_Close i cc = Inr cc'" "\<not> cc_mu cc'" "wf_inflow (cc_inflow cc')"
      "avail (cc_inflow cc') + unsent (cc_inflow cc') = avail (cc_inflow cc) + unsent (cc_inflow cc) + int (owed ?cs)"
      "cc_cs cc' = (cc_cs cc)(i := abortStreamLocked errClosedResponseBody (?cs\<lparr>cs_bufPipe := p\<rparr>))"
      "cc_initialStreamRecvWindowSize cc' = cc_initialStreamRecvWindowSize cc"
    using close_run[OF assms(2) p(1) w(1)] w(2)[of i] assms(3) p(5) by fastforce
  have "winv W cc'"
  proof (rule winv_step[OF assms(1), where i = i])
    show "stream_ok (cc_initialStreamRecvWindowSize cc) (cc_cs cc' i)"
      using w(3)[of i] p(2,3,4) by (simp add: c(5) stream_ok_def owed_def)
    show "avail (cc_inflow cc') + unsent (cc_inflow cc') + int (owed (cc_cs cc' i))
        \<le> avail (cc_inflow cc) + unsent (cc_inflow cc) + int (owed ?cs) + (W - W)"
      using c(4) p(4) by (simp add: c(5) owed_def)
  qed (use c in simp_all)
  with c show ?thesis by blast
qed

section \<open>Runs of a connection\<close>

lemma open_stream_winv:
  assumes "winv W cc" and "open_stream tooIdle closeReq (new_stream gz isHead rb n) cc = Inr (sl, i, cc')"
  shows "winv W cc' \<and> \<not> cc_mu cc'"
proof -
  have mu: "\<not> cc_mu cc" using assms(2) by (auto simp: open_stream_def lock_mu_def split: if_splits)
  let ?cc = "decrStreamReservationsLocked (cc\<lparr>cc_mu := True\<rparr>)"
  have q: "quiet cc (unlock_mu ?cc)" "quiet cc (unlock_mu (?cc\<lparr>cc_pendingRequests := x\<rparr>))" for x
    by (auto intro!: quiet_fields simp: decrStreamReservationsLocked_def unlock_mu_def)
  have m: "\<not> cc_mu (unlock_mu c)" for c by (simp add: unlock_mu_def)
  show ?thesis
  proof (cases "awaitOpenSlot_round tooIdle ?cc")
    case (NoSlot e)
    then show ?thesis using assms mu q m by (auto simp: open_stream_def Let_def intro: winv_quiet)
  next
    case SlotWait
    then show ?thesis using assms mu q m by (auto simp: open_stream_def Let_def intro: winv_quiet)
  next
    case SlotFree
    let ?i = "cc_nextStreamID ?cc"
    have d: "cc_cs ?cc = cc_cs cc" "cc_inflow ?cc = cc_inflow cc" "cc_initialStreamRecvWindowSize ?cc = 4194304"
      using assms(1) by (simp_all add: decrStreamReservationsLocked_def winv_def)
    obtain c where c: "cc' = unlock_mu c" "cc_cs c = (cc_cs cc)(?i := (new_stream gz isHead rb n)\<lparr>cs_inflow := \<lparr>avail = 4194304, unsent = 0\<rparr>\<rparr>)"
        "cc_inflow c = cc_inflow cc" "cc_initialStreamRecvWindowSize c = 4194304"
      using assms(2) mu SlotFree d
      by (auto simp: open_stream_def Let_def addStreamLocked_def inflow_init_def new_stream_def split: if_splits)
    have "winv W cc'"
    proof (rule winv_step[OF assms(1), where i = ?i])
      show "stream_ok (cc_initialStreamRecvWindowSize cc) (cc_cs cc' ?i)"
        using assms(1) pipe_ok_zero
        by (simp add: c unlock_mu_def stream_ok_def owed_def new_stream_def wf_inflow_def winv_def zero_pipe_def)
      show "avail (cc_inflow cc') + unsent (cc_inflow cc') + int (owed (cc_cs cc' ?i))
          \<le> avail (cc_inflow cc) + unsent (cc_inflow cc) + int (owed (cc_cs cc ?i)) + (W - W)"
        using pipe_ok_zero by (simp add: c unlock_mu_def owed_def new_stream_def)
    qed (use assms(1) c in \<open>simp_all add: unlock_mu_def winv_def\<close>)
    then show ?thesis using c(1) m by simp
  qed
qed

text \<open>What the framer guarantees of a frame (\<open>ReadFrame\<close>).\<close>

fun frame_sized :: "Frame \<Rightarrow> bool" where
  "frame_sized (DataFrame h d) \<longleftrightarrow> fh_valid h \<and> fh_Length h < 16777216 \<and> length d \<le> unat (fh_Length h)"
| "frame_sized (SettingsFrame h p) \<longleftrightarrow> fh_valid h"
| "frame_sized _ \<longleftrightarrow> True"

lemma process_data_frame:
  assumes "frame_sized (DataFrame h d)" and "winv W cc" and "\<not> cc_mu cc" and "W + 2 ^ 24 \<le> maxWindow"
  shows "\<exists>e cc'. process_frame env (DataFrame h d) cc = Inr (e, cc') \<and> \<not> cc_mu cc' \<and> winv (slack W (e \<noteq> None)) cc'"
proof -
  have "int (length d) \<le> int (unat (fh_Length h))" using assms(1) by (simp only: of_nat_le_iff frame_sized.simps)
  then have l: "int (length d) \<le> uint (fh_Length h)" by (simp only: uint_nat)
  have l2: "uint (fh_Length h) < 2 ^ 24" using assms(1) by (simp add: word_less_def)
  have "frame_Data (DataFrame h d) = Some d" using assms(1) by (simp add: checkValid_def)
  then show ?thesis using processData_spec[OF assms(2,3) l l2 assms(4)] by simp
qed

lemma process_frame_winv:
  assumes "frame_sized f" and "winv W cc" and "\<not> cc_mu cc" and "W + 2 ^ 24 \<le> maxWindow" and "process_frame env f cc = Inr (e, cc')"
  shows "\<not> cc_mu cc' \<and> winv (slack W (e \<noteq> None)) cc'"
proof (cases "\<exists>h d. f = DataFrame h d")
  case True
  then obtain h d where f: "f = DataFrame h d" by blast
  show ?thesis using process_data_frame[OF assms(1)[unfolded f] assms(2-4), of env] assms(5) unfolding f by auto
next
  case False
  have "quietly_res cc (process_frame env f cc)"
    using assms(1,3) False
    by (cases f) (auto intro!: processHeaders_quietly processSettings_quietly processGoAway_quietly processResetStream_quietly
        processWindowUpdate_quietly processPing_quietly simp: of_option_def split: option.split)
  then have "quiet cc cc'" "\<not> cc_mu cc'" using assms(5) by (auto simp: quietly_res_def)
  then show ?thesis using winv_quiet[OF assms(2)] winv_mono[of W cc' "slack W (e \<noteq> None)"] by (simp add: slack_def)
qed

text \<open>
  The runs of a connection: frames that the read loop handles, until one of them or a read error stops it, and calls of the users in
  between. The flag of a state is whether the read loop has stopped. A body exists once there is a response; it is
  closed once.
\<close>

inductive conn_step :: "read_env \<Rightarrow> bool \<times> ClientConn \<Rightarrow> bool \<times> ClientConn \<Rightarrow> bool" for env where
  frame: "frame_sized f \<Longrightarrow> process_frame env f cc = Inr (e, cc') \<Longrightarrow> conn_step env (False, cc) (e \<noteq> None, cc')"
| stream_error: "endStreamError i e cc = Inr cc' \<Longrightarrow> conn_step env (False, cc) (False, cc')"
| stop: "readLoop_end netRead e cc = Inr cc' \<Longrightarrow> conn_step env (st, cc) (True, cc')"
| open_new: "open_stream tooIdle closeReq (new_stream gz isHead rb n) cc = Inr (sl, i, cc') \<Longrightarrow> conn_step env (st, cc) (st, cc')"
| headers: "encodeAndWriteHeaders guts cancelled cc i req keys1 keys2 = Some (r, cc') \<Longrightarrow> \<not> cc_mu cc \<Longrightarrow> conn_step env (st, cc) (st, cc')"
| send: "write_data_round cancelled i eof trailers remain cc = Inr (tk, e, rest, sentEnd, cc') \<Longrightarrow> conn_step env (st, cc) (st, cc')"
| read: "cs_res (cc_cs cc i) \<noteq> None \<Longrightarrow> body_Read i k cc = Inr (r, cc') \<Longrightarrow> conn_step env (st, cc) (st, cc')"
| close_body: "p_breakErr (cs_bufPipe (cc_cs cc i)) = None \<Longrightarrow> body_Close i cc = Inr cc' \<Longrightarrow> conn_step env (st, cc) (st, cc')"
| finish: "cleanupWriteRequest i err payload cc = Inr cc' \<Longrightarrow> conn_step env (st, cc) (st, cc')"
| shutdown: "sendGoAway cc = Inr (e, cc') \<Longrightarrow> conn_step env (st, cc) (st, cc')"
| close_conn: "Close cc = Inr cc' \<Longrightarrow> conn_step env (st, cc) (st, cc')"
| close_idle: "closeIfIdle cc = Inr cc' \<Longrightarrow> conn_step env (st, cc) (st, cc')"

definition conn_inv :: "int \<Rightarrow> bool \<times> ClientConn \<Rightarrow> bool" where
  "conn_inv W s \<longleftrightarrow> \<not> cc_mu (snd s) \<and> winv (slack W (fst s)) (snd s)"

lemma readLoop_end_quietly: "quietly cc (readLoop_end netRead e cc)"
proof -
  have c: "quietly c (cleanup netRead x c)" for x c
    by (auto simp: quietly_def cleanup_def quiet_def conn_defs abort_streams_def Let_def split: if_splits)
  show ?thesis
    unfolding readLoop_end_def by (cases e) (auto intro: c quietly_after(1)[OF put_frame_quiet(1) c])
qed

lemma put_frame_eq: "put_frame w cc = (e, cc') \<Longrightarrow> quiet cc cc' \<and> cc_mu cc' = cc_mu cc"
  using put_frame_quiet(1)[of cc w] put_frame_quiet(2)[of w cc] by simp

lemma sendGoAway_quietly: "quietly_res cc (sendGoAway cc)"
proof (cases "cc_mu cc")
  case False
  let ?c = "unlock_mu (cc\<lparr>cc_mu := True, cc_closing := True\<rparr>)"
  have "quiet cc ?c" "\<not> cc_mu ?c" by (simp_all add: quiet_def unlock_mu_def)
  then show ?thesis
    using False by (auto simp: sendGoAway_def Let_def split: prod.split option.split dest!: put_frame_eq intro: quiet_trans)
qed (simp add: sendGoAway_def)

lemma closeIfIdle_quietly: "quietly cc (closeIfIdle cc)"
  by (auto simp: quietly_def closeIfIdle_def quiet_def conn_defs split: if_splits)

lemma awaitFlowControl_quietly: "quietly_res cc (awaitFlowControl c i m cc)"
  by (cases "cc_mu cc") (auto simp: awaitFlowControl_def Let_def unlock_mu_def quietly_res_def of_option_def intro!: quiet_fields split: option.splits if_splits)

lemma write_data_round_quiet:
  assumes "write_data_round c i eof tr remain cc = Inr (tk, e, rest, sentEnd, cc')"
  shows "quiet cc cc' \<and> \<not> cc_mu cc'"
proof -
  obtain tk1 cc1 where a: "awaitFlowControl c i (int (length remain)) cc = Inr (tk1, cc1)"
    using assms by (auto simp: write_data_round_def)
  have q: "quiet cc cc1" "\<not> cc_mu cc1" using awaitFlowControl_quietly[of cc c i "int (length remain)"] a by (auto simp: quietly_res_def)
  have "quiet cc1 cc' \<and> cc_mu cc' = cc_mu cc1"
    using assms a by (auto simp: write_data_round_def Let_def split: tokens.splits if_splits prod.splits option.splits dest!: put_frame_eq)
  then show ?thesis using q quiet_trans by blast
qed

lemma encodeAndWriteHeaders_quiet:
  "encodeAndWriteHeaders guts cancelled cc i req keys1 keys2 = Some (r, cc') \<Longrightarrow> quiet cc cc' \<and> cc_mu cc' = cc_mu cc"
  by (auto simp: encodeAndWriteHeaders_def Let_def writeHeaders_def quiet_def bind_eq_Some_conv stream_le_same
      split: option.splits sum.splits)

lemma conn_step_inv:
  assumes "conn_step env s s'" and "conn_inv W s" and "W + 2 ^ 24 \<le> maxWindow"
  shows "conn_inv W s'"
proof -
  have sl: "slack W b \<le> maxWindow" for b using assms(3) by (simp add: slack_def)
  have up: "winv (slack W True) c" if "winv (slack W b) c" for b c using winv_mono[OF that] by (simp add: slack_def)
  have q: "conn_inv W (b', c')" if "conn_inv W (b, c)" "quiet c c' \<and> \<not> cc_mu c'" "b' = b \<or> b'" for b b' c c'
    using that winv_quiet[of _ c c'] up by (cases b') (auto simp: conn_inv_def)
  show ?thesis
    using assms(1,2)
  proof cases
    case (frame f cc e cc')
    then show ?thesis using process_frame_winv[OF _ _ _ assms(3)] assms(2) by (auto simp: conn_inv_def)
  next
    case (stream_error i e cc cc')
    then show ?thesis using q[of False cc cc' False] endStreamError_quietly[of cc i e] assms(2) by (simp add: quietly_def)
  next
    case (stop netRead e cc cc' st)
    then show ?thesis using q[of st cc cc' True] readLoop_end_quietly[of cc netRead e] assms(2) by (simp add: quietly_def)
  next
    case (open_new tooIdle closeReq gz isHead rb n cc sl i cc' st)
    then show ?thesis using open_stream_winv assms(2) by (auto simp: conn_inv_def)
  next
    case (headers guts cancelled cc i req keys1 keys2 r cc' st)
    then show ?thesis using q[of st cc cc' st] encodeAndWriteHeaders_quiet assms(2) by simp
  next
    case (send cancelled i eof trailers remain cc tk e rest sentEnd cc' st)
    then show ?thesis using q[of st cc cc' st] write_data_round_quiet assms(2) by simp
  next
    case (read cc i k r cc' st)
    then show ?thesis using body_Read_spec[OF _ _ sl, of st cc i k] assms(2) by (auto simp: conn_inv_def)
  next
    case (close_body cc i cc' st)
    then show ?thesis using body_Close_spec[OF _ _ sl, of st cc i] assms(2) by (auto simp: conn_inv_def)
  next
    case (finish i err payload cc cc' st)
    then show ?thesis using q[of st cc cc' st] cleanupWriteRequest_quietly[of cc i err payload] assms(2) by (simp add: quietly_def)
  next
    case (shutdown cc e cc' st)
    then show ?thesis using q[of st cc cc' st] sendGoAway_quietly[of cc] assms(2) by (simp add: quietly_res_def)
  next
    case (close_conn cc cc' st)
    then show ?thesis using q[of st cc cc' st] closeForError_quietly[of cc] assms(2) by (simp add: quietly_def Close_def)
  next
    case (close_idle cc cc' st)
    then show ?thesis using q[of st cc cc' st] closeIfIdle_quietly[of cc] assms(2) by (simp add: quietly_def)
  qed
qed

lemma fresh_inv:
  assumes "newClientConn w r werr flushErr (client_h2 fp) su = Some (Inr cc)"
  shows "conn_inv 1073807359 (False, cc)"
proof -
  note f = fresh_conn[OF assms]
  have "owed (new_stream gz isHead rb n) = 0" for gz isHead rb n using pipe_ok_zero by (simp add: owed_def new_stream_def)
  then have "total_owed cc = 0" by (simp add: total_owed_def f)
  moreover have "stream_ok 4194304 (new_stream gz isHead rb n)" for gz isHead rb n
    using pipe_ok_zero by (simp add: stream_ok_def owed_def new_stream_def wf_inflow_def zero_pipe_def)
  ultimately show ?thesis by (simp add: conn_inv_def winv_def granted_def f wf_inflow_def)
qed

lemma conn_run_inv:
  "(conn_step env)\<^sup>*\<^sup>* s s' \<Longrightarrow> conn_inv W s \<Longrightarrow> W + 2 ^ 24 \<le> maxWindow \<Longrightarrow> conn_inv W s'"
  by (induction rule: rtranclp_induct) (auto intro: conn_step_inv)



section \<open>Closing a body twice\<close>

text \<open>A second \<open>Close\<close> of a response body gives the bytes that were never read back to the connection's window a second time, because the length of a
  broken pipe still counts them: after it the peer may send more than was ever granted.\<close>

theorem second_close_returns_window_twice:
  assumes "conn_inv W (False, cc)" and "W + int (owed (cc_cs cc i)) \<le> maxWindow" and "p_breakErr (cs_bufPipe (cc_cs cc i)) = None"
  shows "\<exists>cc1 cc2. body_Close i cc = Inr cc1 \<and> body_Close i cc1 = Inr cc2 \<and> granted cc1 = granted cc
    \<and> granted cc2 = granted cc + int (owed (cc_cs cc i))"
proof -
  let ?cs = "cc_cs cc i"
  have inv: "\<not> cc_mu cc" "winv W cc" using assms(1) by (simp_all add: conn_inv_def)
  note w = winv_window[OF inv(2)]
  have so: "pipe_ok (cs_bufPipe ?cs)" using w(3)[of i] by (simp add: stream_ok_def)
  have fits: "avail (cc_inflow cc) + unsent (cc_inflow cc) + 2 * int (owed ?cs) \<le> maxWindow" using w(2)[of i] assms(2) by linarith
  obtain p where p: "BreakWithError dataBuffer_Len (cs_bufPipe ?cs) (Some errClosedResponseBody) = Some p" "p_owed p = 0"
      "pipe_Len dataBuffer_Len p = owed ?cs" "p_breakErr p = Some errClosedResponseBody"
    using pipe_break_spec[OF so assms(3)] by (auto simp: owed_def)
  obtain cc1 where c1: "body_Close i cc = Inr cc1" "\<not> cc_mu cc1" "wf_inflow (cc_inflow cc1)"
      "avail (cc_inflow cc1) + unsent (cc_inflow cc1) = avail (cc_inflow cc) + unsent (cc_inflow cc) + int (owed ?cs)"
      "cc_cs cc1 = (cc_cs cc)(i := abortStreamLocked errClosedResponseBody (?cs\<lparr>cs_bufPipe := p\<rparr>))"
    using close_run[OF inv(1) p(1) w(1)] fits p(3) by fastforce
  have again: "BreakWithError dataBuffer_Len (cs_bufPipe (cc_cs cc1 i)) (Some errClosedResponseBody) = Some p"
    using p(4) by (simp add: c1(5) BreakWithError_def closeWithError_def)
  obtain cc2 where c2: "body_Close i cc1 = Inr cc2"
      "avail (cc_inflow cc2) + unsent (cc_inflow cc2) = avail (cc_inflow cc1) + unsent (cc_inflow cc1) + int (owed ?cs)"
      "cc_cs cc2 = (cc_cs cc1)(i := abortStreamLocked errClosedResponseBody ((cc_cs cc1 i)\<lparr>cs_bufPipe := p\<rparr>))"
    using close_run[OF c1(2) again c1(3)] fits c1(4) p(3) by fastforce
  have o: "owed (cc_cs cc1 i) = 0" "owed (cc_cs cc2 i) = 0" using p(2) by (simp_all add: c1(5) c2(3) owed_def)
  have "total_owed cc1 = total_owed cc - int (owed ?cs)" using total_owed_upd[of i cc1 cc] o by (simp add: c1(5))
  moreover have "total_owed cc2 = total_owed cc1" using total_owed_upd[of i cc2 cc1] o by (simp add: c2(3))
  ultimately show ?thesis using c1(1,4) c2(1,2) by (simp add: granted_def)
qed

theorem second_close_returns_window_twice_witness:
  "\<exists>cc cc1 cc2. owed (cc_cs cc 1) = 3 \<and> body_Close 1 cc = Inr cc1 \<and> body_Close 1 cc1 = Inr cc2 \<and> granted cc2 = granted cc + 3"
proof -
  obtain c0 c where d: "demo_open c0 c" using demo_open_exists by blast
  note f = demo_open_fields[OF d]
  let ?b = "\<lparr>chunks = [], b_r = 0, b_w = 0, b_size = 0, b_expected = 3\<rparr>"
  obtain b where b: "dataBuffer_Write (\<lambda>_ _. 0) ?b [1, 2, 3] = Some (3, b)" "wf_buffer b" "queue_of b = queue_of ?b @ [1, 2, 3]"
    using data_buffer.Write_appends[OF wf_empty, of "\<lambda>_ _. 0" 3 "[1, 2, 3]"] by auto
  have len: "dataBuffer_Len b = 3" using data_buffer.Len_queue[OF b(2)] b(3) data_buffer.Len_queue[OF wf_empty[of 3]] by (simp add: dataBuffer_Len_def)
  let ?cs = "demo_stream\<lparr>cs_inflow := \<lparr>avail = 4194301, unsent = 0\<rparr>, cs_bufPipe := zero_pipe\<lparr>p_b := Some b\<rparr>, cs_pastHeaders := True\<rparr>"
  let ?cc = "c\<lparr>cc_inflow := \<lparr>avail = 1073807356, unsent = 0\<rparr>, cc_cs := (cc_cs c)(1 := ?cs)\<rparr>"
  have "conn_inv 1073807359 (False, c)"
    using d fresh_inv[of sink _ "\<lambda>_. None" "\<lambda>_. None" "buildFingerprint demo_snapshot" False c0] open_stream_winv[of 1073807359 c0 False False False False True 3]
    unfolding demo_open_def demo_stream_def by (auto simp: conn_inv_def)
  then have w: "winv 1073807359 c" by (simp add: conn_inv_def)
  have o: "owed ?cs = 3" using len by (simp add: owed_def p_owed_def pipe_Len_def zero_pipe_def)
  have s: "stream_ok 4194304 ?cs" using o b(2) by (simp add: stream_ok_def wf_inflow_def pipe_ok_def zero_pipe_def demo_stream_def new_stream_def)
  have "owed (cc_cs c 1) = 0" using pipe_ok_zero(2) by (simp add: f owed_def demo_stream_def new_stream_def)
  then have "winv 1073807359 ?cc"
    using w s o f by (intro winv_step[OF w, where i = 1]) (simp_all add: winv_def wf_inflow_def)
  then have inv: "conn_inv 1073807359 (False, ?cc)" using f by (simp add: conn_inv_def)
  have "owed (cc_cs ?cc 1) = 3" "p_breakErr (cs_bufPipe (cc_cs ?cc 1)) = None" using o by (simp_all add: zero_pipe_def)
  then show ?thesis using second_close_returns_window_twice[OF inv, of 1] by fastforce
qed

section \<open>The windows that are announced\<close>

text \<open>C29: The window that a stream is opened with does not depend on the fingerprint: it is 4 MiB, whatever SETTINGS_INITIAL_WINDOW_SIZE the preset
  announces to the server. A server that fills a larger announced window of a body that is read slowly overruns it, and the
  connection ends with a flow control error.\<close>

theorem announced_window_not_enforced:
  assumes "newClientConn w r werr flushErr (client_h2 fp) su = Some (Inr cc0)" and "(conn_step env)\<^sup>*\<^sup>* (False, cc0) (False, cc)"
    and "i \<in> set (cc_streams cc)" and "\<not> cs_readAborted (cc_cs cc i)" and "\<not> cs_readClosed (cc_cs cc i)" and "cs_pastHeaders (cc_cs cc i)"
    and "\<not> cs_isHead (cc_cs cc i)" and "frame_sized (DataFrame h d)" and "fh_StreamID h = i"
    and "0 < fh_Length h" and "4194304 < int (owed (cc_cs cc i)) + uint (fh_Length h)"
  shows "\<exists>cc'. process_frame env (DataFrame h d) cc = Inr (Some (ConnectionError ErrCodeFlowControl), cc')"
proof -
  have "conn_inv 1073807359 (False, cc)" by (rule conn_run_inv[OF assms(2) fresh_inv[OF assms(1)]]) simp
  then have inv: "\<not> cc_mu cc" "winv 1073807359 cc" by (simp_all add: conn_inv_def)
  obtain cc1 where s: "streamByID i True cc = Inr (Some i, cc1)" "\<not> cc_mu cc1" "cc_cs cc1 = cc_cs cc" "cc_inflow cc1 = cc_inflow cc"
    using streamByID_open[OF inv(1) assms(3,4), of True] inv(1) by simp
  have so: "wf_inflow (cs_inflow (cc_cs cc i))" "avail (cs_inflow (cc_cs cc i)) + unsent (cs_inflow (cc_cs cc i)) + int (owed (cc_cs cc i)) \<le> 4194304"
    using inv(2) by (simp_all add: winv_def stream_ok_def)
  let ?n = "uint (fh_Length h)"
  have n: "0 < ?n" "?n < 2 ^ 32" using assms(10) uint_bounded[of "fh_Length h"] by (simp_all add: word_less_def)
  have "avail (cs_inflow (cc_cs cc i)) < ?n" using so assms(11) unfolding wf_inflow_def by linarith
  then have t: "takeInflows (cc_inflow cc) (cs_inflow (cc_cs cc i)) ?n = (False, cc_inflow cc, cs_inflow (cc_cs cc i))"
    using takeInflows_spec[OF winv_window(1)[OF inv(2)] so(1), of ?n] n by simp
  have r: "receive_data st i ?n d cc1 = Inr (Inl (ConnectionError ErrCodeFlowControl), unlock_mu (cc1\<lparr>cc_mu := True\<rparr>))" for st
    using s t by (simp add: receive_data_def)
  have "frame_Data (DataFrame h d) = Some d" using assms(8) by (simp add: checkValid_def)
  then show ?thesis using n(1) assms(5-7,9) s(1,3) r by (simp add: processData_def)
qed

text \<open>The response headers of the demonstration connection.\<close>

definition demo_response :: Frame where
  "demo_response = MetaHeadersFrame \<lparr>fh_valid = True, fh_Type = FrameHeaders, fh_Flags = 4, fh_Length = 1, fh_StreamID = 1\<rparr> zeroPriority [136]
     [\<lparr>hf_Name = '':status'', hf_Value = ''200'', hf_Sensitive = False\<rparr>] False"

lemma demo_response_read:
  assumes "demo_open cc cc1"
  shows "\<exists>cc2. process_frame env demo_response cc1 = Inr (None, cc2) \<and> cc_streams cc2 = [1] \<and> \<not> cs_readAborted (cc_cs cc2 1)
    \<and> \<not> cs_readClosed (cc_cs cc2 1) \<and> cs_pastHeaders (cc_cs cc2 1) \<and> \<not> cs_isHead (cc_cs cc2 1)"
proof -
  note f = demo_open_fields[OF assms]
  have a: "Atoi ''200'' = Some 200" by code_simp
  have cl: "content_length [] False False = - 1" by code_simp
  let ?cs = "demo_stream\<lparr>cs_inflow := \<lparr>avail = 4194304, unsent = 0\<rparr>, cs_pastHeaders := True\<rparr>"
  obtain res cs' where r: "handleResponse (re_statusText env) (re_got1xx env) (cc_t cc1) [\<lparr>hf_Name = '':status'', hf_Value = ''200'', hf_Sensitive = False\<rparr>] False False ?cs
      = (Inr (Some res), cs')" "cs_res cs' = None" "\<not> cs_readAborted cs'" "\<not> cs_readClosed cs'" "cs_pastHeaders cs'" "\<not> cs_isHead cs'"
    by (simp add: handleResponse_def Let_def a cl IsPseudo_def demo_stream_def new_stream_def)
  have "streamByID 1 True cc1 = Inr (Some 1, cc1\<lparr>cc_rstStreamPingsBlocked := False, cc_readBeforeStreamID := cc_nextStreamID cc1\<rparr>)"
    using streamByID_open[of cc1 1 True] f by (simp add: demo_stream_def new_stream_def)
  then show ?thesis
    using r f by (simp add: demo_response_def processHeaders_def Has_def upd_cs_def) (simp add: demo_stream_def new_stream_def upd_cs_def)
qed

theorem announced_window_not_enforced_witness:
  "\<forall>env. \<exists>cc cc1 cc2 cc3. demo_open cc cc1
     \<and> s_Val (preset_settings demo_http2 ! 2) = 6291456 \<and> s_ID (preset_settings demo_http2 ! 2) = SettingInitialWindowSize
     \<and> process_frame env demo_response cc1 = Inr (None, cc2)
     \<and> process_frame env (DataFrame (wire_header 0 0 1 (replicate 5000000 7)) (replicate 5000000 7)) cc2
         = Inr (Some (ConnectionError ErrCodeFlowControl), cc3)"
proof
  fix env
  obtain cc cc1 where d: "demo_open cc cc1" using demo_open_exists by blast
  then have n: "newClientConn sink \<lparr>rd_data = [], rd_err = EOF\<rparr> (\<lambda>_. None) (\<lambda>_. None) (client_h2 (buildFingerprint demo_snapshot)) False = Some (Inr cc)"
    and o: "open_stream False False demo_stream cc = Inr (SlotFree, 1, cc1)" by (simp_all add: demo_open_def)
  obtain cc2 where c2: "process_frame env demo_response cc1 = Inr (None, cc2)" "cc_streams cc2 = [1]" "\<not> cs_readAborted (cc_cs cc2 1)"
      "\<not> cs_readClosed (cc_cs cc2 1)" "cs_pastHeaders (cc_cs cc2 1)" "\<not> cs_isHead (cc_cs cc2 1)"
    using demo_response_read[OF d, of env] by blast
  have "conn_step env (False, cc) (False, cc1)" using o unfolding demo_stream_def by (rule conn_step.open_new)
  moreover have "conn_step env (False, cc1) (False, cc2)" using conn_step.frame[OF _ c2(1)] by (simp add: demo_response_def)
  ultimately have r: "(conn_step env)\<^sup>*\<^sup>* (False, cc) (False, cc2)" by (meson converse_rtranclp_into_rtranclp rtranclp.rtrancl_refl)
  let ?d = "replicate 5000000 (7 :: byte)"
  have h: "fh_StreamID (wire_header 0 0 1 ?d) = 1" "fh_Length (wire_header 0 0 1 ?d) = 5000000" "fh_valid (wire_header 0 0 1 ?d)"
    by (simp_all add: wire_header_def)
  have z: "frame_sized (DataFrame (wire_header 0 0 1 ?d) ?d)" using h by (simp add: word_less_nat_alt)
  have "\<exists>cc3. process_frame env (DataFrame (wire_header 0 0 1 ?d) ?d) cc2 = Inr (Some (ConnectionError ErrCodeFlowControl), cc3)"
    by (rule announced_window_not_enforced[OF n r _ c2(3-6) z h(1)]) (use c2(2) h(2) in \<open>simp_all add: word_less_nat_alt\<close>)
  moreover have "s_Val (preset_settings demo_http2 ! 2) = 6291456" "s_ID (preset_settings demo_http2 ! 2) = SettingInitialWindowSize"
    by (simp_all add: preset_settings_def demo_http2_def HTTP2Setting.make_def)
  ultimately show "\<exists>cc cc1 cc2 cc3. demo_open cc cc1
     \<and> s_Val (preset_settings demo_http2 ! 2) = 6291456 \<and> s_ID (preset_settings demo_http2 ! 2) = SettingInitialWindowSize
     \<and> process_frame env demo_response cc1 = Inr (None, cc2)
     \<and> process_frame env (DataFrame (wire_header 0 0 1 ?d) ?d) cc2 = Inr (Some (ConnectionError ErrCodeFlowControl), cc3)"
    using d c2(1) by blast
qed

end
