(* ===== verification/H2_Pool.thy ===== *)
theory H2_Pool
  imports Complex_Main H2_Peer Utls
begin

text \<open>
  The pool of HTTP/2 connections (\<open>http2/client_conn_pool.go\<close>) and the retry loop around it
  (\<open>Transport.RoundTripOpt\<close> in \<open>http2/transport.go\<close>). Connections and calls in flight are addresses into
  stores, as the code compares pointers. Each definition is what runs between two points where a goroutine
  waits: the critical sections of \<open>p.mu\<close>, and what follows a closed \<open>done\<close> channel. A connection that holds
  its own mutex for ever makes a critical section that needs it never return (\<open>Deadlock\<close>).
\<close>

section \<open>The pool\<close>

type_synonym conn_id = nat
type_synonym call_id = nat

text \<open>\<open>dc_ctx\<close> is the context of the request that started the dial.\<close>

record dialCall =
  dc_ctx :: nat
  dc_done :: bool
  dc_res :: "conn_id option"
  dc_err :: "h2_error option"

text \<open>\<open>ac_cc\<close> is the local variable \<open>cc\<close> of the goroutine that runs the call.\<close>

record addConnCall =
  ac_done :: bool
  ac_cc :: "conn_id option"
  ac_err :: "h2_error option"

text \<open>The maps of \<open>clientConnPool\<close>, then the stores: the connections with their \<open>getConnCalled\<close>, and the calls. The
  last two fields are the first unused addresses.\<close>

record clientConnPool =
  p_conns :: "string \<rightharpoonup> conn_id list"
  p_dialing :: "string \<rightharpoonup> call_id"
  p_keys :: "conn_id \<rightharpoonup> string list"
  p_addConnCalls :: "string \<rightharpoonup> call_id"
  p_cc :: "conn_id \<Rightarrow> ClientConn"
  p_getConnCalled :: "conn_id \<Rightarrow> bool"
  p_dials :: "call_id \<Rightarrow> dialCall"
  p_adds :: "call_id \<Rightarrow> addConnCall"
  p_newConn :: conn_id
  p_newCall :: call_id

text \<open>Indexing a Go map of slices: a missing key is the nil slice.\<close>

definition slice_at :: "('a \<rightharpoonup> 'b list) \<Rightarrow> 'a \<Rightarrow> 'b list" where
  "slice_at m k = (case m k of None \<Rightarrow> [] | Some xs \<Rightarrow> xs)"

definition addConnLocked :: "string \<Rightarrow> conn_id \<Rightarrow> clientConnPool \<Rightarrow> clientConnPool" where
  "addConnLocked key c p =
     (if c \<in> set (slice_at (p_conns p) key) then p
      else p\<lparr>p_conns := (p_conns p)(key \<mapsto> slice_at (p_conns p) key @ [c]),
             p_keys := (p_keys p)(c \<mapsto> slice_at (p_keys p) c @ [key])\<rparr>)"

definition filterOutClientConn :: "conn_id list \<Rightarrow> conn_id \<Rightarrow> conn_id list" where
  "filterOutClientConn xs exclude = filter (\<lambda>v. v \<noteq> exclude) xs"

definition MarkDead_key :: "conn_id \<Rightarrow> clientConnPool \<Rightarrow> string \<Rightarrow> clientConnPool" where
  "MarkDead_key c p key =
     (case p_conns p key of
        None \<Rightarrow> p
      | Some vv \<Rightarrow>
          let newList = filterOutClientConn vv c in
          if length newList > 0 then p\<lparr>p_conns := (p_conns p)(key \<mapsto> newList)\<rparr>
          else p\<lparr>p_conns := (p_conns p)(key := None)\<rparr>)"

definition MarkDead :: "conn_id \<Rightarrow> clientConnPool \<Rightarrow> clientConnPool" where
  "MarkDead c p =
     (let p = foldl (MarkDead_key c) p (slice_at (p_keys p) c)
      in p\<lparr>p_keys := (p_keys p)(c := None)\<rparr>)"

definition set_cc :: "conn_id \<Rightarrow> ClientConn \<Rightarrow> clientConnPool \<Rightarrow> clientConnPool" where
  "set_cc c cc p = p\<lparr>p_cc := (p_cc p)(c := cc)\<rparr>"

text \<open>The body of the two nested loops of \<open>closeIdleConnections\<close>; the argument lists the connections in the
  order of the map's iteration.\<close>

fun closeIdle_loop :: "conn_id list \<Rightarrow> clientConnPool \<Rightarrow> clientConnPool outcome" where
  "closeIdle_loop [] p = Inr p"
| "closeIdle_loop (c # cs) p = bind_res (closeIfIdle (p_cc p c)) (\<lambda>cc. closeIdle_loop cs (set_cc c cc p))"

definition closeIdleConnections :: "string list \<Rightarrow> clientConnPool \<Rightarrow> clientConnPool outcome" where
  "closeIdleConnections iteration p = closeIdle_loop (concat (map (slice_at (p_conns p)) iteration)) p"

section \<open>Getting a connection\<close>

text \<open>What a pass of \<open>getClientConn\<close> ends with: a connection, an error, the wait for a dial, another pass, or a
  connection of the request's own that is dialled outside the pool.\<close>

datatype conn_answer = GotConn conn_id | NoConn h2_error | AwaitDial call_id | TryAgain | DialOwn

text \<open>\<open>noCachedConnError\<close>, by its message.\<close>

definition ErrNoCachedConn :: h2_error where
  "ErrNoCachedConn = errors_New ''http2: no cached connection was available''"

text \<open>The loop over \<open>p.conns[addr]\<close>. \<open>tooIdle\<close> tells for each connection whether it has been idle for too long.\<close>

fun reserve_first :: "(conn_id \<Rightarrow> bool) \<Rightarrow> conn_id list \<Rightarrow> clientConnPool \<Rightarrow> (conn_id option \<times> clientConnPool) outcome" where
  "reserve_first tooIdle [] p = Inr (None, p)"
| "reserve_first tooIdle (c # cs) p =
     bind_res (ReserveNewRequest (tooIdle c) (p_cc p c)) (\<lambda>(ok, cc).
       let p = set_cc c cc p in
       if ok then Inr (Some c, p\<lparr>p_getConnCalled := (p_getConnCalled p)(c := False)\<rparr>)
       else reserve_first tooIdle cs p)"

definition getStartDialLocked :: "nat \<Rightarrow> string \<Rightarrow> clientConnPool \<Rightarrow> call_id \<times> clientConnPool" where
  "getStartDialLocked ctx addr p =
     (case p_dialing p addr of
        Some call \<Rightarrow> (call, p)
      | None \<Rightarrow>
          let call = p_newCall p in
          (call, p\<lparr>p_dials := (p_dials p)(call := \<lparr>dc_ctx = ctx, dc_done = False, dc_res = None, dc_err = None\<rparr>),
                   p_dialing := (p_dialing p)(addr \<mapsto> call), p_newCall := call + 1\<rparr>))"

definition getClientConn :: "bool \<Rightarrow> bool \<Rightarrow> (conn_id \<Rightarrow> bool) \<Rightarrow> nat \<Rightarrow> string \<Rightarrow> clientConnPool \<Rightarrow> (conn_answer \<times> clientConnPool) outcome" where
  "getClientConn closeRequest dialOnMiss tooIdle ctx addr p =
     (if closeRequest \<and> dialOnMiss then Inr (DialOwn, p)
      else
        bind_res (reserve_first tooIdle (slice_at (p_conns p) addr) p) (\<lambda>(c, p).
          case c of
            Some c \<Rightarrow> Inr (GotConn c, p)
          | None \<Rightarrow>
              if \<not> dialOnMiss then Inr (NoConn ErrNoCachedConn, p)
              else case getStartDialLocked ctx addr p of (call, p) \<Rightarrow> Inr (AwaitDial call, p)))"

text \<open>\<open>shouldRetryDial\<close>: \<open>cancellation\<close> tells whether an error is \<open>context.Canceled\<close> or
  \<open>context.DeadlineExceeded\<close> (\<open>errors.Is\<close>), \<open>expired\<close> whether a context is over.\<close>

definition shouldRetryDial :: "(h2_error \<Rightarrow> bool) \<Rightarrow> (nat \<Rightarrow> bool) \<Rightarrow> dialCall \<Rightarrow> nat \<Rightarrow> bool" where
  "shouldRetryDial cancellation expired call ctx =
     (case dc_err call of
        None \<Rightarrow> False
      | Some err \<Rightarrow>
          if dc_ctx call = ctx then False
          else if \<not> cancellation err then False
          else expired (dc_ctx call))"

text \<open>After \<open>\<leftarrow>call.done\<close>. A call that ended without an error has a connection.\<close>

definition getClientConn_woken :: "(h2_error \<Rightarrow> bool) \<Rightarrow> (nat \<Rightarrow> bool) \<Rightarrow> (conn_id \<Rightarrow> bool) \<Rightarrow> nat \<Rightarrow> call_id \<Rightarrow> clientConnPool
    \<Rightarrow> (conn_answer \<times> clientConnPool) outcome" where
  "getClientConn_woken cancellation expired tooIdle ctx call p =
     (if shouldRetryDial cancellation expired (p_dials p call) ctx then Inr (TryAgain, p)
      else case dc_err (p_dials p call) of
          Some err \<Rightarrow> Inr (NoConn err, p)
        | None \<Rightarrow>
            (case dc_res (p_dials p call) of
               None \<Rightarrow> Inl Panic
             | Some c \<Rightarrow>
                 bind_res (ReserveNewRequest (tooIdle c) (p_cc p c)) (\<lambda>(ok, cc).
                   Inr (if ok then GotConn c else TryAgain, set_cc c cc p))))"

text \<open>\<open>dialCall.dial\<close>: the return of \<open>dialClientConn\<close>, which has made a connection or failed, and the critical section after it.\<close>

definition dial_returned :: "h2_error + ClientConn \<Rightarrow> call_id \<Rightarrow> clientConnPool \<Rightarrow> clientConnPool" where
  "dial_returned r call p =
     (case r of
        Inl err \<Rightarrow> p\<lparr>p_dials := (p_dials p)(call := (p_dials p call)\<lparr>dc_res := None, dc_err := Some err\<rparr>)\<rparr>
      | Inr cc \<Rightarrow>
          let c = p_newConn p in
          p\<lparr>p_cc := (p_cc p)(c := cc), p_getConnCalled := (p_getConnCalled p)(c := False), p_newConn := c + 1,
            p_dials := (p_dials p)(call := (p_dials p call)\<lparr>dc_res := Some c, dc_err := None\<rparr>)\<rparr>)"

definition dial_publish :: "string \<Rightarrow> call_id \<Rightarrow> clientConnPool \<Rightarrow> clientConnPool" where
  "dial_publish addr call p =
     (let p = p\<lparr>p_dialing := (p_dialing p)(addr := None)\<rparr>;
          p = (case dc_err (p_dials p call) of
                 Some _ \<Rightarrow> p
               | None \<Rightarrow> (case dc_res (p_dials p call) of None \<Rightarrow> p | Some c \<Rightarrow> addConnLocked addr c p))
      in p\<lparr>p_dials := (p_dials p)(call := (p_dials p call)\<lparr>dc_done := True\<rparr>)\<rparr>)"

section \<open>Connections that net/http has made\<close>

fun any_can_take :: "(conn_id \<Rightarrow> bool) \<Rightarrow> conn_id list \<Rightarrow> clientConnPool \<Rightarrow> bool outcome" where
  "any_can_take tooIdle [] p = Inr False"
| "any_can_take tooIdle (c # cs) p =
     bind_res (CanTakeNewRequest (tooIdle c) (p_cc p c)) (\<lambda>ok. if ok then Inr True else any_can_take tooIdle cs p)"

text \<open>\<open>addConnIfNeeded\<close> up to its wait: \<open>None\<close> when a connection of the pool can be used, else the call and whether
  another goroutine started it; and the answer after the wait.\<close>

definition addConnIfNeeded :: "(conn_id \<Rightarrow> bool) \<Rightarrow> string \<Rightarrow> clientConnPool \<Rightarrow> ((call_id \<times> bool) option \<times> clientConnPool) outcome" where
  "addConnIfNeeded tooIdle key p =
     bind_res (any_can_take tooIdle (slice_at (p_conns p) key) p) (\<lambda>usable.
       if usable then Inr (None, p)
       else case p_addConnCalls p key of
           Some call \<Rightarrow> Inr (Some (call, True), p)
         | None \<Rightarrow>
             let call = p_newCall p in
             Inr (Some (call, False),
               p\<lparr>p_adds := (p_adds p)(call := \<lparr>ac_done = False, ac_cc = None, ac_err = None\<rparr>),
                 p_addConnCalls := (p_addConnCalls p)(key \<mapsto> call), p_newCall := call + 1\<rparr>))"

definition addConn_answer :: "call_id \<times> bool \<Rightarrow> clientConnPool \<Rightarrow> bool \<times> h2_error option" where
  "addConn_answer cd p =
     (case ac_err (p_adds p (fst cd)) of
        Some err \<Rightarrow> (False, Some err)
      | None \<Rightarrow> (\<not> snd cd, None))"

text \<open>\<open>addConnCall.run\<close>: the return of \<open>NewClientConn\<close>, and the critical section after it.\<close>

definition add_returned :: "h2_error + ClientConn \<Rightarrow> call_id \<Rightarrow> clientConnPool \<Rightarrow> clientConnPool" where
  "add_returned r call p =
     (case r of
        Inl err \<Rightarrow> p\<lparr>p_adds := (p_adds p)(call := (p_adds p call)\<lparr>ac_err := Some err\<rparr>)\<rparr>
      | Inr cc \<Rightarrow>
          let c = p_newConn p in
          p\<lparr>p_cc := (p_cc p)(c := cc), p_getConnCalled := (p_getConnCalled p)(c := False), p_newConn := c + 1,
            p_adds := (p_adds p)(call := (p_adds p call)\<lparr>ac_cc := Some c\<rparr>)\<rparr>)"

definition add_publish :: "string \<Rightarrow> call_id \<Rightarrow> clientConnPool \<Rightarrow> clientConnPool" where
  "add_publish key call p =
     (let p = (case ac_err (p_adds p call) of
                 Some _ \<Rightarrow> p
               | None \<Rightarrow> (case ac_cc (p_adds p call) of
                     None \<Rightarrow> p
                   | Some c \<Rightarrow> addConnLocked key c (p\<lparr>p_getConnCalled := (p_getConnCalled p)(c := True)\<rparr>)))
      in p\<lparr>p_addConnCalls := (p_addConnCalls p)(key := None),
           p_adds := (p_adds p)(call := (p_adds p call)\<lparr>ac_done := True\<rparr>)\<rparr>)"

section \<open>Retrying a request\<close>

text \<open>\<open>net.JoinHostPort\<close>, and \<open>authorityAddr\<close> with \<open>idna.ToASCII\<close> as a parameter.\<close>

definition JoinHostPort :: "string \<Rightarrow> string \<Rightarrow> string" where
  "JoinHostPort host port = (if CHR '':'' \<in> set host then ''['' @ host @ '']:'' @ port else host @ '':'' @ port)"

definition authorityAddr :: "(string \<Rightarrow> string option) \<Rightarrow> string \<Rightarrow> string \<Rightarrow> string" where
  "authorityAddr ToASCII scheme authority =
     (let (host, port) = (case SplitHostPort authority of Inl _ \<Rightarrow> (authority, []) | Inr hp \<Rightarrow> hp);
          port = (if port = [] then (if scheme = ''http'' then ''80'' else ''443'') else port);
          host = (case ToASCII host of Some a \<Rightarrow> a | None \<Rightarrow> host)
      in if host \<noteq> [] \<and> hd host = CHR ''['' \<and> last host = CHR '']'' then host @ '':'' @ port
         else JoinHostPort host port)"

definition scheme_error :: "bool \<Rightarrow> string \<Rightarrow> h2_error option" where
  "scheme_error allowHTTP scheme =
     (if scheme = ''https'' then None
      else if scheme = ''http'' then
        (if \<not> allowHTTP then Some (errors_New ''http2: unencrypted HTTP/2 not enabled'') else None)
      else Some (errors_New ''http2: unsupported scheme''))"

text \<open>The wait before a retry, in seconds: \<open>time.Duration\<close> of the float drops its fraction. The argument \<open>r\<close> is
  the value of \<open>mathrand.Float64\<close>; the rounding of float64 is not modelled.\<close>

definition backoff :: "real \<Rightarrow> nat \<Rightarrow> nat" where
  "backoff r retry = (let b = 2 ^ (retry - 1) in nat \<lfloor>b + b * (r / 10)\<rfloor>)"

text \<open>What one pass of the loop meets: the answer of \<open>GetClientConn\<close>, the error of \<open>cc.RoundTrip\<close>, the error of
  \<open>GetBody\<close> if it is called, the random number, and the error of the request's context if it ends the wait.\<close>

record rt_attempt =
  at_conn :: "h2_error + conn_id"
  at_result :: "h2_error option"
  at_getBody :: "h2_error option"
  at_random :: real
  at_ctxErr :: "h2_error option"

datatype rt_round = Return "h2_error option" | RetryAfter nat bool

definition round_end :: "bool \<Rightarrow> bool \<Rightarrow> (h2_error \<Rightarrow> h2_error) \<Rightarrow> nat \<Rightarrow> rt_attempt \<Rightarrow> rt_round" where
  "round_end hasBody hasGetBody wrap retry a =
     (case at_result a of
        None \<Rightarrow> Return None
      | Some err \<Rightarrow>
          if retry \<le> 6 then
            (case shouldRetryRequest hasBody (if hasGetBody then Some (at_getBody a) else None) err wrap of
               NoRetry e \<Rightarrow> Return (Some e)
             | again \<Rightarrow>
                 if retry = 0 then RetryAfter 0 (again = Rewound)
                 else (case at_ctxErr a of
                     None \<Rightarrow> RetryAfter (backoff (at_random a) retry) (again = Rewound)
                   | Some e \<Rightarrow> Return (Some e)))
          else Return (Some err))"

lemma round_end_retry: "round_end hasBody hasGetBody wrap retry a = RetryAfter s r \<Longrightarrow> retry \<le> 6"
  by (auto simp: round_end_def split: option.splits if_splits)

text \<open>What the loop does: the connections it sends the request on, each with whether the body comes from
  \<open>GetBody\<close>, the seconds it waits, the connections it removes from the pool, and the error it returns.\<close>

record rt_trace =
  tr_sends :: "(conn_id \<times> bool) list"
  tr_waits :: "nat list"
  tr_dead :: "conn_id list"
  tr_err :: "h2_error option"

function RoundTripOpt_loop :: "bool \<Rightarrow> bool \<Rightarrow> (h2_error \<Rightarrow> h2_error) \<Rightarrow> (nat \<Rightarrow> rt_attempt) \<Rightarrow> nat \<Rightarrow> bool \<Rightarrow> rt_trace" where
  "RoundTripOpt_loop hasBody hasGetBody wrap as retry rewound =
     (case at_conn (as retry) of
        Inl err \<Rightarrow> \<lparr>tr_sends = [], tr_waits = [], tr_dead = [], tr_err = Some err\<rparr>
      | Inr c \<Rightarrow>
          (case round_end hasBody hasGetBody wrap retry (as retry) of
             Return err \<Rightarrow> \<lparr>tr_sends = [(c, rewound)], tr_waits = [],
                tr_dead = (if err = Some errClientConnNotEstablished then [c] else []), tr_err = err\<rparr>
           | RetryAfter s again \<Rightarrow>
               let t = RoundTripOpt_loop hasBody hasGetBody wrap as (retry + 1) (rewound \<or> again)
               in t\<lparr>tr_sends := (c, rewound) # tr_sends t, tr_waits := s # tr_waits t\<rparr>))"
  by pat_completeness auto

termination
  by (relation "measure (\<lambda>(_, _, _, _, retry, _). 8 - retry)") (auto dest: round_end_retry)

declare RoundTripOpt_loop.simps [simp del]

definition RoundTripOpt :: "bool \<Rightarrow> string \<Rightarrow> bool \<Rightarrow> bool \<Rightarrow> (h2_error \<Rightarrow> h2_error) \<Rightarrow> (nat \<Rightarrow> rt_attempt) \<Rightarrow> rt_trace" where
  "RoundTripOpt allowHTTP scheme hasBody hasGetBody wrap as =
     (case scheme_error allowHTTP scheme of
        Some err \<Rightarrow> \<lparr>tr_sends = [], tr_waits = [], tr_dead = [], tr_err = Some err\<rparr>
      | None \<Rightarrow> RoundTripOpt_loop hasBody hasGetBody wrap as 0 False)"

section \<open>Reserving a connection\<close>

text \<open>The pool after connection \<open>c\<close> was handed out.\<close>

definition handed_out :: "conn_id \<Rightarrow> clientConnPool \<Rightarrow> clientConnPool" where
  "handed_out c p = p\<lparr>p_cc := (p_cc p)(c := (p_cc p c)\<lparr>cc_streamsReserved := cc_streamsReserved (p_cc p c) + 1\<rparr>),
                      p_getConnCalled := (p_getConnCalled p)(c := False)\<rparr>"

lemma lock_unlock:
  "\<not> cc_mu cc \<Longrightarrow> unlock_mu (cc\<lparr>cc_mu := True\<rparr>) = cc"
  "\<not> cc_mu cc \<Longrightarrow> unlock_mu (cc\<lparr>cc_mu := True, cc_streamsReserved := n\<rparr>) = cc\<lparr>cc_streamsReserved := n\<rparr>"
  by (cases cc; simp add: unlock_mu_def)+

lemma idleState_locked [simp]: "idleStateLocked t (cc\<lparr>cc_mu := b\<rparr>) = idleStateLocked t cc"
  by (simp add: idleStateLocked_def isUsableLocked_def currentRequestCountLocked_def)

lemma ReserveNewRequest_eq:
  "ReserveNewRequest t cc =
     (if cc_mu cc then Inl Deadlock
      else if idleStateLocked t cc then Inr (True, cc\<lparr>cc_streamsReserved := cc_streamsReserved cc + 1\<rparr>)
      else Inr (False, cc))"
  by (simp add: ReserveNewRequest_def lock_mu_def lock_unlock)

lemma set_cc_same [simp]: "set_cc c (p_cc p c) p = p"
  by (simp add: set_cc_def)

lemma reserve_first_eq:
  "reserve_first tooIdle cs p =
     (case find (\<lambda>c. cc_mu (p_cc p c) \<or> idleStateLocked (tooIdle c) (p_cc p c)) cs of
        None \<Rightarrow> Inr (None, p)
      | Some c \<Rightarrow> if cc_mu (p_cc p c) then Inl Deadlock else Inr (Some c, handed_out c p))"
proof (induction cs arbitrary: p)
  case (Cons c cs)
  show ?case
  proof (cases "cc_mu (p_cc p c) \<or> idleStateLocked (tooIdle c) (p_cc p c)")
    case True
    then show ?thesis by (auto simp: ReserveNewRequest_eq handed_out_def set_cc_def Let_def)
  next
    case False
    then show ?thesis using Cons.IH[of p] by (simp add: ReserveNewRequest_eq)
  qed
qed simp

text \<open>\<open>getClientConn\<close> looks at the connections of the address in the order in which they were added and
  stops at the first one that can take a request, on which it reserves one, or whose mutex is held for
  ever, in which case it never returns and keeps the pool locked. Without such a connection it fails,
  waits for the dial in flight, or starts one.\<close>

theorem getClientConn_picks_first:
  "getClientConn False dialOnMiss tooIdle ctx addr p =
     (case find (\<lambda>c. cc_mu (p_cc p c) \<or> idleStateLocked (tooIdle c) (p_cc p c)) (slice_at (p_conns p) addr) of
        Some c \<Rightarrow> if cc_mu (p_cc p c) then Inl Deadlock else Inr (GotConn c, handed_out c p)
      | None \<Rightarrow>
          if \<not> dialOnMiss then Inr (NoConn ErrNoCachedConn, p)
          else case p_dialing p addr of
              Some call \<Rightarrow> Inr (AwaitDial call, p)
            | None \<Rightarrow> Inr (AwaitDial (p_newCall p),
                p\<lparr>p_dials := (p_dials p)(p_newCall p := \<lparr>dc_ctx = ctx, dc_done = False, dc_res = None, dc_err = None\<rparr>),
                  p_dialing := (p_dialing p)(addr \<mapsto> p_newCall p), p_newCall := p_newCall p + 1\<rparr>))"
  by (simp add: getClientConn_def reserve_first_eq getStartDialLocked_def Let_def split: option.split)

section \<open>The pool over time\<close>

text \<open>The steps of the goroutines that use the pool; \<open>conn\<close> is any change that the connection's own goroutines
  make to it. A goroutine's next step is possible only when it is there.\<close>

inductive pool_step :: "clientConnPool \<Rightarrow> clientConnPool \<Rightarrow> bool" where
  get: "getClientConn closeRequest dialOnMiss tooIdle ctx addr p = Inr (a, p') \<Longrightarrow> pool_step p p'"
| woken: "dc_done (p_dials p call) \<Longrightarrow> getClientConn_woken cancellation expired tooIdle ctx call p = Inr (a, p') \<Longrightarrow> pool_step p p'"
| dialled: "p_dialing p addr = Some call \<Longrightarrow> dc_res (p_dials p call) = None \<Longrightarrow> dc_err (p_dials p call) = None
    \<Longrightarrow> pool_step p (dial_returned r call p)"
| published: "p_dialing p addr = Some call \<Longrightarrow> dc_res (p_dials p call) \<noteq> None \<or> dc_err (p_dials p call) \<noteq> None
    \<Longrightarrow> pool_step p (dial_publish addr call p)"
| needed: "addConnIfNeeded tooIdle key p = Inr (a', p') \<Longrightarrow> pool_step p p'"
| made: "p_addConnCalls p key = Some call \<Longrightarrow> ac_cc (p_adds p call) = None \<Longrightarrow> ac_err (p_adds p call) = None
    \<Longrightarrow> pool_step p (add_returned r call p)"
| added: "p_addConnCalls p key = Some call \<Longrightarrow> ac_cc (p_adds p call) \<noteq> None \<or> ac_err (p_adds p call) \<noteq> None
    \<Longrightarrow> pool_step p (add_publish key call p)"
| dead: "pool_step p (MarkDead c p)"
| idle: "closeIdleConnections iteration p = Inr p' \<Longrightarrow> pool_step p p'"
| conn: "pool_step p (set_cc c cc p)"

text \<open>The zero pool; what the stores hold at unused addresses does not matter, so long as no call is done.\<close>

definition empty_pool :: "(conn_id \<Rightarrow> ClientConn) \<Rightarrow> clientConnPool" where
  "empty_pool ccs =
     \<lparr>p_conns = Map.empty, p_dialing = Map.empty, p_keys = Map.empty, p_addConnCalls = Map.empty, p_cc = ccs,
      p_getConnCalled = (\<lambda>_. False), p_dials = (\<lambda>_. \<lparr>dc_ctx = 0, dc_done = False, dc_res = None, dc_err = None\<rparr>),
      p_adds = (\<lambda>_. \<lparr>ac_done = False, ac_cc = None, ac_err = None\<rparr>), p_newConn = 0, p_newCall = 0\<rparr>"

text \<open>The goroutine that will add connection \<open>c\<close> to the pool: the dial for an address or the call for a key.\<close>

definition holds :: "clientConnPool \<Rightarrow> string + string \<Rightarrow> conn_id \<Rightarrow> bool" where
  "holds p x c =
     (case x of
        Inl addr \<Rightarrow> (case p_dialing p addr of None \<Rightarrow> False | Some call \<Rightarrow> dc_res (p_dials p call) = Some c)
      | Inr key \<Rightarrow> (case p_addConnCalls p key of None \<Rightarrow> False | Some call \<Rightarrow> ac_cc (p_adds p call) = Some c))"

definition calls_inv :: "clientConnPool \<Rightarrow> bool" where
  "calls_inv p \<longleftrightarrow>
     (\<forall>a d. p_dialing p a = Some d \<longrightarrow> d < p_newCall p \<and> \<not> dc_done (p_dials p d)) \<and>
     (\<forall>a b d. p_dialing p a = Some d \<longrightarrow> p_dialing p b = Some d \<longrightarrow> a = b) \<and>
     (\<forall>k d. p_addConnCalls p k = Some d \<longrightarrow> d < p_newCall p) \<and>
     (\<forall>k l d. p_addConnCalls p k = Some d \<longrightarrow> p_addConnCalls p l = Some d \<longrightarrow> k = l) \<and>
     (\<forall>d. dc_done (p_dials p d) \<longrightarrow> d < p_newCall p \<and> (dc_err (p_dials p d) = None \<longrightarrow> dc_res (p_dials p d) \<noteq> None))"

definition holds_inv :: "clientConnPool \<Rightarrow> bool" where
  "holds_inv p \<longleftrightarrow>
     (\<forall>x c. holds p x c \<longrightarrow> c < p_newConn p \<and> (\<forall>k. c \<notin> set (slice_at (p_conns p) k))) \<and>
     (\<forall>x y c. holds p x c \<longrightarrow> holds p y c \<longrightarrow> x = y)"

definition table_inv :: "clientConnPool \<Rightarrow> bool" where
  "table_inv p \<longleftrightarrow>
     (\<forall>k. p_conns p k \<noteq> Some [] \<and> distinct (slice_at (p_conns p) k)) \<and>
     (\<forall>c. distinct (slice_at (p_keys p) c)) \<and>
     (\<forall>k c. c \<in> set (slice_at (p_conns p) k) \<longleftrightarrow> k \<in> set (slice_at (p_keys p) c)) \<and>
     (\<forall>k c. c \<in> set (slice_at (p_conns p) k) \<longrightarrow> c < p_newConn p)"

definition pool_inv :: "clientConnPool \<Rightarrow> bool" where
  "pool_inv p \<longleftrightarrow> calls_inv p \<and> holds_inv p \<and> table_inv p"

text \<open>A connection that is not in the pool and that nobody will add to it.\<close>

definition gone :: "clientConnPool \<Rightarrow> conn_id \<Rightarrow> bool" where
  "gone p c \<longleftrightarrow> c < p_newConn p \<and> (\<forall>k. c \<notin> set (slice_at (p_conns p) k)) \<and> (\<forall>x. \<not> holds p x c)"

definition advances :: "clientConnPool \<Rightarrow> clientConnPool \<Rightarrow> bool" where
  "advances p q \<longleftrightarrow> pool_inv q \<and> (\<forall>c. gone p c \<longrightarrow> gone q c) \<and>
     (\<forall>d. dc_done (p_dials p d) \<longrightarrow> dc_done (p_dials q d)) \<and>
     (\<forall>a d. p_dialing p a = Some d \<longrightarrow> p_dialing q a = Some d \<or> dc_done (p_dials q d))"

lemma slice_at_simps [simp]:
  "slice_at (m(k \<mapsto> xs)) j = (if j = k then xs else slice_at m j)"
  "slice_at (m(k := None)) j = (if j = k then [] else slice_at m j)"
  "slice_at Map.empty j = []"
  by (auto simp: slice_at_def)

text \<open>Operations that change only the connections.\<close>

definition same_tables :: "clientConnPool \<Rightarrow> clientConnPool \<Rightarrow> bool" where
  "same_tables p q \<longleftrightarrow> (\<exists>f g. q = p\<lparr>p_cc := f, p_getConnCalled := g\<rparr>)"

lemma same_tables_refl [simp]: "same_tables p p"
  by (auto simp: same_tables_def intro!: exI[of _ "p_cc p"] exI[of _ "p_getConnCalled p"])

lemma same_tables_set_cc [simp]: "same_tables p (set_cc c cc p)"
  by (auto simp: same_tables_def set_cc_def intro!: exI[of _ "p_getConnCalled p"])

lemma same_tables_handed_out [simp]: "same_tables p (handed_out c p)"
  by (auto simp: same_tables_def handed_out_def)

lemma same_tables_trans:
  assumes "same_tables p q" and "same_tables q r"
  shows "same_tables p r"
proof -
  obtain f g f' g' where "q = p\<lparr>p_cc := f, p_getConnCalled := g\<rparr>" "r = q\<lparr>p_cc := f', p_getConnCalled := g'\<rparr>"
    using assms by (auto simp: same_tables_def)
  then have "r = p\<lparr>p_cc := f', p_getConnCalled := g'\<rparr>" by simp
  then show ?thesis by (auto simp: same_tables_def)
qed

lemma same_tables_advances:
  assumes "pool_inv p" and "same_tables p q"
  shows "advances p q"
proof -
  obtain f g where q: "q = p\<lparr>p_cc := f, p_getConnCalled := g\<rparr>" using assms(2) by (auto simp: same_tables_def)
  have h: "holds q = holds p" by (simp add: q holds_def fun_eq_iff split: sum.split option.split)
  have "calls_inv q = calls_inv p" "table_inv q = table_inv p" by (simp_all add: calls_inv_def table_inv_def q)
  moreover have "holds_inv q = holds_inv p" unfolding holds_inv_def h by (simp add: q)
  ultimately have "pool_inv q" using assms(1) by (simp add: pool_inv_def)
  then show ?thesis unfolding advances_def gone_def h by (simp add: q)
qed

lemma closeIdle_loop_same: "closeIdle_loop cs p = Inr q \<Longrightarrow> same_tables p q"
proof (induction cs arbitrary: p)
  case (Cons c cs)
  then obtain cc where "closeIdle_loop cs (set_cc c cc p) = Inr q" by (auto simp: bind_res_eq_Inr)
  from Cons.IH[OF this] show ?case by (rule same_tables_trans[OF same_tables_set_cc])
qed simp

lemma woken_same: "getClientConn_woken cancellation expired tooIdle ctx call p = Inr (a, q) \<Longrightarrow> same_tables p q"
  by (auto simp: getClientConn_woken_def bind_res_eq_Inr split: if_splits option.splits)

text \<open>Starting a call.\<close>

lemma start_dial_advances:
  fixes ctx :: nat
  assumes inv: "pool_inv p" and no: "p_dialing p addr = None"
  defines "q \<equiv> p\<lparr>p_dials := (p_dials p)(p_newCall p := \<lparr>dc_ctx = ctx, dc_done = False, dc_res = None, dc_err = None\<rparr>),
                  p_dialing := (p_dialing p)(addr \<mapsto> p_newCall p), p_newCall := p_newCall p + 1\<rparr>"
  shows "advances p q"
proof -
  have lt: "d < p_newCall p" if "p_dialing p a = Some d" for a d using inv that by (simp add: pool_inv_def calls_inv_def)
  have ldone: "d < p_newCall p" if "dc_done (p_dials p d)" for d using inv that by (simp add: pool_inv_def calls_inv_def)
  have h: "holds q = holds p"
  proof (intro ext)
    fix x c show "holds q x c = holds p x c"
      using no by (cases x) (auto simp: q_def holds_def dest: lt split: option.split)
  qed
  have c: "calls_inv q"
    using inv unfolding pool_inv_def calls_inv_def by (auto simp: q_def less_Suc_eq dest: lt)
  have "table_inv q = table_inv p" by (simp add: table_inv_def q_def)
  moreover have "holds_inv q = holds_inv p" unfolding holds_inv_def h by (simp add: q_def)
  ultimately have "pool_inv q" using inv c by (simp add: pool_inv_def)
  then show ?thesis
    using ldone no unfolding advances_def gone_def h by (auto simp: q_def)
qed

lemma start_add_advances:
  assumes inv: "pool_inv p" and no: "p_addConnCalls p key = None"
  defines "q \<equiv> p\<lparr>p_adds := (p_adds p)(p_newCall p := \<lparr>ac_done = False, ac_cc = None, ac_err = None\<rparr>),
                 p_addConnCalls := (p_addConnCalls p)(key \<mapsto> p_newCall p), p_newCall := p_newCall p + 1\<rparr>"
  shows "advances p q"
proof -
  have lt: "d < p_newCall p" if "p_addConnCalls p k = Some d" for k d using inv that by (simp add: pool_inv_def calls_inv_def)
  have h: "holds q = holds p"
  proof (intro ext)
    fix x c show "holds q x c = holds p x c"
      using no by (cases x) (auto simp: q_def holds_def dest: lt split: option.split)
  qed
  have c: "calls_inv q"
    using inv unfolding pool_inv_def calls_inv_def by (auto simp: q_def less_Suc_eq dest: lt)
  have "table_inv q = table_inv p" by (simp add: table_inv_def q_def)
  moreover have "holds_inv q = holds_inv p" unfolding holds_inv_def h by (simp add: q_def)
  ultimately have "pool_inv q" using inv c by (simp add: pool_inv_def)
  then show ?thesis unfolding advances_def gone_def h by (simp add: q_def)
qed

text \<open>A call that has made its connection.\<close>

lemma not_held_twice: "pool_inv p \<Longrightarrow> holds p x c \<Longrightarrow> holds p y c \<Longrightarrow> x = y"
  by (auto simp: pool_inv_def holds_inv_def)

lemma held_fresh: "pool_inv p \<Longrightarrow> holds p x c \<Longrightarrow> c < p_newConn p \<and> c \<notin> set (slice_at (p_conns p) k)"
  by (auto simp: pool_inv_def holds_inv_def)

lemma holds_new:
  assumes inv: "pool_inv p" and h: "\<And>x c. holds q x c \<longleftrightarrow> holds p x c \<or> x = y \<and> c = p_newConn p"
    and q: "calls_inv q" "p_conns q = p_conns p" "p_keys q = p_keys p" "p_newConn q = p_newConn p + 1"
      "\<And>d. dc_done (p_dials q d) = dc_done (p_dials p d)" "p_dialing q = p_dialing p"
  shows "advances p q"
proof -
  have new: "p_newConn p \<notin> set (slice_at (p_conns p) k)" "\<not> holds p x (p_newConn p)" for k x
    using inv unfolding pool_inv_def holds_inv_def table_inv_def by (metis less_irrefl)+
  have "table_inv q" using inv unfolding pool_inv_def table_inv_def q by (meson less_SucI Suc_eq_plus1 less_add_one less_trans)
  moreover have "holds_inv q"
    using inv new unfolding pool_inv_def holds_inv_def h q by (metis less_add_one less_trans)
  ultimately have "pool_inv q" using q(1) by (simp add: pool_inv_def)
  then show ?thesis unfolding advances_def gone_def h q by auto
qed

lemma dial_returned_advances:
  assumes inv: "pool_inv p" and call: "p_dialing p addr = Some call" "dc_res (p_dials p call) = None"
  shows "advances p (dial_returned r call p)"
proof -
  have nd: "\<not> dc_done (p_dials p call)" and only: "\<And>a. p_dialing p a = Some call \<Longrightarrow> a = addr"
    using inv call by (auto simp: pool_inv_def calls_inv_def)
  let ?q = "dial_returned r call p"
  have dn: "dc_done (p_dials ?q d) = dc_done (p_dials p d)" for d
    by (simp add: dial_returned_def Let_def split: sum.split)
  have c: "calls_inv ?q"
    using inv nd unfolding pool_inv_def calls_inv_def by (cases r) (auto simp: dial_returned_def Let_def)
  show ?thesis
  proof (cases r)
    case (Inl err)
    have h: "holds ?q = holds p"
    proof (intro ext)
      fix x c show "holds ?q x c = holds p x c"
        using call by (cases x) (auto simp: dial_returned_def Inl holds_def split: option.split)
    qed
    have "table_inv ?q = table_inv p" by (simp add: table_inv_def dial_returned_def Inl)
    moreover have "holds_inv ?q = holds_inv p" unfolding holds_inv_def h by (simp add: dial_returned_def Inl)
    ultimately have "pool_inv ?q" using inv c by (simp add: pool_inv_def)
    then show ?thesis unfolding advances_def gone_def h dn by (simp add: dial_returned_def Inl)
  next
    case (Inr cc)
    have h: "holds ?q x c \<longleftrightarrow> holds p x c \<or> x = Inl addr \<and> c = p_newConn p" for x c
      using call by (cases x) (auto simp: dial_returned_def Let_def Inr holds_def dest: only split: option.split)
    show ?thesis
      by (rule holds_new[OF inv h c]) (simp_all add: dial_returned_def Inr Let_def)
  qed
qed

lemma add_returned_advances:
  assumes inv: "pool_inv p" and call: "p_addConnCalls p key = Some call" "ac_cc (p_adds p call) = None"
  shows "advances p (add_returned r call p)"
proof -
  have only: "\<And>a. p_addConnCalls p a = Some call \<Longrightarrow> a = key"
    using inv call by (auto simp: pool_inv_def calls_inv_def)
  let ?q = "add_returned r call p"
  have c: "calls_inv ?q"
    using inv unfolding pool_inv_def calls_inv_def by (cases r) (auto simp: add_returned_def Let_def)
  show ?thesis
  proof (cases r)
    case (Inl err)
    have h: "holds ?q = holds p"
    proof (intro ext)
      fix x c show "holds ?q x c = holds p x c"
        using call by (cases x) (auto simp: add_returned_def Inl holds_def split: option.split)
    qed
    have "table_inv ?q = table_inv p" by (simp add: table_inv_def add_returned_def Inl)
    moreover have "holds_inv ?q = holds_inv p" unfolding holds_inv_def h by (simp add: add_returned_def Inl)
    ultimately have "pool_inv ?q" using inv c by (simp add: pool_inv_def)
    then show ?thesis unfolding advances_def gone_def h by (simp add: add_returned_def Inl)
  next
    case (Inr cc)
    have h: "holds ?q x c \<longleftrightarrow> holds p x c \<or> x = Inr key \<and> c = p_newConn p" for x c
      using call by (cases x) (auto simp: add_returned_def Let_def Inr holds_def dest: only split: option.split)
    show ?thesis
      by (rule holds_new[OF inv h c]) (simp_all add: add_returned_def Inr Let_def)
  qed
qed

text \<open>Adding a connection to the table, and removing one.\<close>

lemma addConnLocked_fields [simp]:
  "p_dialing (addConnLocked k c p) = p_dialing p" "p_addConnCalls (addConnLocked k c p) = p_addConnCalls p"
  "p_dials (addConnLocked k c p) = p_dials p" "p_adds (addConnLocked k c p) = p_adds p"
  "p_newConn (addConnLocked k c p) = p_newConn p" "p_newCall (addConnLocked k c p) = p_newCall p"
  by (simp_all add: addConnLocked_def)

lemma addConnLocked_new:
  assumes "\<And>k. c \<notin> set (slice_at (p_conns p) k)"
  shows "slice_at (p_conns (addConnLocked k c p)) j = slice_at (p_conns p) j @ (if j = k then [c] else [])"
    and "slice_at (p_keys (addConnLocked k c p)) d = slice_at (p_keys p) d @ (if d = c then [k] else [])"
    and "p_conns (addConnLocked k c p) j = Some [] \<longleftrightarrow> j \<noteq> k \<and> p_conns p j = Some []"
  using assms[of k] by (auto simp: addConnLocked_def)

lemma table_inv_add:
  assumes inv: "table_inv p" and new: "\<And>k. c \<notin> set (slice_at (p_conns p) k)" and lt: "c < p_newConn p"
  shows "table_inv (addConnLocked k c p)"
proof -
  have "k \<notin> set (slice_at (p_keys p) c)" using inv new[of k] unfolding table_inv_def by blast
  then show ?thesis
    using inv new lt unfolding table_inv_def addConnLocked_new[OF new] by auto
qed

text \<open>The end of a call: its holder is gone, and its connection, if any, has been added under \<open>k\<close>.\<close>

lemma call_ended:
  assumes inv: "pool_inv p" and h: "\<And>x c. holds q x c \<longleftrightarrow> x \<noteq> y \<and> holds p x c"
    and c: "calls_inv q" and t: "table_inv q" and n: "p_newConn q = p_newConn p"
    and add: "\<And>j d. d \<in> set (slice_at (p_conns q) j) \<Longrightarrow> d \<in> set (slice_at (p_conns p) j) \<or> holds p y d"
    and dn: "\<And>d. dc_done (p_dials p d) \<Longrightarrow> dc_done (p_dials q d)"
      "\<And>a d. p_dialing p a = Some d \<Longrightarrow> p_dialing q a = Some d \<or> dc_done (p_dials q d)"
  shows "advances p q"
proof -
  have "holds_inv q"
    unfolding holds_inv_def h n using held_fresh[OF inv] not_held_twice[OF inv] add by metis
  then have "pool_inv q" using c t by (simp add: pool_inv_def)
  moreover have "gone q d" if "gone p d" for d
    using that add unfolding gone_def h n by blast
  ultimately show ?thesis using dn by (simp add: advances_def)
qed

lemma dial_publish_advances:
  assumes inv: "pool_inv p" and call: "p_dialing p addr = Some call"
    and ready: "dc_res (p_dials p call) \<noteq> None \<or> dc_err (p_dials p call) \<noteq> None"
  shows "advances p (dial_publish addr call p)"
proof -
  let ?q = "dial_publish addr call p"
  have nd: "\<not> dc_done (p_dials p call)" "call < p_newCall p" and only: "\<And>a. p_dialing p a = Some call \<Longrightarrow> a = addr"
    using inv call by (auto simp: pool_inv_def calls_inv_def)
  have f: "p_dialing ?q = (p_dialing p)(addr := None)" "p_addConnCalls ?q = p_addConnCalls p" "p_adds ?q = p_adds p"
    "p_dials ?q = (p_dials p)(call := (p_dials p call)\<lparr>dc_done := True\<rparr>)" "p_newConn ?q = p_newConn p" "p_newCall ?q = p_newCall p"
    by (auto simp: dial_publish_def Let_def split: option.split)
  have h: "holds ?q x c \<longleftrightarrow> x \<noteq> Inl addr \<and> holds p x c" for x c
    by (cases x) (auto simp: holds_def f split: option.split)
  have c: "calls_inv ?q"
    using inv nd ready unfolding pool_inv_def calls_inv_def f by (auto dest: only)
  let ?p0 = "p\<lparr>p_dialing := (p_dialing p)(addr := None)\<rparr>"
  have t: "table_inv ?q \<and> (\<forall>j d. d \<in> set (slice_at (p_conns ?q) j) \<longrightarrow> d \<in> set (slice_at (p_conns p) j) \<or> holds p (Inl addr) d)"
  proof (cases "dc_err (p_dials p call) = None \<and> dc_res (p_dials p call) \<noteq> None")
    case True
    then obtain b where b: "dc_res (p_dials p call) = Some b" "holds p (Inl addr) b" using call by (auto simp: holds_def)
    have fresh: "b \<notin> set (slice_at (p_conns ?p0) k)" "b < p_newConn ?p0" for k
      using held_fresh[OF inv b(2), of k] by simp_all
    have t0: "table_inv ?p0" using inv by (simp add: pool_inv_def table_inv_def)
    have q: "p_conns ?q = p_conns (addConnLocked addr b ?p0)" "p_keys ?q = p_keys (addConnLocked addr b ?p0)"
      using True b by (simp_all add: dial_publish_def Let_def)
    have "table_inv ?q" using table_inv_add[OF t0 fresh, of addr] unfolding table_inv_def q f by simp
    then show ?thesis using b(2) by (auto simp: q addConnLocked_new[OF fresh(1)] split: if_splits)
  next
    case False
    then have q: "p_conns ?q = p_conns p" "p_keys ?q = p_keys p" by (auto simp: dial_publish_def Let_def split: option.split)
    then show ?thesis using inv by (simp add: pool_inv_def table_inv_def f)
  qed
  show ?thesis by (rule call_ended[OF inv h c]) (use t call in \<open>auto simp: f\<close>)
qed

lemma add_publish_advances:
  assumes inv: "pool_inv p" and call: "p_addConnCalls p key = Some call"
  shows "advances p (add_publish key call p)"
proof -
  let ?q = "add_publish key call p"
  have only: "\<And>a. p_addConnCalls p a = Some call \<Longrightarrow> a = key"
    using inv call by (auto simp: pool_inv_def calls_inv_def)
  have f: "p_dialing ?q = p_dialing p" "p_addConnCalls ?q = (p_addConnCalls p)(key := None)" "p_dials ?q = p_dials p"
    "p_adds ?q = (p_adds p)(call := (p_adds p call)\<lparr>ac_done := True\<rparr>)" "p_newConn ?q = p_newConn p" "p_newCall ?q = p_newCall p"
    by (auto simp: add_publish_def Let_def split: option.split)
  have h: "holds ?q x c \<longleftrightarrow> x \<noteq> Inr key \<and> holds p x c" for x c
    by (cases x) (auto simp: holds_def f split: option.split)
  have c: "calls_inv ?q"
    using inv unfolding pool_inv_def calls_inv_def f by auto
  have t: "table_inv ?q \<and> (\<forall>j d. d \<in> set (slice_at (p_conns ?q) j) \<longrightarrow> d \<in> set (slice_at (p_conns p) j) \<or> holds p (Inr key) d)"
  proof (cases "ac_err (p_adds p call) = None \<and> ac_cc (p_adds p call) \<noteq> None")
    case True
    then obtain b where b: "ac_cc (p_adds p call) = Some b" "holds p (Inr key) b" using call by (auto simp: holds_def)
    let ?p0 = "p\<lparr>p_getConnCalled := (p_getConnCalled p)(b := True)\<rparr>"
    have fresh: "b \<notin> set (slice_at (p_conns ?p0) k)" "b < p_newConn ?p0" for k
      using held_fresh[OF inv b(2), of k] by simp_all
    have t0: "table_inv ?p0" using inv by (simp add: pool_inv_def table_inv_def)
    have q: "p_conns ?q = p_conns (addConnLocked key b ?p0)" "p_keys ?q = p_keys (addConnLocked key b ?p0)"
      using True b by (simp_all add: add_publish_def Let_def)
    have "table_inv ?q" using table_inv_add[OF t0 fresh, of key] unfolding table_inv_def q f by simp
    then show ?thesis using b(2) by (auto simp: q addConnLocked_new[OF fresh(1)] split: if_splits)
  next
    case False
    then have q: "p_conns ?q = p_conns p" "p_keys ?q = p_keys p" by (auto simp: add_publish_def Let_def split: option.split)
    then show ?thesis using inv by (simp add: pool_inv_def table_inv_def f)
  qed
  show ?thesis by (rule call_ended[OF inv h c]) (use t in \<open>auto simp: f\<close>)
qed

lemma MarkDead_keys:
  "p_conns (foldl (MarkDead_key c) p ks) j =
     (if j \<in> set ks then (case p_conns p j of None \<Rightarrow> None | Some vv \<Rightarrow>
        if filterOutClientConn vv c = [] then None else Some (filterOutClientConn vv c)) else p_conns p j)
   \<and> (\<exists>m. foldl (MarkDead_key c) p ks = p\<lparr>p_conns := m\<rparr>)"
proof (induction ks arbitrary: p)
  case Nil
  show ?case by (auto intro!: exI[of _ "p_conns p"])
next
  case (Cons k ks)
  obtain m where m: "MarkDead_key c p k = p\<lparr>p_conns := m\<rparr>"
    "m j = (if j = k then (case p_conns p j of None \<Rightarrow> None | Some vv \<Rightarrow>
        if filterOutClientConn vv c = [] then None else Some (filterOutClientConn vv c)) else p_conns p j)" for j
  proof
    show "MarkDead_key c p k = p\<lparr>p_conns := p_conns (MarkDead_key c p k)\<rparr>"
      by (simp add: MarkDead_key_def Let_def split: option.split)
    show "p_conns (MarkDead_key c p k) j = (if j = k then (case p_conns p j of None \<Rightarrow> None | Some vv \<Rightarrow>
        if filterOutClientConn vv c = [] then None else Some (filterOutClientConn vv c)) else p_conns p j)" for j
      by (simp add: MarkDead_key_def Let_def split: option.split)
  qed
  show ?case
    using Cons.IH[of "p\<lparr>p_conns := m\<rparr>"] m by (auto simp: filterOutClientConn_def split: option.splits if_splits)
qed

lemma MarkDead_tables:
  assumes inv: "table_inv p"
  shows "slice_at (p_conns (MarkDead c p)) j = filter (\<lambda>d. d \<noteq> c) (slice_at (p_conns p) j)"
    and "p_conns (MarkDead c p) j \<noteq> Some []"
    and "\<exists>m. MarkDead c p = p\<lparr>p_conns := m, p_keys := (p_keys p)(c := None)\<rparr>"
proof -
  let ?m = "p_conns (foldl (MarkDead_key c) p (slice_at (p_keys p) c))"
  have e: "?m j = (if j \<in> set (slice_at (p_keys p) c) then (case p_conns p j of None \<Rightarrow> None | Some vv \<Rightarrow>
        if filterOutClientConn vv c = [] then None else Some (filterOutClientConn vv c)) else p_conns p j)"
    and f: "\<exists>m. foldl (MarkDead_key c) p (slice_at (p_keys p) c) = p\<lparr>p_conns := m\<rparr>"
    using MarkDead_keys[of c p "slice_at (p_keys p) c" j] by simp_all
  have q: "p_conns (MarkDead c p) = ?m" by (simp add: MarkDead_def Let_def)
  have other: "c \<notin> set (slice_at (p_conns p) j)" if "j \<notin> set (slice_at (p_keys p) c)"
    using inv that by (simp add: table_inv_def)
  show "slice_at (p_conns (MarkDead c p)) j = filter (\<lambda>d. d \<noteq> c) (slice_at (p_conns p) j)"
  proof (cases "j \<in> set (slice_at (p_keys p) c)")
    case True
    then show ?thesis by (simp add: q slice_at_def[of _ j] e filterOutClientConn_def split: option.split)
  next
    case False
    have "filter (\<lambda>d. d \<noteq> c) (slice_at (p_conns p) j) = slice_at (p_conns p) j"
      by (rule filter_True) (use other[OF False] in auto)
    moreover have "?m j = p_conns p j" using False by (simp add: e)
    then have "slice_at ?m j = slice_at (p_conns p) j" by (simp add: slice_at_def[of _ j])
    ultimately show ?thesis by (simp add: q)
  qed
  show "p_conns (MarkDead c p) j \<noteq> Some []"
    using inv by (auto simp: q e table_inv_def split: option.split)
  show "\<exists>m. MarkDead c p = p\<lparr>p_conns := m, p_keys := (p_keys p)(c := None)\<rparr>"
    using f by (auto simp: MarkDead_def Let_def)
qed

lemma MarkDead_advances:
  assumes inv: "pool_inv p"
  shows "advances p (MarkDead c p)"
    and "\<And>k. c \<in> set (slice_at (p_conns p) k) \<Longrightarrow> gone (MarkDead c p) c"
proof -
  let ?q = "MarkDead c p"
  have t: "table_inv p" using inv by (simp add: pool_inv_def)
  note s = MarkDead_tables(1,2)[OF t, of c]
  obtain m where q: "?q = p\<lparr>p_conns := m, p_keys := (p_keys p)(c := None)\<rparr>" using MarkDead_tables(3)[OF t] by blast
  have f: "p_dialing ?q = p_dialing p" "p_addConnCalls ?q = p_addConnCalls p" "p_dials ?q = p_dials p" "p_adds ?q = p_adds p"
    "p_newConn ?q = p_newConn p" "p_newCall ?q = p_newCall p" "p_keys ?q = (p_keys p)(c := None)"
    by (simp_all add: q)
  have h: "holds ?q = holds p" by (simp add: holds_def fun_eq_iff f split: sum.split option.split)
  have "table_inv ?q" using t s unfolding table_inv_def f by auto
  moreover have "calls_inv ?q = calls_inv p" by (simp add: calls_inv_def f)
  moreover have "holds_inv ?q" using inv unfolding pool_inv_def holds_inv_def h f s(1) by auto
  ultimately have i: "pool_inv ?q" using inv by (simp add: pool_inv_def)
  then show "advances p ?q" unfolding advances_def gone_def h f s(1) by auto
  show "gone ?q c" if "c \<in> set (slice_at (p_conns p) k)" for k
    using inv that unfolding gone_def h f s(1) pool_inv_def table_inv_def holds_inv_def by auto
qed

definition dial_started :: "nat \<Rightarrow> string \<Rightarrow> clientConnPool \<Rightarrow> clientConnPool" where
  "dial_started ctx addr p =
     p\<lparr>p_dials := (p_dials p)(p_newCall p := \<lparr>dc_ctx = ctx, dc_done = False, dc_res = None, dc_err = None\<rparr>),
       p_dialing := (p_dialing p)(addr \<mapsto> p_newCall p), p_newCall := p_newCall p + 1\<rparr>"

lemma getStartDial_result:
  "getStartDialLocked ctx addr p = (d, q) \<Longrightarrow>
     (p_dialing p addr = Some d \<and> q = p) \<or> (p_dialing p addr = None \<and> d = p_newCall p \<and> q = dial_started ctx addr p)"
  by (auto simp: getStartDialLocked_def dial_started_def Let_def split: option.splits)

lemma reserve_first_result:
  "reserve_first tooIdle cs p = Inr (c, q) \<Longrightarrow>
     (case c of None \<Rightarrow> q = p | Some d \<Rightarrow> d \<in> set cs \<and> q = handed_out d p)"
  by (auto simp: reserve_first_eq find_Some_iff split: option.splits if_splits)

lemma getClientConn_result:
  assumes "getClientConn closeRequest dialOnMiss tooIdle ctx addr p = Inr (a, q)"
  shows "case a of
      GotConn d \<Rightarrow> d \<in> set (slice_at (p_conns p) addr) \<and> q = handed_out d p
    | AwaitDial d \<Rightarrow> (p_dialing p addr = Some d \<and> q = p)
        \<or> (p_dialing p addr = None \<and> d = p_newCall p \<and> q = dial_started ctx addr p)
    | _ \<Rightarrow> q = p"
proof (cases "closeRequest \<and> dialOnMiss")
  case True
  then show ?thesis using assms by (auto simp: getClientConn_def)
next
  case False
  then obtain c r where r: "reserve_first tooIdle (slice_at (p_conns p) addr) p = Inr (c, r)"
    and rest: "(case c of Some c \<Rightarrow> Inr (GotConn c, r)
      | None \<Rightarrow> if \<not> dialOnMiss then Inr (NoConn ErrNoCachedConn, r)
               else case getStartDialLocked ctx addr r of (call, p) \<Rightarrow> Inr (AwaitDial call, p)) = (Inr (a, q) :: (conn_answer \<times> clientConnPool) outcome)"
    using assms by (auto simp: getClientConn_def bind_res_eq_Inr)
  show ?thesis
    using reserve_first_result[OF r] rest getStartDial_result[of ctx addr r]
    by (cases c) (auto split: if_splits prod.splits)
qed

lemma pool_step_advances:
  assumes "pool_step p q" and inv: "pool_inv p"
  shows "advances p q"
  using assms(1)
proof cases
  case (get closeRequest dialOnMiss tooIdle ctx addr a)
  from getClientConn_result[OF this] show ?thesis
    using same_tables_advances[OF inv] start_dial_advances[OF inv, of addr ctx]
    by (auto simp: dial_started_def split: conn_answer.splits)
next
  case (needed tooIdle key a)
  consider (same) "q = p" | (add) "p_addConnCalls p key = None"
    "q = p\<lparr>p_adds := (p_adds p)(p_newCall p := \<lparr>ac_done = False, ac_cc = None, ac_err = None\<rparr>),
           p_addConnCalls := (p_addConnCalls p)(key \<mapsto> p_newCall p), p_newCall := p_newCall p + 1\<rparr>"
    using needed by (auto simp: addConnIfNeeded_def bind_res_eq_Inr Let_def split: option.splits if_splits)
  then show ?thesis by cases (use inv same_tables_advances[OF inv] start_add_advances in auto)
qed (use inv in \<open>auto intro: same_tables_advances woken_same closeIdle_loop_same dial_returned_advances dial_publish_advances
  add_returned_advances add_publish_advances MarkDead_advances simp: closeIdleConnections_def\<close>)

lemma pool_run_advances: "pool_step\<^sup>*\<^sup>* p q \<Longrightarrow> pool_inv p \<Longrightarrow> advances p q"
proof (induction rule: rtranclp_induct)
  case base
  then show ?case by (simp add: advances_def)
next
  case (step q r)
  then have a: "advances p q" and "pool_inv q" by (simp_all add: advances_def)
  from step.hyps(2) this(2) have "advances q r" by (rule pool_step_advances)
  with a show ?case unfolding advances_def by blast
qed

lemma empty_pool_inv: "pool_inv (empty_pool ccs)"
  by (simp add: pool_inv_def calls_inv_def holds_inv_def table_inv_def empty_pool_def holds_def split: sum.split)

lemma reachable_pool_inv: "pool_step\<^sup>*\<^sup>* (empty_pool ccs) p \<Longrightarrow> pool_inv p"
  using pool_run_advances empty_pool_inv by (auto simp: advances_def)

text \<open>Whatever the goroutines of the pool do, its two tables agree: a connection is listed under a key exactly if
  the key is among the connection's keys, no connection is listed twice under a key, no key has an
  empty list, and an address with a dial in flight has one that is not over.\<close>

theorem pool_tables_agree:
  assumes "pool_step\<^sup>*\<^sup>* (empty_pool ccs) p"
  shows "(c \<in> set (slice_at (p_conns p) key) \<longleftrightarrow> key \<in> set (slice_at (p_keys p) c))
    \<and> distinct (slice_at (p_conns p) key) \<and> distinct (slice_at (p_keys p) c) \<and> p_conns p key \<noteq> Some []
    \<and> (\<forall>call. p_dialing p addr = Some call \<longrightarrow> \<not> dc_done (p_dials p call) \<and> (\<forall>addr'. p_dialing p addr' = Some call \<longrightarrow> addr' = addr))"
  using reachable_pool_inv[OF assms] unfolding pool_inv_def table_inv_def calls_inv_def by metis

text \<open>C18: A connection of the pool that was marked dead is not handed out again, whatever happens in between,
  except to a request that was already waiting for the dial which made it.\<close>

theorem dead_connection_not_reused:
  assumes "pool_step\<^sup>*\<^sup>* (empty_pool ccs) p" and "c \<in> set (slice_at (p_conns p) key)"
    and "pool_step\<^sup>*\<^sup>* (MarkDead c p) q"
    and "getClientConn closeRequest dialOnMiss tooIdle ctx addr q = Inr (GotConn d, q')"
  shows "d \<noteq> c"
proof -
  note inv = reachable_pool_inv[OF assms(1)]
  have "gone (MarkDead c p) c" using MarkDead_advances(2)[OF inv assms(2)] .
  then have "gone q c"
    using pool_run_advances[OF assms(3)] MarkDead_advances(1)[OF inv] by (simp add: advances_def)
  moreover have "d \<in> set (slice_at (p_conns q) addr)"
    using getClientConn_result[OF assms(4)] by simp
  ultimately show ?thesis by (auto simp: gone_def)
qed


section \<open>Retries\<close>

lemma backoff_bounds:
  assumes "0 \<le> r" and "r < 1"
  shows "2 ^ k \<le> backoff r (Suc k)" and "backoff r (Suc k) \<le> 11 * 2 ^ k div 10"
proof -
  let ?x = "2 ^ k + 2 ^ k * (r / 10)"
  have b: "backoff r (Suc k) = nat \<lfloor>?x\<rfloor>" by (simp add: backoff_def)
  have "(2::real) ^ k \<le> ?x" using assms by simp
  then have "int (2 ^ k) \<le> \<lfloor>?x\<rfloor>" by (simp add: le_floor_iff)
  then show "2 ^ k \<le> backoff r (Suc k)" unfolding b by (simp add: le_nat_iff)
  have "r / 10 < 1 / 10" using assms by simp
  then have "(2::real) ^ k * (r / 10) < 2 ^ k * (1 / 10)" by (rule mult_strict_left_mono) simp
  then have lt: "?x < real (11 * 2 ^ k) / real 10" by simp
  have "\<lfloor>?x\<rfloor> \<le> \<lfloor>real (11 * 2 ^ k) / real 10\<rfloor>" using lt by (intro floor_mono) simp
  also have "\<dots> = int (11 * 2 ^ k div 10)" by (rule floor_divide_of_nat_eq)
  finally show "backoff r (Suc k) \<le> 11 * 2 ^ k div 10" unfolding b by (simp add: nat_le_iff)
qed

text \<open>The longest wait after attempt \<open>i\<close>.\<close>

definition longest_wait :: "nat \<Rightarrow> nat" where
  "longest_wait i = (if i = 0 then 0 else 11 * 2 ^ (i - 1) div 10)"

lemma round_end_RetryAfter:
  assumes "round_end hasBody hasGetBody wrap retry a = RetryAfter s again"
  shows "\<exists>e. at_result a = Some e \<and> canRetryError e \<and> (hasBody \<and> \<not> hasGetBody \<longrightarrow> e = errClientConnUnusable)"
    and "again \<longleftrightarrow> hasBody \<and> hasGetBody" and "s = (if retry = 0 then 0 else backoff (at_random a) retry)"
  using assms by (auto simp: round_end_def shouldRetryRequest_def split: option.splits if_splits)

definition trace_ok :: "bool \<Rightarrow> bool \<Rightarrow> (nat \<Rightarrow> rt_attempt) \<Rightarrow> nat \<Rightarrow> bool \<Rightarrow> rt_trace \<Rightarrow> bool" where
  "trace_ok hasBody hasGetBody as retry rewound t \<longleftrightarrow>
     length (tr_sends t) \<le> 8 - retry \<and> sum_list (tr_waits t) \<le> sum_list (map longest_wait [retry..<7])
     \<and> (\<forall>i. Suc i < length (tr_sends t) \<longrightarrow> (\<exists>e. at_result (as (retry + i)) = Some e \<and> canRetryError e
           \<and> (hasBody \<and> \<not> hasGetBody \<longrightarrow> e = errClientConnUnusable)))
     \<and> (\<forall>i < length (tr_sends t). at_conn (as (retry + i)) = Inr (fst (tr_sends t ! i))
           \<and> snd (tr_sends t ! i) = (rewound \<or> hasBody \<and> hasGetBody \<and> i > 0))"

lemma RoundTripOpt_loop_ok:
  assumes "\<And>i. 0 \<le> at_random (as i) \<and> at_random (as i) < 1" and "retry \<le> 7"
  shows "trace_ok hasBody hasGetBody as retry rewound (RoundTripOpt_loop hasBody hasGetBody wrap as retry rewound)"
  using assms
proof (induction hasBody hasGetBody wrap as retry rewound rule: RoundTripOpt_loop.induct)
  case (1 hasBody hasGetBody wrap as retry rewound)
  note step = RoundTripOpt_loop.simps[of hasBody hasGetBody wrap as retry rewound]
  show ?case
  proof (cases "at_conn (as retry)")
    case (Inl e)
    then show ?thesis by (simp add: step trace_ok_def)
  next
    case (Inr c)
    show ?thesis
    proof (cases "round_end hasBody hasGetBody wrap retry (as retry)")
      case (Return e)
      then show ?thesis using Inr 1(3) by (simp add: step trace_ok_def)
    next
      case (RetryAfter s again)
      let ?t = "RoundTripOpt_loop hasBody hasGetBody wrap as (retry + 1) (rewound \<or> again)"
      have le: "retry \<le> 6" using round_end_retry[OF RetryAfter] .
      note r = round_end_RetryAfter[OF RetryAfter]
      have IH: "trace_ok hasBody hasGetBody as (retry + 1) (rewound \<or> again) ?t"
        by (rule 1(1)[OF Inr RetryAfter]) (use 1(2) le in simp_all)
      have t: "RoundTripOpt_loop hasBody hasGetBody wrap as retry rewound =
          ?t\<lparr>tr_sends := (c, rewound) # tr_sends ?t, tr_waits := s # tr_waits ?t\<rparr>"
        by (simp add: step Inr RetryAfter Let_def)
      have "s \<le> longest_wait retry"
        using r(3) backoff_bounds(2)[of "at_random (as retry)" "retry - 1"] 1(2)[of retry]
        by (cases retry) (auto simp: longest_wait_def)
      moreover have "[retry..<7] = retry # [retry + 1..<7]" using le by (simp add: upt_conv_Cons)
      ultimately have w: "sum_list (s # tr_waits ?t) \<le> sum_list (map longest_wait [retry..<7])"
        using IH by (simp add: trace_ok_def)
      have one: "\<exists>e. at_result (as (retry + i)) = Some e \<and> canRetryError e \<and> (hasBody \<and> \<not> hasGetBody \<longrightarrow> e = errClientConnUnusable)"
        if "i < length (tr_sends ?t)" for i
        using IH r(1) that by (cases i) (auto simp: trace_ok_def)
      have two: "at_conn (as (retry + i)) = Inr (fst (((c, rewound) # tr_sends ?t) ! i))
           \<and> snd (((c, rewound) # tr_sends ?t) ! i) = (rewound \<or> hasBody \<and> hasGetBody \<and> i > 0)"
        if "i < Suc (length (tr_sends ?t))" for i
        using IH r(2) Inr that by (cases i) (auto simp: trace_ok_def)
      have "length (tr_sends ?t) \<le> 8 - (retry + 1)" using IH by (simp add: trace_ok_def)
      then have len: "Suc (length (tr_sends ?t)) \<le> 8 - retry" using le by arith
      show ?thesis
        unfolding t trace_ok_def rt_trace.simps by (intro conjI allI impI) (use len w one two in simp_all)
    qed
  qed
qed

text \<open>C20: A request is sent at most eight times and waits for at most 67 seconds between them. It is sent again
  only after an error that allows it, and with a body either from \<open>GetBody\<close> or, without \<open>GetBody\<close>,
  only if the connection had refused it before any of the body was read.\<close>

theorem RoundTripOpt_bounded:
  assumes "\<And>i. 0 \<le> at_random (as i) \<and> at_random (as i) < 1"
  shows "length (tr_sends (RoundTripOpt allowHTTP scheme hasBody hasGetBody wrap as)) \<le> 8
    \<and> sum_list (tr_waits (RoundTripOpt allowHTTP scheme hasBody hasGetBody wrap as)) \<le> 67
    \<and> (\<forall>i. Suc i < length (tr_sends (RoundTripOpt allowHTTP scheme hasBody hasGetBody wrap as)) \<longrightarrow>
        (\<exists>e. at_result (as i) = Some e \<and> canRetryError e \<and> (hasBody \<and> \<not> hasGetBody \<longrightarrow> e = errClientConnUnusable)))
    \<and> (\<forall>i < length (tr_sends (RoundTripOpt allowHTTP scheme hasBody hasGetBody wrap as)).
        snd (tr_sends (RoundTripOpt allowHTTP scheme hasBody hasGetBody wrap as) ! i) \<longleftrightarrow> hasBody \<and> hasGetBody \<and> i > 0)"
proof (cases "scheme_error allowHTTP scheme")
  case None
  have w: "sum_list (map longest_wait [0..<7]) = 67" by (simp add: longest_wait_def upt_rec)
  show ?thesis
    using RoundTripOpt_loop_ok[of as 0 hasBody hasGetBody False wrap] assms w by (simp add: RoundTripOpt_def None trace_ok_def)
qed (simp add: RoundTripOpt_def)

text \<open>The waits are whole seconds: the jitter that the code adds has no effect on the first four of them.\<close>

lemma backoff_no_jitter:
  assumes "0 \<le> r" and "r < 1" and "0 < retry" and "retry \<le> 4"
  shows "backoff r retry = 2 ^ (retry - 1)"
proof -
  define k where "k = retry - 1"
  have k: "retry = Suc k" "k \<in> {0, 1, 2, 3}" using assms(3,4) by (auto simp: k_def)
  have "11 * 2 ^ k div 10 = (2 ^ k :: nat)" using k(2) by auto
  then show ?thesis using backoff_bounds[OF assms(1,2), of k] by (simp add: k(1))
qed

section \<open>Examples\<close>

text \<open>The pool of one address after its first dial, and after that connection died and was replaced.\<close>

abbreviation (input) demo_addr :: string where "demo_addr \<equiv> ''example.com:443''"

definition demo_pool :: "ClientConn \<Rightarrow> clientConnPool" where
  "demo_pool cc = dial_publish demo_addr 0 (dial_returned (Inr cc) 0 (dial_started 0 demo_addr (empty_pool (\<lambda>_. cc))))"

definition demo_pool2 :: "ClientConn \<Rightarrow> clientConnPool" where
  "demo_pool2 cc = dial_publish demo_addr 1 (dial_returned (Inr cc) 1 (dial_started 0 demo_addr (MarkDead 0 (demo_pool cc))))"

lemma no_conns_start:
  assumes "slice_at (p_conns p) addr = []" and "p_dialing p addr = None"
  shows "getClientConn False True tooIdle ctx addr p = Inr (AwaitDial (p_newCall p), dial_started ctx addr p)"
  using assms by (simp add: getClientConn_def getStartDialLocked_def dial_started_def Let_def)

text \<open>A dial from its start to its end.\<close>

lemma dial_run:
  assumes "slice_at (p_conns p) addr = []" and "p_dialing p addr = None"
  shows "pool_step\<^sup>*\<^sup>* (dial_started ctx addr p) (dial_publish addr (p_newCall p) (dial_returned (Inr cc) (p_newCall p) (dial_started ctx addr p)))"
    and "pool_step p (dial_started ctx addr p)"
proof -
  let ?p1 = "dial_started ctx addr p" and ?p2 = "dial_returned (Inr cc) (p_newCall p) (dial_started ctx addr p)"
  have "pool_step ?p1 ?p2" by (rule pool_step.dialled[of _ addr]) (simp_all add: dial_started_def)
  moreover have "pool_step ?p2 (dial_publish addr (p_newCall p) ?p2)"
    by (rule pool_step.published) (simp_all add: dial_started_def dial_returned_def Let_def)
  ultimately show "pool_step\<^sup>*\<^sup>* ?p1 (dial_publish addr (p_newCall p) ?p2)"
    by (rule rtranclp.rtrancl_into_rtrancl[OF r_into_rtranclp])
  show "pool_step p ?p1" by (rule pool_step.get[OF no_conns_start[OF assms]])
qed

lemma demo_pool_tables:
  "p_conns (demo_pool cc) = [demo_addr \<mapsto> [0]]" "p_keys (demo_pool cc) = [0 \<mapsto> [demo_addr]]" "p_dialing (demo_pool cc) = Map.empty"
  "p_newCall (demo_pool cc) = 1" "p_newConn (demo_pool cc) = 1" "p_cc (demo_pool cc) = (\<lambda>_. cc)"
  by (simp_all add: demo_pool_def dial_publish_def dial_returned_def dial_started_def empty_pool_def addConnLocked_def Let_def fun_eq_iff)

lemma demo_pool_dead:
  "p_conns (MarkDead 0 (demo_pool cc)) = Map.empty" "p_keys (MarkDead 0 (demo_pool cc)) = Map.empty" "p_dialing (MarkDead 0 (demo_pool cc)) = Map.empty"
  "p_newCall (MarkDead 0 (demo_pool cc)) = 1" "p_newConn (MarkDead 0 (demo_pool cc)) = 1" "p_cc (MarkDead 0 (demo_pool cc)) = (\<lambda>_. cc)"
  by (simp_all add: MarkDead_def MarkDead_key_def filterOutClientConn_def demo_pool_tables slice_at_def Let_def fun_eq_iff)

lemma demo_pool2_tables:
  "p_conns (demo_pool2 cc) = [demo_addr \<mapsto> [1]]" "p_cc (demo_pool2 cc) = (\<lambda>_. cc)"
  by (simp_all add: demo_pool2_def dial_publish_def dial_returned_def dial_started_def addConnLocked_def Let_def fun_eq_iff demo_pool_dead slice_at_def)

lemma demo_pool_reach: "pool_step\<^sup>*\<^sup>* (empty_pool (\<lambda>_. cc)) (demo_pool cc)"
proof -
  let ?p = "empty_pool (\<lambda>_. cc)"
  have e: "slice_at (p_conns ?p) demo_addr = []" "p_dialing ?p demo_addr = None" "p_newCall ?p = 0" by (simp_all add: empty_pool_def)
  show ?thesis
    using converse_rtranclp_into_rtranclp[OF dial_run(2)[OF e(1,2), of 0] dial_run(1)[OF e(1,2), of 0 cc]] unfolding e(3) demo_pool_def .
qed

lemma demo_pool2_reach: "pool_step\<^sup>*\<^sup>* (MarkDead 0 (demo_pool cc)) (demo_pool2 cc)"
proof -
  let ?p = "MarkDead 0 (demo_pool cc)"
  have e: "slice_at (p_conns ?p) demo_addr = []" "p_dialing ?p demo_addr = None" "p_newCall ?p = 1" by (simp_all add: demo_pool_dead)
  show ?thesis
    using converse_rtranclp_into_rtranclp[OF dial_run(2)[OF e(1,2), of 0] dial_run(1)[OF e(1,2), of 0 cc]] unfolding e(3) demo_pool2_def .
qed

lemma pool_tables_agree_witness:
  "\<exists>cc cc1. demo_open cc cc1 \<and> pool_step\<^sup>*\<^sup>* (empty_pool (\<lambda>_. cc)) (demo_pool cc)
    \<and> slice_at (p_conns (demo_pool cc)) demo_addr = [0] \<and> demo_addr \<in> set (slice_at (p_keys (demo_pool cc)) 0)
    \<and> distinct (slice_at (p_keys (demo_pool cc)) 0)"
proof -
  obtain cc cc1 where cc: "demo_open cc cc1" using demo_open_exists by blast
  show ?thesis
    using pool_tables_agree[OF demo_pool_reach, of 0 cc demo_addr demo_addr] cc demo_pool_reach[of cc] demo_pool_tables(1)[of cc]
    by (intro exI[of _ cc] exI[of _ cc1]) simp
qed

lemma demo_get:
  assumes "demo_open cc cc1"
  shows "getClientConn False True (\<lambda>_. False) 0 demo_addr (demo_pool2 cc) = Inr (GotConn 1, handed_out 1 (demo_pool2 cc))"
proof -
  note f = fresh_conn[OF assms[unfolded demo_open_def, THEN conjunct1]]
  have "\<not> cc_mu cc" "idleStateLocked False cc"
    by (simp_all add: f idleStateLocked_def isUsableLocked_def currentRequestCountLocked_def)
  then show ?thesis
    by (simp add: getClientConn_def reserve_first_eq demo_pool2_tables)
qed

lemma dead_connection_not_reused_witness:
  "\<exists>cc cc1 q'. demo_open cc cc1 \<and> 0 \<in> set (slice_at (p_conns (demo_pool cc)) demo_addr)
    \<and> getClientConn False True (\<lambda>_. False) 0 demo_addr (demo_pool2 cc) = Inr (GotConn 1, q') \<and> (1 :: conn_id) \<noteq> 0"
proof -
  obtain cc cc1 where cc: "demo_open cc cc1" using demo_open_exists by blast
  have m: "0 \<in> set (slice_at (p_conns (demo_pool cc)) demo_addr)" by (simp add: demo_pool_tables)
  show ?thesis
    using dead_connection_not_reused[OF demo_pool_reach m demo_pool2_reach demo_get[OF cc]] cc m demo_get[OF cc] by blast
qed


text \<open>A request that is refused twice.\<close>

definition demo_attempts :: "nat \<Rightarrow> rt_attempt" where
  "demo_attempts i = \<lparr>at_conn = Inr i, at_result = (if i < 2 then Some errClientConnUnusable else None), at_getBody = None,
     at_random = 1 / 2, at_ctxErr = None\<rparr>"

lemma RoundTripOpt_bounded_witness:
  "length (tr_sends (RoundTripOpt False ''https'' True False id demo_attempts)) \<le> 8
   \<and> sum_list (tr_waits (RoundTripOpt False ''https'' True False id demo_attempts)) \<le> 67
   \<and> tr_sends (RoundTripOpt False ''https'' True False id demo_attempts) = [(0, False), (1, False), (2, False)]"
proof -
  have s: "tr_sends (RoundTripOpt False ''https'' True False id demo_attempts) = [(0, False), (1, False), (2, False)]"
    by (simp add: RoundTripOpt_def scheme_error_def RoundTripOpt_loop.simps[of _ _ _ _ 0] RoundTripOpt_loop.simps[of _ _ _ _ "Suc 0"]
        RoundTripOpt_loop.simps[of _ _ _ _ "Suc (Suc 0)"] demo_attempts_def round_end_def shouldRetryRequest_def canRetryError_def Let_def)
  show ?thesis
    using RoundTripOpt_bounded[of demo_attempts False "''https''" True False id] s by (simp add: demo_attempts_def)
qed

end
